(* ===== verification/Prelude.thy ===== *)
theory Prelude
  imports Main "HOL-Library.Word"
begin

text \<open>
  Shared vocabulary of the development: the names of the model's basic types, Go's error
  values with \<open>errors.Is\<close>, the shape of a database transaction, and the lemmas on
  tables (lists of rows) that every repository proof uses.

  A Go string and a Go byte slice are both a list of bytes, so both are \<open>string\<close>. A
  \<open>uuid.UUID\<close> is a 16 byte array, read here as an unsigned 128 bit word, whose order is
  PostgreSQL's order on UUID columns. A \<open>time.Time\<close> is the number of nanoseconds since
  Go's zero time, so \<open>IsZero\<close> is equality with 0.
\<close>

named_theorems table_simps \<open>rewriting of table updates and lookups\<close>

type_synonym uuid = "128 word"
type_synonym bytes = string
type_synonym time = int
type_synonym duration = int

abbreviation uuid_nil :: uuid where "uuid_nil \<equiv> 0"

abbreviation (input) seconds :: "int \<Rightarrow> duration" where "seconds n \<equiv> n * 1000000000"
abbreviation (input) milliseconds :: "int \<Rightarrow> duration" where "milliseconds n \<equiv> n * 1000000"

text \<open>A timestamp column keeps microseconds; the driver drops the nanoseconds below.\<close>

definition pg_time :: "time \<Rightarrow> time" where
  "pg_time t = t div 1000 * 1000"

lemma pg_time_le: "pg_time t \<le> t"
proof -
  have "t div 1000 * 1000 + t mod 1000 = t" by (rule div_mult_mod_eq)
  moreover have "0 \<le> t mod 1000" by simp
  ultimately show ?thesis unfolding pg_time_def by linarith
qed

lemma pg_time_gt: "t < pg_time t + 1000"
proof -
  have "t div 1000 * 1000 + t mod 1000 = t" by (rule div_mult_mod_eq)
  moreover have "t mod 1000 < 1000" by simp
  ultimately show ?thesis unfolding pg_time_def by linarith
qed

lemma pg_time_mono: "s \<le> t \<Longrightarrow> pg_time s \<le> pg_time t"
  by (simp add: pg_time_def zdiv_mono1)

section \<open>Errors\<close>

text \<open>
  The sentinel errors of the services (prefixed with the service that declares them), PostgreSQL errors with their SQLSTATE, any other
  error with its text, and \<open>fmt.Errorf\<close> with one \<open>%w\<close>: the text before it, the wrapped
  error and the text after it.
\<close>

datatype error =
    Delivery_ErrNotFound
  | Endpoint_ErrNotFound
  | Endpoint_ErrConflict
  | Endpoint_ErrInvalid
  | Auth_ErrNotFound
  | Auth_ErrConflict
  | Event_ErrInvalidRequest
  | NoRows
  | PgError string string
  | Msg string
  | Wrap string error string

type_synonym 'a result = "error + 'a"

abbreviation wrap :: "string \<Rightarrow> error \<Rightarrow> error" where
  "wrap pre e \<equiv> Wrap pre e []"

text \<open>\<open>errors.Is\<close>: the error itself or one it wraps.\<close>

fun errors_is :: "error \<Rightarrow> error \<Rightarrow> bool" where
  "errors_is (Wrap pre e post) target = (Wrap pre e post = target \<or> errors_is e target)"
| "errors_is e target = (e = target)"

text \<open>\<open>err.Error()\<close>.\<close>

fun error_text :: "error \<Rightarrow> string" where
  "error_text Delivery_ErrNotFound = ''delivery not found''"
| "error_text Endpoint_ErrNotFound = ''endpoint not found''"
| "error_text Endpoint_ErrConflict = ''endpoint conflict''"
| "error_text Endpoint_ErrInvalid = ''invalid endpoint request''"
| "error_text Auth_ErrNotFound = ''not found''"
| "error_text Auth_ErrConflict = ''conflict''"
| "error_text Event_ErrInvalidRequest = ''invalid event request''"
| "error_text NoRows = ''no rows in result set''"
| "error_text (PgError code msg) = ''ERROR: '' @ msg @ '' (SQLSTATE '' @ code @ '')''"
| "error_text (Msg m) = m"
| "error_text (Wrap pre e post) = pre @ error_text e @ post"

definition pg_unique :: "string \<Rightarrow> error" where
  "pg_unique ix = PgError ''23505'' (''duplicate key value violates unique constraint '' @ ix)"

definition pg_not_null :: "string \<Rightarrow> error" where
  "pg_not_null col = PgError ''23502'' (''null value violates not-null constraint of '' @ col)"

definition pg_foreign_key :: "string \<Rightarrow> error" where
  "pg_foreign_key fk = PgError ''23503'' (''insert or update violates foreign key constraint '' @ fk)"

section \<open>Calls that may fail, and transactions\<close>

text \<open>
  Every call the code makes to the database driver may fail for reasons outside the code (a
  lost connection, a cancelled context, a statement the server rejects). Each operation of
  the model takes a function from its call sites to such a failure: \<open>None\<close> lets the call
  run, \<open>Some e\<close> makes it return the error \<open>e\<close>.
\<close>

type_synonym 'c faults = "'c \<Rightarrow> error option"

definition no_faults :: "'c faults" where
  "no_faults = (\<lambda>_. None)"

lemma no_faults_apply [simp]: "no_faults c = None"
  by (simp add: no_faults_def)

definition guard :: "error option \<Rightarrow> 'a result \<Rightarrow> 'a result" where
  "guard f k = (case f of Some e \<Rightarrow> Inl e | None \<Rightarrow> k)"

lemma guard_simps [simp]:
  "guard None k = k"
  "guard (Some e) k = Inl e"
  by (simp_all add: guard_def)

lemma guard_Inr: "guard f k = Inr x \<longleftrightarrow> f = None \<and> k = Inr x"
  by (cases f) auto

text \<open>
  \<open>Begin\<close>, a body, \<open>defer tx.Rollback\<close> and \<open>Commit\<close>: the new state is kept only when the
  body and the commit both succeed.
\<close>

definition run_tx ::
    "error option \<Rightarrow> error option \<Rightarrow> ('s \<Rightarrow> ('a \<times> 's) result) \<Rightarrow> 's \<Rightarrow> 'a result \<times> 's" where
  "run_tx begin_err commit_err body s =
     (case begin_err of
        Some e \<Rightarrow> (Inl e, s)
      | None \<Rightarrow>
          (case body s of
             Inl e \<Rightarrow> (Inl e, s)
           | Inr (a, s') \<Rightarrow>
               (case commit_err of
                  Some e \<Rightarrow> (Inl e, s)
                | None \<Rightarrow> (Inr a, s'))))"

lemma run_tx_atomic: "run_tx b c body s = (Inl e, s') \<Longrightarrow> s' = s"
  by (auto simp: run_tx_def split: option.splits sum.splits)

lemma run_tx_commit:
  "run_tx b c body s = (Inr a, s') \<longleftrightarrow> b = None \<and> c = None \<and> body s = Inr (a, s')"
  by (auto simp: run_tx_def split: option.splits sum.splits)

lemma run_tx_body_error:
  "body s = Inl e \<Longrightarrow> \<exists>e'. run_tx b c body s = (Inl e', s)"
  by (cases b) (auto simp: run_tx_def)

lemma run_tx_no_fault:
  "run_tx None None body s =
     (case body s of Inl e \<Rightarrow> (Inl e, s) | Inr (a, s') \<Rightarrow> (Inr a, s'))"
  by (simp add: run_tx_def split: sum.split)

lemma snd_run_tx_cases:
  "snd (run_tx b c body s) = s \<or> (\<exists>a s'. body s = Inr (a, s') \<and> snd (run_tx b c body s) = s')"
  by (auto simp: run_tx_def split: option.splits sum.splits)

text \<open>A property that the body keeps is kept by the whole transaction.\<close>

lemma run_tx_preserves:
  assumes "P s" and "\<And>a s'. body s = Inr (a, s') \<Longrightarrow> P s'"
  shows "P (snd (run_tx b c body s))"
  using snd_run_tx_cases [of b c body s] assms by auto

section \<open>Tables\<close>

text \<open>\<open>UPDATE \<dots> SET f WHERE P\<close>, and the lookup of a row by its key.\<close>

definition orelse :: "'a option \<Rightarrow> 'a \<Rightarrow> 'a" where
  "orelse x d = (case x of None \<Rightarrow> d | Some y \<Rightarrow> y)"

definition update_where :: "('r \<Rightarrow> bool) \<Rightarrow> ('r \<Rightarrow> 'r) \<Rightarrow> 'r list \<Rightarrow> 'r list" where
  "update_where P f rs = map (\<lambda>r. if P r then f r else r) rs"

definition find_row :: "('r \<Rightarrow> 'k) \<Rightarrow> 'k \<Rightarrow> 'r list \<Rightarrow> 'r option" where
  "find_row key k rs = List.find (\<lambda>r. key r = k) rs"

lemma update_where_simps [simp]:
  "update_where P f [] = []"
  "update_where P f (r # rs) = (if P r then f r else r) # update_where P f rs"
  by (simp_all add: update_where_def)

lemma length_update_where [simp]: "length (update_where P f rs) = length rs"
  by (simp add: update_where_def)

lemma set_update_where: "set (update_where P f rs) = (\<lambda>r. if P r then f r else r) ` set rs"
  by (simp add: update_where_def)

lemma map_update_where [table_simps]:
  assumes "\<And>r. P r \<Longrightarrow> g (f r) = g r"
  shows "map g (update_where P f rs) = map g rs"
  using assms by (induction rs) auto

lemma update_where_none: "(\<And>r. r \<in> set rs \<Longrightarrow> \<not> P r) \<Longrightarrow> update_where P f rs = rs"
  by (induction rs) auto

lemma update_where_append [simp]:
  "update_where P f (xs @ ys) = update_where P f xs @ update_where P f ys"
  by (simp add: update_where_def)

lemma find_SomeD: "List.find P xs = Some x \<Longrightarrow> x \<in> set xs \<and> P x"
  by (auto simp: find_Some_iff)

lemma find_row_Some_iff:
  assumes "distinct (map key rs)"
  shows "find_row key k rs = Some r \<longleftrightarrow> r \<in> set rs \<and> key r = k"
  using assms by (induction rs) (auto simp: find_row_def)

lemma find_row_SomeD: "find_row key k rs = Some r \<Longrightarrow> r \<in> set rs \<and> key r = k"
  by (induction rs) (auto simp: find_row_def split: if_splits)

lemma find_row_None_iff: "find_row key k rs = None \<longleftrightarrow> k \<notin> key ` set rs"
  by (induction rs) (auto simp: find_row_def)

lemma find_row_append:
  "find_row key k (xs @ ys) =
     (case find_row key k xs of None \<Rightarrow> find_row key k ys | Some r \<Rightarrow> Some r)"
  by (induction xs) (auto simp: find_row_def)

lemma find_row_update_where [table_simps]:
  assumes "\<And>r. key (f r) = key r"
  shows "find_row key k (update_where P f rs) =
           map_option (\<lambda>r. if P r then f r else r) (find_row key k rs)"
  using assms by (induction rs) (auto simp: find_row_def)

lemma find_row_ex: "k \<in> key ` set rs \<Longrightarrow> \<exists>r. find_row key k rs = Some r"
  using find_row_None_iff [of key k rs] by (cases "find_row key k rs") auto

lemma distinct_keys_eq:
  assumes "distinct (map key rs)" and "r \<in> set rs" and "r' \<in> set rs" and "key r = key r'"
  shows "r = r'"
  using assms by (metis distinct_map inj_onD)

lemma set_take_mem: "x \<in> set (take n xs) \<Longrightarrow> x \<in> set xs"
  by (rule in_set_takeD)

end
