(* ===== verification/GoStrings.thy ===== *)
theory GoStrings
  imports Prelude "HOL-Library.Char_ord"
begin

text \<open>
  The parts of Go's \<open>strings\<close>, \<open>strconv\<close> and \<open>encoding/hex\<close> packages that the services
  use, on byte strings: \<open>TrimSpace\<close>, \<open>TrimPrefix\<close>, \<open>HasPrefix\<close>, \<open>ToUpper\<close> as far as a
  comparison with an ASCII word can see it, \<open>Split\<close> on one byte, \<open>Atoi\<close> and \<open>FormatInt\<close>,
  hexadecimal encoding, and the check of UTF-8 that a PostgreSQL text column makes.
\<close>

named_theorems string_simps \<open>rewriting of the string library\<close>

section \<open>Prefixes and white space\<close>

definition has_prefix :: "string \<Rightarrow> string \<Rightarrow> bool" where
  "has_prefix s p \<longleftrightarrow> take (length p) s = p"

definition trim_prefix :: "string \<Rightarrow> string \<Rightarrow> string" where
  "trim_prefix s p = (if has_prefix s p then drop (length p) s else s)"

lemma has_prefix_append [simp]: "has_prefix (p @ s) p"
  by (simp add: has_prefix_def)

lemma trim_prefix_append [simp]: "trim_prefix (p @ s) p = s"
  by (simp add: trim_prefix_def)

lemma has_prefix_ex: "has_prefix s p \<longleftrightarrow> (\<exists>t. s = p @ t)"
  unfolding has_prefix_def by (metis append_eq_conv_conj)

text \<open>The UTF-8 encodings of the characters that \<open>unicode.IsSpace\<close> accepts.\<close>

definition space_encodings :: "string list" where
  "space_encodings = map (map char_of)
     ([[9], [10], [11], [12], [13], [32], [194, 133], [194, 160], [225, 154, 128],
       [226, 128, 128], [226, 128, 129], [226, 128, 130], [226, 128, 131], [226, 128, 132],
       [226, 128, 133], [226, 128, 134], [226, 128, 135], [226, 128, 136], [226, 128, 137],
       [226, 128, 138], [226, 128, 168], [226, 128, 169], [226, 128, 175], [226, 129, 159],
       [227, 128, 128]] :: nat list list)"

text \<open>Drop leading encodings as long as one matches.\<close>

function strip :: "string list \<Rightarrow> string \<Rightarrow> string" where
  "strip es s =
     (case List.find (\<lambda>e. e \<noteq> [] \<and> has_prefix s e) es of
        None \<Rightarrow> s
      | Some e \<Rightarrow> strip es (drop (length e) s))"
  by pat_completeness auto
termination
proof (relation "measure (\<lambda>(es, s). length s)", simp)
  fix es :: "string list" and s e
  assume "List.find (\<lambda>e. e \<noteq> [] \<and> has_prefix s e) es = Some e"
  then have "e \<noteq> []" and "has_prefix s e" by (auto simp: find_Some_iff)
  then have "s \<noteq> []" by (auto simp: has_prefix_def)
  then show "((es, drop (length e) s), es, s) \<in> measure (\<lambda>(es, s). length s)"
    using \<open>e \<noteq> []\<close> by (cases s; cases e) auto
qed

declare strip.simps [simp del]

definition trim_space :: "string \<Rightarrow> string" where
  "trim_space s = rev (strip (map rev space_encodings) (rev (strip space_encodings s)))"

lemma strip_suffix: "\<exists>p. s = p @ strip es s"
proof (induction es s rule: strip.induct)
  case (1 es s)
  show ?case
  proof (cases "List.find (\<lambda>e. e \<noteq> [] \<and> has_prefix s e) es")
    case None
    then show ?thesis by (simp add: strip.simps [of es s])
  next
    case (Some e)
    from "1.IH" [OF Some] obtain p where p: "drop (length e) s = p @ strip es (drop (length e) s)"
      by blast
    have "s = (take (length e) s @ p) @ strip es (drop (length e) s)"
      using p by (metis append_assoc append_take_drop_id)
    moreover have "strip es s = strip es (drop (length e) s)"
      using Some by (simp add: strip.simps [of es s])
    ultimately show ?thesis by (metis append_assoc)
  qed
qed

lemma strip_no_prefix: "e \<in> set es \<Longrightarrow> e \<noteq> [] \<Longrightarrow> \<not> has_prefix (strip es s) e"
proof (induction es s rule: strip.induct)
  case (1 es s)
  show ?case
  proof (cases "List.find (\<lambda>e. e \<noteq> [] \<and> has_prefix s e) es")
    case None
    then have "strip es s = s" by (simp add: strip.simps [of es s])
    with None "1.prems" show ?thesis by (auto simp: find_None_iff)
  next
    case (Some e')
    with "1.IH" [OF Some] "1.prems" show ?thesis by (simp add: strip.simps [of es s])
  qed
qed

lemma strip_fixed: "(\<And>e. e \<in> set es \<Longrightarrow> e \<noteq> [] \<Longrightarrow> \<not> has_prefix s e) \<Longrightarrow> strip es s = s"
  by (subst strip.simps) (auto split: option.splits simp: find_Some_iff)

lemma strip_idem: "strip es (strip es s) = strip es s"
  by (rule strip_fixed) (rule strip_no_prefix)

lemma strip_prefix_closed:
  assumes "strip es s = s" and "s = u @ v"
  shows "strip es u = u"
proof (rule strip_fixed)
  fix e assume "e \<in> set es" "e \<noteq> []"
  then have "\<not> has_prefix s e" using strip_no_prefix [of e es s] assms(1) by simp
  then show "\<not> has_prefix u e" using assms(2) by (auto simp: has_prefix_ex)
qed

text \<open>Trimming twice is trimming once, and a trimmed string is no longer than the input.\<close>

lemma trim_space_idem [string_simps]: "trim_space (trim_space s) = trim_space s"
proof -
  let ?l = "strip space_encodings s"
  let ?r = "strip (map rev space_encodings) (rev ?l)"
  obtain p where "rev ?l = p @ ?r" using strip_suffix by blast
  then have "?l = rev ?r @ rev p" by (metis rev_append rev_rev_ident)
  then have "strip space_encodings (rev ?r) = rev ?r"
    by (rule strip_prefix_closed [OF strip_idem])
  then show ?thesis by (simp add: trim_space_def strip_idem)
qed

text \<open>The ASCII spaces are the only encodings of one byte, so any other byte is not trimmed.\<close>

lemma short_space:
  assumes "list_all (\<lambda>e. 1 < length e \<or> hd e \<noteq> c) es"
  shows "strip es [c] = [c]"
  by (rule strip_fixed) (use assms in \<open>fastforce simp: list_all_iff has_prefix_def take_Cons split: nat.splits\<close>)

lemma long_encodings:
  "list_all (\<lambda>e. 1 < length e \<or> e \<in> set [[CHR 0x09], [CHR 0x0A], [CHR 0x0B], [CHR 0x0C], [CHR 0x0D], '' ''])
     space_encodings"
  by (simp add: space_encodings_def char_of_def bit_0)

lemma trim_space_char:
  assumes "c \<notin> set [CHR 0x09, CHR 0x0A, CHR 0x0B, CHR 0x0C, CHR 0x0D, CHR '' '']"
  shows "trim_space [c] = [c]"
proof -
  have "list_all (\<lambda>e. 1 < length e \<or> hd e \<noteq> c) space_encodings"
    and "list_all (\<lambda>e. 1 < length e \<or> hd e \<noteq> c) (map rev space_encodings)"
    using long_encodings assms by (auto simp: list_all_iff)
  then show ?thesis by (simp add: trim_space_def short_space)
qed

lemma length_strip: "length (strip es s) \<le> length s"
  using strip_suffix [of s es] by (metis length_append le_add2)

lemma length_trim_space: "length (trim_space s) \<le> length s"
  unfolding trim_space_def
  using length_strip [of space_encodings s]
    length_strip [of "map rev space_encodings" "rev (strip space_encodings s)"]
  by simp

section \<open>Upper case\<close>

text \<open>
  \<open>strings.ToUpper\<close> maps the ASCII letters, and two letters outside ASCII (the dotless i and
  the long s) to ASCII letters; every other character stays outside ASCII. Leaving those as
  they are, as here, gives the same answer to every comparison with an ASCII word, which is
  all the code does with the result.
\<close>

fun to_upper :: "string \<Rightarrow> string" where
  "to_upper (c # d # cs) =
     (if of_char c = (196::nat) \<and> of_char d = (177::nat) then CHR ''I'' # to_upper cs
      else if of_char c = (197::nat) \<and> of_char d = (191::nat) then CHR ''S'' # to_upper cs
      else (if CHR ''a'' \<le> c \<and> c \<le> CHR ''z'' then char_of (of_char c - (32::nat)) else c)
             # to_upper (d # cs))"
| "to_upper [c] =
     [if CHR ''a'' \<le> c \<and> c \<le> CHR ''z'' then char_of (of_char c - (32::nat)) else c]"
| "to_upper [] = []"

section \<open>Lower case and containment\<close>

text \<open>
  \<open>strings.ToLower\<close> with the two letters outside ASCII that it maps to ASCII letters (the dotted
  capital I and the Kelvin sign), again as far as a search for an ASCII word can see it.
\<close>

fun to_lower :: "string \<Rightarrow> string" where
  "to_lower [] = []"
| "to_lower (c # s) =
     (case s of
        d # t \<Rightarrow>
          if of_char c = (196 :: nat) \<and> of_char d = (176 :: nat) then CHR ''i'' # to_lower t
          else if of_char c = (226 :: nat) \<and> of_char d = (132 :: nat) \<and> t \<noteq> [] \<and> of_char (hd t) = (170 :: nat)
          then CHR ''k'' # to_lower (tl t)
          else (if CHR ''A'' \<le> c \<and> c \<le> CHR ''Z'' then char_of (of_char c + (32 :: nat)) else c) # to_lower s
      | [] \<Rightarrow> [if CHR ''A'' \<le> c \<and> c \<le> CHR ''Z'' then char_of (of_char c + (32 :: nat)) else c])"

fun contains :: "string \<Rightarrow> string \<Rightarrow> bool" where
  "contains [] p = (p = [])"
| "contains (c # s) p = (has_prefix (c # s) p \<or> contains s p)"

section \<open>Splitting on a byte\<close>

text \<open>\<open>strings.SplitN(s, c, 2)\<close>: the parts before and after the first occurrence, if any.\<close>

definition split_once :: "char \<Rightarrow> string \<Rightarrow> (string \<times> string) option" where
  "split_once c s =
     (case dropWhile (\<lambda>x. x \<noteq> c) s of
        [] \<Rightarrow> None | _ # t \<Rightarrow> Some (takeWhile (\<lambda>x. x \<noteq> c) s, t))"

lemma split_once_append: "c \<notin> set p \<Longrightarrow> split_once c (p @ c # t) = Some (p, t)"
  by (induction p) (auto simp: split_once_def split: list.splits)

fun split_on :: "char \<Rightarrow> string \<Rightarrow> string list" where
  "split_on c [] = [[]]"
| "split_on c (x # xs) =
     (if x = c then [] # split_on c xs
      else (case split_on c xs of [] \<Rightarrow> [[x]] | p # ps \<Rightarrow> (x # p) # ps))"

lemma split_on_nonempty [simp]: "split_on c s \<noteq> []"
  by (induction s) (auto split: list.splits)

lemma split_on_no_sep: "c \<notin> set s \<Longrightarrow> split_on c s = [s]"
  by (induction s) auto

lemma split_on_append [string_simps]:
  "c \<notin> set s \<Longrightarrow> split_on c (s @ c # t) = s # split_on c t"
  by (induction s) auto

section \<open>Decimal numbers\<close>

definition digit :: "nat \<Rightarrow> char" where
  "digit d = char_of (48 + d)"

definition is_digit :: "char \<Rightarrow> bool" where
  "is_digit c \<longleftrightarrow> 48 \<le> (of_char c :: nat) \<and> (of_char c :: nat) \<le> 57"

lemma of_char_digit: "d < 10 \<Longrightarrow> (of_char (digit d) :: nat) = 48 + d"
  by (simp add: digit_def)

lemma is_digit_digit [simp]: "d < 10 \<Longrightarrow> is_digit (digit d)"
  by (simp add: is_digit_def of_char_digit)

fun show_nat :: "nat \<Rightarrow> string" where
  "show_nat n = (if n < 10 then [digit n] else show_nat (n div 10) @ [digit (n mod 10)])"

declare show_nat.simps [simp del]

text \<open>\<open>strconv.FormatInt\<close>, \<open>strconv.Itoa\<close> and the verb \<open>%d\<close>.\<close>

definition format_int :: "int \<Rightarrow> string" where
  "format_int n = (if n < 0 then CHR ''-'' # show_nat (nat (- n)) else show_nat (nat n))"

definition read_digits :: "string \<Rightarrow> nat" where
  "read_digits s = foldl (\<lambda>a c. 10 * a + (of_char c - 48)) 0 s"

text \<open>\<open>strconv.Atoi\<close> on a 64 bit platform: an optional sign, digits, in range.\<close>

definition atoi :: "string \<Rightarrow> int option" where
  "atoi s =
     (let (neg, ds) = (case s of
                         c # cs \<Rightarrow> (if c = CHR ''-'' then (True, cs)
                                     else if c = CHR ''+'' then (False, cs) else (False, s))
                       | [] \<Rightarrow> (False, []));
          v = (if neg then - int (read_digits ds) else int (read_digits ds))
      in if ds \<noteq> [] \<and> list_all is_digit ds \<and> - (2 ^ 63) \<le> v \<and> v < 2 ^ 63 then Some v else None)"

lemma read_digits_snoc: "read_digits (s @ [c]) = 10 * read_digits s + (of_char c - 48)"
  by (simp add: read_digits_def)

lemma read_show_nat: "read_digits (show_nat n) = n"
proof (induction n rule: show_nat.induct)
  case (1 n)
  show ?case
  proof (cases "n < 10")
    case True
    then show ?thesis by (subst show_nat.simps) (simp add: read_digits_def of_char_digit)
  next
    case False
    with "1.IH" show ?thesis
      by (subst show_nat.simps) (simp add: read_digits_snoc of_char_digit)
  qed
qed

lemma show_nat_digits: "list_all is_digit (show_nat n)"
proof (induction n rule: show_nat.induct)
  case (1 n)
  then show ?case
    by (cases "n < 10") (subst show_nat.simps; simp)+
qed

lemma show_nat_nonempty [simp]: "show_nat n \<noteq> []"
  by (subst show_nat.simps) simp

lemma show_nat_head: "\<exists>c cs. show_nat n = c # cs \<and> is_digit c"
  using show_nat_nonempty [of n] show_nat_digits [of n] by (cases "show_nat n") auto

lemma not_digit_sign [simp]: "\<not> is_digit CHR ''-''" "\<not> is_digit CHR ''+''"
  by (simp_all add: is_digit_def)

text \<open>A formatted number reads back, as long as it fits the machine integer.\<close>

lemma atoi_format_int [string_simps]:
  assumes "- (2 ^ 63) \<le> n" and "n < 2 ^ 63"
  shows "atoi (format_int n) = Some n"
proof (cases "n < 0")
  case True
  with assms show ?thesis
    by (simp add: atoi_def format_int_def read_show_nat show_nat_digits)
next
  case False
  obtain c cs where s: "show_nat (nat n) = c # cs" and c: "is_digit c"
    using show_nat_head by blast
  then have "c \<noteq> CHR ''-''" "c \<noteq> CHR ''+''" by auto
  with False assms s show ?thesis
    using read_show_nat [of "nat n"] show_nat_digits [of "nat n"]
    by (simp add: atoi_def format_int_def)
qed

section \<open>Hexadecimal\<close>

definition hex_digit :: "nat \<Rightarrow> char" where
  "hex_digit d = (if d < 10 then char_of (48 + d) else char_of (87 + d))"

text \<open>\<open>hex.EncodeToString\<close>.\<close>

fun hex_encode :: "bytes \<Rightarrow> string" where
  "hex_encode [] = []"
| "hex_encode (b # bs) =
     hex_digit (of_char b div 16) # hex_digit (of_char b mod 16) # hex_encode bs"

lemma length_hex_encode [simp]: "length (hex_encode bs) = 2 * length bs"
  by (induction bs) auto

lemma hex_digit_inj: "a < 16 \<Longrightarrow> b < 16 \<Longrightarrow> hex_digit a = hex_digit b \<Longrightarrow> a = b"
  by (auto simp: hex_digit_def char_of_eq_iff take_bit_eq_mod split: if_splits)

lemma hex_encode_inj: "hex_encode xs = hex_encode ys \<Longrightarrow> xs = ys"
proof (induction xs arbitrary: ys)
  case Nil
  then show ?case by (cases ys) auto
next
  case (Cons x xs)
  then obtain y ys' where ys: "ys = y # ys'" by (cases ys) auto
  have b: "(of_char c :: nat) div 16 < 16" "(of_char c :: nat) mod 16 < 16" for c :: char
    using nat_of_char_less_256 [of c] by (simp_all add: div_less_iff_less_mult)
  from Cons.prems ys have
    "hex_digit (of_char x div 16) = hex_digit (of_char y div 16)"
    "hex_digit (of_char x mod 16) = hex_digit (of_char y mod 16)"
    "hex_encode xs = hex_encode ys'" by auto
  then have "(of_char x :: nat) div 16 = of_char y div 16" "(of_char x :: nat) mod 16 = of_char y mod 16"
    using b hex_digit_inj by blast+
  then have "(of_char x :: nat) = of_char y" by (metis div_mult_mod_eq)
  then show ?case using Cons.IH ys \<open>hex_encode xs = hex_encode ys'\<close> by simp
qed

section \<open>Text columns\<close>

text \<open>PostgreSQL stores a text value only if it is valid UTF-8 without a zero byte.\<close>

definition cont_byte :: "char \<Rightarrow> bool" where
  "cont_byte c \<longleftrightarrow> 128 \<le> (of_char c :: nat) \<and> (of_char c :: nat) \<le> 191"

definition utf8_width :: "char \<Rightarrow> string \<Rightarrow> nat" where
  "utf8_width c cs =
     (let b = (of_char c :: nat); n = (case cs of [] \<Rightarrow> 0 | d # _ \<Rightarrow> (of_char d :: nat)) in
      if 1 \<le> b \<and> b \<le> 127 then 1
      else if 194 \<le> b \<and> b \<le> 223 then 2
      else if b = 224 \<and> 160 \<le> n \<or> 225 \<le> b \<and> b \<le> 236 \<or> b = 237 \<and> n \<le> 159 \<or> b = 238 \<or> b = 239 then 3
      else if b = 240 \<and> 144 \<le> n \<or> 241 \<le> b \<and> b \<le> 243 \<or> b = 244 \<and> n \<le> 143 then 4
      else 0)"

fun pg_text_ok :: "string \<Rightarrow> bool" where
  "pg_text_ok [] = True"
| "pg_text_ok (c # cs) =
     (let w = utf8_width c cs in
      w \<noteq> 0 \<and> w - 1 \<le> length cs \<and> list_all cont_byte (take (w - 1) cs)
        \<and> pg_text_ok (drop (w - 1) cs))"

declare pg_text_ok.simps(2) [simp del]

end
