(* ===== verification/Sha256.thy ===== *)
theory Sha256
  imports GoStrings "HOL-Library.Word"
begin

text \<open>
  \<open>crypto/sha256\<close> and \<open>crypto/hmac\<close> of the standard library, which the services use for the
  hashes of API keys and the signatures of webhooks: SHA-256 as FIPS 180-4 defines it, HMAC as
  RFC 2104 does, on strings of fewer than \<open>2 ^ 61\<close> bytes. Bytes are characters; words have 32 bits.
\<close>

unbundle bit_operations_syntax

type_synonym word32 = "32 word"

section \<open>The compression function\<close>

text \<open>
  The tables of the standard: the first 32 bits after the binary point of the cube roots of the
  first 64 primes, and of the square roots of the first eight.
\<close>

definition sha_primes :: "nat list" where
  "sha_primes = [
     2, 3, 5, 7, 11, 13, 17, 19, 23, 29, 31, 37, 41, 43, 47, 53,
     59, 61, 67, 71, 73, 79, 83, 89, 97, 101, 103, 107, 109, 113, 127, 131,
     137, 139, 149, 151, 157, 163, 167, 173, 179, 181, 191, 193, 197, 199, 211, 223,
     227, 229, 233, 239, 241, 251, 257, 263, 269, 271, 277, 281, 283, 293, 307, 311]"

definition cube_root_bits :: "nat list" where
  "cube_root_bits = [
     1116352408, 1899447441, 3049323471, 3921009573, 961987163, 1508970993, 2453635748,
     2870763221, 3624381080, 310598401, 607225278, 1426881987, 1925078388, 2162078206,
     2614888103, 3248222580, 3835390401, 4022224774, 264347078, 604807628, 770255983,
     1249150122, 1555081692, 1996064986, 2554220882, 2821834349, 2952996808, 3210313671,
     3336571891, 3584528711, 113926993, 338241895, 666307205, 773529912, 1294757372,
     1396182291, 1695183700, 1986661051, 2177026350, 2456956037, 2730485921, 2820302411,
     3259730800, 3345764771, 3516065817, 3600352804, 4094571909, 275423344, 430227734,
     506948616, 659060556, 883997877, 958139571, 1322822218, 1537002063, 1747873779,
     1955562222, 2024104815, 2227730452, 2361852424, 2428436474, 2756734187, 3204031479,
     3329325298]"

definition square_root_bits :: "nat list" where
  "square_root_bits = [
     1779033703, 3144134277, 1013904242, 2773480762,
     1359893119, 2600822924, 528734635, 1541459225]"

definition root_bits :: "nat \<Rightarrow> nat \<Rightarrow> nat \<Rightarrow> bool" where
  "root_bits e p n \<longleftrightarrow>
     (let r = length (filter (\<lambda>m. m ^ e \<le> p) [1, 2, 3, 4, 5, 6]) * 4294967296 + n in
      n < 4294967296 \<and> r ^ e \<le> p * 4294967296 ^ e \<and> p * 4294967296 ^ e < (r + 1) ^ e)"

lemma sha_tables:
  "list_all2 (root_bits 3) sha_primes cube_root_bits"
  "list_all2 (root_bits 2) (take 8 sha_primes) square_root_bits"
  by (simp_all add: sha_primes_def cube_root_bits_def square_root_bits_def root_bits_def)

definition sha_constants :: "word32 list" where
  "sha_constants = map of_nat cube_root_bits"

definition sha_start :: "word32 list" where
  "sha_start = map of_nat square_root_bits"

definition rotr :: "nat \<Rightarrow> word32 \<Rightarrow> word32" where
  "rotr n x = drop_bit n x OR push_bit (32 - n) x"

definition small_sigma0 :: "word32 \<Rightarrow> word32" where
  "small_sigma0 x = rotr 7 x XOR rotr 18 x XOR drop_bit 3 x"

definition small_sigma1 :: "word32 \<Rightarrow> word32" where
  "small_sigma1 x = rotr 17 x XOR rotr 19 x XOR drop_bit 10 x"

definition big_sigma0 :: "word32 \<Rightarrow> word32" where
  "big_sigma0 x = rotr 2 x XOR rotr 13 x XOR rotr 22 x"

definition big_sigma1 :: "word32 \<Rightarrow> word32" where
  "big_sigma1 x = rotr 6 x XOR rotr 11 x XOR rotr 25 x"

definition sha_choose :: "word32 \<Rightarrow> word32 \<Rightarrow> word32 \<Rightarrow> word32" where
  "sha_choose x y z = (x AND y) XOR ((NOT x) AND z)"

definition sha_majority :: "word32 \<Rightarrow> word32 \<Rightarrow> word32 \<Rightarrow> word32" where
  "sha_majority x y z = (x AND y) XOR (x AND z) XOR (y AND z)"

text \<open>The message schedule: the window of the last sixteen words moves on by one.\<close>

definition next_word :: "word32 list \<Rightarrow> word32" where
  "next_word ws = small_sigma1 (ws ! 14) + ws ! 9 + small_sigma0 (ws ! 1) + ws ! 0"

fun sha_round :: "word32 list \<Rightarrow> word32 \<Rightarrow> word32 \<Rightarrow> word32 list" where
  "sha_round [a, b, c, d, e, f, g, h] k w =
     (let t1 = h + big_sigma1 e + sha_choose e f g + k + w; t2 = big_sigma0 a + sha_majority a b c in
      [t1 + t2, a, b, c, d + t1, e, f, g])"
| "sha_round s k w = s"

fun sha_rounds :: "word32 list \<Rightarrow> word32 list \<Rightarrow> word32 list \<Rightarrow> word32 list" where
  "sha_rounds [] ws s = s"
| "sha_rounds (k # ks) ws s = sha_rounds ks (tl ws @ [next_word ws]) (sha_round s k (hd ws))"

definition sha_block :: "word32 list \<Rightarrow> word32 list \<Rightarrow> word32 list" where
  "sha_block s ws = map2 (+) s (sha_rounds sha_constants ws s)"

section \<open>Bytes and words\<close>

definition word_of_bytes :: "char \<Rightarrow> char \<Rightarrow> char \<Rightarrow> char \<Rightarrow> word32" where
  "word_of_bytes a b c d = of_nat (of_char a * 0x1000000 + of_char b * 0x10000 + of_char c * 0x100 + of_char d)"

fun words_of :: "bytes \<Rightarrow> word32 list" where
  "words_of (a # b # c # d # bs) = word_of_bytes a b c d # words_of bs"
| "words_of bs = []"

definition bytes_of_word :: "word32 \<Rightarrow> bytes" where
  "bytes_of_word w = (let n = unat w in
     [char_of (n div 0x1000000), char_of (n div 0x10000), char_of (n div 0x100), char_of n])"

text \<open>The bit 1, zeros up to eight bytes before the end of a block, and the length in bits.\<close>

definition sha_padding :: "nat \<Rightarrow> bytes" where
  "sha_padding n = char_of (0x80 :: nat) # replicate ((119 - n mod 64) mod 64) (char_of (0 :: nat))
     @ map (\<lambda>i. char_of (8 * n div 256 ^ i)) [7, 6, 5, 4, 3, 2, 1, 0]"

fun sha_blocks :: "nat \<Rightarrow> word32 list \<Rightarrow> word32 list \<Rightarrow> word32 list" where
  "sha_blocks 0 ws s = s"
| "sha_blocks (Suc n) ws s = sha_blocks n (drop 16 ws) (sha_block s (take 16 ws))"

definition sha256 :: "bytes \<Rightarrow> bytes" where
  "sha256 m = (let p = m @ sha_padding (length m) in
     concat (map bytes_of_word (sha_blocks (length p div 64) (words_of p) sha_start)))"

section \<open>HMAC\<close>

definition hmac_block :: "bytes \<Rightarrow> bytes" where
  "hmac_block key = (let k = (if 64 < length key then sha256 key else key) in
     k @ replicate (64 - length k) (char_of (0 :: nat)))"

definition xor_byte :: "char \<Rightarrow> char \<Rightarrow> char" where
  "xor_byte a b = char_of (of_char a XOR of_char b :: nat)"

definition hmac_sha256 :: "bytes \<Rightarrow> bytes \<Rightarrow> bytes" where
  "hmac_sha256 key m = (let k = hmac_block key in
     sha256 (map (xor_byte (char_of (0x5c :: nat))) k @ sha256 (map (xor_byte (char_of (0x36 :: nat))) k @ m)))"

section \<open>Lengths\<close>

lemma length_sha_round [simp]: "length (sha_round s k w) = length s"
  by (cases "(s, k, w)" rule: sha_round.cases) (simp_all add: Let_def)

lemma length_sha_rounds [simp]: "length (sha_rounds ks ws s) = length s"
  by (induction ks arbitrary: ws s) simp_all

lemma length_sha_blocks [simp]: "length (sha_blocks n ws s) = length s"
  by (induction n arbitrary: ws s) (simp_all add: sha_block_def)

lemma length_concat_words: "length (concat (map bytes_of_word ws)) = 4 * length ws"
  by (induction ws) (simp_all add: bytes_of_word_def Let_def)

lemma length_sha256 [simp]: "length (sha256 m) = 32"
  by (simp add: sha256_def Let_def length_concat_words sha_start_def square_root_bits_def)

lemma length_hmac_sha256 [simp]: "length (hmac_sha256 key m) = 32"
  by (simp add: hmac_sha256_def Let_def)

text \<open>The text padded is a whole number of blocks.\<close>

lemma padded_blocks: "64 dvd length (m @ sha_padding (length m))"
proof -
  have *: "(n + (9 + (119 - n mod 64) mod 64)) mod 64 = 0" for n :: nat
  proof -
    define r q where "r = n mod 64" and "q = n div 64"
    have n: "n = r + 64 * q" and "r < 64" by (simp_all add: r_def q_def)
    have "(119 - r) mod 64 = (if r \<le> 55 then 55 - r else 119 - r)"
    proof (cases "r \<le> 55")
      case True
      then have "119 - r = (55 - r) + 64" by simp
      then have "(119 - r) mod 64 = (55 - r) mod 64" by (metis mod_add_self2)
      then show ?thesis using True by simp
    qed (use \<open>r < 64\<close> in simp)
    then have "n + (9 + (119 - r) mod 64) = 64 * (q + (if r \<le> 55 then 1 else 2))"
      using \<open>r < 64\<close> n by (cases "r \<le> 55") simp_all
    then show ?thesis by (simp only: r_def mod_mult_self1_is_0)
  qed
  have "length (m @ sha_padding (length m)) = length m + (9 + (119 - length m mod 64) mod 64)"
    by (simp only: sha_padding_def length_append length_map length_replicate list.size)
  then show ?thesis by (simp only: dvd_eq_mod_eq_0 *)
qed

text \<open>The first round on the text \<open>abc\<close>, as the standard's example has it.\<close>

lemma first_round_abc:
  "sha_round sha_start (hd sha_constants) (hd (words_of (''abc'' @ sha_padding 3)))
     = [0x5d6aebcd, 0x6a09e667, 0xbb67ae85, 0x3c6ef372, 0xfa2a4622, 0x510e527f, 0x9b05688c, 0x1f83d9ab]"
proof -
  have w: "hd (words_of (''abc'' @ sha_padding 3)) = 0x61626380"
    by (simp add: sha_padding_def word_of_bytes_def)
  have k: "hd sha_constants = 0x428a2f98" by (simp add: sha_constants_def cube_root_bits_def)
  show ?thesis unfolding w k
    by (simp add: sha_start_def square_root_bits_def Let_def big_sigma0_def big_sigma1_def sha_choose_def sha_majority_def rotr_def)
qed

end
