(* ===== verification/Webhook.thy ===== *)
theory Webhook
  imports Sha256
begin

text \<open>
  Sending one webhook: delivery-service/internal/attempt/model.go (the result of an attempt),
  delivery-service/internal/webhook/signer.go (the signature) and
  delivery-service/internal/webhook/client.go (\<open>Client.Send\<close>). The
  parser of \<open>net/http\<close> for the URL and the HTTP exchange itself are parameters; what
  \<open>Send\<close> reads of a response is a record. The two clock readings of \<open>Send\<close> are the
  Unix time of the signature and the latency.
\<close>

section \<open>The result of an attempt\<close>

datatype result_status = Success | Retryable_Failure | Permanent_Failure

fun result_status_text :: "result_status \<Rightarrow> string" where
  "result_status_text Success = ''SUCCESS''"
| "result_status_text Retryable_Failure = ''RETRYABLE_FAILURE''"
| "result_status_text Permanent_Failure = ''PERMANENT_FAILURE''"

text \<open>The response headers are \<open>None\<close> where the Go map is nil.\<close>

record attempt_result =
  ar_status :: result_status
  ar_http_status :: "int option"
  ar_error_code :: "string option"
  ar_error_message :: "string option"
  ar_headers :: "(string \<times> string) list option"
  ar_body :: string
  ar_latency :: duration

section \<open>The signature\<close>

definition signed_message :: "string \<Rightarrow> bytes \<Rightarrow> bytes" where
  "signed_message timestamp body = timestamp @ ''.'' @ body"

definition sign :: "bytes \<Rightarrow> string \<Rightarrow> bytes \<Rightarrow> string" where
  "sign secret timestamp body =
     ''sha256='' @ hex_encode (hmac_sha256 secret (signed_message timestamp body))"

definition signature_header ::
    "bytes \<Rightarrow> string \<Rightarrow> bytes \<Rightarrow> string" where
  "signature_header secret timestamp body = sign secret timestamp body"

lemma dot_notin_format_int: "CHR ''.'' \<notin> set (format_int n)"
proof -
  have "CHR ''.'' \<notin> set (show_nat k)" for k
    using show_nat_digits [of k] by (auto simp: list_all_iff is_digit_def)
  then show ?thesis by (simp add: format_int_def)
qed

lemma append_sep_inj:
  "c \<notin> set xs \<Longrightarrow> c \<notin> set ys \<Longrightarrow> xs @ c # us = ys @ c # vs \<Longrightarrow> xs = ys \<and> us = vs"
proof (induction xs arbitrary: ys)
  case Nil
  then show ?case by (cases ys) auto
next
  case (Cons x xs)
  then show ?case by (cases ys) auto
qed

section \<open>Client.Send\<close>

record webhook_request =
  wr_url :: string
  wr_secret :: bytes
  wr_request_timeout_ms :: int
  wr_event_id :: string
  wr_event_type :: string
  wr_body :: bytes

record http_request =
  hq_method :: string
  hq_url :: string
  hq_headers :: "(string \<times> string) list"
  hq_body :: bytes
  hq_timeout :: duration

text \<open>A response: the body is what arrives before its end or before a read error.\<close>

record http_response =
  hr_status :: int
  hr_headers :: "(string \<times> string list) list"
  hr_body :: bytes
  hr_body_error :: "string option"

datatype http_outcome =
    Do_Error string bool  \<comment> \<open>the error text, and whether the deadline had passed\<close>
  | Response http_response

record http_env =
  env_request_error :: "string \<Rightarrow> string option"  \<comment> \<open>of \<open>NewRequestWithContext\<close>, by URL\<close>
  env_do :: "http_request \<Rightarrow> http_outcome"
  env_unix :: int
  env_latency :: duration

definition max_response_body :: nat where
  "max_response_body = 64 * 1024"

definition send_timeout :: "int \<Rightarrow> duration" where
  "send_timeout ms = (if milliseconds ms \<le> 0 then seconds 10 else milliseconds ms)"

definition outgoing :: "http_env \<Rightarrow> webhook_request \<Rightarrow> http_request" where
  "outgoing env req =
     (let timestamp = format_int (env_unix env) in
      \<lparr>hq_method = ''POST'', hq_url = wr_url req,
       hq_headers =
         [(''Content-Type'', ''application/json''),
          (''User-Agent'', ''Hookyard-Delivery/1.0''),
          (''X-Hookyard-Event-ID'', wr_event_id req),
          (''X-Hookyard-Event-Type'', wr_event_type req),
          (''X-Hookyard-Timestamp'', timestamp),
          (''X-Hookyard-Signature'', sign (wr_secret req) timestamp (wr_body req))],
       hq_body = wr_body req,
       hq_timeout = send_timeout (wr_request_timeout_ms req)\<rparr>)"

definition failure ::
    "http_env \<Rightarrow> result_status \<Rightarrow> string \<Rightarrow> string \<Rightarrow> attempt_result" where
  "failure env st code msg =
     \<lparr>ar_status = st, ar_http_status = None, ar_error_code = Some code,
      ar_error_message = Some msg, ar_headers = None, ar_body = [], ar_latency = env_latency env\<rparr>"

text \<open>\<open>io.ReadAll(io.LimitReader(resp.Body, maxResponseBody))\<close>.\<close>

definition read_body :: "http_response \<Rightarrow> string + bytes" where
  "read_body resp =
     (if max_response_body \<le> length (hr_body resp) then Inr (take max_response_body (hr_body resp))
      else case hr_body_error resp of Some e \<Rightarrow> Inl e | None \<Rightarrow> Inr (hr_body resp))"

definition first_values :: "(string \<times> string list) list \<Rightarrow> (string \<times> string) list" where
  "first_values hs = map (\<lambda>(k, vs). (k, hd vs)) (filter (\<lambda>(k, vs). vs \<noteq> []) hs)"

definition classify :: "int \<Rightarrow> result_status" where
  "classify code =
     (if 200 \<le> code \<and> code < 300 then Success
      else if code = 408 \<or> code = 429 \<or> 500 \<le> code then Retryable_Failure
      else Permanent_Failure)"

definition response_result :: "http_env \<Rightarrow> http_response \<Rightarrow> bytes \<Rightarrow> attempt_result" where
  "response_result env resp body =
     (let code = hr_status resp; st = classify code in
      \<lparr>ar_status = st, ar_http_status = Some code,
       ar_error_code = (if st = Success then None else Some (''HTTP_'' @ format_int code)),
       ar_error_message =
         (if st = Success then None else Some (''consumer returned HTTP '' @ format_int code)),
       ar_headers = Some (first_values (hr_headers resp)), ar_body = body,
       ar_latency = env_latency env\<rparr>)"

definition send :: "http_env \<Rightarrow> webhook_request \<Rightarrow> attempt_result" where
  "send env req =
     (case env_request_error env (wr_url req) of
        Some msg \<Rightarrow> failure env Permanent_Failure ''REQUEST_BUILD_ERROR'' msg
      | None \<Rightarrow>
          (case env_do env (outgoing env req) of
             Do_Error msg deadline \<Rightarrow>
               failure env Retryable_Failure (if deadline then ''TIMEOUT'' else ''HTTP_ERROR'') msg
           | Response resp \<Rightarrow>
               (case read_body resp of
                  Inl msg \<Rightarrow> failure env Retryable_Failure ''RESPONSE_READ_ERROR'' msg
                | Inr body \<Rightarrow> response_result env resp body)))"

lemmas send_defs = send_def failure_def response_result_def

section \<open>Properties\<close>

text \<open>
  C11. The outcome of a send is a success exactly when a response with a 2xx status was read
  completely (or up to the 64 KiB limit); a request that could not be built and every
  other complete response except 408, 429 and 5xx are permanent failures; everything else
  (transport errors, timeouts, broken bodies, 408, 429, 5xx) is retryable. An error code is
  recorded exactly for the attempts that are not successful, and the stored body never
  exceeds the limit.
\<close>

theorem send_classification:
  "(ar_status (send env req) = Success \<longleftrightarrow>
      (env_request_error env (wr_url req) = None
       \<and> (\<exists>resp body. env_do env (outgoing env req) = Response resp \<and> read_body resp = Inr body
            \<and> 200 \<le> hr_status resp \<and> hr_status resp < 300)))
   \<and> (ar_status (send env req) = Permanent_Failure \<longleftrightarrow>
      (env_request_error env (wr_url req) \<noteq> None
       \<or> (\<exists>resp body. env_do env (outgoing env req) = Response resp \<and> read_body resp = Inr body
            \<and> hr_status resp < 500 \<and> \<not> (200 \<le> hr_status resp \<and> hr_status resp < 300)
            \<and> hr_status resp \<noteq> 408 \<and> hr_status resp \<noteq> 429)))
   \<and> (ar_error_code (send env req) = None \<longleftrightarrow> ar_status (send env req) = Success)
   \<and> length (ar_body (send env req)) \<le> max_response_body"
  by (auto simp: send_defs classify_def Let_def read_body_def
      split: option.splits http_outcome.splits sum.splits if_splits)

text \<open>
  C13. What is sent carries the timestamp in decimal and the signature: \<open>sha256=\<close> and the hex digits of
  the HMAC-SHA256, under the endpoint's secret, of the timestamp, a dot and the body that is sent.
  The signed message determines the two parts: as long as the HMAC of the two messages does not
  collide, two requests with equal signatures under one secret have the same timestamp and the
  same body.
\<close>

theorem signature_binds_timestamp_and_body:
  assumes "wr_secret r1 = k" "wr_secret r2 = k"
    and no_collision:
      "hmac_sha256 k (format_int (env_unix e1) @ ''.'' @ wr_body r1)
         = hmac_sha256 k (format_int (env_unix e2) @ ''.'' @ wr_body r2)
       \<Longrightarrow> format_int (env_unix e1) @ ''.'' @ wr_body r1 = format_int (env_unix e2) @ ''.'' @ wr_body r2"
    and sig: "map_of (hq_headers (outgoing e1 r1)) ''X-Hookyard-Signature''
                = map_of (hq_headers (outgoing e2 r2)) ''X-Hookyard-Signature''"
  shows "map_of (hq_headers (outgoing e r)) ''X-Hookyard-Signature''
           = Some (''sha256='' @ hex_encode (hmac_sha256 (wr_secret r) (format_int (env_unix e) @ ''.'' @ wr_body r)))
         \<and> map_of (hq_headers (outgoing e r)) ''X-Hookyard-Timestamp'' = Some (format_int (env_unix e))
         \<and> hq_body (outgoing e r) = wr_body r
         \<and> map_of (hq_headers (outgoing e1 r1)) ''X-Hookyard-Timestamp''
           = map_of (hq_headers (outgoing e2 r2)) ''X-Hookyard-Timestamp''
         \<and> hq_body (outgoing e1 r1) = hq_body (outgoing e2 r2)"
proof -
  have headers: "map_of (hq_headers (outgoing e r)) ''X-Hookyard-Signature''
      = Some (''sha256='' @ hex_encode (hmac_sha256 (wr_secret r) (format_int (env_unix e) @ ''.'' @ wr_body r)))"
    "map_of (hq_headers (outgoing e r)) ''X-Hookyard-Timestamp'' = Some (format_int (env_unix e))"
    "hq_body (outgoing e r) = wr_body r" for e r
    by (simp_all add: outgoing_def Let_def sign_def signed_message_def)
  from sig assms(1,2) have
    "hmac_sha256 k (format_int (env_unix e1) @ ''.'' @ wr_body r1)
       = hmac_sha256 k (format_int (env_unix e2) @ ''.'' @ wr_body r2)"
    unfolding headers by (auto dest: hex_encode_inj)
  then have "format_int (env_unix e1) @ CHR ''.'' # wr_body r1
               = format_int (env_unix e2) @ CHR ''.'' # wr_body r2"
    using no_collision by simp
  then have "format_int (env_unix e1) = format_int (env_unix e2) \<and> wr_body r1 = wr_body r2"
    by (rule append_sep_inj [OF dot_notin_format_int dot_notin_format_int])
  then show ?thesis by (simp add: headers)
qed

definition example_env :: http_env where
  "example_env = \<lparr>env_request_error = (\<lambda>_. None), env_do = (\<lambda>_. Do_Error ''refused'' False),
     env_unix = 17, env_latency = 5\<rparr>"

definition example_request :: webhook_request where
  "example_request = \<lparr>wr_url = ''https://a'', wr_secret = ''k'', wr_request_timeout_ms = 10,
     wr_event_id = ''e'', wr_event_type = ''t'', wr_body = ''b''\<rparr>"

theorem signature_binds_timestamp_and_body_witness:
  "hq_body (outgoing example_env example_request) = ''b''
   \<and> map_of (hq_headers (outgoing example_env example_request)) ''X-Hookyard-Timestamp''
       = map_of (hq_headers (outgoing (example_env\<lparr>env_latency := 9\<rparr>) example_request))
           ''X-Hookyard-Timestamp''"
  using signature_binds_timestamp_and_body
    [of example_request "''k''" example_request example_env "example_env\<lparr>env_latency := 9\<rparr>"]
  by (simp add: outgoing_def Let_def example_env_def example_request_def)

theorem send_classification_witness:
  "ar_status (send (example_env\<lparr>env_do := \<lambda>_. Response
       \<lparr>hr_status = 204, hr_headers = [], hr_body = [], hr_body_error = None\<rparr>\<rparr>) example_request)
     = Success"
  using send_classification [of "example_env\<lparr>env_do := \<lambda>_. Response
       \<lparr>hr_status = 204, hr_headers = [], hr_body = [], hr_body_error = None\<rparr>\<rparr>" example_request]
  by (simp add: example_env_def read_body_def max_response_body_def)

end
