(* ===== verification/DeliveryRepo.thy ===== *)
theory DeliveryRepo
  imports Webhook "HOL-Library.Product_Lexorder"
begin

text \<open>
  The delivery store: delivery-service/internal/delivery/model.go and the state-changing
  operations and lookups of delivery-service/internal/delivery/repository.go over the tables
  \<open>deliveries\<close> and \<open>delivery_attempts\<close> of delivery-service/migrations/001_init.sql. A table
  is the list of its rows; \<open>NOW()\<close>, the worker's clock, generated identifiers and the
  failures of the driver are arguments. Failures of a value against its column type (a
  too long string, a payload that is not JSON) are failures of the call that writes it.
\<close>

section \<open>Data\<close>

datatype delivery_status =
  PENDING | IN_PROGRESS | RETRYING | DELIVERED | FAILED | DLQ | CANCELLED

fun status_text :: "delivery_status \<Rightarrow> string" where
  "status_text PENDING = ''PENDING''"
| "status_text IN_PROGRESS = ''IN_PROGRESS''"
| "status_text RETRYING = ''RETRYING''"
| "status_text DELIVERED = ''DELIVERED''"
| "status_text FAILED = ''FAILED''"
| "status_text DLQ = ''DLQ''"
| "status_text CANCELLED = ''CANCELLED''"

record retry_policy =
  rp_max_attempts :: int
  rp_backoff_type :: string
  rp_initial_delay_ms :: int
  rp_max_delay_ms :: int
  rp_jitter_percent :: int

record event_accepted =
  ea_message_id :: string
  ea_event_id :: uuid
  ea_tenant_id :: uuid
  ea_event_type :: string
  ea_payload :: bytes

record endpoint_snapshot =
  es_event_type :: string
  es_url :: string
  es_secret :: bytes
  es_connect_timeout_ms :: int
  es_request_timeout_ms :: int
  es_retry_policy :: retry_policy

record endpoint_snapshot_with_id =
  esi_endpoint_id :: uuid
  esi_event_type :: string
  esi_snapshot :: endpoint_snapshot

text \<open>The struct \<open>Delivery\<close> and the row of the table \<open>deliveries\<close> have the same fields.\<close>

record delivery =
  d_id :: uuid
  d_tenant_id :: uuid
  d_event_id :: uuid
  d_endpoint_id :: uuid
  d_status :: delivery_status
  d_attempt_count :: int
  d_next_attempt_at :: time
  d_last_attempt_at :: "time option"
  d_last_status_code :: "int option"
  d_last_error_code :: "string option"
  d_last_error_message :: "string option"
  d_lease_owner :: "string option"
  d_lease_expires_at :: "time option"
  d_replay_of :: "uuid option"
  d_snapshot :: endpoint_snapshot
  d_payload :: bytes
  d_created_at :: time
  d_updated_at :: time
  d_completed_at :: "time option"

record attempt_row =
  at_delivery_id :: uuid
  at_number :: int
  at_started_at :: time
  at_completed_at :: time
  at_status :: result_status
  at_http_status :: "int option"
  at_latency_ms :: int
  at_error_code :: "string option"
  at_error_message :: "string option"
  at_headers :: "(string \<times> string) list option"
  at_body :: string

record delivery_db =
  db_deliveries :: "delivery list"
  db_attempts :: "attempt_row list"

definition empty_delivery_db :: delivery_db where
  "empty_delivery_db = \<lparr>db_deliveries = [], db_attempts = []\<rparr>"

section \<open>Inserting deliveries\<close>

text \<open>
  The unique index on \<open>(event_id, endpoint_id)\<close>. The migration declares it partial, for the
  rows that are no replay; API_CONTRACTS.md says that earlier databases had another one.
\<close>

datatype event_endpoint_index = Total_Index | Partial_Index

definition migrated_index :: event_endpoint_index where
  "migrated_index = Partial_Index"

definition index_conflict :: "event_endpoint_index \<Rightarrow> delivery \<Rightarrow> delivery \<Rightarrow> bool" where
  "index_conflict ix d r \<longleftrightarrow>
     d_event_id r = d_event_id d \<and> d_endpoint_id r = d_endpoint_id d
     \<and> (ix = Partial_Index \<longrightarrow> d_replay_of r = None \<and> d_replay_of d = None)"

definition has_conflict :: "event_endpoint_index \<Rightarrow> delivery \<Rightarrow> delivery list \<Rightarrow> bool" where
  "has_conflict ix d rows \<longleftrightarrow> list_ex (index_conflict ix d) rows"

definition add_delivery :: "delivery \<Rightarrow> delivery_db \<Rightarrow> delivery_db" where
  "add_delivery d db = db\<lparr>db_deliveries := db_deliveries db @ [d]\<rparr>"

text \<open>A plain \<open>INSERT INTO deliveries\<close>.\<close>

definition insert_delivery ::
    "event_endpoint_index \<Rightarrow> delivery \<Rightarrow> delivery_db \<Rightarrow> delivery_db result" where
  "insert_delivery ix d db =
     (if find_row d_id (d_id d) (db_deliveries db) \<noteq> None
      then Inl (pg_unique ''deliveries_pkey'')
      else if has_conflict ix d (db_deliveries db)
      then Inl (pg_unique ''idx_deliveries_original_event_endpoint'')
      else Inr (add_delivery d db))"

text \<open>
  \<open>INSERT \<dots> ON CONFLICT (event_id, endpoint_id) DO NOTHING\<close>. PostgreSQL infers a partial
  index as arbiter only if the conflict target repeats its predicate; otherwise it rejects
  the statement.
\<close>

definition no_arbiter :: error where
  "no_arbiter = PgError ''42P10''
     ''there is no unique or exclusion constraint matching the ON CONFLICT specification''"

definition insert_on_conflict ::
    "event_endpoint_index \<Rightarrow> delivery \<Rightarrow> delivery_db \<Rightarrow> delivery_db result" where
  "insert_on_conflict ix d db =
     (case ix of
        Partial_Index \<Rightarrow> Inl no_arbiter
      | Total_Index \<Rightarrow>
          (if has_conflict ix d (db_deliveries db) then Inr db else insert_delivery ix d db))"

definition new_delivery ::
    "time \<Rightarrow> uuid \<Rightarrow> event_accepted \<Rightarrow> endpoint_snapshot_with_id \<Rightarrow> delivery" where
  "new_delivery now new_id event ep =
     \<lparr>d_id = new_id, d_tenant_id = ea_tenant_id event, d_event_id = ea_event_id event,
      d_endpoint_id = esi_endpoint_id ep, d_status = PENDING, d_attempt_count = 0,
      d_next_attempt_at = now, d_last_attempt_at = None, d_last_status_code = None,
      d_last_error_code = None, d_last_error_message = None, d_lease_owner = None,
      d_lease_expires_at = None, d_replay_of = None,
      d_snapshot = (esi_snapshot ep)\<lparr>es_event_type := ea_event_type event\<rparr>,
      d_payload = ea_payload event, d_created_at = now, d_updated_at = now,
      d_completed_at = None\<rparr>"

datatype create_call = CD_Begin | CD_Insert uuid | CD_Commit

text \<open>The loop over the endpoints; \<open>gen i\<close> is the identifier the database generates for the
  \<open>i\<close>-th statement.\<close>

fun create_loop ::
    "create_call faults \<Rightarrow> event_endpoint_index \<Rightarrow> time \<Rightarrow> (nat \<Rightarrow> uuid) \<Rightarrow> event_accepted \<Rightarrow> nat
       \<Rightarrow> endpoint_snapshot_with_id list \<Rightarrow> delivery_db \<Rightarrow> delivery_db result" where
  "create_loop f ix now gen event i [] db = Inr db"
| "create_loop f ix now gen event i (ep # eps) db =
     guard (map_option (wrap ''create delivery: '') (f (CD_Insert (esi_endpoint_id ep))))
       (case insert_on_conflict ix (new_delivery now (gen i) event ep) db of
          Inl e \<Rightarrow> Inl (wrap ''create delivery: '' e)
        | Inr db' \<Rightarrow> create_loop f ix now gen event (Suc i) eps db')"

definition create_deliveries ::
    "create_call faults \<Rightarrow> event_endpoint_index \<Rightarrow> time \<Rightarrow> (nat \<Rightarrow> uuid) \<Rightarrow> event_accepted
       \<Rightarrow> endpoint_snapshot_with_id list \<Rightarrow> delivery_db \<Rightarrow> unit result \<times> delivery_db" where
  "create_deliveries f ix now gen event eps db =
     run_tx (map_option (wrap ''begin: '') (f CD_Begin)) (f CD_Commit)
       (\<lambda>db. case create_loop f ix now gen event 0 eps db of
               Inl e \<Rightarrow> Inl e | Inr db' \<Rightarrow> Inr ((), db')) db"

section \<open>Claiming a batch\<close>

text \<open>The \<open>WHERE\<close> clause of the claim.\<close>

definition claimable :: "time \<Rightarrow> delivery \<Rightarrow> bool" where
  "claimable now d \<longleftrightarrow>
     (d_status d = PENDING \<or> d_status d = RETRYING) \<and> d_next_attempt_at d \<le> now
     \<or> d_status d = IN_PROGRESS
       \<and> (case d_lease_expires_at d of None \<Rightarrow> False | Some t \<Rightarrow> t < now)"

datatype claim_call =
    CB_Begin
  | CB_Query
  | CB_Scan uuid
  | CB_Decode uuid
  | CB_Lease uuid
  | CB_Rows
  | CB_Commit

text \<open>Rows that another transaction has locked are skipped (\<open>FOR UPDATE SKIP LOCKED\<close>).\<close>

definition claim_rows ::
    "time \<Rightarrow> (uuid \<Rightarrow> bool) \<Rightarrow> int \<Rightarrow> delivery_db \<Rightarrow> delivery list" where
  "claim_rows now locked limit db =
     take (nat limit)
       (sort_key (\<lambda>d. (d_next_attempt_at d, d_created_at d))
          (filter (\<lambda>d. claimable now d \<and> \<not> locked (d_id d)) (db_deliveries db)))"

definition max_int4 :: int where
  "max_int4 = 2147483647"

definition lease_row :: "time \<Rightarrow> string \<Rightarrow> time \<Rightarrow> time \<Rightarrow> delivery \<Rightarrow> delivery" where
  "lease_row now worker expires started d =
     d\<lparr>d_status := IN_PROGRESS, d_lease_owner := Some worker,
       d_lease_expires_at := Some (pg_time expires),
       d_attempt_count := d_attempt_count d + 1,
       d_last_attempt_at := Some (pg_time started), d_updated_at := now\<rparr>"

text \<open>The copy of the row that the worker keeps: as scanned, but for the count and the start.\<close>

definition claimed_copy :: "time \<Rightarrow> delivery \<Rightarrow> delivery" where
  "claimed_copy started d =
     d\<lparr>d_attempt_count := d_attempt_count d + 1, d_last_attempt_at := Some started\<rparr>"

fun claim_loop ::
    "claim_call faults \<Rightarrow> time \<Rightarrow> string \<Rightarrow> time \<Rightarrow> time \<Rightarrow> delivery list \<Rightarrow> delivery_db
       \<Rightarrow> (delivery list \<times> delivery_db) result" where
  "claim_loop f now worker expires started [] db = guard (f CB_Rows) (Inr ([], db))"
| "claim_loop f now worker expires started (d # ds) db =
     guard (map_option (wrap ''scan delivery: '') (f (CB_Scan (d_id d))))
    (guard (map_option (wrap ''decode policy: '') (f (CB_Decode (d_id d))))
    (guard (map_option (wrap ''lease delivery: '') (f (CB_Lease (d_id d))))
       (if max_int4 < d_attempt_count d + 1
        then Inl (wrap ''lease delivery: '' (PgError ''22003'' ''integer out of range''))
        else
          let db' = db\<lparr>db_deliveries :=
                update_where (\<lambda>r. d_id r = d_id d) (lease_row now worker expires started)
                  (db_deliveries db)\<rparr>
          in (case claim_loop f now worker expires started ds db' of
                Inl e \<Rightarrow> Inl e
              | Inr (cs, db'') \<Rightarrow> Inr (claimed_copy started d # cs, db'')))))"

text \<open>
  The argument \<open>lease\<close> is not used: the code takes 30 seconds. A negative limit is an error
  of PostgreSQL's \<open>LIMIT\<close>.
\<close>

definition claim_batch ::
    "claim_call faults \<Rightarrow> (uuid \<Rightarrow> bool) \<Rightarrow> time \<Rightarrow> time \<Rightarrow> string \<Rightarrow> int \<Rightarrow> duration \<Rightarrow> delivery_db
       \<Rightarrow> delivery list result \<times> delivery_db" where
  "claim_batch f locked now started worker limit lease db =
     run_tx (map_option (wrap ''begin: '') (f CB_Begin))
       (map_option (wrap ''commit claim: '') (f CB_Commit))
       (\<lambda>db. guard (map_option (wrap ''claim query: '') (f CB_Query))
          (if limit < 0
           then Inl (wrap ''claim query: '' (PgError ''2201W'' ''LIMIT must not be negative''))
           else claim_loop f now worker (started + seconds 30) started
                  (claim_rows now locked limit db) db)) db"

section \<open>Reading a delivery\<close>

datatype get_call = GD_Query | GD_Decode

definition get_delivery ::
    "get_call faults \<Rightarrow> uuid \<Rightarrow> uuid \<Rightarrow> delivery_db \<Rightarrow> delivery result" where
  "get_delivery f tenant did db =
     guard (f GD_Query)
       (case List.find (\<lambda>d. d_id d = did \<and> d_tenant_id d = tenant) (db_deliveries db) of
          None \<Rightarrow> Inl Delivery_ErrNotFound
        | Some d \<Rightarrow> guard (f GD_Decode) (Inr d))"

section \<open>Recording an attempt\<close>

definition next_status :: "delivery \<Rightarrow> attempt_result \<Rightarrow> delivery_status" where
  "next_status d res =
     (case ar_status res of
        Success \<Rightarrow> DELIVERED
      | Retryable_Failure \<Rightarrow>
          (if rp_max_attempts (es_retry_policy (d_snapshot d)) \<le> d_attempt_count d then DLQ
           else RETRYING)
      | Permanent_Failure \<Rightarrow> FAILED)"

text \<open>Go's integer division truncates towards zero.\<close>

definition go_div :: "int \<Rightarrow> int \<Rightarrow> int" where
  "go_div a b = (if 0 \<le> a then a div b else - (- a div b))"

definition attempt_of :: "time \<Rightarrow> delivery \<Rightarrow> attempt_result \<Rightarrow> attempt_row" where
  "attempt_of go_now d res =
     \<lparr>at_delivery_id = d_id d, at_number = d_attempt_count d,
      at_started_at = pg_time (case d_last_attempt_at d of
                                 Some t \<Rightarrow> t | None \<Rightarrow> go_now - ar_latency res),
      at_completed_at = pg_time go_now, at_status = ar_status res,
      at_http_status = ar_http_status res, at_latency_ms = go_div (ar_latency res) 1000000,
      at_error_code = ar_error_code res, at_error_message = ar_error_message res,
      at_headers = ar_headers res, at_body = ar_body res\<rparr>"

definition text_option_ok :: "string option \<Rightarrow> bool" where
  "text_option_ok s = (case s of None \<Rightarrow> True | Some t \<Rightarrow> pg_text_ok t)"

text \<open>
  The insert into \<open>delivery_attempts\<close>: text must be valid, the delivery must exist and the
  attempt number must be new for it.
\<close>

definition insert_attempt :: "attempt_row \<Rightarrow> delivery_db \<Rightarrow> delivery_db result" where
  "insert_attempt a db =
     (if \<not> (pg_text_ok (at_body a) \<and> text_option_ok (at_error_message a))
      then Inl (PgError ''22021'' ''invalid byte sequence for encoding UTF8'')
      else if list_ex (\<lambda>b. at_delivery_id b = at_delivery_id a \<and> at_number b = at_number a)
                (db_attempts db)
      then Inl (pg_unique ''delivery_attempts_delivery_id_attempt_number_key'')
      else if find_row d_id (at_delivery_id a) (db_deliveries db) = None
      then Inl (pg_foreign_key ''delivery_attempts_delivery_id_fkey'')
      else Inr (db\<lparr>db_attempts := db_attempts db @ [a]\<rparr>))"

definition transition_row ::
    "time \<Rightarrow> delivery_status \<Rightarrow> attempt_result \<Rightarrow> time option \<Rightarrow> delivery \<Rightarrow> delivery" where
  "transition_row now st res next d =
     d\<lparr>d_status := st, d_last_status_code := ar_http_status res,
       d_last_error_code := ar_error_code res, d_last_error_message := ar_error_message res,
       d_lease_owner := None, d_lease_expires_at := None,
       d_completed_at := (if st = DELIVERED \<or> st = FAILED \<or> st = DLQ then Some now else None),
       d_next_attempt_at :=
         (if st = RETRYING then (case next of Some t \<Rightarrow> pg_time t | None \<Rightarrow> d_next_attempt_at d)
          else d_next_attempt_at d),
       d_updated_at := now\<rparr>"

definition transition_matches :: "delivery \<Rightarrow> delivery \<Rightarrow> bool" where
  "transition_matches d r \<longleftrightarrow> d_id r = d_id d \<and> d_status r = IN_PROGRESS"

text \<open>
  \<open>UPDATE deliveries \<dots> WHERE id=$1 AND status='IN_PROGRESS'\<close>: setting \<open>next_attempt_at\<close> of a
  matching row to null violates its constraint.
\<close>

definition transition ::
    "time \<Rightarrow> delivery \<Rightarrow> delivery_status \<Rightarrow> attempt_result \<Rightarrow> time option \<Rightarrow> delivery_db
       \<Rightarrow> delivery_db result" where
  "transition now d st res next db =
     (if st = RETRYING \<and> next = None \<and> list_ex (transition_matches d) (db_deliveries db)
      then Inl (pg_not_null ''next_attempt_at'')
      else Inr (db\<lparr>db_deliveries :=
             update_where (transition_matches d) (transition_row now st res next)
               (db_deliveries db)\<rparr>))"

datatype record_call = RA_Begin | RA_Insert | RA_Transition | RA_Commit

definition record_attempt ::
    "record_call faults \<Rightarrow> time \<Rightarrow> time \<Rightarrow> delivery \<Rightarrow> attempt_result \<Rightarrow> time option
       \<Rightarrow> delivery_db \<Rightarrow> unit result \<times> delivery_db" where
  "record_attempt f now go_now d res next db =
     run_tx (map_option (wrap ''begin: '') (f RA_Begin)) (f RA_Commit)
       (\<lambda>db. guard (map_option (wrap ''insert attempt: '') (f RA_Insert))
          (case insert_attempt (attempt_of go_now d res) db of
             Inl e \<Rightarrow> Inl (wrap ''insert attempt: '' e)
           | Inr db1 \<Rightarrow>
               guard (map_option (wrap ''transition delivery: '') (f RA_Transition))
                 (case transition now d (next_status d res) res next db1 of
                    Inl e \<Rightarrow> Inl (wrap ''transition delivery: '' e)
                  | Inr db2 \<Rightarrow> Inr ((), db2)))) db"

section \<open>Replaying\<close>

definition replay_row :: "time \<Rightarrow> uuid \<Rightarrow> delivery \<Rightarrow> delivery" where
  "replay_row now new_id original =
     \<lparr>d_id = new_id, d_tenant_id = d_tenant_id original, d_event_id = d_event_id original,
      d_endpoint_id = d_endpoint_id original, d_status = PENDING, d_attempt_count = 0,
      d_next_attempt_at = now, d_last_attempt_at = None, d_last_status_code = None,
      d_last_error_code = None, d_last_error_message = None, d_lease_owner = None,
      d_lease_expires_at = None, d_replay_of = Some (d_id original),
      d_snapshot = d_snapshot original, d_payload = d_payload original,
      d_created_at = now, d_updated_at = now, d_completed_at = None\<rparr>"

text \<open>\<open>new_id\<close> is the result of \<open>uuid.New()\<close>; the argument \<open>f\<close> is a failure of the one statement.\<close>

definition create_replay ::
    "error option \<Rightarrow> event_endpoint_index \<Rightarrow> time \<Rightarrow> uuid \<Rightarrow> delivery \<Rightarrow> delivery_db
       \<Rightarrow> uuid result \<times> delivery_db" where
  "create_replay f ix now new_id original db =
     (case guard f (insert_delivery ix (replay_row now new_id original) db) of
        Inl e \<Rightarrow> (Inl e, db)
      | Inr db' \<Rightarrow> (Inr new_id, db'))"

section \<open>The rows that the operations write\<close>

lemma new_delivery_simps [simp]:
  "d_id (new_delivery now i e ep) = i"
  "d_tenant_id (new_delivery now i e ep) = ea_tenant_id e"
  "d_event_id (new_delivery now i e ep) = ea_event_id e"
  "d_endpoint_id (new_delivery now i e ep) = esi_endpoint_id ep"
  "d_status (new_delivery now i e ep) = PENDING"
  "d_attempt_count (new_delivery now i e ep) = 0"
  "d_next_attempt_at (new_delivery now i e ep) = now"
  "d_replay_of (new_delivery now i e ep) = None"
  "d_payload (new_delivery now i e ep) = ea_payload e"
  by (simp_all add: new_delivery_def)

lemma replay_row_simps [simp]:
  "d_id (replay_row now i d) = i"
  "d_tenant_id (replay_row now i d) = d_tenant_id d"
  "d_event_id (replay_row now i d) = d_event_id d"
  "d_endpoint_id (replay_row now i d) = d_endpoint_id d"
  "d_status (replay_row now i d) = PENDING"
  "d_attempt_count (replay_row now i d) = 0"
  "d_next_attempt_at (replay_row now i d) = now"
  "d_replay_of (replay_row now i d) = Some (d_id d)"
  "d_snapshot (replay_row now i d) = d_snapshot d"
  "d_payload (replay_row now i d) = d_payload d"
  by (simp_all add: replay_row_def)

lemma claimed_copy_simps [simp]:
  "d_id (claimed_copy t d) = d_id d"
  "d_attempt_count (claimed_copy t d) = d_attempt_count d + 1"
  "d_snapshot (claimed_copy t d) = d_snapshot d"
  "d_last_attempt_at (claimed_copy t d) = Some t"
  by (simp_all add: claimed_copy_def)

lemma lease_row_simps [simp]:
  "d_id (lease_row now w x t d) = d_id d"
  "d_status (lease_row now w x t d) = IN_PROGRESS"
  "d_attempt_count (lease_row now w x t d) = d_attempt_count d + 1"
  "d_lease_expires_at (lease_row now w x t d) = Some (pg_time x)"
  "d_lease_owner (lease_row now w x t d) = Some w"
  "d_replay_of (lease_row now w x t d) = d_replay_of d"
  "d_event_id (lease_row now w x t d) = d_event_id d"
  "d_endpoint_id (lease_row now w x t d) = d_endpoint_id d"
  "d_snapshot (lease_row now w x t d) = d_snapshot d"
  by (simp_all add: lease_row_def)

lemma transition_row_simps [simp]:
  "d_id (transition_row now st res nx d) = d_id d"
  "d_status (transition_row now st res nx d) = st"
  "d_attempt_count (transition_row now st res nx d) = d_attempt_count d"
  "d_lease_owner (transition_row now st res nx d) = None"
  "d_lease_expires_at (transition_row now st res nx d) = None"
  "d_snapshot (transition_row now st res nx d) = d_snapshot d"
  by (simp_all add: transition_row_def)

end
