(* ===== verification/DeliveryInv.thy ===== *)
theory DeliveryInv
  imports DeliveryRepo
begin

text \<open>
  The invariant of the delivery store together with the copies of deliveries that workers
  hold, and its preservation by every operation of \<open>DeliveryRepo\<close>. A pair of a delivery and
  an attempt number is a token: claiming issues one, recording an attempt turns the token of
  the worker's copy into a row of \<open>delivery_attempts\<close>, and a worker that dies loses one. No
  token is ever issued twice.
\<close>

section \<open>The invariant\<close>

definition completed_status :: "delivery_status \<Rightarrow> bool" where
  "completed_status st \<longleftrightarrow> st = DELIVERED \<or> st = FAILED \<or> st = DLQ"

definition delivery_ok :: "delivery \<Rightarrow> bool" where
  "delivery_ok d \<longleftrightarrow>
     0 \<le> d_attempt_count d \<and> d_attempt_count d \<le> max_int4
     \<and> (d_status d = PENDING \<longleftrightarrow> d_attempt_count d = 0)
     \<and> (d_status d = IN_PROGRESS \<longleftrightarrow> d_lease_expires_at d \<noteq> None)
     \<and> (d_status d = IN_PROGRESS \<longleftrightarrow> d_lease_owner d \<noteq> None)
     \<and> (completed_status (d_status d) \<longleftrightarrow> d_completed_at d \<noteq> None)
     \<and> d_status d \<noteq> CANCELLED"

definition copy_key :: "delivery \<Rightarrow> uuid \<times> int" where
  "copy_key c = (d_id c, d_attempt_count c)"

definition attempt_key :: "attempt_row \<Rightarrow> uuid \<times> int" where
  "attempt_key a = (at_delivery_id a, at_number a)"

definition original_key :: "delivery \<Rightarrow> uuid \<times> uuid" where
  "original_key d = (d_event_id d, d_endpoint_id d)"

definition originals :: "delivery list \<Rightarrow> delivery list" where
  "originals rows = filter (\<lambda>d. d_replay_of d = None) rows"

definition tokens :: "delivery list \<Rightarrow> delivery_db \<Rightarrow> (uuid \<times> int) list" where
  "tokens cs db = map copy_key cs @ map attempt_key (db_attempts db)"

definition token_ok :: "delivery list \<Rightarrow> uuid \<times> int \<Rightarrow> bool" where
  "token_ok rows k \<longleftrightarrow> (\<exists>d\<in>set rows. d_id d = fst k \<and> 1 \<le> snd k \<and> snd k \<le> d_attempt_count d)"

definition worker_inv :: "delivery list \<Rightarrow> delivery_db \<Rightarrow> bool" where
  "worker_inv cs db \<longleftrightarrow>
     distinct (map d_id (db_deliveries db))
     \<and> list_all delivery_ok (db_deliveries db)
     \<and> distinct (map original_key (originals (db_deliveries db)))
     \<and> distinct (tokens cs db)
     \<and> list_all (token_ok (db_deliveries db)) (tokens cs db)"

definition db_inv :: "delivery_db \<Rightarrow> bool" where
  "db_inv db \<longleftrightarrow> worker_inv [] db"

lemma worker_inv_empty: "worker_inv [] empty_delivery_db"
  by (simp add: worker_inv_def empty_delivery_db_def originals_def tokens_def)

text \<open>A worker may stop without a trace: its copy is dropped.\<close>

lemma worker_inv_drop: "worker_inv (xs @ c # ys) db \<Longrightarrow> worker_inv (xs @ ys) db"
  by (auto simp: worker_inv_def tokens_def)

lemma worker_inv_db_inv: "worker_inv cs db \<Longrightarrow> db_inv db"
  by (auto simp: worker_inv_def db_inv_def tokens_def)

lemma worker_inv_ids: "worker_inv cs db \<Longrightarrow> distinct (map d_id (db_deliveries db))"
  by (simp add: worker_inv_def)

lemma worker_inv_ok: "worker_inv cs db \<Longrightarrow> d \<in> set (db_deliveries db) \<Longrightarrow> delivery_ok d"
  by (simp add: worker_inv_def list_all_iff)

section \<open>Updates that keep the identity of rows\<close>

lemma originals_update_where:
  assumes "\<And>r. P r \<Longrightarrow> original_key (g r) = original_key r \<and> d_replay_of (g r) = d_replay_of r"
  shows "map original_key (originals (update_where P g rows)) = map original_key (originals rows)"
  using assms by (induction rows) (auto simp: originals_def)

lemma token_ok_update_where:
  assumes "\<And>r. P r \<Longrightarrow> d_id (g r) = d_id r \<and> d_attempt_count r \<le> d_attempt_count (g r)"
    and "token_ok rows k"
  shows "token_ok (update_where P g rows) k"
proof -
  from assms(2) obtain d where d: "d \<in> set rows" "d_id d = fst k" "1 \<le> snd k"
      "snd k \<le> d_attempt_count d" by (auto simp: token_ok_def)
  let ?d = "if P d then g d else d"
  have "?d \<in> set (update_where P g rows)" using d(1) by (auto simp: set_update_where)
  moreover have "d_id ?d = fst k" "snd k \<le> d_attempt_count ?d"
    using assms(1) [of d] d by auto
  ultimately show ?thesis using d(3) unfolding token_ok_def by blast
qed

lemma worker_inv_update:
  assumes "worker_inv cs db"
    and "\<And>r. P r \<Longrightarrow> d_id (g r) = d_id r \<and> original_key (g r) = original_key r
                     \<and> d_replay_of (g r) = d_replay_of r \<and> d_attempt_count r \<le> d_attempt_count (g r)"
    and "\<And>r. r \<in> set (db_deliveries db) \<Longrightarrow> P r \<Longrightarrow> delivery_ok r \<Longrightarrow> delivery_ok (g r)"
  shows "worker_inv cs (db\<lparr>db_deliveries := update_where P g (db_deliveries db)\<rparr>)"
proof -
  have ids: "map d_id (update_where P g rs) = map d_id rs" for rs
    using assms(2) by (intro map_update_where) simp
  have org: "map original_key (originals (update_where P g rs)) = map original_key (originals rs)" for rs
    using assms(2) by (intro originals_update_where) simp
  have tok: "token_ok (update_where P g rs) k" if "token_ok rs k" for rs k
    using assms(2) that by (intro token_ok_update_where) simp_all
  show ?thesis
    using assms(1,3) tok
    by (auto simp: worker_inv_def ids org tokens_def list_all_iff set_update_where)
qed

section \<open>Inserting\<close>

lemma worker_inv_add:
  assumes "worker_inv cs db" and "insert_delivery ix d db = Inr db'" and "delivery_ok d"
  shows "worker_inv cs db'"
proof -
  from assms(2) have db': "db' = add_delivery d db"
    and new: "d_id d \<notin> d_id ` set (db_deliveries db)"
    and noc: "\<not> has_conflict ix d (db_deliveries db)"
    by (auto simp: insert_delivery_def find_row_None_iff split: if_splits)
  have "original_key d \<notin> original_key ` set (originals (db_deliveries db))" if "d_replay_of d = None"
    using noc that
    by (auto simp: has_conflict_def list_ex_iff index_conflict_def originals_def original_key_def)
  moreover have "token_ok (db_deliveries db @ [d]) k" if "token_ok (db_deliveries db) k" for k
    using that by (auto simp: token_ok_def)
  ultimately show ?thesis
    using assms(1,3) new
    by (auto simp: db' add_delivery_def worker_inv_def originals_def tokens_def list_all_iff)
qed

lemma delivery_ok_new: "delivery_ok (new_delivery now i e ep)"
  by (simp add: delivery_ok_def new_delivery_def completed_status_def max_int4_def)

lemma delivery_ok_replay: "delivery_ok (replay_row now i d)"
  by (simp add: delivery_ok_def replay_row_def completed_status_def max_int4_def)

lemma worker_inv_create_loop:
  "worker_inv cs db \<Longrightarrow> create_loop f ix now gen e i eps db = Inr db' \<Longrightarrow> worker_inv cs db'"
proof (induction eps arbitrary: i db)
  case Nil
  then show ?case by simp
next
  case (Cons ep eps)
  from Cons.prems(2) obtain db1 where
    ins: "insert_on_conflict ix (new_delivery now (gen i) e ep) db = Inr db1"
    and loop: "create_loop f ix now gen e (Suc i) eps db1 = Inr db'"
    by (auto simp: guard_Inr split: sum.splits)
  have "worker_inv cs db1"
    using ins Cons.prems(1) worker_inv_add [OF Cons.prems(1) _ delivery_ok_new]
    by (auto simp: insert_on_conflict_def split: event_endpoint_index.splits if_splits)
  then show ?case using loop by (rule Cons.IH)
qed

lemma worker_inv_create:
  assumes "worker_inv cs db"
  shows "worker_inv cs (snd (create_deliveries f ix now gen e eps db))"
  unfolding create_deliveries_def
  by (rule run_tx_preserves [where P = "worker_inv cs", OF assms])
    (auto dest: worker_inv_create_loop [OF assms] split: sum.splits)

lemma worker_inv_replay:
  assumes "worker_inv cs db"
  shows "worker_inv cs (snd (create_replay f ix now i d db))"
  using assms worker_inv_add [OF assms _ delivery_ok_replay]
  by (auto simp: create_replay_def guard_Inr split: sum.splits)

section \<open>Claiming\<close>

text \<open>
  What a claim that succeeds returns and does: the copies of the chosen rows in their order,
  and one update of exactly these rows.
\<close>

lemma claim_loop_result:
  assumes "claim_loop f now worker expires started ds db = Inr (cs, db')"
    and "distinct (map d_id ds)"
  shows "cs = map (claimed_copy started) ds
         \<and> db' = db\<lparr>db_deliveries :=
               update_where (\<lambda>r. d_id r \<in> d_id ` set ds) (lease_row now worker expires started)
                 (db_deliveries db)\<rparr>
         \<and> (\<forall>d\<in>set ds. d_attempt_count d < max_int4)"
  using assms
proof (induction ds arbitrary: db cs)
  case Nil
  then show ?case by (auto simp: guard_Inr update_where_none)
next
  case (Cons d ds)
  define db1 where "db1 = db\<lparr>db_deliveries :=
    update_where (\<lambda>r. d_id r = d_id d) (lease_row now worker expires started) (db_deliveries db)\<rparr>"
  from Cons.prems(1) obtain cs1 where
    loop: "claim_loop f now worker expires started ds db1 = Inr (cs1, db')"
    and cs: "cs = claimed_copy started d # cs1" and le: "d_attempt_count d < max_int4"
    by (auto simp: guard_Inr Let_def db1_def split: sum.splits if_splits)
  have merge: "update_where (\<lambda>r. d_id r \<in> d_id ` set ds) (lease_row now worker expires started)
      (update_where (\<lambda>r. d_id r = d_id d) (lease_row now worker expires started) rs)
    = update_where (\<lambda>r. d_id r \<in> d_id ` set (d # ds)) (lease_row now worker expires started) rs" for rs
    using Cons.prems(2) by (induction rs) (auto simp: lease_row_def)
  from Cons.IH [OF loop] Cons.prems(2) cs le show ?case
    unfolding db1_def merge [symmetric] by auto
qed

lemma claim_rows_subset:
  "d \<in> set (claim_rows now locked limit db) \<Longrightarrow>
     d \<in> set (db_deliveries db) \<and> claimable now d \<and> \<not> locked (d_id d)"
  unfolding claim_rows_def by (drule in_set_takeD) auto

lemma distinct_claim_rows:
  assumes "distinct (map d_id (db_deliveries db))"
  shows "distinct (map d_id (claim_rows now locked limit db))"
proof -
  let ?xs = "filter (\<lambda>d. claimable now d \<and> \<not> locked (d_id d)) (db_deliveries db)"
  have "distinct ?xs" "inj_on d_id (set ?xs)"
    using assms by (auto simp: distinct_map intro: inj_on_subset)
  then have "distinct (map d_id (sort_key (\<lambda>d. (d_next_attempt_at d, d_created_at d)) ?xs))"
    by (simp add: distinct_map)
  then show ?thesis unfolding claim_rows_def take_map [symmetric] by (rule distinct_take)
qed

lemma claim_batch_result:
  assumes "claim_batch f locked now started worker limit lease db = (Inr cs, db')"
    and "distinct (map d_id (db_deliveries db))"
  shows "cs = map (claimed_copy started) (claim_rows now locked limit db)
         \<and> db' = db\<lparr>db_deliveries :=
               update_where (\<lambda>r. d_id r \<in> d_id ` set (claim_rows now locked limit db))
                 (lease_row now worker (started + seconds 30) started) (db_deliveries db)\<rparr>
         \<and> (\<forall>d\<in>set (claim_rows now locked limit db). d_attempt_count d < max_int4)"
  using assms(1) claim_loop_result [OF _ distinct_claim_rows [OF assms(2)]]
  by (auto simp: claim_batch_def run_tx_commit guard_Inr split: if_splits)

lemma claimable_not_completed: "claimable now d \<Longrightarrow> \<not> completed_status (d_status d)"
  by (auto simp: claimable_def completed_status_def)

lemma delivery_ok_lease:
  assumes "delivery_ok d" "\<not> completed_status (d_status d)" "d_attempt_count d < max_int4"
  shows "delivery_ok (lease_row now worker expires started d)"
  using assms by (auto simp: delivery_ok_def lease_row_def completed_status_def)

text \<open>A claim counts the attempt, so no copy and no recorded attempt has its number.\<close>

lemma claimed_token_new:
  assumes "worker_inv cs db" and "r \<in> set (db_deliveries db)"
  shows "copy_key (claimed_copy t r) \<notin> set (tokens cs db)"
proof
  assume "copy_key (claimed_copy t r) \<in> set (tokens cs db)"
  then obtain d where "d \<in> set (db_deliveries db)" "d_id d = d_id r" "d_attempt_count r + 1 \<le> d_attempt_count d"
    using assms(1) by (auto simp: worker_inv_def list_all_iff token_ok_def copy_key_def claimed_copy_def)
  then show False using distinct_keys_eq [OF worker_inv_ids [OF assms(1)], of d r] assms(2) by simp
qed

lemma worker_inv_claim:
  assumes inv: "worker_inv cs db"
    and claim: "claim_batch f locked now started worker limit lease db = (Inr new, db')"
  shows "worker_inv (cs @ new) db'"
proof -
  define ds where "ds = claim_rows now locked limit db"
  define rows where "rows = db_deliveries db"
  have ids: "distinct (map d_id rows)" using inv by (simp add: worker_inv_def rows_def)
  from claim_batch_result [OF claim] ids
  have new: "new = map (claimed_copy started) ds"
    and db': "db' = db\<lparr>db_deliveries := update_where (\<lambda>r. d_id r \<in> d_id ` set ds)
                 (lease_row now worker (started + seconds 30) started) rows\<rparr>"
    and le: "\<forall>d\<in>set ds. d_attempt_count d < max_int4"
    by (simp_all add: ds_def rows_def)
  have sub: "d \<in> set rows \<and> claimable now d" if "d \<in> set ds" for d
    using claim_rows_subset that by (auto simp: ds_def rows_def)
  have mem: "r \<in> set ds" if "r \<in> set rows" "d_id r \<in> d_id ` set ds" for r
    using that sub distinct_keys_eq [OF ids] by blast
  have old: "worker_inv cs db'"
    unfolding db' rows_def
  proof (rule worker_inv_update [OF inv])
    fix r assume r: "r \<in> set (db_deliveries db)" "d_id r \<in> d_id ` set ds" "delivery_ok r"
    then have "r \<in> set ds" using mem by (simp add: rows_def)
    then show "delivery_ok (lease_row now worker (started + seconds 30) started r)"
      using r(3) sub le by (intro delivery_ok_lease) (auto dest: claimable_not_completed)
  qed (simp add: lease_row_def original_key_def)
  have "distinct (map copy_key new)"
    using distinct_claim_rows [of db now locked limit] ids
    by (auto simp: new ds_def rows_def distinct_map inj_on_def copy_key_def claimed_copy_def)
  moreover have "copy_key c \<notin> set (tokens cs db)" if "c \<in> set new" for c
    using that sub claimed_token_new [OF inv] by (auto simp: new rows_def)
  moreover have "token_ok (db_deliveries db') (copy_key c)" if "c \<in> set new" for c
  proof -
    from that obtain r where r: "r \<in> set ds" "copy_key c = (d_id r, d_attempt_count r + 1)"
      by (auto simp: new copy_key_def claimed_copy_def)
    let ?r = "lease_row now worker (started + seconds 30) started r"
    have "?r \<in> set (db_deliveries db')"
      using sub [OF r(1)] r(1) by (force simp: db' set_update_where)
    moreover have "0 \<le> d_attempt_count r"
      using inv sub [OF r(1)] by (auto simp: worker_inv_def list_all_iff rows_def delivery_ok_def)
    ultimately show ?thesis
      using r(2) unfolding token_ok_def by (intro bexI [of _ ?r]) (auto simp: lease_row_def)
  qed
  moreover have "db_attempts db' = db_attempts db" by (simp add: db')
  ultimately show ?thesis using old
    by (auto simp: worker_inv_def tokens_def list_all_iff) (metis image_eqI)+
qed

section \<open>Recording\<close>

lemma next_status_not_pending: "next_status d res \<noteq> PENDING" "next_status d res \<noteq> IN_PROGRESS"
    "next_status d res \<noteq> CANCELLED"
  by (auto simp: next_status_def split: result_status.splits)

lemma delivery_ok_transition:
  assumes "delivery_ok r" "d_status r = IN_PROGRESS" "st \<noteq> PENDING" "st \<noteq> IN_PROGRESS" "st \<noteq> CANCELLED"
  shows "delivery_ok (transition_row now st res next r)"
  using assms by (auto simp: delivery_ok_def transition_row_def completed_status_def)

lemma record_attempt_result:
  assumes "record_attempt f now go_now c res next db = (Inr (), db')"
  shows "insert_attempt (attempt_of go_now c res) db = Inr (db\<lparr>db_attempts := db_attempts db @ [attempt_of go_now c res]\<rparr>)
    \<and> db' = db\<lparr>db_attempts := db_attempts db @ [attempt_of go_now c res],
                db_deliveries := update_where (transition_matches c)
                  (transition_row now (next_status c res) res next) (db_deliveries db)\<rparr>"
proof -
  from assms obtain db1 where
    i: "insert_attempt (attempt_of go_now c res) db = Inr db1"
    and t: "transition now c (next_status c res) res next db1 = Inr db'"
    by (auto simp: record_attempt_def run_tx_commit guard_Inr split: sum.splits)
  from i have "db1 = db\<lparr>db_attempts := db_attempts db @ [attempt_of go_now c res]\<rparr>"
    by (auto simp: insert_attempt_def split: if_splits)
  with i t show ?thesis by (auto simp: transition_def split: if_splits)
qed

lemma worker_inv_record:
  assumes inv: "worker_inv (xs @ c # ys) db"
  shows "worker_inv (xs @ ys) (snd (record_attempt f now go_now c res next db))"
proof (cases "fst (record_attempt f now go_now c res next db)")
  case (Inl e)
  then have "snd (record_attempt f now go_now c res next db) = db"
    unfolding record_attempt_def by (metis prod.collapse run_tx_atomic)
  then show ?thesis using worker_inv_drop [OF inv] by simp
next
  case (Inr u)
  define db1 where "db1 = db\<lparr>db_attempts := db_attempts db @ [attempt_of go_now c res]\<rparr>"
  have r: "record_attempt f now go_now c res next db
             = (Inr (), snd (record_attempt f now go_now c res next db))"
    using Inr by (metis prod.collapse unit.exhaust)
  have db': "snd (record_attempt f now go_now c res next db)
      = db1\<lparr>db_deliveries := update_where (transition_matches c)
              (transition_row now (next_status c res) res next) (db_deliveries db1)\<rparr>"
    using record_attempt_result [OF r] by (simp add: db1_def)
  have "attempt_key (attempt_of go_now c res) = copy_key c"
    by (simp add: attempt_key_def attempt_of_def copy_key_def)
  then have one: "worker_inv (xs @ ys) db1"
    using inv by (auto simp: worker_inv_def tokens_def db1_def)
  show ?thesis unfolding db'
  proof (rule worker_inv_update [OF one])
    fix r assume "transition_matches c r" "delivery_ok r"
    then show "delivery_ok (transition_row now (next_status c res) res next r)"
      using next_status_not_pending [of c res]
      by (intro delivery_ok_transition) (auto simp: transition_matches_def)
  qed (simp add: transition_row_def original_key_def)
qed

end
