(* ===== verification/Float64.thy ===== *)
theory Float64
  imports Prelude Complex_Main "HOL-Library.Log_Nat"
begin

text \<open>
  Go's \<open>float64\<close> (IEEE 754 binary64, round to nearest, ties to even), as far as the delay
  computations use it: conversion from integers, product, sum, division by a constant,
  powers of two, comparison, and the conversion to \<open>int64\<close>. A finite value is the rational
  number it stands for; the sign of a zero is not kept, since no operation used here
  can observe it.
\<close>

named_theorems float_simps \<open>exact floating point operations\<close>

section \<open>Rounding a rational number\<close>

definition round_even :: "rat \<Rightarrow> int" where
  "round_even x =
     (let n = \<lfloor>x\<rfloor>; r = x - of_int n
      in if r < 1/2 then n else if 1/2 < r then n + 1 else if even n then n else n + 1)"

text \<open>The exponent of the last place of the 53 bit significand of a positive number.\<close>

definition unit_scale :: rat where
  "unit_scale = 2 ^ 1074"

definition ulp_exp :: "rat \<Rightarrow> int" where
  "ulp_exp x = max (- 1074) (bitlen \<lfloor>x * unit_scale\<rfloor> - 1 - 1074 - 52)"

definition round_pos :: "rat \<Rightarrow> rat" where
  "round_pos x = of_int (round_even (x / 2 powi ulp_exp x)) * 2 powi ulp_exp x"

definition round64 :: "rat \<Rightarrow> rat" where
  "round64 x = (if x = 0 then 0 else if 0 < x then round_pos x else - round_pos (- x))"

section \<open>Values and operations\<close>

datatype f64 = Fin rat | PosInf | NegInf | NaN

definition to_f64 :: "rat \<Rightarrow> f64" where
  "to_f64 x =
     (let r = round64 x
      in if 2 ^ 1024 \<le> r then PosInf else if r \<le> - (2 ^ 1024) then NegInf else Fin r)"

definition f64_of_int :: "int \<Rightarrow> f64" where
  "f64_of_int n = to_f64 (of_int n)"

definition inf_of_sign :: "rat \<Rightarrow> f64" where
  "inf_of_sign x = (if x = 0 then NaN else if 0 < x then PosInf else NegInf)"

fun f64_neg :: "f64 \<Rightarrow> f64" where
  "f64_neg (Fin x) = Fin (- x)"
| "f64_neg PosInf = NegInf"
| "f64_neg NegInf = PosInf"
| "f64_neg NaN = NaN"

fun f64_mul :: "f64 \<Rightarrow> f64 \<Rightarrow> f64" where
  "f64_mul NaN _ = NaN"
| "f64_mul _ NaN = NaN"
| "f64_mul (Fin x) (Fin y) = to_f64 (x * y)"
| "f64_mul (Fin x) PosInf = inf_of_sign x"
| "f64_mul (Fin x) NegInf = f64_neg (inf_of_sign x)"
| "f64_mul PosInf (Fin y) = inf_of_sign y"
| "f64_mul NegInf (Fin y) = f64_neg (inf_of_sign y)"
| "f64_mul PosInf PosInf = PosInf"
| "f64_mul NegInf NegInf = PosInf"
| "f64_mul _ _ = NegInf"

fun f64_add :: "f64 \<Rightarrow> f64 \<Rightarrow> f64" where
  "f64_add NaN _ = NaN"
| "f64_add _ NaN = NaN"
| "f64_add (Fin x) (Fin y) = to_f64 (x + y)"
| "f64_add PosInf NegInf = NaN"
| "f64_add NegInf PosInf = NaN"
| "f64_add PosInf _ = PosInf"
| "f64_add _ PosInf = PosInf"
| "f64_add NegInf _ = NegInf"
| "f64_add _ NegInf = NegInf"

text \<open>Division by a positive constant.\<close>

fun f64_div_pos :: "f64 \<Rightarrow> rat \<Rightarrow> f64" where
  "f64_div_pos (Fin x) c = to_f64 (x / c)"
| "f64_div_pos v c = v"

text \<open>\<open>math.Pow(2, n)\<close> for a natural exponent: exact, and infinite from 1024 on.\<close>

definition f64_pow2 :: "nat \<Rightarrow> f64" where
  "f64_pow2 n = (if n < 1024 then Fin (2 ^ n) else PosInf)"

fun f64_less :: "f64 \<Rightarrow> f64 \<Rightarrow> bool" where
  "f64_less NaN _ = False"
| "f64_less _ NaN = False"
| "f64_less (Fin x) (Fin y) = (x < y)"
| "f64_less NegInf NegInf = False"
| "f64_less NegInf _ = True"
| "f64_less PosInf _ = False"
| "f64_less _ PosInf = True"
| "f64_less (Fin _) NegInf = False"

text \<open>
  \<open>int64(v)\<close> truncates towards zero. Where the truncated value does not fit, Go leaves the
  result to the implementation: the parameter \<open>impl\<close>.
\<close>

definition trunc_rat :: "rat \<Rightarrow> int" where
  "trunc_rat x = (if 0 \<le> x then \<lfloor>x\<rfloor> else - \<lfloor>- x\<rfloor>)"

fun f64_to_int64 :: "(f64 \<Rightarrow> 64 word) \<Rightarrow> f64 \<Rightarrow> 64 word" where
  "f64_to_int64 impl (Fin x) =
     (if - (2 ^ 63) \<le> trunc_rat x \<and> trunc_rat x < 2 ^ 63 then word_of_int (trunc_rat x)
      else impl (Fin x))"
| "f64_to_int64 impl v = impl v"

section \<open>Laws of rounding\<close>

lemma round_even_of_int [simp]: "round_even (of_int n) = n"
  by (simp add: round_even_def)

lemma round_even_bounds: "\<lfloor>x\<rfloor> \<le> round_even x" "round_even x \<le> \<lfloor>x\<rfloor> + 1"
  by (simp_all add: round_even_def Let_def)

lemma round_even_mono:
  assumes "x \<le> y"
  shows "round_even x \<le> round_even y"
proof (cases "\<lfloor>x\<rfloor> = \<lfloor>y\<rfloor>")
  case True
  with assms show ?thesis by (auto simp: round_even_def Let_def)
next
  case False
  have "\<lfloor>x\<rfloor> \<le> \<lfloor>y\<rfloor>" using assms by (rule floor_mono)
  with False have "\<lfloor>x\<rfloor> + 1 \<le> \<lfloor>y\<rfloor>" by linarith
  then show ?thesis using round_even_bounds(2) [of x] round_even_bounds(1) [of y] by linarith
qed

lemma ulp_exp_ge: "- 1074 \<le> ulp_exp x"
  by (simp add: ulp_exp_def)

lemma unit_scale_powi: "unit_scale = 2 powi 1074"
  unfolding unit_scale_def by (simp only: power_int_numeral)

lemma unit_scale_pos: "0 < unit_scale"
  by (simp add: unit_scale_powi)

lemma div_unit_scale: "2 powi k / unit_scale = 2 powi (k - 1074)"
  by (simp add: unit_scale_powi power_int_diff)

lemma two_power_nat: "0 \<le> k \<Longrightarrow> of_int (2 ^ nat k) = (2 :: rat) powi k"
  by (simp add: power_int_def)

lemma ulp_exp_upper:
  assumes "0 < x"
  shows "x < 2 powi (ulp_exp x + 53)"
proof -
  define m where "m = \<lfloor>x * unit_scale\<rfloor>"
  have m0: "0 \<le> m" using assms unit_scale_pos by (simp add: m_def less_imp_le)
  have "m < 2 ^ nat (bitlen m)"
  proof (cases "m = 0")
    case False
    with m0 have "0 < m" by simp
    then show ?thesis using bitlen_bounds by blast
  qed simp
  then have "x * unit_scale < of_int (2 ^ nat (bitlen m))"
    unfolding m_def by (simp only: floor_less_iff)
  then have "x * unit_scale < 2 powi (bitlen m)"
    by (simp only: two_power_nat bitlen_nonneg)
  then have "x < 2 powi (bitlen m - 1074)"
    by (simp add: div_unit_scale [symmetric] pos_less_divide_eq unit_scale_pos)
  also have "\<dots> \<le> 2 powi (ulp_exp x + 53)"
    by (rule power_int_increasing) (simp_all add: ulp_exp_def m_def)
  finally show ?thesis .
qed

lemma ulp_exp_lower:
  assumes "0 < x" and "- 1074 < ulp_exp x"
  shows "2 powi (ulp_exp x + 52) \<le> x"
proof -
  define m where "m = \<lfloor>x * unit_scale\<rfloor>"
  from assms have e: "ulp_exp x = bitlen m - 1 - 1074 - 52" and b: "53 < bitlen m"
    by (auto simp: ulp_exp_def m_def max_def split: if_splits)
  have "0 \<le> m" using assms unit_scale_pos by (simp add: m_def less_imp_le)
  moreover have "m \<noteq> 0" using b by auto
  ultimately have "2 ^ nat (bitlen m - 1) \<le> m" using bitlen_bounds [of m] by simp
  then have "of_int (2 ^ nat (bitlen m - 1)) \<le> x * unit_scale"
    unfolding m_def by (simp only: le_floor_iff)
  then have "2 powi (bitlen m - 1) \<le> x * unit_scale"
    using b by (simp only: two_power_nat)
  then have "2 powi (bitlen m - 1 - 1074) \<le> x"
    by (simp only: div_unit_scale [symmetric] pos_divide_le_eq unit_scale_pos)
  then show ?thesis by (simp add: e)
qed

lemma ulp_exp_mono: "0 < x \<Longrightarrow> x \<le> y \<Longrightarrow> ulp_exp x \<le> ulp_exp y"
proof -
  assume "0 < x" "x \<le> y"
  then have "bitlen \<lfloor>x * unit_scale\<rfloor> \<le> bitlen \<lfloor>y * unit_scale\<rfloor>"
    unfolding bitlen_def
    by (intro of_nat_mono floorlog_mono nat_mono floor_mono mult_right_mono)
      (simp_all add: unit_scale_pos less_imp_le)
  then show ?thesis by (simp add: ulp_exp_def)
qed

lemma round_pos_le_pow:
  assumes "x \<le> 2 powi k" and "ulp_exp x \<le> k"
  shows "round_pos x \<le> 2 powi k"
proof -
  let ?e = "ulp_exp x"
  have n: "2 powi k / 2 powi ?e = (of_int (2 ^ nat (k - ?e)) :: rat)"
    using assms(2) by (simp add: power_int_diff [symmetric]) (simp add: power_int_def)
  have "x / 2 powi ?e \<le> 2 powi k / 2 powi ?e"
    using assms(1) by (simp add: divide_right_mono)
  then have "round_even (x / 2 powi ?e) \<le> 2 ^ nat (k - ?e)"
    using round_even_mono n by (metis round_even_of_int)
  then have "of_int (round_even (x / 2 powi ?e)) \<le> 2 powi k / (2 powi ?e :: rat)"
    unfolding n by (simp only: of_int_le_iff)
  then show ?thesis by (simp add: round_pos_def pos_le_divide_eq)
qed

lemma round_pos_ge_pow:
  assumes "2 powi k \<le> x" and "ulp_exp x \<le> k"
  shows "2 powi k \<le> round_pos x"
proof -
  let ?e = "ulp_exp x"
  have n: "2 powi k / 2 powi ?e = (of_int (2 ^ nat (k - ?e)) :: rat)"
    using assms(2) by (simp add: power_int_diff [symmetric]) (simp add: power_int_def)
  have "2 powi k / 2 powi ?e \<le> x / 2 powi ?e"
    using assms(1) by (simp add: divide_right_mono)
  then have "2 ^ nat (k - ?e) \<le> round_even (x / 2 powi ?e)"
    using round_even_mono n by (metis round_even_of_int)
  then have "2 powi k / (2 powi ?e :: rat) \<le> of_int (round_even (x / 2 powi ?e))"
    unfolding n by (simp only: of_int_le_iff)
  then show ?thesis by (simp add: round_pos_def pos_divide_le_eq)
qed

lemma round_pos_mono:
  assumes "0 < x" and "x \<le> y"
  shows "round_pos x \<le> round_pos y"
proof (cases "ulp_exp x = ulp_exp y")
  case True
  have "round_even (x / 2 powi ulp_exp y) \<le> round_even (y / 2 powi ulp_exp y)"
    using assms(2) by (intro round_even_mono divide_right_mono) simp_all
  then show ?thesis by (simp add: round_pos_def True)
next
  case False
  with ulp_exp_mono [OF assms] have lt: "ulp_exp x < ulp_exp y" by simp
  have "round_pos x \<le> 2 powi (ulp_exp x + 53)"
    using ulp_exp_upper [OF assms(1)] by (intro round_pos_le_pow) simp_all
  also have "\<dots> \<le> 2 powi (ulp_exp y + 52)"
    using lt by (intro power_int_increasing) simp_all
  also have "\<dots> \<le> round_pos y"
    using assms lt ulp_exp_ge [of x]
    by (intro round_pos_ge_pow ulp_exp_lower) simp_all
  finally show ?thesis .
qed

lemma round_pos_nonneg: "0 < x \<Longrightarrow> 0 \<le> round_pos x"
proof -
  assume "0 < x"
  then have "0 \<le> \<lfloor>x / 2 powi ulp_exp x\<rfloor>" by simp
  then have "0 \<le> round_even (x / 2 powi ulp_exp x)"
    using round_even_bounds(1) by (rule order_trans)
  then show ?thesis by (simp add: round_pos_def)
qed

lemma round64_mono: "x \<le> y \<Longrightarrow> round64 x \<le> round64 y"
proof -
  assume xy: "x \<le> y"
  consider "0 < x" | "y < 0" | "x \<le> 0" "0 \<le> y" by linarith
  then show ?thesis
  proof cases
    case 1
    with xy show ?thesis by (simp add: round64_def round_pos_mono)
  next
    case 2
    with xy show ?thesis by (simp add: round64_def round_pos_mono)
  next
    case 3
    then have "round64 x \<le> 0" "0 \<le> round64 y"
      using round_pos_nonneg [of y] round_pos_nonneg [of "- x"] by (auto simp: round64_def)
    then show ?thesis by simp
  qed
qed

lemma round64_minus: "round64 (- x) = - round64 x"
  by (simp add: round64_def)

lemma round_pos_integral:
  assumes "x / 2 powi ulp_exp x = of_int n"
  shows "round_pos x = x"
proof -
  have "round_pos x = (x / 2 powi ulp_exp x) * 2 powi ulp_exp x"
    by (simp add: round_pos_def assms)
  then show ?thesis by simp
qed

text \<open>Every number with a significand of at most 53 bits is represented exactly.\<close>

lemma round_pos_exact:
  assumes "0 < m" and "m \<le> 2 ^ 53" and "- 1074 \<le> k" and x: "x = of_int m * 2 powi k"
  shows "round_pos x = x"
proof -
  define e where "e = ulp_exp x"
  have x0: "0 < x" using assms by simp
  have "of_int m \<le> (2 :: rat) powi 53"
    using assms(2) by (simp only: two_power_nat [symmetric] of_int_le_iff) simp
  then have "x \<le> 2 powi 53 * 2 powi k"
    unfolding x by (rule mult_right_mono) simp
  then have xle: "x \<le> 2 powi (53 + k)" by (simp add: power_int_add)
  show ?thesis
  proof (cases "e \<le> k")
    case True
    have "x / 2 powi e = of_int m * 2 powi (k - e)"
      unfolding x by (simp add: power_int_diff)
    also have "\<dots> = of_int (m * 2 ^ nat (k - e))"
      unfolding of_int_mult using True by (subst two_power_nat) simp_all
    finally show ?thesis unfolding e_def by (rule round_pos_integral)
  next
    case False
    with assms(3) have low: "2 powi (e + 52) \<le> x"
      unfolding e_def by (intro ulp_exp_lower x0) simp
    from this xle have "(2::rat) powi (e + 52) \<le> 2 powi (53 + k)" by (rule order_trans)
    moreover have "(2::rat) powi (53 + k) < 2 powi (e + 52)" if "53 + k < e + 52"
      using that by (rule power_int_strict_increasing) simp
    ultimately have "\<not> 53 + k < e + 52" by (meson not_le)
    with False have e: "e = k + 1" by simp
    with low xle have "x = 2 powi (52 + e)" by (simp add: add.commute)
    then have "x / 2 powi e = of_int (2 ^ 52)" by (simp add: power_int_add)
    then show ?thesis unfolding e_def by (rule round_pos_integral)
  qed
qed

lemma round64_exact:
  assumes "\<bar>m\<bar> \<le> 2 ^ 53" and "- 1074 \<le> k"
  shows "round64 (of_int m * 2 powi k) = of_int m * 2 powi k"
proof -
  consider "m = 0" | "0 < m" | "m < 0" by linarith
  then show ?thesis
  proof cases
    case 2
    then have "0 < (of_int m * 2 powi k :: rat)" by simp
    then show ?thesis using 2 assms round_pos_exact [of m k] by (simp add: round64_def)
  next
    case 3
    then have "(of_int m * 2 powi k :: rat) < 0" by (simp add: mult_neg_pos)
    then show ?thesis using 3 assms round_pos_exact [of "- m" k]
      by (simp add: round64_def)
  qed (simp add: round64_def)
qed

lemma round64_int: "\<bar>m\<bar> \<le> 2 ^ 53 \<Longrightarrow> round64 (of_int m) = of_int m"
  using round64_exact [of m 0] by simp

lemma round64_bounds:
  assumes "of_int a \<le> x" and "x \<le> of_int b" and "\<bar>a\<bar> \<le> 2 ^ 53" and "\<bar>b\<bar> \<le> 2 ^ 53"
  shows "of_int a \<le> round64 x \<and> round64 x \<le> of_int b"
  using round64_mono [OF assms(1)] round64_mono [OF assms(2)] round64_int assms(3,4) by simp

text \<open>A number of up to 44 bits before the point is rounded by at most one part in 1024.\<close>

lemma round_even_close: "\<bar>of_int (round_even x) - x\<bar> \<le> 1/2"
proof -
  have "of_int \<lfloor>x\<rfloor> \<le> x" "x < of_int \<lfloor>x\<rfloor> + 1" by linarith+
  then show ?thesis by (auto simp: round_even_def Let_def abs_le_iff)
qed

lemma round_pos_close:
  assumes "0 < x" and "x \<le> 2 ^ 43"
  shows "\<bar>round_pos x - x\<bar> \<le> 1/1024"
proof -
  define w where "w = (2 :: rat) powi ulp_exp x"
  have "ulp_exp x \<le> - 9"
  proof (rule ccontr)
    assume "\<not> ulp_exp x \<le> - 9"
    then have e: "- 1074 < ulp_exp x" "43 < ulp_exp x + 52" by simp_all
    have "2 powi (ulp_exp x + 52) \<le> x" by (rule ulp_exp_lower [OF assms(1) e(1)])
    also have "\<dots> \<le> 2 powi 43" using assms(2) by simp
    also have "\<dots> < 2 powi (ulp_exp x + 52)" by (rule power_int_strict_increasing [OF e(2)]) simp
    finally show False by simp
  qed
  then have "w \<le> 2 powi (- 9)" unfolding w_def by (rule power_int_increasing) simp
  then have w: "0 < w" "w \<le> 1/512" by (simp_all add: w_def power_int_minus)
  have "round_pos x - x = (of_int (round_even (x / w)) - x / w) * w"
    using w(1) by (simp add: round_pos_def left_diff_distrib flip: w_def)
  then have "\<bar>round_pos x - x\<bar> = \<bar>of_int (round_even (x / w)) - x / w\<bar> * w"
    using w(1) by (simp add: abs_mult)
  also have "\<dots> \<le> 1/2 * w" using round_even_close w(1) by (intro mult_right_mono) simp_all
  finally show ?thesis using w(2) by simp
qed

lemma round64_close: "\<bar>x\<bar> \<le> 2 ^ 43 \<Longrightarrow> \<bar>round64 x - x\<bar> \<le> 1/1024"
  using round_pos_close [of x] round_pos_close [of "- x"] by (auto simp: round64_def abs_if split: if_splits)

end
