(* ===== verification/Backoff.thy ===== *)
theory Backoff
  imports Float64
begin

text \<open>
  The two retry delays of the program: \<open>retry.NextDelay\<close> of the delivery service
  (delivery-service/internal/retry/backoff.go) and \<open>retryDelay\<close> of the endpoint service's
  outbox relay (endpoint-service/internal/outbox/relay.go), over \<open>Float64\<close>. The random
  number is an argument: \<open>rand.Float64\<close> returns \<open>k / 2 ^ 53\<close> for a \<open>k < 2 ^ 53\<close>, so the
  factor \<open>rand.Float64() * 2 - 1\<close> is a number of [-1, 1) that float64 represents exactly.
  The result is a \<open>time.Duration\<close>: an \<open>int64\<close> number of nanoseconds, with the
  wrap-around of the multiplication by \<open>time.Millisecond\<close>.
\<close>

record backoff_policy =
  bp_backoff_type :: string
  bp_initial_delay_ms :: int
  bp_max_delay_ms :: int
  bp_jitter_percent :: int

text \<open>The delay before jitter, in milliseconds.\<close>

definition base_delay :: "backoff_policy \<Rightarrow> int \<Rightarrow> f64" where
  "base_delay policy n =
     (let n = (if n < 1 then 1 else n);
          base = (if bp_backoff_type policy = ''linear''
                  then f64_mul (f64_of_int (bp_initial_delay_ms policy)) (f64_of_int n)
                  else f64_mul (f64_of_int (bp_initial_delay_ms policy)) (f64_pow2 (nat (n - 1))))
      in if 0 < bp_max_delay_ms policy \<and> f64_less (f64_of_int (bp_max_delay_ms policy)) base
         then f64_of_int (bp_max_delay_ms policy) else base)"

definition next_delay ::
    "(f64 \<Rightarrow> 64 word) \<Rightarrow> nat \<Rightarrow> backoff_policy \<Rightarrow> int \<Rightarrow> 64 word" where
  "next_delay impl rnd policy n =
     (let base = base_delay policy n;
          base = (if 0 < bp_jitter_percent policy
                  then let jitter = f64_div_pos (f64_mul base (f64_of_int (bp_jitter_percent policy))) 100;
                           factor = Fin ((of_nat rnd - 2 ^ 52) / 2 ^ 52)
                       in f64_add base (f64_mul factor jitter)
                  else base);
          base = (if f64_less base (Fin 0) then Fin 0 else base)
      in f64_to_int64 impl base * 1000000)"

definition retry_delay :: "(f64 \<Rightarrow> 64 word) \<Rightarrow> int \<Rightarrow> 64 word" where
  "retry_delay impl n =
     (let n = (if n < 1 then 1 else n);
          secs = f64_pow2 (nat (n - 1));
          secs = (if f64_less (Fin 300) secs then Fin 300 else secs)
      in f64_to_int64 impl secs * 1000000000)"

section \<open>Exact operations on small integers\<close>

lemma pow53_less: "of_int (2 ^ 53) < (2 :: rat) ^ 1024"
proof -
  have "(2 :: rat) ^ 53 < 2 ^ 1024" by (rule power_strict_increasing) simp_all
  then show ?thesis by (simp only: of_int_power of_int_numeral)
qed

lemma to_f64_Fin:
  assumes "of_int a \<le> x" "x \<le> of_int b" "\<bar>a\<bar> \<le> 2 ^ 53" "\<bar>b\<bar> \<le> 2 ^ 53"
  shows "\<exists>r. to_f64 x = Fin r \<and> of_int a \<le> r \<and> r \<le> of_int b"
proof -
  have r: "of_int a \<le> round64 x" "round64 x \<le> of_int b"
    using round64_bounds [OF assms] by simp_all
  have "(of_int b :: rat) \<le> of_int (2 ^ 53)" "(of_int (- (2 ^ 53)) :: rat) \<le> of_int a"
    unfolding of_int_le_iff using assms(3,4) by linarith+
  then have "round64 x < 2 ^ 1024" "- (2 ^ 1024) < round64 x"
    using r pow53_less unfolding of_int_minus by linarith+
  then show ?thesis using r by (simp add: to_f64_def Let_def not_le [symmetric])
qed

lemma to_f64_int [float_simps]: "\<bar>m\<bar> \<le> 2 ^ 53 \<Longrightarrow> to_f64 (of_int m) = Fin (of_int m)"
  using to_f64_Fin [of m "of_int m" m] by force

lemma f64_of_int_small [float_simps]: "\<bar>m\<bar> \<le> 2 ^ 53 \<Longrightarrow> f64_of_int m = Fin (of_int m)"
  by (simp add: f64_of_int_def to_f64_int)

text \<open>A product with a power of two is exact or overflows.\<close>

lemma to_f64_pow2_mult:
  assumes "0 < m" and "m \<le> 2 ^ 53"
  shows "to_f64 (of_int m * 2 ^ j) =
           (if 2 ^ 1024 \<le> (of_int m * 2 ^ j :: rat) then PosInf else Fin (of_int m * 2 ^ j))"
proof -
  have "round64 (of_int m * 2 ^ j) = of_int m * 2 ^ j"
    using round64_exact [of m "int j"] assms by simp
  moreover have "0 < (of_int m * 2 ^ j :: rat)" using assms by simp
  then have "\<not> (of_int m * 2 ^ j :: rat) \<le> - (2 ^ 1024)"
    by (simp only: not_le) (rule less_trans [of _ 0], simp_all)
  ultimately show ?thesis by (simp only: to_f64_def Let_def if_False)
qed

section \<open>The capped base delay\<close>

text \<open>
  With a positive cap and a positive initial delay that float64 represents, the base is the
  exact value where it is below the cap, and the cap elsewhere; a number of attempts so
  large that the power overflows float64 also gives the cap.
\<close>

text \<open>A delay doubled \<open>j\<close> times is exact, until it is too large for any finite number.\<close>

lemma f64_doubled:
  assumes "0 < i" "i \<le> 2 ^ 53"
  shows "f64_mul (Fin (of_int i)) (f64_pow2 j)
    = (if 2 ^ 1024 \<le> (of_int i * 2 ^ j :: rat) then PosInf else Fin (of_int i * 2 ^ j))"
proof (cases "j < 1024")
  case True
  then have "f64_mul (Fin (of_int i)) (f64_pow2 j) = to_f64 (of_int i * 2 ^ j)" unfolding f64_pow2_def by simp
  then show ?thesis using to_f64_pow2_mult [OF assms] by simp
next
  case False
  then have "(2::rat) ^ 1024 \<le> 2 ^ j" by (intro power_increasing) simp_all
  also have "\<dots> \<le> of_int i * 2 ^ j" using assms by simp
  finally have big: "(2::rat) ^ 1024 \<le> of_int i * 2 ^ j" .
  have "f64_mul (Fin (of_int i)) (f64_pow2 j) = PosInf"
    using False assms(1) unfolding f64_pow2_def by (simp add: inf_of_sign_def)
  then show ?thesis using big by (simp only: if_True)
qed

lemma f64_doubled_capped:
  assumes "0 < i" "i \<le> 2 ^ 53" "m \<le> 2 ^ 53"
  shows "(if f64_less (Fin (of_int m)) (f64_mul (Fin (of_int i)) (f64_pow2 j)) then Fin (of_int m)
          else f64_mul (Fin (of_int i)) (f64_pow2 j)) = Fin (of_int (min (i * 2 ^ j) m))"
proof (cases "2 ^ 1024 \<le> (of_int i * 2 ^ j :: rat)")
  case True
  have "(of_int m :: rat) \<le> of_int (2 ^ 53)" using assms(3) by (simp only: of_int_le_iff)
  also have "\<dots> < 2 ^ 1024" by (rule pow53_less)
  also note True
  finally have "(of_int m :: rat) < of_int (i * 2 ^ j)" by simp
  then have "m \<le> i * 2 ^ j" by (simp only: of_int_less_iff)
  then show ?thesis using True unfolding f64_doubled [OF assms(1,2)] by simp
next
  case False
  then have b: "f64_mul (Fin (of_int i)) (f64_pow2 j) = Fin (of_int (i * 2 ^ j))"
    using f64_doubled [OF assms(1,2), of j] by simp
  show ?thesis unfolding b by (simp only: f64_less.simps of_int_less_iff) (simp add: min_def)
qed

lemma base_delay_exponential:
  assumes "bp_backoff_type p \<noteq> ''linear''"
    and "0 < bp_initial_delay_ms p" "bp_initial_delay_ms p \<le> 2 ^ 53"
    and "0 < bp_max_delay_ms p" "bp_max_delay_ms p \<le> 2 ^ 53"
  shows "base_delay p n =
           Fin (of_int (min (bp_initial_delay_ms p * 2 ^ nat (max 1 n - 1)) (bp_max_delay_ms p)))"
proof -
  define i where "i = bp_initial_delay_ms p"
  define m where "m = bp_max_delay_ms p"
  define j where "j = nat (max 1 n - 1)"
  have i: "0 < i" "i \<le> 2 ^ 53" and m: "0 < m" "m \<le> 2 ^ 53"
    using assms by (simp_all add: i_def m_def)
  have f: "f64_of_int i = Fin (of_int i)" "f64_of_int m = Fin (of_int m)"
    using i m by (simp_all add: f64_of_int_small)
  have "nat ((if n < 1 then 1 else n) - 1) = j" by (simp add: j_def max_def)
  then have "base_delay p n =
      (if f64_less (f64_of_int m) (f64_mul (f64_of_int i) (f64_pow2 j)) then f64_of_int m
       else f64_mul (f64_of_int i) (f64_pow2 j))"
    using assms(1) m(1) by (simp add: base_delay_def Let_def flip: i_def m_def)
  also have "\<dots> = Fin (of_int (min (i * 2 ^ j) m))"
    unfolding f by (rule f64_doubled_capped [OF i m(2)])
  finally show ?thesis unfolding i_def m_def j_def .
qed



section \<open>Jitter, truncation and the final product\<close>

lemma jitter_factor_bounds:
  assumes "rnd < 2 ^ 53"
  shows "- 1 \<le> ((of_nat rnd - 2 ^ 52) / 2 ^ 52 :: rat)" "((of_nat rnd - 2 ^ 52) / 2 ^ 52 :: rat) \<le> 1"
proof -
  have "(of_nat rnd :: rat) \<le> of_nat (2 ^ 53)" using assms by (simp only: of_nat_le_iff)
  then show "- 1 \<le> ((of_nat rnd - 2 ^ 52) / 2 ^ 52 :: rat)" "((of_nat rnd - 2 ^ 52) / 2 ^ 52 :: rat) \<le> 1"
    by (simp_all add: field_simps)
qed

lemma to_f64_close: "\<bar>x\<bar> \<le> 2 ^ 43 \<Longrightarrow> \<exists>r. to_f64 x = Fin r \<and> \<bar>r - x\<bar> \<le> 1/1024"
proof -
  assume x: "\<bar>x\<bar> \<le> 2 ^ 43"
  then have "of_int (- (2 ^ 43)) \<le> x" "x \<le> of_int (2 ^ 43)" by (simp_all add: abs_le_iff)
  from to_f64_Fin [OF this] obtain r where "to_f64 x = Fin r" by auto
  moreover from this have "r = round64 x" by (simp add: to_f64_def Let_def split: if_splits)
  ultimately show ?thesis using round64_close [OF x] by blast
qed

text \<open>
  Jitter of at most 100 percent moves an integral base by at most the base, and by the fraction
  of it that the random number says, up to what the three roundings of float64 lose.
\<close>

lemma jitter_bounds:
  assumes "0 \<le> b" "b \<le> 2 ^ 42" "0 < jp" "jp \<le> 100" "rnd < 2 ^ 53"
  shows "\<exists>r. f64_add (Fin (of_int b))
               (f64_mul (Fin ((of_nat rnd - 2 ^ 52) / 2 ^ 52))
                  (f64_div_pos (f64_mul (Fin (of_int b)) (f64_of_int jp)) 100)) = Fin r
             \<and> 0 \<le> r \<and> r \<le> of_int (2 * b)
             \<and> \<bar>r - (of_int b + (of_nat rnd - 2 ^ 52) / 2 ^ 52 * (of_int (b * jp) / 100))\<bar> \<le> 3/1024"
proof -
  define u where "u = ((of_nat rnd - 2 ^ 52) / 2 ^ 52 :: rat)"
  define y where "y = (of_int (b * jp) / 100 :: rat)"
  have u: "\<bar>u\<bar> \<le> 1" "- 1 \<le> u" "u \<le> 1" using jitter_factor_bounds [OF assms(5)] by (simp_all add: u_def abs_le_iff)
  have bj: "0 \<le> b * jp" "b * jp \<le> b * 100" "\<bar>b * jp\<bar> \<le> 2 ^ 53"
    using assms mult_left_mono [of jp 100 b] by (simp_all add: abs_mult)
  have j1: "f64_mul (Fin (of_int b)) (f64_of_int jp) = Fin (of_int (b * jp))"
    using assms(3,4) bj(3) to_f64_int [of "b * jp"] by (simp add: f64_of_int_small)
  have b: "(0 :: rat) \<le> of_int b" "(of_int b :: rat) \<le> of_int (2 ^ 42)"
    using assms(1,2) by (simp_all only: of_int_le_iff of_int_0_le_iff)
  have "(of_int 0 :: rat) \<le> of_int (b * jp)" unfolding of_int_le_iff by (rule bj(1))
  then have y0: "of_int 0 \<le> y" by (simp add: y_def)
  have "(of_int (b * jp) :: rat) \<le> of_int (b * 100)"
    unfolding of_int_le_iff by (rule bj(2))
  then have yb: "y \<le> of_int b" by (simp add: y_def pos_divide_le_eq)
  obtain j where j: "to_f64 y = Fin j" "0 \<le> j" "j \<le> of_int b"
    using to_f64_Fin [OF y0 yb] assms by auto
  have "\<bar>y\<bar> \<le> 2 ^ 43" using y0 yb b(2) by simp
  then have ej: "\<bar>j - y\<bar> \<le> 1/1024" using to_f64_close [of y] j(1) by auto
  have "u * j \<le> 1 * j" "- 1 * j \<le> u * j"
    using u j(2) by (simp_all only: mult_right_mono)
  then have uj: "of_int (- b) \<le> u * j" "u * j \<le> of_int b" using j(3) by simp_all
  obtain s where s: "to_f64 (u * j) = Fin s" "of_int (- b) \<le> s" "s \<le> of_int b"
    using to_f64_Fin [OF uj] assms by auto
  have "\<bar>u * j\<bar> \<le> 2 ^ 43" using uj b(2) by (simp add: abs_le_iff)
  then have es: "\<bar>s - u * j\<bar> \<le> 1/1024" using to_f64_close [of "u * j"] s(1) by auto
  have bs: "of_int 0 \<le> of_int b + s" "of_int b + s \<le> of_int (2 * b)" using s by simp_all
  obtain r where r: "to_f64 (of_int b + s) = Fin r" "of_int 0 \<le> r" "r \<le> of_int (2 * b)"
    using to_f64_Fin [OF bs] assms by auto
  have "\<bar>of_int b + s\<bar> \<le> 2 ^ 43" using bs b(2) by (simp add: abs_le_iff)
  then have er: "\<bar>r - (of_int b + s)\<bar> \<le> 1/1024" using to_f64_close [of "of_int b + s"] r(1) by auto
  have "\<bar>u * j - u * y\<bar> = \<bar>u\<bar> * \<bar>j - y\<bar>" by (simp flip: abs_mult right_diff_distrib)
  also have "\<dots> \<le> 1 * (1/1024)" using u(1) ej by (intro mult_mono) simp_all
  finally have "\<bar>r - (of_int b + u * y)\<bar> \<le> 3/1024" using es er by linarith
  then show ?thesis unfolding u_def [symmetric] y_def [symmetric] j1 using j(1) s(1) r
    by (simp add: y_def)
qed

lemma f64_to_int64_int:
  assumes "0 \<le> r" "r \<le> of_int b" "b < 2 ^ 63"
  shows "f64_to_int64 impl (Fin r) = word_of_int \<lfloor>r\<rfloor>" "0 \<le> \<lfloor>r\<rfloor>" "\<lfloor>r\<rfloor> \<le> b"
proof -
  show f: "0 \<le> \<lfloor>r\<rfloor>" "\<lfloor>r\<rfloor> \<le> b" using assms(1,2) floor_mono [of r "of_int b"] by simp_all
  then show "f64_to_int64 impl (Fin r) = word_of_int \<lfloor>r\<rfloor>"
    using assms by (simp add: trunc_rat_def)
qed

lemma sint_word_of_int_small: "0 \<le> n \<Longrightarrow> n < 2 ^ 63 \<Longrightarrow> sint (word_of_int n :: 64 word) = n"
  unfolding sint_sbintrunc' by (rule signed_take_bit_int_eq_self) simp_all

lemma sint_delay_product:
  assumes "0 \<le> n" "0 \<le> c" "n * c < 2 ^ 63"
  shows "sint (word_of_int n * word_of_int c :: 64 word) = n * c"
  unfolding wi_hom_mult by (rule sint_word_of_int_small) (use assms in simp_all)

section \<open>Properties of the delays\<close>

text \<open>
  The policies the endpoint service stores: the CHECK constraints of its
  \<open>retry_policies\<close> table (endpoint-service/migrations/001_init.sql).
\<close>

definition stored_policy :: "backoff_policy \<Rightarrow> bool" where
  "stored_policy p \<longleftrightarrow>
     bp_backoff_type p \<in> {''fixed'', ''exponential''}
     \<and> 100 \<le> bp_initial_delay_ms p \<and> bp_initial_delay_ms p \<le> 86400000
     \<and> bp_initial_delay_ms p \<le> bp_max_delay_ms p \<and> bp_max_delay_ms p \<le> 604800000
     \<and> 0 \<le> bp_jitter_percent p \<and> bp_jitter_percent p \<le> 100"

definition capped_delay_ms :: "backoff_policy \<Rightarrow> int \<Rightarrow> int" where
  "capped_delay_ms p n =
     min (bp_initial_delay_ms p * (if bp_backoff_type p = ''linear'' then max 1 n else 2 ^ nat (max 1 n - 1)))
       (bp_max_delay_ms p)"


lemma stored_base_delay:
  assumes "stored_policy p"
  shows "base_delay p n = Fin (of_int (capped_delay_ms p n))"
    and "0 < capped_delay_ms p n" and "capped_delay_ms p n \<le> bp_max_delay_ms p"
  using assms base_delay_exponential [of p n] by (auto simp: stored_policy_def capped_delay_ms_def)

lemma next_delay_no_jitter:
  assumes "base_delay p n = Fin (of_int b)" "bp_jitter_percent p \<le> 0" "0 \<le> b" "b \<le> 2 ^ 43"
  shows "sint (next_delay impl rnd p n) = b * 1000000"
proof -
  have "f64_to_int64 impl (Fin (of_int b)) = word_of_int b"
    using f64_to_int64_int [of "of_int b" b] assms by simp
  then have "next_delay impl rnd p n = word_of_int b * word_of_int 1000000"
    using assms by (simp add: next_delay_def)
  then show ?thesis using sint_delay_product [of b 1000000] assms by simp
qed

lemma next_delay_range:
  assumes "base_delay p n = Fin (of_int b)" "bp_jitter_percent p \<le> 100" "0 \<le> b" "b \<le> 2 ^ 42"
    and "rnd < 2 ^ 53"
  shows "\<exists>d. sint (next_delay impl rnd p n) = d * 1000000 \<and> 0 \<le> d \<and> d \<le> 2 * b
    \<and> (if bp_jitter_percent p \<le> 0 then d = b
       else \<bar>of_int d - (of_int b + (of_nat rnd - 2 ^ 52) / 2 ^ 52 * (of_int (b * bp_jitter_percent p) / 100))\<bar>
              < (2 :: rat))"
proof (cases "0 < bp_jitter_percent p")
  case False
  then show ?thesis using next_delay_no_jitter [OF assms(1)] assms(3,4) by simp
next
  case True
  define x where "x = (of_int b + (of_nat rnd - 2 ^ 52) / 2 ^ 52 * (of_int (b * bp_jitter_percent p) / 100) :: rat)"
  from True assms jitter_bounds [of b "bp_jitter_percent p" rnd] obtain r where
    r: "f64_add (Fin (of_int b))
          (f64_mul (Fin ((of_nat rnd - 2 ^ 52) / 2 ^ 52))
             (f64_div_pos (f64_mul (Fin (of_int b)) (f64_of_int (bp_jitter_percent p))) 100)) = Fin r"
    and r0: "0 \<le> r" "r \<le> of_int (2 * b)" and rx: "\<bar>r - x\<bar> \<le> 3/1024"
    unfolding x_def by blast
  have i: "f64_to_int64 impl (Fin r) = word_of_int \<lfloor>r\<rfloor>" "0 \<le> \<lfloor>r\<rfloor>" "\<lfloor>r\<rfloor> \<le> 2 * b"
    using f64_to_int64_int [OF r0] assms(4) by simp_all
  have "next_delay impl rnd p n = word_of_int \<lfloor>r\<rfloor> * word_of_int 1000000"
    unfolding next_delay_def Let_def assms(1) r using True r0(1) i(1) by simp
  then have "sint (next_delay impl rnd p n) = \<lfloor>r\<rfloor> * 1000000"
    using sint_delay_product [of "\<lfloor>r\<rfloor>" 1000000] i assms(4) by simp
  moreover have "\<bar>of_int \<lfloor>r\<rfloor> - x\<bar> < 2" using rx by linarith
  ultimately show ?thesis using i(2,3) True unfolding x_def by (intro exI [of _ "\<lfloor>r\<rfloor>"]) simp
qed

text \<open>
  For every retry policy that the endpoint service can store, every attempt number and every
  random number, the delay before the next attempt is a non-negative duration of at most
  twice the policy's maximal delay: neither the float64 computation nor the multiplication
  by \<open>time.Millisecond\<close> overflows.
\<close>

lemma next_delay_bounds:
  assumes "stored_policy p" and "rnd < 2 ^ 53"
  shows "0 \<le> sint (next_delay impl rnd p n)
         \<and> sint (next_delay impl rnd p n) \<le> 2 * bp_max_delay_ms p * 1000000"
proof -
  have "bp_max_delay_ms p \<le> 2 ^ 42" "bp_jitter_percent p \<le> 100"
    using assms(1) by (simp_all add: stored_policy_def)
  then show ?thesis
    using next_delay_range [OF stored_base_delay(1) [OF assms(1)] _ _ _ assms(2), of n impl]
      stored_base_delay(2,3) [OF assms(1), of n] by force
qed

definition default_policy :: backoff_policy where
  "default_policy = \<lparr>bp_backoff_type = ''exponential'', bp_initial_delay_ms = 10000,
     bp_max_delay_ms = 600000, bp_jitter_percent = 20\<rparr>"

lemma next_delay_bounds_example:
  "stored_policy default_policy \<and> sint (next_delay (\<lambda>_. 0) 5 default_policy 3) \<le> 1200000 * 1000000"
proof -
  have p: "stored_policy default_policy" by (simp add: stored_policy_def default_policy_def)
  show ?thesis
    using p next_delay_bounds [OF p, of 5 "\<lambda>_. 0" 3] by (simp add: default_policy_def)
qed



text \<open>
  The backoff type \<open>fixed\<close>, one of the two that the endpoint service declares and stores,
  is not implemented by the delivery service: the delay of a \<open>fixed\<close> policy is that of
  the same policy with the type \<open>exponential\<close>. In particular it is not constant: without
  jitter and below the cap it doubles with every attempt.
\<close>

lemma fixed_backoff_is_exponential:
  "next_delay impl rnd (p\<lparr>bp_backoff_type := ''fixed''\<rparr>) n
     = next_delay impl rnd (p\<lparr>bp_backoff_type := ''exponential''\<rparr>) n
   \<and> sint (next_delay impl rnd
        \<lparr>bp_backoff_type = ''fixed'', bp_initial_delay_ms = 1000, bp_max_delay_ms = 60000,
         bp_jitter_percent = 0\<rparr> 3) = 4 * 1000 * 1000000"
proof
  show "next_delay impl rnd (p\<lparr>bp_backoff_type := ''fixed''\<rparr>) n
     = next_delay impl rnd (p\<lparr>bp_backoff_type := ''exponential''\<rparr>) n"
    by (simp add: next_delay_def base_delay_def Let_def)
  let ?p = "\<lparr>bp_backoff_type = ''fixed'', bp_initial_delay_ms = 1000, bp_max_delay_ms = 60000,
     bp_jitter_percent = 0\<rparr>"
  have b: "base_delay ?p 3 = Fin (of_int 4000)" using stored_base_delay(1) [of ?p 3]
    by (simp add: stored_policy_def capped_delay_ms_def)
  show "sint (next_delay impl rnd ?p 3) = 4 * 1000 * 1000000"
    using next_delay_no_jitter [OF b, of impl rnd] by simp
qed

text \<open>
  The outbox relay's delay is \<open>2 ^ (attempt - 1)\<close> seconds, at most 300 seconds, for every
  attempt number: it never overflows and never depends on the implementation-defined
  conversion.
\<close>

lemma retry_delay_exact:
  "sint (retry_delay impl n) = (if n \<le> 9 then 2 ^ nat (max 1 n - 1) else 300) * 1000000000"
proof -
  define j where "j = nat ((if n < 1 then 1 else n) - 1)"
  have j: "nat (max 1 n - 1) = j" "n \<le> 9 \<longleftrightarrow> j \<le> 8" by (auto simp: j_def)
  have sec: "sint (f64_to_int64 impl (Fin (of_int s)) * 1000000000) = s * 1000000000"
    if "0 \<le> s" "s \<le> 300" for s :: int
    using f64_to_int64_int(1) [of "of_int s" s impl] sint_delay_product [of s 1000000000] that by simp
  show ?thesis
  proof (cases "j \<le> 8")
    case True
    then have p: "(2::int) ^ j \<le> 2 ^ 8" by (intro power_increasing) simp_all
    then have "(2::rat) ^ j \<le> 300" using True power_increasing [of j 8 "2::rat"] by simp
    then have "retry_delay impl n = f64_to_int64 impl (Fin (of_int (2 ^ j))) * 1000000000"
      using True by (simp add: retry_delay_def Let_def f64_pow2_def not_less flip: j_def)
    then show ?thesis using sec [of "2 ^ j"] p True j by simp
  next
    case False
    then have "(2::rat) ^ 9 \<le> 2 ^ j" by (intro power_increasing) simp_all
    then have "f64_less (Fin 300) (f64_pow2 j)" by (simp add: f64_pow2_def)
    then have "retry_delay impl n = f64_to_int64 impl (Fin (of_int 300)) * 1000000000"
      by (simp add: retry_delay_def Let_def flip: j_def)
    then show ?thesis using sec [of 300] False j by simp
  qed
qed

end
