(* ===== verification/DeliveryService.thy ===== *)
theory DeliveryService
  imports DeliveryInv Backoff
begin

text \<open>
  delivery-service/internal/delivery/service.go: accepting an event, delivering a claimed
  delivery and replaying a finished one, on top of \<open>DeliveryRepo\<close>, \<open>Webhook\<close> and
  \<open>Backoff\<close>. The two Go interfaces of the service, \<open>EndpointReader\<close> and \<open>SecretDecryptor\<close>, are
  arguments of its methods; the locale \<open>endpoint_reader\<close> states what a client of the first
  relies on.
\<close>

section \<open>Accepting an event\<close>

definition handle_event_accepted ::
    "create_call faults \<Rightarrow> event_endpoint_index \<Rightarrow> time \<Rightarrow> (nat \<Rightarrow> uuid)
       \<Rightarrow> (uuid \<Rightarrow> string \<Rightarrow> endpoint_snapshot_with_id list result) \<Rightarrow> event_accepted
       \<Rightarrow> delivery_db \<Rightarrow> unit result \<times> delivery_db" where
  "handle_event_accepted f ix now gen get_for_event e db =
     (if ea_event_id e = uuid_nil \<or> ea_tenant_id e = uuid_nil \<or> ea_event_type e = []
      then (Inl (Msg ''invalid EventAccepted''), db)
      else if ea_payload e = [] then (Inl (Msg ''EventAccepted missing payload''), db)
      else (case get_for_event (ea_tenant_id e) (ea_event_type e) of
              Inl err \<Rightarrow> (Inl err, db)
            | Inr eps \<Rightarrow>
                (if eps = [] then (Inr (), db)
                 else create_deliveries f ix now gen e eps db)))"

section \<open>Delivering\<close>

record deliver_env =
  dv_decrypt :: "bytes \<Rightarrow> bytes result"  \<comment> \<open>\<open>SecretDecryptor\<close>\<close>
  dv_http :: http_env
  dv_uuid_string :: "uuid \<Rightarrow> string"  \<comment> \<open>\<open>uuid.UUID.String\<close>\<close>
  dv_impl :: "f64 \<Rightarrow> 64 word"  \<comment> \<open>out of range conversions to \<open>int64\<close>\<close>
  dv_random :: nat  \<comment> \<open>the numerator of \<open>rand.Float64()\<close>\<close>
  dv_now :: time  \<comment> \<open>\<open>time.Now()\<close> when the next attempt is scheduled\<close>
  dv_done :: time  \<comment> \<open>\<open>time.Now()\<close> when the attempt is recorded\<close>
  dv_db_now :: time  \<comment> \<open>\<open>NOW()\<close> of the recording transaction\<close>

definition backoff_of :: "retry_policy \<Rightarrow> backoff_policy" where
  "backoff_of p = \<lparr>bp_backoff_type = rp_backoff_type p,
     bp_initial_delay_ms = rp_initial_delay_ms p, bp_max_delay_ms = rp_max_delay_ms p,
     bp_jitter_percent = rp_jitter_percent p\<rparr>"

definition delivery_request :: "deliver_env \<Rightarrow> bytes \<Rightarrow> delivery \<Rightarrow> webhook_request" where
  "delivery_request env secret d =
     \<lparr>wr_url = es_url (d_snapshot d), wr_secret = secret,
      wr_request_timeout_ms = es_request_timeout_ms (d_snapshot d),
      wr_event_id = dv_uuid_string env (d_event_id d),
      wr_event_type = es_event_type (d_snapshot d), wr_body = d_payload d\<rparr>"

definition next_attempt :: "deliver_env \<Rightarrow> delivery \<Rightarrow> attempt_result \<Rightarrow> time option" where
  "next_attempt env d res =
     (if ar_status res = Retryable_Failure
         \<and> d_attempt_count d < rp_max_attempts (es_retry_policy (d_snapshot d))
      then Some (dv_now env
             + sint (next_delay (dv_impl env) (dv_random env)
                       (backoff_of (es_retry_policy (d_snapshot d))) (d_attempt_count d)))
      else None)"

definition deliver ::
    "record_call faults \<Rightarrow> deliver_env \<Rightarrow> delivery \<Rightarrow> delivery_db \<Rightarrow> unit result \<times> delivery_db" where
  "deliver f env d db =
     (case dv_decrypt env (es_secret (d_snapshot d)) of
        Inl e \<Rightarrow> (Inl (wrap ''decrypt endpoint secret: '' e), db)
      | Inr secret \<Rightarrow>
          let d = d\<lparr>d_snapshot := (d_snapshot d)\<lparr>es_secret := secret\<rparr>\<rparr>;
              res = send (dv_http env) (delivery_request env secret d)
          in record_attempt f (dv_db_now env) (dv_done env) d res (next_attempt env d res) db)"

section \<open>Reading and replaying\<close>

definition service_get_delivery ::
    "get_call faults \<Rightarrow> uuid \<Rightarrow> uuid \<Rightarrow> delivery_db \<Rightarrow> delivery result" where
  [simp]: "service_get_delivery = get_delivery"

definition replay ::
    "get_call faults \<Rightarrow> error option \<Rightarrow> event_endpoint_index \<Rightarrow> time \<Rightarrow> uuid \<Rightarrow> uuid \<Rightarrow> uuid
       \<Rightarrow> delivery_db \<Rightarrow> uuid result \<times> delivery_db" where
  "replay f g ix now new_id tenant did db =
     (case get_delivery f tenant did db of
        Inl e \<Rightarrow> (Inl e, db)
      | Inr d \<Rightarrow>
          (if d_status d \<noteq> FAILED \<and> d_status d \<noteq> DLQ
           then (Inl (Msg (''delivery cannot be replayed from status '' @ status_text (d_status d))), db)
           else create_replay g ix now new_id d db))"

section \<open>The endpoint reader\<close>

text \<open>
  What the service relies on when it asks for the endpoints of an event: no endpoint twice,
  and only endpoints subscribed to the type asked for.
\<close>

locale endpoint_reader =
  fixes read :: "'p \<Rightarrow> uuid \<Rightarrow> string \<Rightarrow> endpoint_snapshot_with_id list"
    and reader_ok :: "'p \<Rightarrow> bool"
  assumes read_distinct: "reader_ok p \<Longrightarrow> distinct (map esi_endpoint_id (read p tenant ty))"
    and read_type: "reader_ok p \<Longrightarrow> x \<in> set (read p tenant ty) \<Longrightarrow> esi_event_type x = ty"
begin

lemma read_unique:
  assumes "reader_ok p" "x \<in> set (read p tenant ty)" "y \<in> set (read p tenant ty)"
    and "esi_endpoint_id x = esi_endpoint_id y"
  shows "x = y"
  using distinct_keys_eq [OF read_distinct [OF assms(1)] assms(2,3,4)] .

end

section \<open>Creating deliveries once\<close>

definition has_original :: "delivery_db \<Rightarrow> uuid \<Rightarrow> uuid \<Rightarrow> bool" where
  "has_original db event endpoint \<longleftrightarrow>
     list_ex (\<lambda>d. d_event_id d = event \<and> d_endpoint_id d = endpoint) (db_deliveries db)"

lemma has_conflict_total:
  "has_conflict Total_Index (new_delivery now i e ep) (db_deliveries db)
     \<longleftrightarrow> has_original db (ea_event_id e) (esi_endpoint_id ep)"
  by (auto simp: has_conflict_def has_original_def list_ex_iff index_conflict_def)

lemma has_original_add:
  "has_original (add_delivery d db) ev ep
     \<longleftrightarrow> has_original db ev ep \<or> d_event_id d = ev \<and> d_endpoint_id d = ep"
  by (auto simp: has_original_def add_delivery_def)

lemma create_loop_covers:
  assumes "create_loop f Total_Index now gen e i eps db = Inr db'"
  shows "(\<forall>ep\<in>set eps. has_original db' (ea_event_id e) (esi_endpoint_id ep))
         \<and> (\<forall>ev ep. has_original db ev ep \<longrightarrow> has_original db' ev ep)"
  using assms
proof (induction eps arbitrary: i db)
  case Nil
  then show ?case by simp
next
  case (Cons ep eps)
  from Cons.prems obtain db1 where
    ins: "insert_on_conflict Total_Index (new_delivery now (gen i) e ep) db = Inr db1"
    and loop: "create_loop f Total_Index now gen e (Suc i) eps db1 = Inr db'"
    by (auto simp: guard_Inr split: sum.splits)
  have "has_original db1 (ea_event_id e) (esi_endpoint_id ep)"
    and "has_original db ev y \<Longrightarrow> has_original db1 ev y" for ev y
    using ins by (auto simp: insert_on_conflict_def insert_delivery_def has_conflict_total
        has_original_add split: if_splits)
  with Cons.IH [OF loop] show ?case by auto
qed

lemma create_loop_covered:
  assumes "\<forall>ep\<in>set eps. has_original db (ea_event_id e) (esi_endpoint_id ep)"
  shows "create_loop no_faults Total_Index now gen e i eps db = Inr db"
  using assms
  by (induction eps arbitrary: i) (auto simp: insert_on_conflict_def has_conflict_total)

text \<open>The rows that the loop adds: one for each endpoint that had none.\<close>

fun missing :: "delivery_db \<Rightarrow> uuid \<Rightarrow> nat \<Rightarrow> endpoint_snapshot_with_id list
    \<Rightarrow> (nat \<times> endpoint_snapshot_with_id) list" where
  "missing db event i [] = []"
| "missing db event i (ep # eps) =
     (if has_original db event (esi_endpoint_id ep) then missing db event (Suc i) eps
      else (i, ep) # missing db event (Suc i) eps)"

lemma missing_add:
  "esi_endpoint_id ep \<notin> esi_endpoint_id ` set eps \<Longrightarrow>
     missing (add_delivery (new_delivery now u e ep) db) (ea_event_id e) i eps
       = missing db (ea_event_id e) i eps"
  by (induction eps arbitrary: i) (auto simp: has_original_add)

lemma create_loop_rows:
  assumes "distinct (map esi_endpoint_id eps)"
    and "inj_on gen {i..<i + length eps}"
    and "\<forall>j\<in>{i..<i + length eps}. gen j \<notin> d_id ` set (db_deliveries db)"
    and nf: "\<And>c. f c = None"
  shows "create_loop f Total_Index now gen e i eps db
           = Inr (db\<lparr>db_deliveries := db_deliveries db
                @ map (\<lambda>(j, ep). new_delivery now (gen j) e ep) (missing db (ea_event_id e) i eps)\<rparr>)"
  using assms(1-3)
proof (induction eps arbitrary: i db)
  case Nil
  then show ?case by simp
next
  case (Cons ep eps)
  let ?later = "{Suc i..<Suc i + length eps}"
  have later: "j \<in> {i..<i + length (ep # eps)}" if "j \<in> ?later" for j using that by simp
  have inj: "inj_on gen ?later" by (rule inj_on_subset [OF Cons.prems(2)]) auto
  have d: "distinct (map esi_endpoint_id eps)" using Cons.prems(1) by simp
  show ?case
  proof (cases "has_original db (ea_event_id e) (esi_endpoint_id ep)")
    case True
    then have "insert_on_conflict Total_Index (new_delivery now (gen i) e ep) db = Inr db"
      by (simp add: insert_on_conflict_def has_conflict_total)
    moreover have "\<forall>j\<in>?later. gen j \<notin> d_id ` set (db_deliveries db)"
      using Cons.prems(3) later by blast
    ultimately show ?thesis using Cons.IH [OF d inj] True
      nf [of "CD_Insert (esi_endpoint_id ep)"] by simp
  next
    case False
    define db1 where "db1 = add_delivery (new_delivery now (gen i) e ep) db"
    have "gen i \<notin> d_id ` set (db_deliveries db)" using Cons.prems(3) by simp
    then have ins: "insert_on_conflict Total_Index (new_delivery now (gen i) e ep) db = Inr db1"
      using False
      by (simp add: insert_on_conflict_def insert_delivery_def has_conflict_total db1_def
          find_row_None_iff [THEN iffD2])
    have "gen j \<noteq> gen i" if "j \<in> ?later" for j
      using inj_onD [OF Cons.prems(2), of j i] that by auto
    then have fresh: "\<forall>j\<in>?later. gen j \<notin> d_id ` set (db_deliveries db1)"
      using Cons.prems(3) later by (auto simp: db1_def add_delivery_def)
    have "create_loop f Total_Index now gen e (Suc i) eps db1
        = Inr (db1\<lparr>db_deliveries := db_deliveries db1
            @ map (\<lambda>(j, ep). new_delivery now (gen j) e ep) (missing db1 (ea_event_id e) (Suc i) eps)\<rparr>)"
      by (rule Cons.IH [OF d inj fresh])
    moreover have "missing db1 (ea_event_id e) (Suc i) eps = missing db (ea_event_id e) (Suc i) eps"
      unfolding db1_def using Cons.prems(1) by (intro missing_add) simp
    ultimately show ?thesis using ins False nf [of "CD_Insert (esi_endpoint_id ep)"] by (simp add: db1_def add_delivery_def)
  qed
qed

text \<open>With a reader that keeps its promise, accepting an event adds one row for each endpoint
  that had none.\<close>

context endpoint_reader
begin

lemma accept_rows:
  assumes "reader_ok p" and "ea_event_id e \<noteq> uuid_nil" "ea_tenant_id e \<noteq> uuid_nil"
    and "ea_event_type e \<noteq> []" "ea_payload e \<noteq> []"
    and "n = length (read p (ea_tenant_id e) (ea_event_type e))" and "inj_on gen {0..<n}"
    and "\<forall>j\<in>{0..<n}. gen j \<notin> d_id ` set (db_deliveries db)"
  shows "handle_event_accepted no_faults Total_Index now gen (\<lambda>t ty. Inr (read p t ty)) e db
           = (Inr (), db\<lparr>db_deliveries := db_deliveries db
                @ map (\<lambda>(j, ep). new_delivery now (gen j) e ep)
                    (missing db (ea_event_id e) 0 (read p (ea_tenant_id e) (ea_event_type e)))\<rparr>)"
proof -
  let ?eps = "read p (ea_tenant_id e) (ea_event_type e)"
  have "create_loop no_faults Total_Index now gen e 0 ?eps db
      = Inr (db\<lparr>db_deliveries := db_deliveries db
            @ map (\<lambda>(j, ep). new_delivery now (gen j) e ep) (missing db (ea_event_id e) 0 ?eps)\<rparr>)"
    using read_distinct [OF assms(1)] assms(6-8) by (intro create_loop_rows) simp_all
  then show ?thesis
    using assms(2-5) by (simp add: handle_event_accepted_def create_deliveries_def run_tx_no_fault)
qed

end

lemma set_missing:
  "snd ` set (missing db ev i eps) = {ep \<in> set eps. \<not> has_original db ev (esi_endpoint_id ep)}"
  by (induction eps arbitrary: i) auto

lemma distinct_missing:
  "distinct (map esi_endpoint_id eps) \<Longrightarrow>
     distinct (map (\<lambda>(j, ep). esi_endpoint_id ep) (missing db ev i eps))"
proof (induction eps arbitrary: i)
  case (Cons ep eps)
  have "esi_endpoint_id ep \<notin> (\<lambda>(j, ep). esi_endpoint_id ep) ` set (missing db ev j eps)" for j
    using Cons.prems set_missing [of db ev j eps] by force
  with Cons show ?case by simp
qed simp

section \<open>Properties of event acceptance\<close>

text \<open>
  With a unique index that covers the statement, handling an event again (a duplicate from
  Kafka, at another time, with other generated identifiers) changes nothing: every endpoint
  has its delivery of the event already.
\<close>

lemma create_deliveries_idempotent:
  assumes "create_deliveries f Total_Index now gen e eps db = (Inr (), db')"
  shows "create_deliveries no_faults Total_Index now' gen' e eps db' = (Inr (), db')"
proof -
  from assms have "create_loop f Total_Index now gen e 0 eps db = Inr db'"
    by (auto simp: create_deliveries_def run_tx_commit split: sum.splits)
  from create_loop_covers [OF this] show ?thesis
    by (simp add: create_deliveries_def run_tx_no_fault create_loop_covered)
qed

definition example_policy :: retry_policy where
  "example_policy = \<lparr>rp_max_attempts = 2, rp_backoff_type = ''exponential'',
     rp_initial_delay_ms = 1000, rp_max_delay_ms = 60000, rp_jitter_percent = 0\<rparr>"

definition example_snapshot :: endpoint_snapshot where
  "example_snapshot = \<lparr>es_event_type = [], es_url = ''https://a'', es_secret = ''s'',
     es_connect_timeout_ms = 5000, es_request_timeout_ms = 10000,
     es_retry_policy = example_policy\<rparr>"

definition example_endpoint :: endpoint_snapshot_with_id where
  "example_endpoint = \<lparr>esi_endpoint_id = 7, esi_event_type = ''order.created'',
     esi_snapshot = example_snapshot\<rparr>"

definition example_event :: event_accepted where
  "example_event = \<lparr>ea_message_id = ''m'', ea_event_id = 5, ea_tenant_id = 3,
     ea_event_type = ''order.created'', ea_payload = ''{}''\<rparr>"

definition example_delivery :: delivery where
  "example_delivery = new_delivery 1000 11 example_event example_endpoint"

lemmas example_defs = example_policy_def example_snapshot_def example_endpoint_def
  example_event_def example_delivery_def new_delivery_def empty_delivery_db_def

lemma example_create:
  "create_deliveries no_faults Total_Index 1000 (\<lambda>i. 11 + of_nat i) example_event [example_endpoint]
     empty_delivery_db = (Inr (), empty_delivery_db\<lparr>db_deliveries := [example_delivery]\<rparr>)"
  by (simp add: create_deliveries_def run_tx_def insert_on_conflict_def insert_delivery_def
      has_conflict_def find_row_def add_delivery_def example_delivery_def empty_delivery_db_def)

lemma create_deliveries_idempotent_example:
  "create_deliveries no_faults Total_Index 2000 (\<lambda>i. 99) example_event [example_endpoint]
     (empty_delivery_db\<lparr>db_deliveries := [example_delivery]\<rparr>)
   = (Inr (), empty_delivery_db\<lparr>db_deliveries := [example_delivery]\<rparr>)"
  by (rule create_deliveries_idempotent [OF example_create])

lemma create_without_arbiter:
  assumes "eps \<noteq> []"
  shows "\<exists>e. create_deliveries f migrated_index now gen event eps db = (Inl e, db)"
proof -
  obtain ep eps' where "eps = ep # eps'" using assms by (cases eps) auto
  then have "\<exists>e. create_loop f Partial_Index now gen event 0 eps db = Inl e"
    by (cases "f (CD_Insert (esi_endpoint_id ep))") (simp_all add: insert_on_conflict_def)
  then have "\<exists>e. (case create_loop f Partial_Index now gen event 0 eps db of
      Inl e \<Rightarrow> Inl e | Inr db' \<Rightarrow> Inr ((), db')) = Inl e" by auto
  then show ?thesis
    unfolding create_deliveries_def migrated_index_def
    using run_tx_body_error by (elim exE) fast
qed

text \<open>
  C9. The index that the migration creates is partial, and the statement that creates deliveries
  names it without its predicate: handling an event with at least one endpoint always fails
  and stores nothing. With a total index, which would make that statement work, replaying a
  stored delivery always fails. So no index supports both operations.
\<close>

theorem no_index_for_create_and_replay:
  "(eps \<noteq> [] \<longrightarrow> (\<exists>e. create_deliveries f migrated_index now gen event eps db = (Inl e, db)))
   \<and> (d \<in> set (db_deliveries db) \<longrightarrow>
        (\<exists>e. create_replay g Total_Index now new_id d db = (Inl e, db)))"
proof (intro conjI impI)
  assume "eps \<noteq> []"
  then show "\<exists>e. create_deliveries f migrated_index now gen event eps db = (Inl e, db)"
    by (rule create_without_arbiter)
next
  assume "d \<in> set (db_deliveries db)"
  then have "has_conflict Total_Index (replay_row now new_id d) (db_deliveries db)"
    by (auto simp: has_conflict_def list_ex_iff index_conflict_def)
  then show "\<exists>e. create_replay g Total_Index now new_id d db = (Inl e, db)"
    by (cases g) (auto simp: create_replay_def insert_delivery_def)
qed

theorem no_index_for_create_and_replay_witness:
  "(\<exists>e. create_deliveries no_faults migrated_index 0 (\<lambda>_. 1) example_event [example_endpoint]
          empty_delivery_db = (Inl e, empty_delivery_db))
   \<and> (\<exists>e. create_replay None Total_Index 0 2 example_delivery
          (empty_delivery_db\<lparr>db_deliveries := [example_delivery]\<rparr>)
        = (Inl e, empty_delivery_db\<lparr>db_deliveries := [example_delivery]\<rparr>))"
  using no_index_for_create_and_replay [where eps = "[example_endpoint]" and f = no_faults
      and d = example_delivery]
    no_index_for_create_and_replay [where d = example_delivery
      and db = "empty_delivery_db\<lparr>db_deliveries := [example_delivery]\<rparr>"]
  by simp

end
