(* ===== verification/DeliverySystem.thy ===== *)
theory DeliverySystem
  imports DeliveryService
begin

text \<open>
  The delivery service as a whole: the store, and the copies of claimed deliveries that
  workers hold, changed by the operations of \<open>DeliveryService\<close> and \<open>DeliveryRepo\<close> in any
  order and by workers that stop. The properties are the life cycle of a delivery: what
  claiming, delivering and replaying do, and what every reachable state satisfies.
\<close>

section \<open>Steps and reachable states\<close>

record dsys =
  sys_db :: delivery_db
  sys_copies :: "delivery list"

definition init_dsys :: dsys where
  "init_dsys = \<lparr>sys_db = empty_delivery_db, sys_copies = []\<rparr>"

inductive dstep :: "event_endpoint_index \<Rightarrow> dsys \<Rightarrow> dsys \<Rightarrow> bool" for ix where
  accept: "dstep ix s (s\<lparr>sys_db := snd (handle_event_accepted f ix now gen reader e (sys_db s))\<rparr>)"
| claim: "claim_batch f locked now started worker limit lease (sys_db s) = (Inr cs, db') \<Longrightarrow>
    dstep ix s \<lparr>sys_db = db', sys_copies = sys_copies s @ cs\<rparr>"
| work: "sys_copies s = xs @ c # ys \<Longrightarrow>
    dstep ix s \<lparr>sys_db = snd (deliver g env c (sys_db s)), sys_copies = xs @ ys\<rparr>"
| crash: "sys_copies s = xs @ c # ys \<Longrightarrow> dstep ix s (s\<lparr>sys_copies := xs @ ys\<rparr>)"
| replay: "dstep ix s (s\<lparr>sys_db := snd (replay h e ix now new_id tenant did (sys_db s))\<rparr>)"

inductive dreach :: "event_endpoint_index \<Rightarrow> dsys \<Rightarrow> bool" for ix where
  init: "dreach ix init_dsys"
| step: "dreach ix s \<Longrightarrow> dstep ix s t \<Longrightarrow> dreach ix t"

definition dsys_inv :: "dsys \<Rightarrow> bool" where
  "dsys_inv s \<longleftrightarrow> worker_inv (sys_copies s) (sys_db s)"

lemma worker_inv_handle:
  "worker_inv cs db \<Longrightarrow> worker_inv cs (snd (handle_event_accepted f ix now gen reader e db))"
  by (auto simp: handle_event_accepted_def worker_inv_create split: sum.splits)

lemma worker_inv_copy:
  "copy_key c = copy_key c' \<Longrightarrow> worker_inv (xs @ c # ys) db \<longleftrightarrow> worker_inv (xs @ c' # ys) db"
  by (simp add: worker_inv_def tokens_def)

lemma worker_inv_deliver:
  assumes "worker_inv (xs @ c # ys) db"
  shows "worker_inv (xs @ ys) (snd (deliver f env c db))"
proof (cases "dv_decrypt env (es_secret (d_snapshot c))")
  case (Inl e)
  then show ?thesis using worker_inv_drop [OF assms] by (simp add: deliver_def)
next
  case (Inr secret)
  let ?c = "c\<lparr>d_snapshot := (d_snapshot c)\<lparr>es_secret := secret\<rparr>\<rparr>"
  have "worker_inv (xs @ ?c # ys) db"
    using assms worker_inv_copy [of c ?c] by (simp add: copy_key_def)
  then show ?thesis using Inr by (simp add: deliver_def Let_def worker_inv_record)
qed

lemma worker_inv_replay_op:
  "worker_inv cs db \<Longrightarrow> worker_inv cs (snd (replay f g ix now new_id tenant did db))"
  by (auto simp: replay_def worker_inv_replay split: sum.splits)

lemma dstep_inv: "dstep ix s t \<Longrightarrow> dsys_inv s \<Longrightarrow> dsys_inv t"
proof (induction rule: dstep.induct)
  case (work s xs c ys g env)
  then show ?case by (simp add: dsys_inv_def worker_inv_deliver)
next
  case (crash s xs c ys)
  then show ?case by (auto simp: dsys_inv_def dest: worker_inv_drop)
qed (simp_all add: dsys_inv_def worker_inv_handle worker_inv_claim worker_inv_replay_op)

lemma dreach_inv: "dreach ix s \<Longrightarrow> dsys_inv s"
proof (induction rule: dreach.induct)
  case init
  then show ?case by (simp add: dsys_inv_def init_dsys_def worker_inv_empty)
next
  case (step s t)
  then show ?case by (blast intro: dstep_inv)
qed

section \<open>Invariants of every reachable state\<close>

text \<open>
  C2. In every state that the delivery service can reach, with either index and whatever calls
  fail: identifiers are unique, an event has at most one delivery that is no replay for an
  endpoint, exactly the deliveries in progress have a lease with an owner, exactly the
  delivered, failed and dead ones have a completion time, pending ones have no attempt, and
  the attempt numbers of a delivery are different and between 1 and its attempt count.
\<close>

theorem reachable_store_consistent:
  assumes "dreach ix s"
  shows "distinct (map d_id (db_deliveries (sys_db s)))
    \<and> distinct (map original_key (originals (db_deliveries (sys_db s))))
    \<and> (\<forall>d\<in>set (db_deliveries (sys_db s)).
         (d_status d = IN_PROGRESS \<longleftrightarrow> d_lease_expires_at d \<noteq> None)
         \<and> (d_status d = IN_PROGRESS \<longleftrightarrow> d_lease_owner d \<noteq> None)
         \<and> (d_completed_at d \<noteq> None \<longleftrightarrow>
              d_status d = DELIVERED \<or> d_status d = FAILED \<or> d_status d = DLQ)
         \<and> (d_status d = PENDING \<longleftrightarrow> d_attempt_count d = 0)
         \<and> d_status d \<noteq> CANCELLED)
    \<and> distinct (map attempt_key (db_attempts (sys_db s)))
    \<and> (\<forall>a\<in>set (db_attempts (sys_db s)). \<exists>d\<in>set (db_deliveries (sys_db s)).
         d_id d = at_delivery_id a \<and> 1 \<le> at_number a \<and> at_number a \<le> d_attempt_count d)"
proof -
  have inv: "worker_inv (sys_copies s) (sys_db s)"
    using dreach_inv [OF assms] by (simp add: dsys_inv_def)
  have "delivery_ok d" if "d \<in> set (db_deliveries (sys_db s))" for d
    using inv that by (rule worker_inv_ok)
  then have ok: "\<forall>d\<in>set (db_deliveries (sys_db s)).
         (d_status d = IN_PROGRESS \<longleftrightarrow> d_lease_expires_at d \<noteq> None)
         \<and> (d_status d = IN_PROGRESS \<longleftrightarrow> d_lease_owner d \<noteq> None)
         \<and> (d_completed_at d \<noteq> None \<longleftrightarrow>
              d_status d = DELIVERED \<or> d_status d = FAILED \<or> d_status d = DLQ)
         \<and> (d_status d = PENDING \<longleftrightarrow> d_attempt_count d = 0)
         \<and> d_status d \<noteq> CANCELLED"
    unfolding delivery_ok_def completed_status_def by blast
  from inv have att: "\<forall>a\<in>set (db_attempts (sys_db s)). \<exists>d\<in>set (db_deliveries (sys_db s)).
      d_id d = at_delivery_id a \<and> 1 \<le> at_number a \<and> at_number a \<le> d_attempt_count d"
    unfolding worker_inv_def tokens_def list_all_iff token_ok_def by (force simp: attempt_key_def)
  from inv have "distinct (map d_id (db_deliveries (sys_db s)))"
    and "distinct (map original_key (originals (db_deliveries (sys_db s))))"
    and "distinct (map attempt_key (db_attempts (sys_db s)))"
    by (simp_all add: worker_inv_def tokens_def)
  then show ?thesis by (intro conjI ok att)
qed

text \<open>Only claiming adds to the copies that workers hold.\<close>

inductive_cases first_copy: "dstep ix \<lparr>sys_db = db, sys_copies = []\<rparr> \<lparr>sys_db = db', sys_copies = [c]\<rparr>"

lemma first_copy_from_claim:
  "dstep ix \<lparr>sys_db = db, sys_copies = []\<rparr> \<lparr>sys_db = db', sys_copies = [c]\<rparr> \<Longrightarrow>
     \<exists>f locked now started worker limit lease.
       claim_batch f locked now started worker limit lease db = (Inr [c], db')"
  by (erule first_copy) (auto, blast)

lemma example_reach:
  "dreach Total_Index (init_dsys\<lparr>sys_db := empty_delivery_db\<lparr>db_deliveries := [example_delivery]\<rparr>\<rparr>)"
proof -
  have "snd (handle_event_accepted no_faults Total_Index 1000 (\<lambda>i. 11 + of_nat i)
      (\<lambda>_ _. Inr [example_endpoint]) example_event (sys_db init_dsys))
    = empty_delivery_db\<lparr>db_deliveries := [example_delivery]\<rparr>"
    using example_create
    by (simp add: handle_event_accepted_def example_event_def init_dsys_def)
  then show ?thesis using dreach.step [OF dreach.init dstep.accept] by metis
qed

theorem reachable_store_consistent_witness:
  "d_completed_at example_delivery = None"
  using reachable_store_consistent [OF example_reach]
  by (auto simp: example_delivery_def init_dsys_def)

lemma completed_not_in_claim:
  assumes "distinct (map d_id rows)" "d \<in> set rows" "completed_status (d_status d)"
    and "\<And>r. r \<in> set ds \<Longrightarrow> r \<in> set rows \<and> claimable now r"
  shows "d_id d \<notin> d_id ` set ds"
  using assms distinct_keys_eq [OF assms(1)] claimable_not_completed by (metis imageE)

lemma update_where_keeps: "d \<in> set rows \<Longrightarrow> \<not> P d \<Longrightarrow> d \<in> set (update_where P g rows)"
  by (force simp: set_update_where)

lemma record_keeps_completed:
  assumes "d \<in> set (db_deliveries db)" "completed_status (d_status d)"
  shows "d \<in> set (db_deliveries (snd (record_attempt f now go_now c res next db)))"
proof (cases "fst (record_attempt f now go_now c res next db)")
  case (Inl e)
  then show ?thesis using assms(1) unfolding record_attempt_def
    by (metis prod.collapse run_tx_atomic)
next
  case (Inr u)
  then have "record_attempt f now go_now c res next db
               = (Inr (), snd (record_attempt f now go_now c res next db))"
    by (metis prod.collapse unit.exhaust)
  from record_attempt_result [OF this] have
    "db_deliveries (snd (record_attempt f now go_now c res next db))
       = update_where (transition_matches c) (transition_row now (next_status c res) res next)
           (db_deliveries db)" by simp
  moreover have "\<not> transition_matches c d"
    using assms(2) by (auto simp: transition_matches_def completed_status_def)
  ultimately show ?thesis using update_where_keeps assms(1) by metis
qed

lemma create_loop_keeps:
  "create_loop f ix now gen e i eps db = Inr db' \<Longrightarrow> set (db_deliveries db) \<subseteq> set (db_deliveries db')"
proof (induction eps arbitrary: i db)
  case (Cons ep eps)
  from Cons.prems obtain db1 where
    ins: "insert_on_conflict ix (new_delivery now (gen i) e ep) db = Inr db1"
    and loop: "create_loop f ix now gen e (Suc i) eps db1 = Inr db'"
    by (auto simp: guard_Inr split: sum.splits)
  have "set (db_deliveries db) \<subseteq> set (db_deliveries db1)"
    using ins by (auto simp: insert_on_conflict_def insert_delivery_def add_delivery_def
        split: event_endpoint_index.splits if_splits)
  with Cons.IH [OF loop] show ?case by blast
qed simp

lemma handle_keeps:
  "set (db_deliveries db)
     \<subseteq> set (db_deliveries (snd (handle_event_accepted f ix now gen reader e db)))"
proof -
  have "set (db_deliveries db) \<subseteq> set (db_deliveries (snd (create_deliveries f ix now gen e eps db)))" for eps
    unfolding create_deliveries_def
    by (rule run_tx_preserves [where P = "\<lambda>db'. set (db_deliveries db) \<subseteq> set (db_deliveries db')"])
      (auto split: sum.splits dest: create_loop_keeps)
  then show ?thesis by (auto simp: handle_event_accepted_def split: sum.splits)
qed

lemma replay_keeps:
  "set (db_deliveries db) \<subseteq> set (db_deliveries (snd (replay f g ix now new_id tenant did db)))"
  by (auto simp: replay_def create_replay_def guard_Inr insert_delivery_def add_delivery_def
      split: sum.splits if_splits)

text \<open>
  C6. A delivery that is delivered, failed or dead stays exactly as it is: no step of the
  service, for this or another delivery, changes its row.
\<close>

theorem completed_deliveries_unchanged:
  assumes "dreach ix s" and "dstep ix s t"
    and "d \<in> set (db_deliveries (sys_db s))"
    and "d_status d = DELIVERED \<or> d_status d = FAILED \<or> d_status d = DLQ"
  shows "d \<in> set (db_deliveries (sys_db t))"
proof -
  have ids: "distinct (map d_id (db_deliveries (sys_db s)))"
    using dreach_inv [OF assms(1)] by (simp add: dsys_inv_def worker_inv_def)
  have st: "completed_status (d_status d)" using assms(4) by (simp add: completed_status_def)
  from assms(2) show ?thesis
  proof (cases rule: dstep.cases)
    case (accept f now gen reader e)
    then show ?thesis using subsetD [OF handle_keeps assms(3)] by simp
  next
    case (claim f locked now started worker limit lease cs db')
    have "d_id d \<notin> d_id ` set (claim_rows now locked limit (sys_db s))"
      by (rule completed_not_in_claim [OF ids assms(3) st]) (auto dest: claim_rows_subset)
    then show ?thesis
      using claim_batch_result [OF claim(2) ids] update_where_keeps [OF assms(3)] claim(1) by simp
  next
    case (work xs c ys g env)
    then show ?thesis using record_keeps_completed [OF assms(3) st] assms(3)
      by (auto simp: deliver_def Let_def split: sum.splits)
  next
    case (crash xs c ys)
    then show ?thesis using assms(3) by simp
  next
    case (replay h e now new_id tenant did)
    then show ?thesis using subsetD [OF replay_keeps assms(3)] by simp
  qed
qed

end
