(* ===== verification/DeliveryLifecycle.thy ===== *)
theory DeliveryLifecycle
  imports DeliverySystem
begin

text \<open>
  The properties of single operations of the delivery service: what a claim returns and
  excludes, when recording an attempt can fail, the outcome of a delivery on every branch,
  what a failing decryption and a late worker do, and who may replay what.
\<close>

section \<open>Claiming\<close>

lemma length_claim_rows: "length (claim_rows now locked limit db) \<le> nat limit"
  by (simp add: claim_rows_def)

lemma rest_of_sorted:
  assumes "x \<in> set (sort_key k xs)" and "x \<notin> set (take n (sort_key k xs))"
  shows "length (take n (sort_key k xs)) = n \<and> (\<forall>y\<in>set (take n (sort_key k xs)). k y \<le> k x)"
proof -
  let ?s = "sort_key k xs"
  have x: "x \<in> set (drop n ?s)" using assms by (metis Un_iff append_take_drop_id set_append)
  then have "n < length ?s" by (metis drop_all empty_iff linorder_not_less list.set(1))
  then have "length (take n ?s) = n" by simp
  moreover have "sorted (map k (take n ?s) @ map k (drop n ?s))"
    by (metis append_take_drop_id map_append sorted_sort_key)
  then have "\<forall>y\<in>set (take n ?s). k y \<le> k x" using x by (auto simp only: sorted_append set_map)
  ultimately show ?thesis by blast
qed

text \<open>What every claimed row looks like afterwards.\<close>

lemma claimed_row:
  assumes "claim_batch f locked now started worker limit lease db = (Inr cs, db')"
    and "distinct (map d_id (db_deliveries db))" and "c \<in> set cs"
  shows "\<exists>d. c = claimed_copy started d \<and> d \<in> set (db_deliveries db) \<and> claimable now d \<and> \<not> locked (d_id d)
    \<and> lease_row now worker (started + seconds 30) started d \<in> set (db_deliveries db')"
proof -
  obtain d where d: "d \<in> set (claim_rows now locked limit db)" "c = claimed_copy started d"
    using claim_batch_result [OF assms(1,2)] assms(3) by auto
  then have "lease_row now worker (started + seconds 30) started d \<in> set (db_deliveries db')"
    using claim_rows_subset [OF d(1)] claim_batch_result [OF assms(1,2)] by (force simp: set_update_where)
  then show ?thesis using d claim_rows_subset by blast
qed

text \<open>
  C3. A claim returns the first \<open>limit\<close> deliveries in the order of their next attempts, each once
  and each due (or with a lease that has run out) and not locked by another claim; a due delivery
  is left out only if the limit is reached. Each copy carries the next attempt number, and its row
  is in progress for this worker, with this attempt number, until 30 seconds after the claim,
  whatever lease the scheduler asked for. Nothing else changes: no other column of these rows, no
  other row, and no attempt.
\<close>

theorem claim_correct:
  assumes "claim_batch f locked now started worker limit lease db = (Inr cs, db')"
    and "distinct (map d_id (db_deliveries db))"
  shows "int (length cs) \<le> max 0 limit \<and> distinct (map d_id cs)
    \<and> (\<forall>c\<in>set cs. \<exists>d\<in>set (db_deliveries db).
          c = d\<lparr>d_attempt_count := d_attempt_count d + 1, d_last_attempt_at := Some started\<rparr>
          \<and> claimable now d \<and> \<not> locked (d_id d))
    \<and> (\<forall>d\<in>set (db_deliveries db). claimable now d \<and> \<not> locked (d_id d) \<and> d_id d \<notin> d_id ` set cs \<longrightarrow>
          int (length cs) = max 0 limit
          \<and> (\<forall>c\<in>set cs. (d_next_attempt_at c, d_created_at c) \<le> (d_next_attempt_at d, d_created_at d)))
    \<and> db' = db\<lparr>db_deliveries := map (\<lambda>r.
          if d_id r \<in> d_id ` set cs
          then r\<lparr>d_status := IN_PROGRESS, d_lease_owner := Some worker,
                 d_lease_expires_at := Some (pg_time (started + seconds 30)),
                 d_attempt_count := d_attempt_count r + 1, d_last_attempt_at := Some (pg_time started),
                 d_updated_at := now\<rparr>
          else r) (db_deliveries db)\<rparr>"
proof -
  define key where "key = (\<lambda>d :: delivery. (d_next_attempt_at d, d_created_at d))"
  define due where "due = filter (\<lambda>d. claimable now d \<and> \<not> locked (d_id d)) (db_deliveries db)"
  define ds where "ds = take (nat limit) (sort_key key due)"
  have rows: "claim_rows now locked limit db = ds" by (simp add: claim_rows_def ds_def due_def key_def)
  from claim_batch_result [OF assms] have cs: "cs = map (claimed_copy started) ds"
    and db': "db' = db\<lparr>db_deliveries := update_where (\<lambda>r. d_id r \<in> d_id ` set ds)
       (lease_row now worker (started + seconds 30) started) (db_deliveries db)\<rparr>"
    by (simp_all add: rows)
  have ids: "d_id ` set cs = d_id ` set ds" by (simp add: cs image_image)
  have "distinct (map d_id cs)" using distinct_claim_rows [OF assms(2)] by (simp add: cs comp_def flip: rows)
  moreover have "int (length cs) = max 0 limit \<and> (\<forall>c\<in>set cs. key c \<le> key d)"
    if "d \<in> set due" "d_id d \<notin> d_id ` set cs" for d
  proof -
    have "d \<in> set (sort_key key due)" "d \<notin> set ds" using that by (auto simp: ids)
    from rest_of_sorted [OF this [unfolded ds_def]] show ?thesis by (auto simp: cs ds_def key_def claimed_copy_def)
  qed
  moreover have "db' = db\<lparr>db_deliveries := map (\<lambda>r.
          if d_id r \<in> d_id ` set cs
          then r\<lparr>d_status := IN_PROGRESS, d_lease_owner := Some worker,
                 d_lease_expires_at := Some (pg_time (started + seconds 30)),
                 d_attempt_count := d_attempt_count r + 1, d_last_attempt_at := Some (pg_time started),
                 d_updated_at := now\<rparr>
          else r) (db_deliveries db)\<rparr>"
    by (simp add: db' ids update_where_def lease_row_def)
  moreover have "int (length cs) \<le> max 0 limit" by (simp add: cs ds_def)
  moreover have "d \<in> set (db_deliveries db) \<and> claimable now d \<and> \<not> locked (d_id d)" if "d \<in> set ds" for d
    using claim_rows_subset [of d now locked limit db] that by (simp add: rows)
  ultimately show ?thesis by (auto simp: cs claimed_copy_def due_def key_def)
qed

definition example_db :: delivery_db where
  "example_db = empty_delivery_db\<lparr>db_deliveries := [example_delivery]\<rparr>"

definition example_claimed_db :: delivery_db where
  "example_claimed_db = example_db\<lparr>db_deliveries :=
     [lease_row 2000 ''w1'' (5000 + seconds 30) 5000 example_delivery]\<rparr>"

lemma example_claim:
  "claim_batch no_faults (\<lambda>_. False) 2000 5000 ''w1'' 1 0 example_db
     = (Inr [claimed_copy 5000 example_delivery], example_claimed_db)"
  by (simp add: claim_batch_def claim_rows_def run_tx_def claimable_def example_db_def
      example_claimed_db_def example_delivery_def empty_delivery_db_def max_int4_def)

theorem claim_correct_witness:
  "distinct (map d_id [claimed_copy 5000 example_delivery])
   \<and> (\<exists>r\<in>set (db_deliveries example_claimed_db). d_status r = IN_PROGRESS \<and> d_attempt_count r = 1)"
  using claim_correct [OF example_claim]
  by (auto simp: example_claimed_db_def example_db_def empty_delivery_db_def example_delivery_def)

text \<open>
  C4. Leases exclude: a second claim, by any worker and with any limit, whose database time is
  not later than 30 seconds after the first claim returns none of the deliveries the first
  claim returned.
\<close>

theorem claims_disjoint:
  assumes "claim_batch f locked now started worker limit lease db = (Inr cs, db1)"
    and "claim_batch f2 locked2 now2 started2 worker2 limit2 lease2 db1 = (Inr cs2, db2)"
    and "distinct (map d_id (db_deliveries db))"
    and "now2 \<le> pg_time (started + seconds 30)"
  shows "set (map d_id cs) \<inter> set (map d_id cs2) = {}"
proof (rule ccontr)
  assume "set (map d_id cs) \<inter> set (map d_id cs2) \<noteq> {}"
  then obtain c c2 where c: "c \<in> set cs" "c2 \<in> set cs2" "d_id c = d_id c2" by auto
  have ids1: "distinct (map d_id (db_deliveries db1))"
  proof -
    have "map d_id (db_deliveries db1) = map d_id (db_deliveries db)"
      using claim_batch_result [OF assms(1,3)] by (simp add: map_update_where)
    then show ?thesis using assms(3) by simp
  qed
  have "\<exists>r\<in>set (db_deliveries db1). d_id r = d_id c \<and> d_status r = IN_PROGRESS
      \<and> d_lease_expires_at r = Some (pg_time (started + seconds 30))"
  proof -
    obtain d where "c = claimed_copy started d"
        "lease_row now worker (started + seconds 30) started d \<in> set (db_deliveries db1)"
      using claimed_row [OF assms(1,3) c(1)] by blast
    then show ?thesis by (intro bexI [of _ "lease_row now worker (started + seconds 30) started d"]) simp_all
  qed
  then obtain r where r: "r \<in> set (db_deliveries db1)" "d_id r = d_id c" "d_status r = IN_PROGRESS"
      "d_lease_expires_at r = Some (pg_time (started + seconds 30))" by blast
  have "\<exists>d\<in>set (db_deliveries db1). c2 = claimed_copy started2 d \<and> claimable now2 d"
    using claimed_row [OF assms(2) ids1 c(2)] by blast
  then obtain d where d: "d \<in> set (db_deliveries db1)" "d_id d = d_id c2" "claimable now2 d"
    by auto
  have "d = r" by (rule distinct_keys_eq [OF ids1 d(1) r(1)]) (simp add: d(2) r(2) c(3))
  then have "claimable now2 r" using d(3) by simp
  then show False using r(3,4) assms(4) by (simp add: claimable_def)
qed

theorem claims_disjoint_witness:
  "claim_batch no_faults (\<lambda>_. False) 3000 6000 ''w2'' 5 0 example_claimed_db
     = (Inr [], example_claimed_db)
   \<and> set (map d_id [claimed_copy 5000 example_delivery]) \<inter> set (map d_id ([] :: delivery list)) = {}"
proof -
  have two: "claim_batch no_faults (\<lambda>_. False) 3000 6000 ''w2'' 5 0 example_claimed_db
      = (Inr [], example_claimed_db)"
    by (simp add: claim_batch_def claim_rows_def run_tx_def claimable_def example_claimed_db_def pg_time_def)
  show ?thesis
    using two claims_disjoint [OF example_claim two]
    by (simp add: example_db_def empty_delivery_db_def pg_time_def)
qed

text \<open>
  The claim updates each row while the result of the query is still open on the same
  connection. With a driver that refuses this, as pgx does (a connection cannot be used until
  its rows are closed), no claim with a deliverable row ever succeeds, and none is leased.
\<close>

lemma claim_fails_on_busy_connection:
  assumes busy: "\<And>i. f (CB_Lease i) = Some (Msg ''conn busy'')"
    and "claim_rows now locked limit db \<noteq> []"
  shows "\<exists>e. claim_batch f locked now started worker limit lease db = (Inl e, db)"
proof -
  obtain d ds where "claim_rows now locked limit db = d # ds"
    using assms(2) by (cases "claim_rows now locked limit db") auto
  then have "\<exists>e. claim_loop f now worker (started + seconds 30) started
      (claim_rows now locked limit db) db = Inl e"
    using busy [of "d_id d"] by (cases "f (CB_Scan (d_id d))"; cases "f (CB_Decode (d_id d))") auto
  then have "\<exists>e. guard (map_option (wrap ''claim query: '') (f CB_Query))
          (if limit < 0
           then Inl (wrap ''claim query: '' (PgError ''2201W'' ''LIMIT must not be negative''))
           else claim_loop f now worker (started + seconds 30) started
                  (claim_rows now locked limit db) db) = Inl e"
    by (cases "f CB_Query") auto
  then obtain e where e: "guard (map_option (wrap ''claim query: '') (f CB_Query))
          (if limit < 0
           then Inl (wrap ''claim query: '' (PgError ''2201W'' ''LIMIT must not be negative''))
           else claim_loop f now worker (started + seconds 30) started
                  (claim_rows now locked limit db) db) = Inl e" by blast
  show ?thesis unfolding claim_batch_def by (rule run_tx_body_error) (rule e)
qed

section \<open>Recording\<close>

definition storable :: "attempt_result \<Rightarrow> bool" where
  "storable res \<longleftrightarrow> pg_text_ok (ar_body res) \<and> text_option_ok (ar_error_message res)"

lemma record_attempt_succeeds:
  assumes inv: "worker_inv (xs @ c # ys) db"
    and ok: "storable res" and nx: "next_status c res = RETRYING \<Longrightarrow> nx \<noteq> None"
  shows "fst (record_attempt no_faults now go_now c res nx db) = Inr ()"
proof -
  let ?a = "attempt_of go_now c res"
  have key: "attempt_key ?a = copy_key c"
    by (simp add: attempt_key_def attempt_of_def copy_key_def)
  have "copy_key c \<notin> set (map attempt_key (db_attempts db))"
    using inv by (auto simp: worker_inv_def tokens_def)
  then have "\<not> list_ex (\<lambda>b. at_delivery_id b = at_delivery_id ?a \<and> at_number b = at_number ?a)
      (db_attempts db)"
    using key by (force simp: list_ex_iff attempt_key_def)
  moreover have "find_row d_id (at_delivery_id ?a) (db_deliveries db) \<noteq> None"
  proof -
    have "token_ok (db_deliveries db) (copy_key c)"
      using inv by (simp add: worker_inv_def tokens_def)
    then have "d_id c \<in> d_id ` set (db_deliveries db)"
      unfolding token_ok_def copy_key_def by (metis fst_conv image_eqI)
    then show ?thesis by (auto simp: attempt_of_def find_row_None_iff)
  qed
  moreover have "at_body ?a = ar_body res" "at_error_message ?a = ar_error_message res"
    by (simp_all add: attempt_of_def)
  ultimately have "insert_attempt ?a db = Inr (db\<lparr>db_attempts := db_attempts db @ [?a]\<rparr>)"
    using ok by (simp add: insert_attempt_def storable_def)
  moreover have "\<not> (next_status c res = RETRYING \<and> nx = None)" using nx by blast
  ultimately show ?thesis
    by (auto simp: record_attempt_def run_tx_def transition_def)
qed

lemma deliver_succeeds:
  assumes "dreach ix s" and "c \<in> set (sys_copies s)"
    and "dv_decrypt env (es_secret (d_snapshot c)) = Inr secret"
    and "storable (send (dv_http env) (delivery_request env secret c))"
  shows "fst (deliver no_faults env c (sys_db s)) = Inr ()"
proof -
  define c' where "c' = c\<lparr>d_snapshot := (d_snapshot c)\<lparr>es_secret := secret\<rparr>\<rparr>"
  define res where "res = send (dv_http env) (delivery_request env secret c')"
  have req: "delivery_request env secret c' = delivery_request env secret c"
    by (simp add: delivery_request_def c'_def)
  from assms(2) obtain xs ys where cs: "sys_copies s = xs @ c # ys" by (meson split_list)
  have "worker_inv (xs @ c # ys) (sys_db s)"
    using dreach_inv [OF assms(1)] cs by (simp add: dsys_inv_def)
  then have inv: "worker_inv (xs @ c' # ys) (sys_db s)"
    using worker_inv_copy [of c c'] by (simp add: copy_key_def c'_def)
  have nx: "next_attempt env c' res \<noteq> None" if "next_status c' res = RETRYING"
    using that by (auto simp: next_attempt_def next_status_def split: result_status.splits if_splits)
  have "fst (record_attempt no_faults (dv_db_now env) (dv_done env) c' res
      (next_attempt env c' res) (sys_db s)) = Inr ()"
    by (rule record_attempt_succeeds [OF inv _ nx]) (use assms(4) req in \<open>simp_all add: res_def\<close>)
  then show ?thesis using assms(3) by (simp add: deliver_def Let_def flip: c'_def res_def)
qed

text \<open>
  In every reachable state, a worker that finishes a copy it holds can record its attempt:
  with no failing call and a response the database can store, delivering succeeds. Neither
  the unique attempt number nor the foreign key nor the time of the next attempt ever
  rejects it, although leases may have run out and other workers may have taken the same
  delivery meanwhile.
\<close>

lemma workers_can_record:
  assumes "dreach ix s" and "c \<in> set (sys_copies s)"
    and "dv_decrypt env (es_secret (d_snapshot c)) = Inr secret"
    and "storable (send (dv_http env) (delivery_request env secret c))"
  shows "fst (deliver no_faults env c (sys_db s)) = Inr ()"
  by (rule deliver_succeeds [OF assms])

definition example_deliver_env :: deliver_env where
  "example_deliver_env = \<lparr>dv_decrypt = (\<lambda>c. Inr c), dv_http = example_env,
     dv_uuid_string = (\<lambda>_. ''id''), dv_impl = (\<lambda>_. 0), dv_random = 0, dv_now = 7000,
     dv_done = 8000, dv_db_now = 8000\<rparr>"

lemma example_claimed_reach:
  "dreach Total_Index \<lparr>sys_db = example_claimed_db, sys_copies = [claimed_copy 5000 example_delivery]\<rparr>"
proof -
  let ?s = "init_dsys\<lparr>sys_db := empty_delivery_db\<lparr>db_deliveries := [example_delivery]\<rparr>\<rparr>"
  have "dstep Total_Index ?s \<lparr>sys_db = example_claimed_db,
          sys_copies = sys_copies ?s @ [claimed_copy 5000 example_delivery]\<rparr>"
    by (rule dstep.claim) (use example_claim in \<open>simp add: example_db_def\<close>)
  then show ?thesis using dreach.step [OF example_reach] by (simp add: init_dsys_def)
qed

lemma example_send_storable:
  "storable (send example_env (delivery_request example_deliver_env key c))"
  by (simp add: storable_def send_defs example_env_def text_option_ok_def pg_text_ok.simps
      utf8_width_def)

lemma example_decrypt: "dv_decrypt example_deliver_env k = Inr k"
  by (simp add: example_deliver_env_def)

lemma example_http: "dv_http example_deliver_env = example_env"
  by (simp add: example_deliver_env_def)

lemma example_deliver_claimed:
  "fst (deliver no_faults example_deliver_env (claimed_copy 5000 example_delivery) example_claimed_db)
     = Inr ()"
  using deliver_succeeds [OF example_claimed_reach, of "claimed_copy 5000 example_delivery"
      example_deliver_env] by (simp add: example_decrypt example_http example_send_storable)

lemma workers_can_record_example:
  "storable (send example_env (delivery_request example_deliver_env ''s''
     (claimed_copy 5000 example_delivery)))
   \<and> fst (deliver no_faults example_deliver_env (claimed_copy 5000 example_delivery)
         example_claimed_db) = Inr ()"
  using workers_can_record [OF example_claimed_reach, of "claimed_copy 5000 example_delivery"
      example_deliver_env] by (simp add: example_decrypt example_http example_send_storable)

end
