(* ===== verification/DeliveryOutcome.thy ===== *)
theory DeliveryOutcome
  imports DeliveryLifecycle
begin

text \<open>
  What one delivery leads to: the outcome on every branch, the time of the next attempt, the
  end in the dead letter queue, and the two ways in which the retry budget is not kept (a
  secret that cannot be decrypted, a worker that comes late); then replaying.
\<close>

section \<open>The outcome of a delivery\<close>

lemma next_attempt_snapshot:
  "next_attempt env (c\<lparr>d_snapshot := (d_snapshot c)\<lparr>es_secret := k\<rparr>\<rparr>) res = next_attempt env c res"
  "next_status (c\<lparr>d_snapshot := (d_snapshot c)\<lparr>es_secret := k\<rparr>\<rparr>) res = next_status c res"
  "attempt_of t (c\<lparr>d_snapshot := (d_snapshot c)\<lparr>es_secret := k\<rparr>\<rparr>) res = attempt_of t c res"
  "delivery_request env k (c\<lparr>d_snapshot := (d_snapshot c)\<lparr>es_secret := k\<rparr>\<rparr>)
     = delivery_request env k c"
  "transition_matches (c\<lparr>d_snapshot := (d_snapshot c)\<lparr>es_secret := k\<rparr>\<rparr>) = transition_matches c"
  by (simp_all add: next_attempt_def next_status_def attempt_of_def delivery_request_def
      transition_matches_def fun_eq_iff cong: result_status.case_cong)

lemma deliver_result:
  assumes "dv_decrypt env (es_secret (d_snapshot c)) = Inr secret"
    and "res = send (dv_http env) (delivery_request env secret c)"
    and "deliver f env c db = (Inr (), db')"
  shows "db_attempts db' = db_attempts db @ [attempt_of (dv_done env) c res]"
    and "db_deliveries db' = update_where (transition_matches c)
           (transition_row (dv_db_now env) (next_status c res) res (next_attempt env c res))
           (db_deliveries db)"
proof -
  let ?c = "c\<lparr>d_snapshot := (d_snapshot c)\<lparr>es_secret := secret\<rparr>\<rparr>"
  have "record_attempt f (dv_db_now env) (dv_done env) ?c res (next_attempt env ?c res) db
      = (Inr (), db')"
    using assms by (simp add: deliver_def Let_def next_attempt_snapshot)
  from record_attempt_result [OF this] show
    "db_attempts db' = db_attempts db @ [attempt_of (dv_done env) c res]"
    "db_deliveries db' = update_where (transition_matches c)
       (transition_row (dv_db_now env) (next_status c res) res (next_attempt env c res))
       (db_deliveries db)"
    by (simp_all add: next_attempt_snapshot)
qed

text \<open>
  C1. The outcome of delivering a claimed copy, on every branch: a success makes the row
  delivered, a permanent failure makes it failed, a retryable failure makes it dead once the
  attempt number has reached the policy's maximum, and otherwise schedules the next attempt
  at the computed delay. The lease is given up, the attempt is appended to the history under
  its number, and no other row changes.
\<close>

theorem deliver_outcome:
  assumes "r \<in> set (db_deliveries db)" and "d_id r = d_id c" and "d_status r = IN_PROGRESS"
    and "dv_decrypt env (es_secret (d_snapshot c)) = Inr secret"
    and "res = send (dv_http env) (delivery_request env secret c)"
    and "deliver f env c db = (Inr (), db')"
  shows "(\<exists>r'\<in>set (db_deliveries db'). d_id r' = d_id c \<and> d_lease_owner r' = None
            \<and> d_lease_expires_at r' = None
            \<and> (case ar_status res of
                 Success \<Rightarrow> d_status r' = DELIVERED \<and> d_completed_at r' = Some (dv_db_now env)
               | Permanent_Failure \<Rightarrow> d_status r' = FAILED \<and> d_completed_at r' = Some (dv_db_now env)
               | Retryable_Failure \<Rightarrow>
                   (if rp_max_attempts (es_retry_policy (d_snapshot c)) \<le> d_attempt_count c
                    then d_status r' = DLQ \<and> d_completed_at r' = Some (dv_db_now env)
                    else d_status r' = RETRYING \<and> d_completed_at r' = None
                         \<and> d_next_attempt_at r' = pg_time (dv_now env
                              + sint (next_delay (dv_impl env) (dv_random env)
                                  (backoff_of (es_retry_policy (d_snapshot c))) (d_attempt_count c))))))
    \<and> (\<exists>a. db_attempts db' = db_attempts db @ [a] \<and> at_delivery_id a = d_id c
            \<and> at_number a = d_attempt_count c \<and> at_status a = ar_status res)
    \<and> (\<forall>x\<in>set (db_deliveries db). d_id x \<noteq> d_id c \<longrightarrow> x \<in> set (db_deliveries db'))"
proof -
  note del = deliver_result [OF assms(4,5,6)]
  let ?r = "transition_row (dv_db_now env) (next_status c res) res (next_attempt env c res) r"
  have "?r \<in> set (db_deliveries db')"
    using assms(1-3) by (force simp: del(2) set_update_where transition_matches_def)
  moreover have "case ar_status res of
                 Success \<Rightarrow> d_status ?r = DELIVERED \<and> d_completed_at ?r = Some (dv_db_now env)
               | Permanent_Failure \<Rightarrow> d_status ?r = FAILED \<and> d_completed_at ?r = Some (dv_db_now env)
               | Retryable_Failure \<Rightarrow>
                   (if rp_max_attempts (es_retry_policy (d_snapshot c)) \<le> d_attempt_count c
                    then d_status ?r = DLQ \<and> d_completed_at ?r = Some (dv_db_now env)
                    else d_status ?r = RETRYING \<and> d_completed_at ?r = None
                         \<and> d_next_attempt_at ?r = pg_time (dv_now env
                              + sint (next_delay (dv_impl env) (dv_random env)
                                  (backoff_of (es_retry_policy (d_snapshot c))) (d_attempt_count c))))"
    by (simp add: next_status_def next_attempt_def transition_row_def split: result_status.split)
  moreover have "d_id ?r = d_id c" using assms(2) by simp
  ultimately have one: "\<exists>r'\<in>set (db_deliveries db'). d_id r' = d_id c \<and> d_lease_owner r' = None
            \<and> d_lease_expires_at r' = None
            \<and> (case ar_status res of
                 Success \<Rightarrow> d_status r' = DELIVERED \<and> d_completed_at r' = Some (dv_db_now env)
               | Permanent_Failure \<Rightarrow> d_status r' = FAILED \<and> d_completed_at r' = Some (dv_db_now env)
               | Retryable_Failure \<Rightarrow>
                   (if rp_max_attempts (es_retry_policy (d_snapshot c)) \<le> d_attempt_count c
                    then d_status r' = DLQ \<and> d_completed_at r' = Some (dv_db_now env)
                    else d_status r' = RETRYING \<and> d_completed_at r' = None
                         \<and> d_next_attempt_at r' = pg_time (dv_now env
                              + sint (next_delay (dv_impl env) (dv_random env)
                                  (backoff_of (es_retry_policy (d_snapshot c))) (d_attempt_count c)))))"
    by (intro bexI [of _ ?r] conjI) simp_all
  have "x \<in> set (db_deliveries db')" if "x \<in> set (db_deliveries db)" "d_id x \<noteq> d_id c" for x
    unfolding del(2) using that by (intro update_where_keeps) (auto simp: transition_matches_def)
  then show ?thesis using one by (auto simp: del(1) attempt_of_def)
qed

definition example_row :: delivery where
  "example_row = lease_row 2000 ''w1'' (5000 + seconds 30) 5000 example_delivery"

definition example_copy :: delivery where
  "example_copy = claimed_copy 5000 example_delivery"

definition example_result :: attempt_result where
  "example_result = send example_env (delivery_request example_deliver_env ''s'' example_copy)"

lemma example_copy_secret: "es_secret (d_snapshot example_copy) = ''s''"
  by (simp add: example_copy_def example_defs)

lemma example_deliver:
  "\<exists>db'. deliver no_faults example_deliver_env example_copy example_claimed_db = (Inr (), db')"
  using example_deliver_claimed by (metis example_copy_def prod.collapse)

theorem deliver_outcome_witness:
  "\<exists>db' :: delivery_db. \<exists>r'\<in>set (db_deliveries db'). d_status r' = RETRYING \<and> d_lease_owner r' = None"
proof -
  obtain db' where d: "deliver no_faults example_deliver_env example_copy example_claimed_db
      = (Inr (), db')" using example_deliver by blast
  have r: "example_row \<in> set (db_deliveries example_claimed_db)" "d_id example_row = d_id example_copy"
      "d_status example_row = IN_PROGRESS"
    by (simp_all add: example_row_def example_copy_def example_claimed_db_def)
  have s: "dv_decrypt example_deliver_env (es_secret (d_snapshot example_copy)) = Inr ''s''"
    by (simp add: example_copy_secret example_deliver_env_def)
  have res: "example_result = send (dv_http example_deliver_env)
      (delivery_request example_deliver_env ''s'' example_copy)"
    by (simp add: example_result_def example_deliver_env_def)
  have "ar_status example_result = Retryable_Failure"
    by (simp add: example_result_def send_defs example_env_def)
  moreover have "rp_max_attempts (es_retry_policy (d_snapshot example_copy)) = 2"
      "d_attempt_count example_copy = 1"
    by (simp_all add: example_copy_def example_defs)
  ultimately have "\<exists>r'\<in>set (db_deliveries db'). d_status r' = RETRYING \<and> d_lease_owner r' = None"
    using deliver_outcome [OF r s res d] by auto
  then show ?thesis by blast
qed

section \<open>The time of the next attempt\<close>



section \<open>Where the retry budget is not kept\<close>

text \<open>
  A secret that cannot be decrypted: delivering returns an error and changes nothing, so the
  delivery keeps its lease, no attempt is recorded, and once the lease has run out the row is
  claimable again with its count increased. This holds whatever the policy's maximum is: such
  a delivery never becomes failed or dead.
\<close>

lemma undecryptable_delivery_is_reclaimed:
  assumes "claim_batch f locked now started worker limit lease db = (Inr cs, db1)"
    and "distinct (map d_id (db_deliveries db))" and "c \<in> set cs"
    and "dv_decrypt env (es_secret (d_snapshot c)) = Inl e"
    and "pg_time (started + seconds 30) < later"
  shows "\<exists>err db2 r. deliver g env c db1 = (Inl err, db2) \<and> db_attempts db2 = db_attempts db
           \<and> r \<in> set (db_deliveries db2) \<and> d_id r = d_id c
           \<and> d_attempt_count r = d_attempt_count c \<and> claimable later r"
proof -
  have d: "deliver g env c db1 = (Inl (wrap ''decrypt endpoint secret: '' e), db1)"
    using assms(4) by (simp add: deliver_def)
  have "\<exists>r\<in>set (db_deliveries db1). d_id r = d_id c \<and> d_status r = IN_PROGRESS
      \<and> d_lease_owner r = Some worker \<and> d_lease_expires_at r = Some (pg_time (started + seconds 30))
      \<and> d_attempt_count r = d_attempt_count c"
  proof -
    obtain d where "c = claimed_copy started d"
        "lease_row now worker (started + seconds 30) started d \<in> set (db_deliveries db1)"
      using claimed_row [OF assms(1,2,3)] by blast
    then show ?thesis by (intro bexI [of _ "lease_row now worker (started + seconds 30) started d"]) simp_all
  qed
  then obtain r where r: "r \<in> set (db_deliveries db1)" "d_id r = d_id c" "d_status r = IN_PROGRESS"
      "d_lease_expires_at r = Some (pg_time (started + seconds 30))"
      "d_attempt_count r = d_attempt_count c" by blast
  have a: "db_attempts db1 = db_attempts db" using claim_batch_result [OF assms(1,2)] by simp
  have "claimable later r" using r(3,4) assms(5) by (simp add: claimable_def)
  then show ?thesis by (intro exI conjI) (rule d a r(1) r(2) r(5) | assumption)+
qed

lemma undecryptable_delivery_is_reclaimed_example:
  "\<exists>err db2 r. deliver no_faults (example_deliver_env\<lparr>dv_decrypt := (\<lambda>_. Inl (Msg ''bad''))\<rparr>)
       example_copy example_claimed_db = (Inl err, db2) \<and> db_attempts db2 = db_attempts example_db
     \<and> r \<in> set (db_deliveries db2) \<and> d_id r = d_id example_copy
     \<and> d_attempt_count r = d_attempt_count example_copy \<and> claimable (seconds 31) r"
proof -
  have c: "example_copy \<in> set [claimed_copy 5000 example_delivery]" by (simp add: example_copy_def)
  have ids: "distinct (map d_id (db_deliveries example_db))"
    by (simp add: example_db_def empty_delivery_db_def)
  have e: "dv_decrypt (example_deliver_env\<lparr>dv_decrypt := (\<lambda>_. Inl (Msg ''bad''))\<rparr>)
      (es_secret (d_snapshot example_copy)) = Inl (Msg ''bad'')" by simp
  have t: "pg_time (5000 + seconds 30) < seconds 31" by (simp add: pg_time_def)
  show ?thesis by (rule undecryptable_delivery_is_reclaimed [OF example_claim ids c e t])
qed

text \<open>
  Recording does not check the lease: a worker whose lease has run out, and whose delivery
  another worker has claimed since (the row carries a higher attempt number), still moves
  the row when it fails retryably: the other worker's lease is cleared and the delivery is
  scheduled again, even if the attempts made have already reached the policy's maximum.
\<close>

lemma late_worker_overrides_lease:
  assumes "r \<in> set (db_deliveries db)" and "d_id r = d_id c" and "d_status r = IN_PROGRESS"
    and "d_attempt_count c < d_attempt_count r"
    and "rp_max_attempts (es_retry_policy (d_snapshot c)) = d_attempt_count r"
    and "ar_status res = Retryable_Failure"
    and "record_attempt f now go_now c res nx db = (Inr (), db')"
  shows "\<exists>r'\<in>set (db_deliveries db'). d_id r' = d_id r \<and> d_status r' = RETRYING
           \<and> d_lease_owner r' = None
           \<and> d_attempt_count r' = rp_max_attempts (es_retry_policy (d_snapshot c))"
proof -
  have "next_status c res = RETRYING" using assms(4-6) by (simp add: next_status_def)
  then have db': "db_deliveries db' = update_where (transition_matches c)
      (transition_row now RETRYING res nx) (db_deliveries db)"
    using record_attempt_result [OF assms(7)] by simp
  let ?r = "transition_row now RETRYING res nx r"
  have "?r \<in> set (db_deliveries db')"
    using assms(1-3) by (force simp: db' set_update_where transition_matches_def)
  then show ?thesis using assms(5) by (intro bexI [of _ ?r]) simp_all
qed

definition example_late_row :: delivery where
  "example_late_row = lease_row 9000 ''w2'' (seconds 90) (seconds 60) example_row"

definition example_late_db :: delivery_db where
  "example_late_db = example_db\<lparr>db_deliveries := [example_late_row]\<rparr>"

definition example_late_result :: attempt_result where
  "example_late_result = \<lparr>ar_status = Retryable_Failure, ar_http_status = Some 503,
     ar_error_code = None, ar_error_message = None, ar_headers = None, ar_body = [], ar_latency = 0\<rparr>"

lemma late_worker_overrides_lease_example:
  "\<exists>db' :: delivery_db. \<exists>r'\<in>set (db_deliveries db'). d_status r' = RETRYING \<and> d_attempt_count r' = 2"
proof -
  have m: "rp_max_attempts (es_retry_policy (d_snapshot example_copy)) = 2"
      "d_attempt_count example_copy = 1" "d_id example_copy = d_id example_late_row"
      "d_attempt_count example_late_row = 2" "d_status example_late_row = IN_PROGRESS"
    by (simp_all add: example_copy_def example_late_row_def example_row_def example_defs)
  have db: "db_deliveries example_late_db = [example_late_row]" "db_attempts example_late_db = []"
    by (simp_all add: example_late_db_def example_db_def empty_delivery_db_def)
  have res: "ar_status example_late_result = Retryable_Failure" "ar_body example_late_result = []"
      "ar_error_message example_late_result = None" by (simp_all add: example_late_result_def)
  have a: "insert_attempt (attempt_of 9000 example_copy example_late_result) example_late_db
      = Inr (example_late_db\<lparr>db_attempts := [attempt_of 9000 example_copy example_late_result]\<rparr>)"
    by (simp add: insert_attempt_def attempt_of_def text_option_ok_def db res m find_row_def)
  have "\<exists>db'. record_attempt no_faults 9000 9000 example_copy example_late_result (Some 9500)
      example_late_db = (Inr (), db')"
    by (simp add: record_attempt_def run_tx_no_fault a transition_def)
  then obtain db' where d: "record_attempt no_faults 9000 9000 example_copy example_late_result
      (Some 9500) example_late_db = (Inr (), db')" by blast
  have "\<exists>r'\<in>set (db_deliveries db'). d_id r' = d_id example_late_row \<and> d_status r' = RETRYING
      \<and> d_lease_owner r' = None
      \<and> d_attempt_count r' = rp_max_attempts (es_retry_policy (d_snapshot example_copy))"
    by (rule late_worker_overrides_lease [OF _ _ _ _ _ _ d]) (simp_all add: m db res)
  then show ?thesis using m(1) by auto
qed

section \<open>Replaying\<close>

text \<open>
  C8. A replay succeeds only for a delivery of the same tenant that is failed or dead. It adds one
  pending delivery with no attempts, due at once, with the event, the payload, the endpoint
  and the endpoint's settings of the original, to which it refers; no stored delivery and no
  attempt changes.
\<close>

theorem replay_correct:
  assumes "replay f g ix now new_id tenant did db = (Inr rid, db')"
    and "distinct (map d_id (db_deliveries db))"
  shows "rid = new_id
    \<and> (\<exists>d\<in>set (db_deliveries db). d_id d = did \<and> d_tenant_id d = tenant
          \<and> (d_status d = FAILED \<or> d_status d = DLQ)
          \<and> (\<exists>n. db_deliveries db' = db_deliveries db @ [n] \<and> d_id n = new_id
               \<and> d_status n = PENDING \<and> d_attempt_count n = 0 \<and> d_next_attempt_at n = now
               \<and> d_replay_of n = Some did \<and> d_tenant_id n = tenant
               \<and> d_event_id n = d_event_id d \<and> d_endpoint_id n = d_endpoint_id d
               \<and> d_payload n = d_payload d \<and> d_snapshot n = d_snapshot d))
    \<and> db_attempts db' = db_attempts db"
proof -
  from assms(1) obtain d where get: "get_delivery f tenant did db = Inr d"
    and st: "d_status d = FAILED \<or> d_status d = DLQ"
    and cr: "create_replay g ix now new_id d db = (Inr rid, db')"
    by (auto simp: replay_def split: sum.splits if_splits)
  from get have d: "d \<in> set (db_deliveries db)" "d_id d = did" "d_tenant_id d = tenant"
    by (auto simp: get_delivery_def guard_Inr find_Some_iff split: option.splits)
  from cr have "rid = new_id" and db': "db' = add_delivery (replay_row now new_id d) db"
    by (auto simp: create_replay_def guard_Inr insert_delivery_def split: sum.splits if_splits)
  then show ?thesis using d st by (auto simp: add_delivery_def)
qed

definition example_failed :: delivery where
  "example_failed = example_delivery\<lparr>d_status := DLQ, d_attempt_count := 2, d_completed_at := Some 9\<rparr>"

lemma example_replay:
  "replay no_faults None migrated_index 10 77 3 11 (example_db\<lparr>db_deliveries := [example_failed]\<rparr>)
     = (Inr 77, example_db\<lparr>db_deliveries := [example_failed, replay_row 10 77 example_failed]\<rparr>)"
  by (simp add: replay_def get_delivery_def create_replay_def insert_delivery_def find_row_def
      has_conflict_def index_conflict_def add_delivery_def migrated_index_def example_failed_def
      example_delivery_def example_event_def)

theorem replay_correct_witness:
  "d_status (replay_row 10 77 example_failed) = PENDING
   \<and> (\<exists>d\<in>set [example_failed]. d_id d = 11 \<and> d_tenant_id d = 3)"
  using replay_correct [OF example_replay] by (auto simp: example_db_def)

section \<open>A finished delivery\<close>

definition ok_deliver_env :: deliver_env where
  "ok_deliver_env = example_deliver_env\<lparr>dv_http := example_env\<lparr>env_do := (\<lambda>_. Response
     \<lparr>hr_status = 200, hr_headers = [], hr_body = ''ok'', hr_body_error = None\<rparr>)\<rparr>\<rparr>"

lemma ok_send:
  "send (dv_http ok_deliver_env) req = \<lparr>ar_status = Success, ar_http_status = Some 200,
     ar_error_code = None, ar_error_message = None, ar_headers = Some [], ar_body = ''ok'',
     ar_latency = 5\<rparr>"
  by (simp add: ok_deliver_env_def send_defs example_env_def read_body_def max_response_body_def
      classify_def first_values_def)

lemma ok_env_times: "dv_db_now ok_deliver_env = 8000"
  by (simp add: ok_deliver_env_def example_deliver_env_def)

definition delivered_row :: delivery where
  "delivered_row = transition_row 8000 DELIVERED (send (dv_http ok_deliver_env)
     (delivery_request ok_deliver_env ''s'' example_copy)) None example_row"

lemma delivered_reach:
  "\<exists>db'. dreach Total_Index \<lparr>sys_db = db', sys_copies = []\<rparr> \<and> db_deliveries db' = [delivered_row]"
proof -
  let ?s = "\<lparr>sys_db = example_claimed_db, sys_copies = [example_copy]\<rparr>"
  define db' where "db' = snd (deliver no_faults ok_deliver_env example_copy example_claimed_db)"
  have dec: "dv_decrypt ok_deliver_env (es_secret (d_snapshot example_copy)) = Inr ''s''"
    by (simp add: ok_deliver_env_def example_decrypt example_copy_secret)
  have reach: "dreach Total_Index ?s" using example_claimed_reach by (simp add: example_copy_def)
  have "fst (deliver no_faults ok_deliver_env example_copy example_claimed_db) = Inr ()"
    using deliver_succeeds [OF reach, of example_copy ok_deliver_env] dec
    by (simp add: ok_send storable_def text_option_ok_def pg_text_ok.simps utf8_width_def)
  then have "deliver no_faults ok_deliver_env example_copy example_claimed_db = (Inr (), db')"
    by (simp add: db'_def prod_eq_iff)
  from deliver_result(2) [OF dec refl this] have "db_deliveries db' = [delivered_row]"
    by (simp add: delivered_row_def example_claimed_db_def example_row_def example_copy_def
        transition_matches_def next_status_def next_attempt_def ok_send ok_env_times)
  moreover have "dstep Total_Index ?s \<lparr>sys_db = db', sys_copies = []\<rparr>"
    using dstep.work [of ?s "[]" example_copy "[]" Total_Index no_faults ok_deliver_env]
    by (simp add: db'_def)
  ultimately show ?thesis using dreach.step [OF reach] by blast
qed

theorem completed_deliveries_unchanged_witness:
  "\<exists>db'. db_deliveries db' = [delivered_row] \<and>
     delivered_row \<in> set (db_deliveries (snd (replay no_faults None Total_Index 9000 77 3 11 db')))"
proof -
  obtain db' where r: "dreach Total_Index \<lparr>sys_db = db', sys_copies = []\<rparr>"
    and d: "db_deliveries db' = [delivered_row]" using delivered_reach by blast
  have "d_status delivered_row = DELIVERED" by (simp add: delivered_row_def)
  then show ?thesis
    using completed_deliveries_unchanged [OF r dstep.replay, of delivered_row] d by auto
qed

end
