(* ===== verification/DeliveryLiveness.thy ===== *)
theory DeliveryLiveness
  imports DeliveryOutcome
begin

text \<open>
  Retrying ends. A run follows one delivery of the delivery system: its recorded attempts all fail
  retryably, one worker at a time holds a copy of it, and between its own steps the system does
  anything else (other deliveries are claimed, delivered and replayed, events arrive, workers
  stop, calls fail). Such a run has at most as many attempts of the delivery as its policy
  allows, and with the last one the delivery is dead.
\<close>

section \<open>Runs of one delivery\<close>

definition copies_of :: "uuid \<Rightarrow> dsys \<Rightarrow> delivery list" where
  "copies_of i s = filter (\<lambda>c. d_id c = i) (sys_copies s)"

definition attempt_numbers :: "uuid \<Rightarrow> dsys \<Rightarrow> int list" where
  "attempt_numbers i s = map at_number (filter (\<lambda>a. at_delivery_id a = i) (db_attempts (sys_db s)))"

text \<open>
  \<open>other\<close> is any step that leaves the copies of the delivery alone, \<open>taken\<close> a claim that returns
  one while no worker has one, \<open>failed\<close> the end of an attempt that is recorded. The number counts
  the attempts.
\<close>

inductive failing_run :: "event_endpoint_index \<Rightarrow> uuid \<Rightarrow> dsys \<Rightarrow> nat \<Rightarrow> dsys \<Rightarrow> bool" for ix i s where
  start: "failing_run ix i s 0 s"
| other: "failing_run ix i s n t \<Longrightarrow> dstep ix t u \<Longrightarrow> copies_of i u = copies_of i t \<Longrightarrow> failing_run ix i s n u"
| taken: "failing_run ix i s n t \<Longrightarrow> dstep ix t u \<Longrightarrow> copies_of i t = [] \<Longrightarrow> copies_of i u \<noteq> [] \<Longrightarrow>
    failing_run ix i s n u"
| failed: "failing_run ix i s n t \<Longrightarrow> sys_copies t = xs @ c # ys \<Longrightarrow> d_id c = i \<Longrightarrow>
    deliver g env c (sys_db t) = (Inr (), db') \<Longrightarrow> dv_decrypt env (es_secret (d_snapshot c)) = Inr secret \<Longrightarrow>
    ar_status (send (dv_http env) (delivery_request env secret c)) = Retryable_Failure \<Longrightarrow>
    failing_run ix i s (Suc n) \<lparr>sys_db = db', sys_copies = xs @ ys\<rparr>"

lemma failing_run_reach: "failing_run ix i s n t \<Longrightarrow> dreach ix s \<Longrightarrow> dreach ix t"
proof (induction rule: failing_run.induct)
  case (failed n t xs c ys g env db' secret)
  from dstep.work [OF failed.hyps(2), of ix g env] failed.hyps(4) have
    "dstep ix t \<lparr>sys_db = db', sys_copies = xs @ ys\<rparr>" by simp
  with failed.IH [OF failed.prems] show ?case by (rule dreach.step)
qed (auto intro: dreach.step)

section \<open>Steps that leave the delivery alone\<close>

lemma deliver_unchanged_or_recorded:
  "snd (deliver g env c db) = db
   \<or> (\<exists>secret. dv_decrypt env (es_secret (d_snapshot c)) = Inr secret
        \<and> deliver g env c db = (Inr (), snd (deliver g env c db)))"
proof (cases "dv_decrypt env (es_secret (d_snapshot c))")
  case (Inl e)
  then show ?thesis by (simp add: deliver_def)
next
  case (Inr secret)
  show ?thesis
  proof (cases "fst (deliver g env c db)")
    case (Inl e)
    then have "snd (deliver g env c db) = db"
      using Inr unfolding deliver_def record_attempt_def Let_def
      by (simp split: sum.splits prod.splits) (metis prod.collapse run_tx_atomic)+
    then show ?thesis ..
  next
    case (Inr u)
    then show ?thesis using \<open>dv_decrypt env (es_secret (d_snapshot c)) = Inr secret\<close> by (metis prod.collapse unit.exhaust)
  qed
qed

lemma handle_attempts: "db_attempts (snd (handle_event_accepted f ix now gen reader e db)) = db_attempts db"
proof -
  have loop: "create_loop f ix now gen e i eps d = Inr d' \<Longrightarrow> db_attempts d' = db_attempts d" for i eps d d'
    by (induction eps arbitrary: i d)
      (auto simp: guard_Inr insert_on_conflict_def insert_delivery_def add_delivery_def
        split: sum.splits event_endpoint_index.splits if_splits)
  have "db_attempts (snd (create_deliveries f ix now gen e eps db)) = db_attempts db" for eps
    unfolding create_deliveries_def
    by (rule run_tx_preserves [where P = "\<lambda>db'. db_attempts db' = db_attempts db"])
      (auto split: sum.splits dest: loop)
  then show ?thesis by (auto simp: handle_event_accepted_def split: sum.splits)
qed

lemma replay_attempts: "db_attempts (snd (replay f g ix now new_id tenant did db)) = db_attempts db"
  by (auto simp: replay_def create_replay_def guard_Inr insert_delivery_def add_delivery_def
      split: sum.splits if_splits)

lemma claim_other_row:
  assumes "claim_batch f locked now started worker limit lease db = (Inr cs, db')"
    and "distinct (map d_id (db_deliveries db))"
    and "r \<in> set (db_deliveries db)" and "d_id r \<notin> d_id ` set cs"
  shows "r \<in> set (db_deliveries db')"
  using claim_batch_result [OF assms(1,2)] assms(3,4) by (auto simp: image_image intro: update_where_keeps)

lemma other_step:
  assumes "dsys_inv t" and "dstep ix t u" and "copies_of i u = copies_of i t"
    and "r \<in> set (db_deliveries (sys_db t))" and "d_id r = i"
  shows "r \<in> set (db_deliveries (sys_db u)) \<and> attempt_numbers i u = attempt_numbers i t"
proof -
  have ids: "distinct (map d_id (db_deliveries (sys_db t)))"
    using assms(1) worker_inv_ids by (simp add: dsys_inv_def)
  from assms(2) show ?thesis
  proof (cases rule: dstep.cases)
    case (accept f now gen reader e)
    then show ?thesis using subsetD [OF handle_keeps assms(4)] by (simp add: attempt_numbers_def handle_attempts)
  next
    case (claim f locked now started worker limit lease cs db')
    then have "i \<notin> d_id ` set cs" using assms(3) by (auto simp: copies_of_def filter_empty_conv)
    then show ?thesis using claim_other_row [OF claim(2) ids assms(4)] claim_batch_result [OF claim(2) ids] claim(1) assms(5)
      by (simp add: attempt_numbers_def)
  next
    case (work xs c ys g env)
    then have c: "d_id c \<noteq> i" using assms(3) by (auto simp: copies_of_def split: if_splits dest: arg_cong [of _ _ length])
    from deliver_unchanged_or_recorded [of g env c "sys_db t"] show ?thesis
    proof (elim disjE exE conjE)
      assume "snd (deliver g env c (sys_db t)) = sys_db t"
      then show ?thesis using work(1) assms(4) by (simp add: attempt_numbers_def)
    next
      fix secret
      assume "dv_decrypt env (es_secret (d_snapshot c)) = Inr secret"
        and "deliver g env c (sys_db t) = (Inr (), snd (deliver g env c (sys_db t)))"
      from deliver_result [OF this(1) HOL.refl this(2)] show ?thesis
        using work(1) assms(4,5) c
        by (auto simp: attempt_numbers_def attempt_of_def transition_matches_def intro: update_where_keeps)
    qed
  next
    case (crash xs c ys)
    then show ?thesis using assms(4) by (simp add: attempt_numbers_def)
  next
    case (replay h e now new_id tenant did)
    then show ?thesis using subsetD [OF replay_keeps assms(4)] by (simp add: attempt_numbers_def replay_attempts)
  qed
qed
section \<open>The delivery along the run\<close>

text \<open>
  Either no worker has the delivery, and it waits for its next attempt or is dead, or one worker
  has a copy with the next attempt number.
\<close>

definition along_run :: "uuid \<Rightarrow> int \<Rightarrow> nat \<Rightarrow> dsys \<Rightarrow> bool" where
  "along_run i m n t \<longleftrightarrow> int n \<le> m \<and> attempt_numbers i t = [1..int n]
     \<and> (\<exists>r\<in>set (db_deliveries (sys_db t)). d_id r = i \<and> rp_max_attempts (es_retry_policy (d_snapshot r)) = m
          \<and> (case copies_of i t of
               [] \<Rightarrow> d_attempt_count r = int n
                     \<and> (if int n = m then d_status r = DLQ else d_status r = PENDING \<or> d_status r = RETRYING)
             | [c] \<Rightarrow> int n < m \<and> d_attempt_count r = int n + 1 \<and> d_status r = IN_PROGRESS
                     \<and> d_attempt_count c = int n + 1 \<and> rp_max_attempts (es_retry_policy (d_snapshot c)) = m
             | _ \<Rightarrow> False))"

lemma filter_one:
  "distinct (map k xs) \<Longrightarrow> x \<in> set xs \<Longrightarrow> k x = i \<Longrightarrow> filter (\<lambda>y. k y = i) xs = [x]"
  by (induction xs) (auto simp: filter_empty_conv image_iff)

lemma upto_snoc: "0 \<le> k \<Longrightarrow> [1..k + 1] = [1..k] @ [k + 1]" for k :: int
  by (subst upto_rec2) simp_all

text \<open>Only a claim gives a worker a copy.\<close>

lemma taken_from_claim:
  assumes "dstep ix t u" and "copies_of i t = []" and "copies_of i u \<noteq> []"
  obtains f locked now started worker limit lease cs db' where
    "claim_batch f locked now started worker limit lease (sys_db t) = (Inr cs, db')"
    "u = \<lparr>sys_db = db', sys_copies = sys_copies t @ cs\<rparr>"
  using assms by cases (auto simp: copies_of_def split: if_splits)

lemma taken_step:
  assumes inv: "dsys_inv t" and at: "along_run i m n t" and step: "dstep ix t u"
    and free: "copies_of i t = []" and taken: "copies_of i u \<noteq> []"
  shows "along_run i m n u"
proof -
  have ids: "distinct (map d_id (db_deliveries (sys_db t)))"
    using inv worker_inv_ids by (simp add: dsys_inv_def)
  obtain f locked now started worker limit lease cs db' where
    claim: "claim_batch f locked now started worker limit lease (sys_db t) = (Inr cs, db')"
    and u: "u = \<lparr>sys_db = db', sys_copies = sys_copies t @ cs\<rparr>"
    using taken_from_claim [OF step free taken] .
  have copies: "copies_of i u = filter (\<lambda>c. d_id c = i) cs"
    using free by (simp add: u copies_of_def)
  then obtain c where c: "c \<in> set cs" "d_id c = i" using taken by (auto simp: filter_empty_conv)
  have "distinct (map d_id cs)"
    using distinct_claim_rows [OF ids] claim_batch_result [OF claim ids] by (simp add: comp_def)
  then have one: "copies_of i u = [c]" using filter_one [of d_id cs c i] c copies by simp
  from claimed_row [OF claim ids c(1)] obtain d where d: "c = claimed_copy started d"
      "d \<in> set (db_deliveries (sys_db t))" "claimable now d"
      "lease_row now worker (started + seconds 30) started d \<in> set (db_deliveries db')" by blast
  from at obtain r where r: "r \<in> set (db_deliveries (sys_db t))" "d_id r = i"
      "rp_max_attempts (es_retry_policy (d_snapshot r)) = m" "d_attempt_count r = int n"
      "if int n = m then d_status r = DLQ else d_status r = PENDING \<or> d_status r = RETRYING"
    by (auto simp: along_run_def free)
  have "d = r" by (rule distinct_keys_eq [OF ids d(2) r(1)]) (use c(2) d(1) r(2) in simp)
  then have row: "lease_row now worker (started + seconds 30) started r \<in> set (db_deliveries (sys_db u))"
    and less: "int n < m" and cr: "c = claimed_copy started r"
    using d at r(5) by (auto simp: u along_run_def claimable_def split: if_splits)
  have "attempt_numbers i u = attempt_numbers i t"
    using claim_batch_result [OF claim ids] by (simp add: attempt_numbers_def u)
  then show ?thesis
    using at less row r(2-4) cr unfolding along_run_def one
    by (intro conjI bexI [OF _ row]) simp_all
qed

lemma failed_step:
  assumes at: "along_run i m n t" and copies: "sys_copies t = xs @ c # ys" and id: "d_id c = i"
    and del: "deliver g env c (sys_db t) = (Inr (), db')"
    and secret: "dv_decrypt env (es_secret (d_snapshot c)) = Inr secret"
    and res: "ar_status (send (dv_http env) (delivery_request env secret c)) = Retryable_Failure"
  shows "along_run i m (Suc n) \<lparr>sys_db = db', sys_copies = xs @ ys\<rparr>"
proof -
  let ?u = "\<lparr>sys_db = db', sys_copies = xs @ ys\<rparr>"
  have "c \<in> set (copies_of i t)" using copies id by (simp add: copies_of_def)
  then obtain c' cs where cs: "copies_of i t = c' # cs" by (cases "copies_of i t") auto
  then have "cs = []" using at by (cases cs) (auto simp: along_run_def)
  then have one': "copies_of i t = [c']" using cs by simp
  from at obtain r where r: "r \<in> set (db_deliveries (sys_db t))" "d_id r = i"
      "rp_max_attempts (es_retry_policy (d_snapshot r)) = m" "d_attempt_count r = int n + 1"
      "d_status r = IN_PROGRESS"
    and rest: "int n < m" "d_attempt_count c' = int n + 1"
      "rp_max_attempts (es_retry_policy (d_snapshot c')) = m"
    by (auto simp: along_run_def one')
  note one = one' rest
  have c: "c' = c" "copies_of i ?u = []"
    using one(1) copies id by (auto simp: copies_of_def append_eq_Cons_conv)
  note out = deliver_result [OF secret HOL.refl del]
  define r' where "r' = transition_row (dv_db_now env)
    (next_status c (send (dv_http env) (delivery_request env secret c)))
    (send (dv_http env) (delivery_request env secret c))
    (next_attempt env c (send (dv_http env) (delivery_request env secret c))) r"
  have row: "r' \<in> set (db_deliveries (sys_db ?u))"
    using r id by (force simp: out(2) set_update_where transition_matches_def r'_def)
  have "attempt_numbers i ?u = [1..int (Suc n)]"
  proof -
    have "attempt_numbers i ?u = attempt_numbers i t @ [int n + 1]"
      using one(3) id by (simp add: attempt_numbers_def out(1) attempt_of_def c(1))
    also have "\<dots> = [1..int n + 1]" using at upto_snoc [of "int n"] by (simp add: along_run_def)
    also have "int n + 1 = int (Suc n)" by simp
    finally show ?thesis .
  qed
  moreover have "d_status r' = (if m \<le> int n + 1 then DLQ else RETRYING)"
    using res one(3,4) by (simp add: r'_def next_status_def c(1))
  ultimately show ?thesis
    using one(2) r unfolding along_run_def c(2)
    by (intro conjI bexI [OF _ row]) (auto simp: r'_def)
qed

lemma run_along:
  assumes "failing_run ix i s n t" and "dreach ix s" and "along_run i m 0 s"
  shows "along_run i m n t"
  using assms
proof (induction rule: failing_run.induct)
  case (other n t u)
  have inv: "dsys_inv t" using failing_run_reach [OF other.hyps(1) other.prems(1)] by (rule dreach_inv)
  from other.IH [OF other.prems] obtain r where r: "r \<in> set (db_deliveries (sys_db t))" "d_id r = i"
      and at: "along_run i m n t" by (auto simp: along_run_def)
  from at obtain r where r: "r \<in> set (db_deliveries (sys_db t))" "d_id r = i"
    and rest: "int n \<le> m \<and> attempt_numbers i t = [1..int n]"
      "rp_max_attempts (es_retry_policy (d_snapshot r)) = m
          \<and> (case copies_of i t of
               [] \<Rightarrow> d_attempt_count r = int n
                     \<and> (if int n = m then d_status r = DLQ else d_status r = PENDING \<or> d_status r = RETRYING)
             | [c] \<Rightarrow> int n < m \<and> d_attempt_count r = int n + 1 \<and> d_status r = IN_PROGRESS
                     \<and> d_attempt_count c = int n + 1 \<and> rp_max_attempts (es_retry_policy (d_snapshot c)) = m
             | _ \<Rightarrow> False)" unfolding along_run_def by blast
  from other_step [OF inv other.hyps(2,3) r] rest r(2) show ?case
    unfolding along_run_def other.hyps(3) by (metis (no_types, lifting))
next
  case (taken n t u)
  have "dsys_inv t" using failing_run_reach [OF taken.hyps(1) taken.prems(1)] by (rule dreach_inv)
  then show ?case by (rule taken_step [OF _ taken.IH [OF taken.prems] taken.hyps(2-4)])
next
  case (failed n t xs c ys g env db' secret)
  then show ?case using failed_step by blast
qed simp

section \<open>Every run can go on\<close>

text \<open>
  An endpoint that answers every request with a retryable failure whose body the database can
  store.
\<close>

definition always_retryable :: "deliver_env \<Rightarrow> bool" where
  "always_retryable env \<longleftrightarrow>
     (\<forall>req. ar_status (send (dv_http env) req) = Retryable_Failure \<and> storable (send (dv_http env) req))
     \<and> (\<forall>c. \<exists>s. dv_decrypt env c = Inr s)"

text \<open>Delivering a copy succeeds, because nothing has the number of the attempt yet.\<close>

lemma retryable_attempt_recorded:
  assumes env: "always_retryable env" and r: "r \<in> set (db_deliveries db)" "d_id r = d_id c"
    and free: "\<forall>a\<in>set (db_attempts db). at_delivery_id a = d_id c \<longrightarrow> at_number a \<noteq> d_attempt_count c"
    and secret: "dv_decrypt env (es_secret (d_snapshot c)) = Inr secret"
  shows "\<exists>db'. deliver no_faults env c db = (Inr (), db')"
proof -
  define res where "res = send (dv_http env) (delivery_request env secret c)"
  define a where "a = attempt_of (dv_done env) c res"
  have res: "ar_status res = Retryable_Failure" "storable res"
    using env by (simp_all add: always_retryable_def res_def)
  have a: "at_delivery_id a = d_id c" "at_number a = d_attempt_count c" "at_body a = ar_body res"
    "at_error_message a = ar_error_message res"
    by (simp_all add: a_def attempt_of_def)
  have "find_row d_id (d_id c) (db_deliveries db) \<noteq> None"
    using r by (metis find_row_None_iff imageI)
  then have "insert_attempt a db = Inr (db\<lparr>db_attempts := db_attempts db @ [a]\<rparr>)"
    using res(2) a free by (auto simp: insert_attempt_def storable_def list_ex_iff)
  moreover have "next_status c res = RETRYING \<Longrightarrow> next_attempt env c res \<noteq> None"
    using res(1) by (auto simp: next_status_def next_attempt_def split: if_splits)
  ultimately show ?thesis
    using secret by (simp add: deliver_def Let_def next_attempt_snapshot record_attempt_def
        run_tx_no_fault transition_def flip: res_def a_def)
qed

text \<open>A worker that has the delivery records one more attempt.\<close>

lemma attempt_goes_on:
  assumes run: "failing_run ix i s n t" and at: "along_run i m n t" and one: "copies_of i t = [c]"
    and env: "always_retryable env"
  shows "\<exists>u. failing_run ix i s (Suc n) u \<and> copies_of i u = []"
proof -
  have "c \<in> set (copies_of i t)" using one by simp
  then have ci: "c \<in> set (sys_copies t)" "d_id c = i" by (simp_all add: copies_of_def)
  then obtain xs ys where xs: "sys_copies t = xs @ c # ys" by (meson split_list)
  from at obtain r where r: "r \<in> set (db_deliveries (sys_db t))" "d_id r = d_id c"
    and num: "attempt_numbers i t = [1..int n]" "d_attempt_count c = int n + 1"
    using ci(2) by (auto simp: along_run_def one)
  have free: "\<forall>a\<in>set (db_attempts (sys_db t)). at_delivery_id a = d_id c \<longrightarrow> at_number a \<noteq> d_attempt_count c"
  proof (intro ballI impI)
    fix a assume a: "a \<in> set (db_attempts (sys_db t))" "at_delivery_id a = d_id c"
    then have "at_number a \<in> set (attempt_numbers i t)" using ci(2) by (auto simp: attempt_numbers_def)
    then show "at_number a \<noteq> d_attempt_count c" using num by simp
  qed
  from env obtain secret where secret: "dv_decrypt env (es_secret (d_snapshot c)) = Inr secret"
    by (auto simp: always_retryable_def)
  from retryable_attempt_recorded [OF env r free secret] obtain db' where
    del: "deliver no_faults env c (sys_db t) = (Inr (), db')" by blast
  have "ar_status (send (dv_http env) (delivery_request env secret c)) = Retryable_Failure"
    using env by (simp add: always_retryable_def)
  from failing_run.failed [OF run xs ci(2) del secret this]
  have "failing_run ix i s (Suc n) \<lparr>sys_db = db', sys_copies = xs @ ys\<rparr>" .
  moreover have "copies_of i \<lparr>sys_db = db', sys_copies = xs @ ys\<rparr> = []"
    using one xs ci(2) by (auto simp: copies_of_def append_eq_Cons_conv)
  ultimately show ?thesis by blast
qed

text \<open>A delivery that waits can be claimed: from its time on, when others are locked.\<close>

lemma claim_goes_on:
  assumes run: "failing_run ix i s n t" and inv: "dsys_inv t" and at: "along_run i m n t"
    and free: "copies_of i t = []" and less: "int n < m" "int n < max_int4"
  shows "\<exists>u c. failing_run ix i s n u \<and> copies_of i u = [c]"
proof -
  have ids: "distinct (map d_id (db_deliveries (sys_db t)))"
    using inv worker_inv_ids by (simp add: dsys_inv_def)
  from at obtain r where r: "r \<in> set (db_deliveries (sys_db t))" "d_id r = i" "d_attempt_count r = int n"
      "d_status r = PENDING \<or> d_status r = RETRYING"
    using less(1) by (auto simp: along_run_def free)
  define now where "now = d_next_attempt_at r"
  have "claimable now r" using r(4) by (auto simp: claimable_def now_def)
  then have "filter (\<lambda>d. claimable now d \<and> d_id d = i) (db_deliveries (sys_db t)) = [r]"
    using arg_cong [OF filter_one [of d_id "db_deliveries (sys_db t)" r i, OF ids r(1,2)], of "filter (claimable now)"]
    by (simp add: conj_commute)
  then have rows: "claim_rows now (\<lambda>j. j \<noteq> i) 1 (sys_db t) = [r]" by (simp add: claim_rows_def)
  have "\<exists>db'. claim_batch no_faults (\<lambda>j. j \<noteq> i) now now worker 1 0 (sys_db t) = (Inr [claimed_copy now r], db')" for worker
    using less(2) r(3) by (simp add: claim_batch_def run_tx_no_fault rows)
  then obtain db' where
    claim: "claim_batch no_faults (\<lambda>j. j \<noteq> i) now now ''w'' 1 0 (sys_db t) = (Inr [claimed_copy now r], db')"
    by blast
  let ?u = "\<lparr>sys_db = db', sys_copies = sys_copies t @ [claimed_copy now r]\<rparr>"
  have u: "copies_of i ?u = [claimed_copy now r]" using free r(2) by (simp add: copies_of_def)
  have "failing_run ix i s n ?u"
    by (rule failing_run.taken [OF run dstep.claim [OF claim] free]) (simp add: u)
  then show ?thesis using u by blast
qed

lemma run_goes_on:
  assumes "dreach ix s" and "along_run i m 0 s" and "copies_of i s = []" and "always_retryable env"
    and "m \<le> max_int4"
  shows "int n \<le> m \<Longrightarrow> \<exists>t. failing_run ix i s n t \<and> copies_of i t = []"
proof (induction n)
  case 0
  then show ?case using assms(3) failing_run.start by blast
next
  case (Suc n)
  then obtain t where t: "failing_run ix i s n t" "copies_of i t = []" by auto
  have inv: "dsys_inv t" using failing_run_reach [OF t(1) assms(1)] by (rule dreach_inv)
  have less: "int n < m" "int n < max_int4" using Suc.prems assms(5) by simp_all
  from claim_goes_on [OF t(1) inv run_along [OF t(1) assms(1,2)] t(2) less]
  obtain u c where u: "failing_run ix i s n u" "copies_of i u = [c]" by blast
  from attempt_goes_on [OF u(1) run_along [OF u(1) assms(1,2)] u(2) assms(4)] show ?case by blast
qed

section \<open>The end of a failing delivery\<close>

text \<open>Of a delivery that is pending there is neither a copy nor an attempt.\<close>

lemma tokens_copy: "c \<in> set cs \<Longrightarrow> copy_key c \<in> set (tokens cs db)"
  and tokens_attempt: "a \<in> set (db_attempts db) \<Longrightarrow> attempt_key a \<in> set (tokens cs db)"
  by (simp_all add: tokens_def)

lemma pending_along:
  assumes "dreach ix s" and "r \<in> set (db_deliveries (sys_db s))" and "d_status r = PENDING" and "d_id r = i"
    and "rp_max_attempts (es_retry_policy (d_snapshot r)) = m" and "1 \<le> m"
  shows "along_run i m 0 s \<and> copies_of i s = []"
proof -
  have inv: "worker_inv (sys_copies s) (sys_db s)" using dreach_inv [OF assms(1)] by (simp add: dsys_inv_def)
  have zero: "d_attempt_count r = 0" using worker_inv_ok [OF inv assms(2)] assms(3) by (simp add: delivery_ok_def)
  have no_token: "fst k \<noteq> i" if "k \<in> set (tokens (sys_copies s) (sys_db s))" for k
  proof
    assume "fst k = i"
    moreover have "token_ok (db_deliveries (sys_db s)) k"
      using inv that by (auto simp: worker_inv_def list_all_iff)
    ultimately obtain d where d: "d \<in> set (db_deliveries (sys_db s))" "d_id d = i" "1 \<le> d_attempt_count d"
      by (auto simp: token_ok_def)
    then show False using distinct_keys_eq [OF worker_inv_ids [OF inv] d(1) assms(2)] assms(4) zero by simp
  qed
  have "copies_of i s = []" "attempt_numbers i s = []"
    using no_token [OF tokens_copy] no_token [OF tokens_attempt]
    by (auto simp: copies_of_def attempt_numbers_def filter_empty_conv copy_key_def attempt_key_def)
  then show ?thesis using assms(2-6) zero by (auto simp: along_run_def)
qed

text \<open>
  C5. A delivery whose recorded attempts all fail retryably, made by one worker at a time, is
  attempted at most \<open>max_attempts\<close> times, with the numbers 1, 2, 3 and so on: whatever else the
  service does in between, after fewer attempts it is due from the time of its next attempt on and
  can be attempted again, and after \<open>max_attempts\<close> of them it is in the dead letter queue. Against
  an endpoint that always fails retryably there is a run that reaches this end. (A worker that
  stops, one that comes after its lease, and a result that the database refuses are not attempts of
  such a run; they spend attempt numbers, as the lemmas of \<open>DeliveryOutcome\<close> show.)
\<close>

theorem failing_delivery_reaches_dlq:
  assumes "dreach ix s" and "r \<in> set (db_deliveries (sys_db s))" and "d_status r = PENDING" and "d_id r = i"
    and "rp_max_attempts (es_retry_policy (d_snapshot r)) = m" and "1 \<le> m"
  shows "(\<forall>n t. failing_run ix i s n t \<longrightarrow>
       int n \<le> m \<and> attempt_numbers i t = [1..int n]
       \<and> (copies_of i t = [] \<longrightarrow> (\<exists>r'\<in>set (db_deliveries (sys_db t)). d_id r' = i \<and> d_attempt_count r' = int n
            \<and> (if int n = m then d_status r' = DLQ \<and> d_completed_at r' \<noteq> None
               else \<forall>now. claimable now r' \<longleftrightarrow> d_next_attempt_at r' \<le> now))))
    \<and> (\<forall>env. always_retryable env \<and> m \<le> max_int4 \<longrightarrow> (\<exists>t. failing_run ix i s (nat m) t \<and> copies_of i t = []))"
proof (intro conjI allI impI)
  note first = pending_along [OF assms]
  fix n t assume run: "failing_run ix i s n t"
  have at: "along_run i m n t" using run_along [OF run assms(1)] first by blast
  have inv: "dsys_inv t" using failing_run_reach [OF run assms(1)] by (rule dreach_inv)
  show "int n \<le> m" "attempt_numbers i t = [1..int n]" using at by (simp_all add: along_run_def)
  assume free: "copies_of i t = []"
  from at obtain r' where r': "r' \<in> set (db_deliveries (sys_db t))" "d_id r' = i" "d_attempt_count r' = int n"
      "if int n = m then d_status r' = DLQ else d_status r' = PENDING \<or> d_status r' = RETRYING"
    by (auto simp: along_run_def free)
  moreover have "delivery_ok r'" using inv r'(1) by (auto simp: dsys_inv_def intro: worker_inv_ok)
  ultimately show "\<exists>r'\<in>set (db_deliveries (sys_db t)). d_id r' = i \<and> d_attempt_count r' = int n
            \<and> (if int n = m then d_status r' = DLQ \<and> d_completed_at r' \<noteq> None
               else \<forall>now. claimable now r' \<longleftrightarrow> d_next_attempt_at r' \<le> now)"
    by (intro bexI [OF _ r'(1)]) (auto simp: delivery_ok_def completed_status_def claimable_def)
next
  fix env assume env: "always_retryable env \<and> m \<le> max_int4"
  show "\<exists>t. failing_run ix i s (nat m) t \<and> copies_of i t = []"
    using run_goes_on [OF assms(1) _ _ _ _, of i m env "nat m"] pending_along [OF assms] env assms(6) by simp
qed

lemma example_always_retryable: "always_retryable example_deliver_env"
  by (simp add: always_retryable_def storable_def example_deliver_env_def send_defs example_env_def
      text_option_ok_def pg_text_ok.simps utf8_width_def)

theorem failing_delivery_reaches_dlq_witness:
  "\<exists>t. failing_run Total_Index 11 (init_dsys\<lparr>sys_db := empty_delivery_db\<lparr>db_deliveries := [example_delivery]\<rparr>\<rparr>) 2 t
     \<and> attempt_numbers 11 t = [1, 2] \<and> (\<exists>r\<in>set (db_deliveries (sys_db t)). d_status r = DLQ)"
proof -
  let ?s = "init_dsys\<lparr>sys_db := empty_delivery_db\<lparr>db_deliveries := [example_delivery]\<rparr>\<rparr>"
  have ex: "example_delivery \<in> set (db_deliveries (sys_db ?s))" "d_status example_delivery = PENDING"
      "d_id example_delivery = 11" "rp_max_attempts (es_retry_policy (d_snapshot example_delivery)) = 2"
    by (simp_all add: example_defs)
  note holds = failing_delivery_reaches_dlq [OF example_reach ex, simplified]
  from holds obtain t where t: "failing_run Total_Index 11 ?s 2 t" "copies_of 11 t = []"
    using example_always_retryable by (auto simp: max_int4_def)
  with holds have "attempt_numbers 11 t = [1..2]" "\<exists>r\<in>set (db_deliveries (sys_db t)). d_status r = DLQ"
    by fastforce+
  then show ?thesis using t(1) by (auto simp: upto.simps)
qed

end
