(* ===== verification/Scheduler.thy ===== *)
theory Scheduler
  imports DeliveryLifecycle
begin

text \<open>
  delivery-service/internal/scheduler/scheduler.go: the loop that claims due deliveries and
  starts a worker for each, bounded by a semaphore. The scheduler is a step relation over
  the database, the claimed deliveries that have no worker yet and those that have one; it
  refines \<open>DeliverySystem\<close>.
\<close>

section \<open>Configuration\<close>

record sched_config =
  sg_concurrency :: int
  sg_batch_size :: int
  sg_lease :: duration

definition new_scheduler :: "int \<Rightarrow> int \<Rightarrow> int \<Rightarrow> duration \<Rightarrow> sched_config" where
  "new_scheduler num_cpu concurrency batch_size lease =
     (let concurrency = (if concurrency \<le> 0 then num_cpu * 4 else concurrency);
          batch_size = (if batch_size \<le> 0 then concurrency else batch_size)
      in \<lparr>sg_concurrency = concurrency, sg_batch_size = batch_size, sg_lease = lease\<rparr>)"

text \<open>The name of the worker: the host name, or a fixed one when it is not known.\<close>

definition worker_id :: "string \<Rightarrow> string" where
  "worker_id hostname = (if hostname = [] then ''delivery-worker'' else hostname)"

text \<open>What a tick asks for: nothing when every slot is taken.\<close>

definition tick_limit :: "sched_config \<Rightarrow> nat \<Rightarrow> int option" where
  "tick_limit cfg in_use =
     (let available = sg_concurrency cfg - int in_use in
      if available \<le> 0 then None
      else Some (if sg_batch_size cfg > available then available else sg_batch_size cfg))"

section \<open>The loop\<close>

text \<open>
  \<open>sd_sem\<close> is \<open>len(sem)\<close>, \<open>sd_waiting\<close> the rest of the \<open>range deliveries\<close> loop, \<open>sd_running\<close>
  the goroutines. A send on the full semaphore blocks: \<open>start\<close> has no step then.
\<close>

record sched =
  sd_db :: delivery_db
  sd_sem :: nat
  sd_waiting :: "delivery list"
  sd_running :: "delivery list"

definition init_sched :: "delivery_db \<Rightarrow> sched" where
  "init_sched db = \<lparr>sd_db = db, sd_sem = 0, sd_waiting = [], sd_running = []\<rparr>"

inductive sched_step ::
    "sched_config \<Rightarrow> string \<Rightarrow> event_endpoint_index \<Rightarrow> sched \<Rightarrow> sched \<Rightarrow> bool" for cfg host ix where
  tick: "sd_waiting s = [] \<Longrightarrow> tick_limit cfg (sd_sem s) = Some limit \<Longrightarrow>
    claim_batch f locked now started (worker_id host) limit (sg_lease cfg) (sd_db s) = (Inr cs, db') \<Longrightarrow>
    sched_step cfg host ix s (s\<lparr>sd_db := db', sd_waiting := cs\<rparr>)"
| tick_failed: "sd_waiting s = [] \<Longrightarrow> tick_limit cfg (sd_sem s) = Some limit \<Longrightarrow>
    claim_batch f locked now started (worker_id host) limit (sg_lease cfg) (sd_db s) = (Inl e, db') \<Longrightarrow>
    sched_step cfg host ix s (s\<lparr>sd_db := db'\<rparr>)"
| start: "sd_waiting s = d # ds \<Longrightarrow> int (sd_sem s) < sg_concurrency cfg \<Longrightarrow>
    sched_step cfg host ix s
      (s\<lparr>sd_sem := sd_sem s + 1, sd_waiting := ds, sd_running := sd_running s @ [d]\<rparr>)"
| finish: "sd_running s = xs @ d # ys \<Longrightarrow>
    sched_step cfg host ix s
      (s\<lparr>sd_db := snd (deliver g env d (sd_db s)), sd_sem := sd_sem s - 1, sd_running := xs @ ys\<rparr>)"
| accept: "sched_step cfg host ix s
    (s\<lparr>sd_db := snd (handle_event_accepted fc ix now gen reader e (sd_db s))\<rparr>)"
| replay: "sched_step cfg host ix s
    (s\<lparr>sd_db := snd (replay fg fi ix now new_id tenant did (sd_db s))\<rparr>)"

inductive sched_reach ::
    "sched_config \<Rightarrow> string \<Rightarrow> event_endpoint_index \<Rightarrow> sched \<Rightarrow> bool" for cfg host ix where
  init: "sched_reach cfg host ix (init_sched empty_delivery_db)"
| step: "sched_reach cfg host ix s \<Longrightarrow> sched_step cfg host ix s t \<Longrightarrow> sched_reach cfg host ix t"

section \<open>Refinement of the delivery system\<close>

definition sched_abs :: "sched \<Rightarrow> dsys" where
  "sched_abs s = \<lparr>sys_db = sd_db s, sys_copies = sd_running s @ sd_waiting s\<rparr>"

lemma claim_batch_error: "claim_batch f locked now started w limit lease db = (Inl e, db') \<Longrightarrow> db' = db"
  unfolding claim_batch_def by (rule run_tx_atomic)

text \<open>A step of the scheduler is a step of the delivery system or changes nothing there.\<close>

lemma sched_step_refines:
  assumes "sched_step cfg host ix s t"
  shows "sched_abs t = sched_abs s \<or> dstep ix (sched_abs s) (sched_abs t)"
  using assms
proof (cases rule: sched_step.cases)
  case (tick limit f locked now started cs db')
  then have "dstep ix (sched_abs s) \<lparr>sys_db = db', sys_copies = sys_copies (sched_abs s) @ cs\<rparr>"
    by (intro dstep.claim) (simp add: sched_abs_def)
  then show ?thesis using tick by (simp add: sched_abs_def)
next
  case (tick_failed limit f locked now started e db')
  then show ?thesis using claim_batch_error by (simp add: sched_abs_def)
next
  case (start d ds)
  then show ?thesis by (simp add: sched_abs_def)
next
  case (finish xs d ys g env)
  have "dstep ix (sched_abs s) \<lparr>sys_db = snd (deliver g env d (sys_db (sched_abs s))),
      sys_copies = xs @ (ys @ sd_waiting s)\<rparr>"
    by (rule dstep.work) (simp add: sched_abs_def finish)
  then show ?thesis using finish by (simp add: sched_abs_def)
next
  case (accept fc now gen reader e)
  then show ?thesis using dstep.accept [of ix "sched_abs s"] by (simp add: sched_abs_def)
next
  case (replay fg fi now new_id tenant did)
  then show ?thesis using dstep.replay [of ix "sched_abs s"] by (simp add: sched_abs_def)
qed

lemma sched_reach_dreach: "sched_reach cfg host ix s \<Longrightarrow> dreach ix (sched_abs s)"
proof (induction rule: sched_reach.induct)
  case init
  then show ?case using dreach.init by (simp add: sched_abs_def init_sched_def init_dsys_def)
next
  case (step s t)
  then show ?case using sched_step_refines [OF step(2)] dreach.step by metis
qed

section \<open>The semaphore\<close>

definition sched_inv :: "sched_config \<Rightarrow> sched \<Rightarrow> bool" where
  "sched_inv cfg s \<longleftrightarrow>
     sd_sem s = length (sd_running s)
     \<and> int (sd_sem s) + int (length (sd_waiting s)) \<le> max 0 (sg_concurrency cfg)"

lemma tick_limit_Some:
  "tick_limit cfg n = Some limit \<Longrightarrow> limit \<le> sg_concurrency cfg - int n \<and> int n < sg_concurrency cfg"
  by (auto simp: tick_limit_def Let_def split: if_splits)

lemma claim_batch_length:
  assumes "claim_batch f locked now started worker limit lease db = (Inr cs, db')"
    and "distinct (map d_id (db_deliveries db))"
  shows "length cs \<le> nat limit"
  using claim_batch_result [OF assms] length_claim_rows [of now locked limit db] by simp

lemma sched_step_inv:
  assumes "sched_step cfg host ix s t" and "sched_inv cfg s"
    and "distinct (map d_id (db_deliveries (sd_db s)))"
  shows "sched_inv cfg t"
  using assms(1)
proof (cases rule: sched_step.cases)
  case (tick limit f locked now started cs db')
  have "length cs \<le> nat limit" by (rule claim_batch_length [OF tick(4) assms(3)])
  then show ?thesis using tick tick_limit_Some [OF tick(3)] assms(2) by (auto simp: sched_inv_def)
qed (use assms(2) in \<open>auto simp: sched_inv_def\<close>)

lemma sched_reach_inv: "sched_reach cfg host ix s \<Longrightarrow> sched_inv cfg s"
proof (induction rule: sched_reach.induct)
  case init
  then show ?case by (simp add: sched_inv_def init_sched_def)
next
  case (step s t)
  have "dsys_inv (sched_abs s)" using sched_reach_dreach [OF step.hyps(1)] by (rule dreach_inv)
  then have "distinct (map d_id (db_deliveries (sd_db s)))"
    by (simp add: dsys_inv_def worker_inv_def sched_abs_def)
  then show ?case by (rule sched_step_inv [OF step.hyps(2) step.IH])
qed

text \<open>
  C16. The scheduler never runs more workers than its concurrency, and never blocks on its
  semaphore: whenever a claimed delivery waits for a worker, a slot is free. What it does is
  a run of the delivery system, so everything shown of its reachable states holds for the
  scheduler.
\<close>

theorem scheduler_never_blocks:
  assumes "sched_reach cfg host ix s"
  shows "int (length (sd_running s)) \<le> max 0 (sg_concurrency cfg)
    \<and> (sd_waiting s \<noteq> [] \<longrightarrow> (\<exists>t. sched_step cfg host ix s t \<and> length (sd_waiting t) < length (sd_waiting s)))
    \<and> dreach ix \<lparr>sys_db = sd_db s, sys_copies = sd_running s @ sd_waiting s\<rparr>"
proof -
  have inv: "sched_inv cfg s" using assms by (rule sched_reach_inv)
  have "\<exists>t. sched_step cfg host ix s t \<and> length (sd_waiting t) < length (sd_waiting s)"
    if "sd_waiting s \<noteq> []"
  proof -
    from that obtain d ds where w: "sd_waiting s = d # ds" by (cases "sd_waiting s") auto
    then have "int (sd_sem s) < sg_concurrency cfg" using inv by (auto simp: sched_inv_def)
    with w have "sched_step cfg host ix s
        (s\<lparr>sd_sem := sd_sem s + 1, sd_waiting := ds, sd_running := sd_running s @ [d]\<rparr>)"
      (is "sched_step _ _ _ _ ?t") by (rule sched_step.start)
    moreover have "length (sd_waiting ?t) < length (sd_waiting s)" by (simp add: w)
    ultimately show ?thesis by blast
  qed
  then show ?thesis using inv sched_reach_dreach [OF assms] by (auto simp: sched_inv_def sched_abs_def)
qed

definition example_config :: sched_config where
  "example_config = new_scheduler 4 1 0 (seconds 30)"

lemma example_sched_reach:
  "sched_reach example_config ''w1'' Total_Index \<lparr>sd_db = example_claimed_db, sd_sem = 0,
     sd_waiting = [claimed_copy 5000 example_delivery], sd_running = []\<rparr>"
proof -
  let ?s0 = "init_sched empty_delivery_db"
  have "sched_step example_config ''w1'' Total_Index ?s0 (?s0\<lparr>sd_db := example_db\<rparr>)"
    using sched_step.accept [of example_config "''w1''" Total_Index ?s0 no_faults 1000
        "\<lambda>i. 11 + of_nat i" "\<lambda>_ _. Inr [example_endpoint]" example_event] example_create
    by (simp add: handle_event_accepted_def example_event_def init_sched_def example_db_def)
  then have r: "sched_reach example_config ''w1'' Total_Index (?s0\<lparr>sd_db := example_db\<rparr>)"
    by (rule sched_reach.step [OF sched_reach.init])
  have "sched_step example_config ''w1'' Total_Index (?s0\<lparr>sd_db := example_db\<rparr>)
      (?s0\<lparr>sd_db := example_db\<rparr>\<lparr>sd_db := example_claimed_db,
          sd_waiting := [claimed_copy 5000 example_delivery]\<rparr>)"
    by (rule sched_step.tick [where limit = 1 and f = no_faults and locked = "\<lambda>_. False"
          and now = 2000 and started = 5000])
      (use example_claim in \<open>simp_all add: init_sched_def tick_limit_def example_config_def
        new_scheduler_def worker_id_def claim_batch_def\<close>)
  from sched_reach.step [OF r this] show ?thesis by (simp add: init_sched_def)
qed

theorem scheduler_never_blocks_witness:
  "\<exists>t. sched_step example_config ''w1'' Total_Index \<lparr>sd_db = example_claimed_db, sd_sem = 0,
       sd_waiting = [claimed_copy 5000 example_delivery], sd_running = []\<rparr> t \<and> sd_waiting t = []"
  using scheduler_never_blocks [OF example_sched_reach] by auto

end
