(* ===== verification/Projection.thy ===== *)
theory Projection
  imports DeliveryService
begin

text \<open>
  delivery-service/internal/endpoint: the projection of the endpoint service's data that the
  delivery service keeps in the tables \<open>endpoint_projection\<close> and
  \<open>endpoint_subscription_projection\<close> (model.go, projection.go). The specification is a map
  from endpoints to the last message about them; the projection implements the interface
  \<open>endpoint_reader\<close> of the delivery service.
\<close>

section \<open>Data\<close>

text \<open>The secret is \<open>None\<close> for a nil slice, which the driver stores as \<open>NULL\<close>.\<close>

record endpoint_changed =
  ec_message_id :: string
  ec_tenant_id :: uuid
  ec_endpoint_id :: uuid
  ec_name :: string
  ec_url :: string
  ec_secret :: "bytes option"
  ec_status :: string
  ec_connect_timeout_ms :: int
  ec_request_timeout_ms :: int
  ec_retry_policy :: retry_policy
  ec_version :: int
  ec_updated_at :: time
  ec_event_types :: "string list"

record projection_row =
  pr_endpoint_id :: uuid
  pr_tenant_id :: uuid
  pr_name :: string
  pr_url :: string
  pr_secret :: bytes
  pr_status :: string
  pr_connect_timeout_ms :: int
  pr_request_timeout_ms :: int
  pr_retry_policy :: retry_policy
  pr_version :: int
  pr_updated_at :: time

record subscription_row =
  sb_endpoint_id :: uuid
  sb_tenant_id :: uuid
  sb_event_type :: string

record projection_db =
  pj_rows :: "projection_row list"
  pj_subs :: "subscription_row list"

definition empty_projection :: projection_db where
  "empty_projection = \<lparr>pj_rows = [], pj_subs = []\<rparr>"

section \<open>Upsert\<close>

definition projected_row :: "endpoint_changed \<Rightarrow> bytes \<Rightarrow> projection_row" where
  "projected_row e secret =
     \<lparr>pr_endpoint_id = ec_endpoint_id e, pr_tenant_id = ec_tenant_id e, pr_name = ec_name e,
      pr_url = ec_url e, pr_secret = secret, pr_status = ec_status e,
      pr_connect_timeout_ms = ec_connect_timeout_ms e,
      pr_request_timeout_ms = ec_request_timeout_ms e, pr_retry_policy = ec_retry_policy e,
      pr_version = ec_version e, pr_updated_at = pg_time (ec_updated_at e)\<rparr>"

text \<open>\<open>INSERT \<dots> ON CONFLICT (endpoint_id) DO UPDATE \<dots> WHERE version < EXCLUDED.version\<close>.\<close>

definition upsert_row :: "projection_row \<Rightarrow> projection_row list \<Rightarrow> projection_row list" where
  "upsert_row r rows =
     (if find_row pr_endpoint_id (pr_endpoint_id r) rows = None then rows @ [r]
      else update_where (\<lambda>x. pr_endpoint_id x = pr_endpoint_id r \<and> pr_version x < pr_version r)
             (\<lambda>_. r) rows)"

text \<open>\<open>INSERT \<dots> ON CONFLICT DO NOTHING\<close>, with the primary key (endpoint, event type).\<close>

definition add_subscription :: "subscription_row \<Rightarrow> subscription_row list \<Rightarrow> subscription_row list" where
  "add_subscription s subs =
     (if list_ex (\<lambda>x. sb_endpoint_id x = sb_endpoint_id s \<and> sb_event_type x = sb_event_type s) subs
      then subs else subs @ [s])"

datatype upsert_call = UP_Begin | UP_Endpoint | UP_Delete | UP_Insert string | UP_Commit

fun insert_subscriptions ::
    "upsert_call faults \<Rightarrow> endpoint_changed \<Rightarrow> string list \<Rightarrow> subscription_row list
       \<Rightarrow> subscription_row list result" where
  "insert_subscriptions f e [] subs = Inr subs"
| "insert_subscriptions f e (ty # tys) subs =
     guard (map_option (wrap ''insert subscription: '') (f (UP_Insert ty)))
       (insert_subscriptions f e tys
          (add_subscription \<lparr>sb_endpoint_id = ec_endpoint_id e, sb_tenant_id = ec_tenant_id e,
             sb_event_type = ty\<rparr> subs))"

definition upsert ::
    "upsert_call faults \<Rightarrow> endpoint_changed \<Rightarrow> projection_db \<Rightarrow> unit result \<times> projection_db" where
  "upsert f e =
     run_tx (map_option (wrap ''begin: '') (f UP_Begin))
       (map_option (wrap ''commit: '') (f UP_Commit))
       (\<lambda>db. guard (map_option (wrap ''upsert endpoint: '') (f UP_Endpoint))
          (case ec_secret e of
             None \<Rightarrow> Inl (wrap ''upsert endpoint: '' (pg_not_null ''secret_encrypted''))
           | Some secret \<Rightarrow>
               guard (map_option (wrap ''delete subscriptions: '') (f UP_Delete))
                 (case insert_subscriptions f e (ec_event_types e)
                         (filter (\<lambda>s. sb_endpoint_id s \<noteq> ec_endpoint_id e) (pj_subs db)) of
                    Inl err \<Rightarrow> Inl err
                  | Inr subs \<Rightarrow>
                      Inr ((), \<lparr>pj_rows = upsert_row (projected_row e secret) (pj_rows db),
                                pj_subs = subs\<rparr>))))"

section \<open>Reading the endpoints of an event\<close>

datatype read_call = RE_Query | RE_Scan | RE_Decode | RE_Rows

text \<open>
  The join of the query; the query names no order, the model takes the tables' order. The
  snapshot's own event type is not filled here.
\<close>

definition reader_snapshot :: "subscription_row \<Rightarrow> projection_row \<Rightarrow> endpoint_snapshot_with_id" where
  "reader_snapshot s p =
     \<lparr>esi_endpoint_id = sb_endpoint_id s, esi_event_type = sb_event_type s,
      esi_snapshot = \<lparr>es_event_type = [], es_url = pr_url p, es_secret = pr_secret p,
        es_connect_timeout_ms = pr_connect_timeout_ms p,
        es_request_timeout_ms = pr_request_timeout_ms p, es_retry_policy = pr_retry_policy p\<rparr>\<rparr>"

definition join_endpoints ::
    "uuid \<Rightarrow> string \<Rightarrow> projection_db \<Rightarrow> endpoint_snapshot_with_id list" where
  "join_endpoints tenant ty db =
     concat (map (\<lambda>s. map (reader_snapshot s)
         (filter (\<lambda>p. pr_endpoint_id p = sb_endpoint_id s \<and> pr_status p = ''ACTIVE'') (pj_rows db)))
       (filter (\<lambda>s. sb_tenant_id s = tenant \<and> sb_event_type s = ty) (pj_subs db)))"

definition get_for_event ::
    "read_call faults \<Rightarrow> uuid \<Rightarrow> string \<Rightarrow> projection_db \<Rightarrow> endpoint_snapshot_with_id list result" where
  "get_for_event f tenant ty db =
     guard (map_option (wrap ''query endpoints: '') (f RE_Query))
       (if join_endpoints tenant ty db = [] then guard (f RE_Rows) (Inr [])
        else guard (map_option (wrap ''scan endpoint: '') (f RE_Scan))
               (guard (map_option (wrap ''decode retry policy: '') (f RE_Decode))
                  (guard (f RE_Rows) (Inr (join_endpoints tenant ty db)))))"

section \<open>The invariant of the tables\<close>

abbreviation sub_key :: "subscription_row \<Rightarrow> uuid \<times> string" where
  "sub_key s \<equiv> (sb_endpoint_id s, sb_event_type s)"

definition projection_ok :: "projection_db \<Rightarrow> bool" where
  "projection_ok db \<longleftrightarrow>
     distinct (map pr_endpoint_id (pj_rows db)) \<and> distinct (map sub_key (pj_subs db))"

lemma pr_endpoint_id_projected [simp]: "pr_endpoint_id (projected_row e s) = ec_endpoint_id e"
  by (simp add: projected_row_def)

lemma upsert_row_keys:
  "map pr_endpoint_id (upsert_row r rows) =
     (if pr_endpoint_id r \<in> pr_endpoint_id ` set rows then map pr_endpoint_id rows
      else map pr_endpoint_id rows @ [pr_endpoint_id r])"
proof -
  have "map pr_endpoint_id (update_where
      (\<lambda>x. pr_endpoint_id x = pr_endpoint_id r \<and> pr_version x < pr_version r) (\<lambda>_. r) rows)
    = map pr_endpoint_id rows" by (rule map_update_where) simp
  then show ?thesis by (simp add: upsert_row_def find_row_None_iff)
qed

lemma add_subscription_keys:
  "distinct (map sub_key subs) \<Longrightarrow> distinct (map sub_key (add_subscription s subs))"
  by (auto simp: add_subscription_def list_ex_iff)

lemma set_add_subscription:
  "\<forall>x\<in>set subs. sub_key x = sub_key s \<longrightarrow> x = s \<Longrightarrow> set (add_subscription s subs) = insert s (set subs)"
  by (auto simp: add_subscription_def list_ex_iff)

lemma insert_subscriptions_distinct:
  "insert_subscriptions f e tys subs = Inr subs' \<Longrightarrow> distinct (map sub_key subs) \<Longrightarrow>
     distinct (map sub_key subs')"
  by (induction tys arbitrary: subs) (auto simp: guard_Inr add_subscription_keys)

abbreviation sub_of :: "endpoint_changed \<Rightarrow> string \<Rightarrow> subscription_row" where
  "sub_of e ty \<equiv> \<lparr>sb_endpoint_id = ec_endpoint_id e, sb_tenant_id = ec_tenant_id e, sb_event_type = ty\<rparr>"

lemma insert_subscriptions_set:
  "insert_subscriptions f e tys subs = Inr subs' \<Longrightarrow>
   \<forall>x\<in>set subs. sb_endpoint_id x = ec_endpoint_id e \<longrightarrow> sb_tenant_id x = ec_tenant_id e \<Longrightarrow>
     set subs' = set subs \<union> sub_of e ` set tys"
proof (induction tys arbitrary: subs)
  case (Cons ty tys)
  have add: "set (add_subscription (sub_of e ty) subs) = insert (sub_of e ty) (set subs)"
    by (rule set_add_subscription) (use Cons.prems(2) in \<open>auto intro: subscription_row.equality\<close>)
  have "set subs' = set (add_subscription (sub_of e ty) subs) \<union> sub_of e ` set tys"
    by (rule Cons.IH) (use Cons.prems in \<open>auto simp: guard_Inr add\<close>)
  then show ?case by (auto simp: add)
qed simp

lemma insert_subscriptions_ok: "\<exists>subs'. insert_subscriptions no_faults e tys subs = Inr subs'"
  by (induction tys arbitrary: subs) auto

text \<open>What a successful upsert leaves behind.\<close>

lemma upsert_result:
  assumes "upsert f e db = (Inr (), db')"
  shows "\<exists>secret. ec_secret e = Some secret
           \<and> pj_rows db' = upsert_row (projected_row e secret) (pj_rows db)"
    and "set (pj_subs db') = {s \<in> set (pj_subs db). sb_endpoint_id s \<noteq> ec_endpoint_id e}
           \<union> sub_of e ` set (ec_event_types e)"
    and "projection_ok db \<Longrightarrow> projection_ok db'"
proof -
  from assms obtain secret subs where s: "ec_secret e = Some secret"
    and i: "insert_subscriptions f e (ec_event_types e)
              (filter (\<lambda>s. sb_endpoint_id s \<noteq> ec_endpoint_id e) (pj_subs db)) = Inr subs"
    and db': "db' = \<lparr>pj_rows = upsert_row (projected_row e secret) (pj_rows db), pj_subs = subs\<rparr>"
    by (auto simp: upsert_def run_tx_commit guard_Inr split: option.splits sum.splits)
  show "\<exists>secret. ec_secret e = Some secret
           \<and> pj_rows db' = upsert_row (projected_row e secret) (pj_rows db)"
    using s db' by simp
  show "set (pj_subs db') = {s \<in> set (pj_subs db). sb_endpoint_id s \<noteq> ec_endpoint_id e}
           \<union> sub_of e ` set (ec_event_types e)"
    using insert_subscriptions_set [OF i] db' by auto
  show "projection_ok db'" if "projection_ok db"
    using that insert_subscriptions_distinct [OF i] db'
    by (auto simp: projection_ok_def upsert_row_keys distinct_map inj_on_def)
qed

lemma upsert_projection_ok: "projection_ok db \<Longrightarrow> projection_ok (snd (upsert f e db))"
proof (cases "fst (upsert f e db)")
  case (Inl err)
  then have "upsert f e db = (Inl err, snd (upsert f e db))" by (simp add: prod_eq_iff)
  from run_tx_atomic [OF this [unfolded upsert_def]] have "snd (upsert f e db) = db"
    by (simp add: upsert_def)
  then show "projection_ok db \<Longrightarrow> ?thesis" by simp
next
  case (Inr u)
  then have "upsert f e db = (Inr (), snd (upsert f e db))" by (simp add: prod_eq_iff)
  then show "projection_ok db \<Longrightarrow> ?thesis" by (rule upsert_result(3))
qed

section \<open>The interface of the delivery service\<close>

lemma set_join_endpoints:
  "x \<in> set (join_endpoints tenant ty db) \<longleftrightarrow>
     (\<exists>s\<in>set (pj_subs db). \<exists>p\<in>set (pj_rows db). x = reader_snapshot s p
        \<and> sb_tenant_id s = tenant \<and> sb_event_type s = ty
        \<and> pr_endpoint_id p = sb_endpoint_id s \<and> pr_status p = ''ACTIVE'')"
  by (auto simp: join_endpoints_def)

lemma distinct_filter_key:
  "distinct (map key rows) \<Longrightarrow> length (filter (\<lambda>p. key p = k \<and> Q p) rows) \<le> 1"
proof (induction rows)
  case (Cons a rows)
  have "filter (\<lambda>p. key p = k \<and> Q p) rows = []" if "key a = k"
  proof -
    have "k \<notin> key ` set rows" using that Cons.prems by simp
    then show ?thesis by (auto simp: filter_empty_conv)
  qed
  with Cons show ?case by auto
qed simp

lemma join_distinct:
  assumes "distinct (map sub_key subs)" "distinct (map pr_endpoint_id rows)"
  shows "distinct (map esi_endpoint_id (concat (map (\<lambda>s. map (reader_snapshot s)
           (filter (\<lambda>p. pr_endpoint_id p = sb_endpoint_id s \<and> pr_status p = ''ACTIVE'') rows))
         (filter (\<lambda>s. sb_tenant_id s = tenant \<and> sb_event_type s = ty) subs))))"
  using assms(1)
proof (induction subs)
  case (Cons s subs)
  let ?join = "\<lambda>s. map (reader_snapshot s)
     (filter (\<lambda>p. pr_endpoint_id p = sb_endpoint_id s \<and> pr_status p = ''ACTIVE'') rows)"
  let ?rest = "concat (map ?join (filter (\<lambda>s. sb_tenant_id s = tenant \<and> sb_event_type s = ty) subs))"
  have IH: "distinct (map esi_endpoint_id ?rest)" using Cons by simp
  show ?case
  proof (cases "sb_tenant_id s = tenant \<and> sb_event_type s = ty")
    case True
    have ids: "esi_endpoint_id ` set (?join s') \<subseteq> {sb_endpoint_id s'}" for s'
      by (auto simp: reader_snapshot_def)
    have "length (?join s) \<le> 1"
      using distinct_filter_key [OF assms(2), of "sb_endpoint_id s" "\<lambda>p. pr_status p = ''ACTIVE''"] by simp
    then have one: "distinct (map esi_endpoint_id (?join s))" by (cases "?join s") auto
    have other: "sb_endpoint_id s' \<noteq> sb_endpoint_id s" if "s' \<in> set subs" "sb_event_type s' = ty" for s'
    proof -
      have "sub_key s' \<in> sub_key ` set subs" using that(1) by (rule imageI)
      moreover have "sub_key s \<notin> sub_key ` set subs" using Cons.prems by simp
      ultimately show ?thesis using that(2) True by metis
    qed
    have "sb_endpoint_id s \<notin> esi_endpoint_id ` set ?rest"
    proof
      assume "sb_endpoint_id s \<in> esi_endpoint_id ` set ?rest"
      then obtain s' where "s' \<in> set subs" "sb_event_type s' = ty" "sb_endpoint_id s' = sb_endpoint_id s"
        by (auto simp: reader_snapshot_def)
      then show False using other by blast
    qed
    then have "sb_endpoint_id s \<notin> set (map esi_endpoint_id ?rest)" by (simp only: set_map not_False_eq_True)
    moreover have "set (map esi_endpoint_id (?join s)) \<subseteq> {sb_endpoint_id s}"
      using ids [of s] by (simp only: set_map)
    ultimately have "set (map esi_endpoint_id (?join s)) \<inter> set (map esi_endpoint_id ?rest) = {}"
      by blast
    then have "distinct (map esi_endpoint_id (?join s) @ map esi_endpoint_id ?rest)"
      using one IH by (simp only: distinct_append)
    then show ?thesis using True by simp
  next
    case False
    then show ?thesis using IH by (simp only: filter.simps if_False)
  qed
qed simp

definition read_endpoints :: "projection_db \<Rightarrow> uuid \<Rightarrow> string \<Rightarrow> endpoint_snapshot_with_id list" where
  "read_endpoints db tenant ty = join_endpoints tenant ty db"

interpretation projection: endpoint_reader read_endpoints projection_ok
proof
  show "distinct (map esi_endpoint_id (read_endpoints db tenant ty))" if "projection_ok db" for db tenant ty
    using that join_distinct by (simp add: read_endpoints_def join_endpoints_def projection_ok_def)
  show "esi_event_type x = ty" if "x \<in> set (read_endpoints db tenant ty)" for x db tenant ty
    using that by (auto simp: read_endpoints_def set_join_endpoints reader_snapshot_def)
qed

lemma get_for_event_no_faults [simp]:
  "get_for_event no_faults tenant ty db = Inr (read_endpoints db tenant ty)"
  by (simp add: get_for_event_def read_endpoints_def)

section \<open>The projection as a map from endpoints to messages\<close>

text \<open>
  The specification: the last message about each endpoint, which says what it subscribes to, and
  the newest one, which says everything else: a message replaces it only with a greater version.
  \<open>in_order\<close> says that the messages about an endpoint arrive with rising versions, apart from
  repetitions.
\<close>

type_synonym endpoint_map = "uuid \<Rightarrow> endpoint_changed option"

definition latest :: "endpoint_changed list \<Rightarrow> endpoint_map" where
  "latest es = fold (\<lambda>e m. m(ec_endpoint_id e \<mapsto> e)) es Map.empty"

definition newer :: "endpoint_changed \<Rightarrow> endpoint_map \<Rightarrow> endpoint_map" where
  "newer e m =
     (case m (ec_endpoint_id e) of
        None \<Rightarrow> m(ec_endpoint_id e \<mapsto> e)
      | Some x \<Rightarrow> if ec_version x < ec_version e then m(ec_endpoint_id e \<mapsto> e) else m)"

definition newest :: "endpoint_changed list \<Rightarrow> endpoint_map" where
  "newest es = fold newer es Map.empty"

definition next_version :: "endpoint_map \<Rightarrow> endpoint_changed \<Rightarrow> bool" where
  "next_version m e =
     (case m (ec_endpoint_id e) of None \<Rightarrow> True | Some o' \<Rightarrow> ec_version o' < ec_version e \<or> o' = e)"

fun in_order :: "endpoint_map \<Rightarrow> endpoint_changed list \<Rightarrow> bool" where
  "in_order m [] = True"
| "in_order m (e # es) = (next_version m e \<and> in_order (m(ec_endpoint_id e \<mapsto> e)) es)"

definition endpoint_of :: "endpoint_changed \<Rightarrow> string \<Rightarrow> endpoint_snapshot_with_id" where
  "endpoint_of e ty =
     \<lparr>esi_endpoint_id = ec_endpoint_id e, esi_event_type = ty,
      esi_snapshot = \<lparr>es_event_type = [], es_url = ec_url e, es_secret = the (ec_secret e),
        es_connect_timeout_ms = ec_connect_timeout_ms e,
        es_request_timeout_ms = ec_request_timeout_ms e, es_retry_policy = ec_retry_policy e\<rparr>\<rparr>"

text \<open>The newest message is one of the greatest version.\<close>

lemma newest_greatest:
  assumes "newest es ep = Some p"
  shows "p \<in> set es \<and> ec_endpoint_id p = ep
    \<and> (\<forall>e\<in>set es. ec_endpoint_id e = ep \<longrightarrow> ec_version e \<le> ec_version p)"
proof -
  have keeps: "\<exists>q. fold newer es m ep = Some q \<and> ec_version x \<le> ec_version q"
    if "m ep = Some x" for es m x
    using that
  proof (induction es arbitrary: m x)
    case (Cons e es)
    have "\<exists>y. newer e m ep = Some y \<and> ec_version x \<le> ec_version y"
      using Cons.prems by (auto simp: newer_def split: option.split)
    then obtain y where y: "newer e m ep = Some y" "ec_version x \<le> ec_version y" by blast
    from Cons.IH [of "newer e m" y] y show ?case by force
  qed simp
  have "(p \<in> set es \<and> ec_endpoint_id p = ep \<or> m ep = Some p)
      \<and> (\<forall>e\<in>set es. ec_endpoint_id e = ep \<longrightarrow> ec_version e \<le> ec_version p)"
    if "fold newer es m ep = Some p" for m
    using that
  proof (induction es arbitrary: m)
    case (Cons e es)
    have "ec_version e \<le> ec_version p" if "ec_endpoint_id e = ep"
    proof -
      have "\<exists>y. newer e m ep = Some y \<and> ec_version e \<le> ec_version y"
        using that by (auto simp: newer_def split: option.split)
      then show ?thesis using keeps [of "newer e m" _ es] Cons.prems by fastforce
    qed
    moreover have "newer e m ep = Some p \<Longrightarrow> e = p \<and> ec_endpoint_id p = ep \<or> m ep = Some p"
      by (auto simp: newer_def split: option.splits if_splits)
    ultimately show ?case using Cons.IH [of "newer e m"] Cons.prems by auto
  qed simp
  from this [OF assms [unfolded newest_def]] show ?thesis by simp
qed

lemma newer_next: "next_version m e \<Longrightarrow> newer e m = m(ec_endpoint_id e \<mapsto> e)"
  by (auto simp: next_version_def newer_def split: option.splits)

lemma newest_in_order: "in_order Map.empty es \<Longrightarrow> newest es = latest es"
proof -
  have "in_order m es \<Longrightarrow> fold newer es m = fold (\<lambda>e m. m(ec_endpoint_id e \<mapsto> e)) es m" for m
    by (induction es arbitrary: m) (simp_all add: newer_next del: fun_upd_apply)
  then show "in_order Map.empty es \<Longrightarrow> newest es = latest es" by (simp add: newest_def latest_def)
qed

definition projects :: "projection_db \<Rightarrow> endpoint_map \<Rightarrow> endpoint_map \<Rightarrow> bool" where
  "projects db m l \<longleftrightarrow>
     projection_ok db
     \<and> (\<forall>ep. find_row pr_endpoint_id ep (pj_rows db)
              = map_option (\<lambda>e. projected_row e (the (ec_secret e))) (m ep))
     \<and> set (pj_subs db) = (\<Union>e\<in>ran l. sub_of e ` set (ec_event_types e))
     \<and> (\<forall>ep e. m ep = Some e \<or> l ep = Some e \<longrightarrow> ec_endpoint_id e = ep)"

lemma projects_empty: "projects empty_projection Map.empty Map.empty"
  by (simp add: projects_def empty_projection_def projection_ok_def find_row_def)

lemma find_upsert_row:
  assumes "distinct (map pr_endpoint_id rows)"
  shows "find_row pr_endpoint_id ep (upsert_row r rows)
           = (if ep = pr_endpoint_id r
                 \<and> (case find_row pr_endpoint_id ep rows of None \<Rightarrow> True | Some x \<Rightarrow> pr_version x < pr_version r)
              then Some r else find_row pr_endpoint_id ep rows)"
proof (cases "find_row pr_endpoint_id (pr_endpoint_id r) rows")
  case None
  then show ?thesis
    by (simp add: upsert_row_def find_row_append) (simp add: find_row_def split: option.split)
next
  case (Some x)
  let ?P = "\<lambda>x. pr_endpoint_id x = pr_endpoint_id r \<and> pr_version x < pr_version r"
  have up: "upsert_row r rows = update_where ?P (\<lambda>_. r) rows" using Some by (simp add: upsert_row_def)
  have "find_row pr_endpoint_id ep (update_where ?P (\<lambda>_. r) rows)
      = map_option (\<lambda>x. if ?P x then r else x) (find_row pr_endpoint_id ep rows)"
    by (induction rows) (auto simp: find_row_def)
  then show ?thesis using Some
    by (cases "find_row pr_endpoint_id ep rows"; cases "ep = pr_endpoint_id r") (auto simp: up dest: find_row_SomeD)
qed

lemma subs_step:
  assumes "\<forall>ep e. m ep = Some e \<longrightarrow> ec_endpoint_id e = ep"
  shows "{s \<in> (\<Union>e\<in>ran m. sub_of e ` set (ec_event_types e)). sb_endpoint_id s \<noteq> ec_endpoint_id n}
           \<union> sub_of n ` set (ec_event_types n)
         = (\<Union>e\<in>ran (m(ec_endpoint_id n \<mapsto> n)). sub_of e ` set (ec_event_types e))"
proof -
  have "ran (m(ec_endpoint_id n \<mapsto> n)) = insert n {e \<in> ran m. ec_endpoint_id e \<noteq> ec_endpoint_id n}"
    using assms by (auto simp: ran_def)
  then show ?thesis by auto
qed

lemma upsert_projects:
  assumes "projects db m l" and "upsert f e db = (Inr (), db')"
  shows "projects db' (newer e m) (l(ec_endpoint_id e \<mapsto> e))"
proof -
  from upsert_result(1) [OF assms(2)] obtain secret where s: "ec_secret e = Some secret"
    and rows: "pj_rows db' = upsert_row (projected_row e secret) (pj_rows db)" by blast
  have ok: "projection_ok db'" "distinct (map pr_endpoint_id (pj_rows db))"
    using upsert_result(3) [OF assms(2)] assms(1) by (simp_all add: projects_def projection_ok_def)
  have find: "find_row pr_endpoint_id ep (pj_rows db)
      = map_option (\<lambda>e. projected_row e (the (ec_secret e))) (m ep)" for ep
    using assms(1) by (simp add: projects_def)
  have "find_row pr_endpoint_id ep (pj_rows db')
      = map_option (\<lambda>e. projected_row e (the (ec_secret e))) (newer e m ep)" for ep
    unfolding rows find_upsert_row [OF ok(2)] find
    using s by (auto simp: newer_def projected_row_def split: option.split)
  moreover have "set (pj_subs db')
      = (\<Union>x\<in>ran (l(ec_endpoint_id e \<mapsto> e)). sub_of x ` set (ec_event_types x))"
    using upsert_result(2) [OF assms(2)] subs_step [of l e] assms(1) by (simp add: projects_def)
  moreover have "newer e m ep = Some x \<Longrightarrow> ec_endpoint_id x = ep" for ep x
    using assms(1) by (auto simp: projects_def newer_def split: option.splits if_splits)
  ultimately show ?thesis using ok(1) assms(1) by (auto simp: projects_def)
qed

lemma projects_read:
  assumes "projects db m l"
  shows "set (read_endpoints db tenant ty)
           = {endpoint_of p ty | p e. l (ec_endpoint_id e) = Some e \<and> m (ec_endpoint_id e) = Some p
                \<and> ec_tenant_id e = tenant \<and> ty \<in> set (ec_event_types e) \<and> ec_status p = ''ACTIVE''}" (is "?L = ?R")
proof -
  have ok: "distinct (map pr_endpoint_id (pj_rows db))"
    and keys: "\<And>ep e. m ep = Some e \<or> l ep = Some e \<Longrightarrow> ec_endpoint_id e = ep"
    and find: "\<And>ep. find_row pr_endpoint_id ep (pj_rows db)
      = map_option (\<lambda>e. projected_row e (the (ec_secret e))) (m ep)"
    and subs: "set (pj_subs db) = (\<Union>e\<in>ran l. sub_of e ` set (ec_event_types e))"
    using assms unfolding projects_def projection_ok_def by blast+
  have row: "p \<in> set (pj_rows db) \<and> pr_endpoint_id p = i
      \<longleftrightarrow> (\<exists>x. m i = Some x \<and> p = projected_row x (the (ec_secret x)))" for i p
    using find_row_Some_iff [OF ok, of i p] find [of i] by auto
  have last: "e \<in> ran l \<longleftrightarrow> l (ec_endpoint_id e) = Some e" for e
    using keys by (auto simp: ran_def)
  have id: "m i = Some x \<Longrightarrow> ec_endpoint_id x = i" for i x using keys by blast
  have snap: "reader_snapshot (sub_of e ty) (projected_row p (the (ec_secret p))) = endpoint_of p ty"
    if "m (ec_endpoint_id e) = Some p" for e p
    using id [OF that] by (simp add: reader_snapshot_def projected_row_def endpoint_of_def)
  have "x \<in> ?L \<longleftrightarrow> x \<in> ?R" for x
  proof -
    have "x \<in> ?L \<longleftrightarrow> (\<exists>e\<in>ran l. ty \<in> set (ec_event_types e) \<and> ec_tenant_id e = tenant \<and>
        (\<exists>p. (p \<in> set (pj_rows db) \<and> pr_endpoint_id p = ec_endpoint_id e) \<and> pr_status p = ''ACTIVE''
          \<and> x = reader_snapshot (sub_of e ty) p))"
      unfolding read_endpoints_def set_join_endpoints subs by auto
    also have "\<dots> \<longleftrightarrow> (\<exists>e p. l (ec_endpoint_id e) = Some e \<and> m (ec_endpoint_id e) = Some p
        \<and> ty \<in> set (ec_event_types e) \<and> ec_tenant_id e = tenant \<and> ec_status p = ''ACTIVE''
        \<and> x = reader_snapshot (sub_of e ty) (projected_row p (the (ec_secret p))))"
      unfolding row Bex_def last by (auto simp: projected_row_def)
    also have "\<dots> \<longleftrightarrow> x \<in> ?R" unfolding mem_Collect_eq using snap by metis
    finally show ?thesis .
  qed
  then show ?thesis by blast
qed

text \<open>The messages in the order of the topic; a failing one leaves no trace. The result lists
  those that were applied.\<close>

fun apply_changes ::
    "(upsert_call faults \<times> endpoint_changed) list \<Rightarrow> projection_db
       \<Rightarrow> endpoint_changed list \<times> projection_db" where
  "apply_changes [] db = ([], db)"
| "apply_changes ((f, e) # msgs) db =
     (case upsert f e db of
        (Inl _, db') \<Rightarrow> apply_changes msgs db'
      | (Inr _, db') \<Rightarrow> (let (es, db'') = apply_changes msgs db' in (e # es, db'')))"

lemma apply_changes_projects:
  assumes "apply_changes msgs db = (es, db')" and "projects db m l"
  shows "projects db' (fold newer es m) (fold (\<lambda>e m. m(ec_endpoint_id e \<mapsto> e)) es l)"
  using assms
proof (induction msgs arbitrary: db es m l)
  case (Cons msg msgs)
  obtain f e where msg: "msg = (f, e)" by force
  obtain r db1 where up: "upsert f e db = (r, db1)" by force
  show ?case
  proof (cases r)
    case (Inl err)
    then have "db1 = db" using up run_tx_atomic by (simp add: upsert_def)
    then show ?thesis using Cons msg up Inl by simp
  next
    case (Inr u)
    then obtain es' where es: "es = e # es'" "apply_changes msgs db1 = (es', db')"
      using Cons.prems(1) msg up by (auto split: prod.splits)
    have "projects db1 (newer e m) (l(ec_endpoint_id e \<mapsto> e))"
      using upsert_projects [OF Cons.prems(2)] up Inr by simp
    from Cons.IH [OF es(2) this] show ?thesis by (simp add: es(1) del: fun_upd_apply)
  qed
qed simp

section \<open>Properties\<close>

text \<open>
  C14. Whatever messages were applied, in whatever order, the endpoints found for an event are exactly
  those whose last message is of the event's tenant and subscribed to its type and whose newest
  message is active, each once and with the address, secret, timeouts and policy of the newest
  message, the first one with the greatest version. If the messages about each endpoint have
  rising versions (repetitions apart), the last message is the newest.
\<close>

theorem projection_refines_latest:
  assumes "apply_changes msgs empty_projection = (es, db)"
  shows "\<exists>xs. get_for_event no_faults tenant ty db = Inr xs
           \<and> distinct (map esi_endpoint_id xs)
           \<and> set xs = {endpoint_of p ty | p e. latest es (ec_endpoint_id e) = Some e
                         \<and> newest es (ec_endpoint_id e) = Some p \<and> ec_tenant_id e = tenant
                         \<and> ty \<in> set (ec_event_types e) \<and> ec_status p = ''ACTIVE''}
           \<and> (\<forall>ep p. newest es ep = Some p \<longrightarrow> p \<in> set es \<and> ec_endpoint_id p = ep
                 \<and> (\<forall>e\<in>set es. ec_endpoint_id e = ep \<longrightarrow> ec_version e \<le> ec_version p))
           \<and> (in_order Map.empty es \<longrightarrow> newest es = latest es)"
proof -
  have p: "projects db (newest es) (latest es)"
    using apply_changes_projects [OF assms projects_empty] by (simp add: latest_def newest_def)
  then have "projection_ok db" by (simp add: projects_def)
  then have "distinct (map esi_endpoint_id (read_endpoints db tenant ty))" by (rule projection.read_distinct)
  then show ?thesis using projects_read [OF p] newest_greatest newest_in_order
    by (intro exI [of _ "read_endpoints db tenant ty"]) simp
qed

definition example_change :: endpoint_changed where
  "example_change = \<lparr>ec_message_id = ''m'', ec_tenant_id = 3, ec_endpoint_id = 7, ec_name = ''n'',
     ec_url = ''https://a'', ec_secret = Some ''s'', ec_status = ''ACTIVE'',
     ec_connect_timeout_ms = 5000, ec_request_timeout_ms = 10000, ec_retry_policy = example_policy,
     ec_version = 1, ec_updated_at = 0, ec_event_types = [''order.created'']\<rparr>"

definition example_projection :: projection_db where
  "example_projection = \<lparr>pj_rows = [projected_row example_change ''s''],
     pj_subs = [sub_of example_change ''order.created'']\<rparr>"

lemma example_upsert: "upsert no_faults example_change empty_projection = (Inr (), example_projection)"
  by (simp add: upsert_def run_tx_no_fault example_change_def example_projection_def
      empty_projection_def upsert_row_def find_row_def add_subscription_def)

theorem projection_refines_latest_witness:
  "\<exists>xs. get_for_event no_faults 3 ''order.created'' example_projection = Inr xs
          \<and> endpoint_of example_change ''order.created'' \<in> set xs"
proof -
  have run: "apply_changes [(no_faults, example_change)] empty_projection = ([example_change], example_projection)"
    by (simp add: example_upsert)
  have maps: "latest [example_change] = [7 \<mapsto> example_change]" "newest [example_change] = [7 \<mapsto> example_change]"
    by (simp_all add: latest_def newest_def newer_def) (simp_all add: example_change_def)
  have fields: "ec_endpoint_id example_change = 7" "ec_tenant_id example_change = 3"
      "''order.created'' \<in> set (ec_event_types example_change)" "ec_status example_change = ''ACTIVE''"
    by (simp_all add: example_change_def)
  show ?thesis using projection_refines_latest [OF run, of 3 "''order.created''"] fields
    unfolding maps by (auto intro!: exI [of _ example_change])
qed

text \<open>
  A message with a version that is not newer than the stored one leaves the endpoint's row
  as it is, but its event types replace the subscriptions: after a late or repeated old
  message the endpoint is read with its newer address and the older subscriptions.
\<close>

lemma stale_change_replaces_subscriptions:
  assumes "find_row pr_endpoint_id (ec_endpoint_id e) (pj_rows db) = Some old"
    and "ec_version e \<le> pr_version old" and "projection_ok db"
    and "upsert f e db = (Inr (), db')"
  shows "pj_rows db' = pj_rows db
    \<and> {sb_event_type s | s. s \<in> set (pj_subs db') \<and> sb_endpoint_id s = ec_endpoint_id e}
        = set (ec_event_types e)"
proof
  from upsert_result(1) [OF assms(4)] obtain secret where
    rows: "pj_rows db' = upsert_row (projected_row e secret) (pj_rows db)" by blast
  have "x = old" if "x \<in> set (pj_rows db)" "pr_endpoint_id x = ec_endpoint_id e" for x
    using distinct_keys_eq [of pr_endpoint_id "pj_rows db" x old] that find_row_SomeD [OF assms(1)]
      assms(3) by (simp add: projection_ok_def)
  then show "pj_rows db' = pj_rows db"
    using assms(1,2) by (auto simp: rows upsert_row_def projected_row_def intro!: update_where_none)
  show "{sb_event_type s | s. s \<in> set (pj_subs db') \<and> sb_endpoint_id s = ec_endpoint_id e}
        = set (ec_event_types e)"
    unfolding upsert_result(2) [OF assms(4)] by (auto intro: exI [of _ "sub_of e _"])
qed

definition stale_change :: endpoint_changed where
  "stale_change = example_change\<lparr>ec_version := 0, ec_event_types := [''order.deleted'']\<rparr>"

lemma example_stale:
  "upsert no_faults stale_change example_projection
     = (Inr (), example_projection\<lparr>pj_subs := [sub_of example_change ''order.deleted'']\<rparr>)"
  by (simp add: upsert_def run_tx_no_fault stale_change_def example_change_def example_projection_def
      upsert_row_def find_row_def add_subscription_def projected_row_def)

lemma stale_change_replaces_subscriptions_example:
  "{sb_event_type s | s. s \<in> set [sub_of example_change ''order.deleted''] \<and> sb_endpoint_id s = 7}
     = {''order.deleted''}"
proof -
  have "find_row pr_endpoint_id (ec_endpoint_id stale_change) (pj_rows example_projection)
      = Some (projected_row example_change ''s'')"
    by (simp add: find_row_def stale_change_def example_projection_def)
  moreover have "ec_version stale_change \<le> pr_version (projected_row example_change ''s'')"
    by (simp add: stale_change_def projected_row_def example_change_def)
  moreover have "projection_ok example_projection"
    by (simp add: projection_ok_def example_projection_def)
  ultimately show ?thesis
    using stale_change_replaces_subscriptions [OF _ _ _ example_stale]
    by (simp add: stale_change_def example_change_def)
qed

text \<open>The rows for the endpoints found that have no delivery of the event yet.\<close>

lemma rows_for_missing:
  assumes "projection_ok pdb" and eps: "eps = read_endpoints pdb (ea_tenant_id e) (ea_event_type e)"
    and new: "new = map (\<lambda>(j, ep). new_delivery now (gen j) e ep) (missing db (ea_event_id e) 0 eps)"
  shows "distinct (map d_endpoint_id new)"
    and "d_endpoint_id ` set new
      = {esi_endpoint_id x | x. x \<in> set eps \<and> \<not> has_original db (ea_event_id e) (esi_endpoint_id x)}"
    and "d \<in> set new \<Longrightarrow> d_status d = PENDING \<and> d_event_id d = ea_event_id e
      \<and> d_tenant_id d = ea_tenant_id e \<and> d_payload d = ea_payload e
      \<and> (\<exists>x\<in>set eps. d_snapshot d = (esi_snapshot x)\<lparr>es_event_type := esi_event_type x\<rparr>)"
proof -
  let ?ms = "missing db (ea_event_id e) 0 eps"
  have ids: "map d_endpoint_id new = map (\<lambda>(j, ep). esi_endpoint_id ep) ?ms"
    by (auto simp: new new_delivery_def)
  show "distinct (map d_endpoint_id new)"
    unfolding ids eps using projection.read_distinct [OF assms(1)] by (rule distinct_missing)
  have "d_endpoint_id ` set new = esi_endpoint_id ` (snd ` set ?ms)"
    using arg_cong [OF ids, of set] by (simp add: image_image split_beta)
  then show "d_endpoint_id ` set new
      = {esi_endpoint_id x | x. x \<in> set eps \<and> \<not> has_original db (ea_event_id e) (esi_endpoint_id x)}"
    unfolding set_missing by blast
  assume "d \<in> set new"
  then obtain j x where d: "d = new_delivery now (gen j) e x" and "(j, x) \<in> set ?ms" by (auto simp: new)
  then have "x \<in> snd ` set ?ms" by force
  then have x: "x \<in> set eps" by (simp add: set_missing)
  then have "esi_event_type x = ea_event_type e" using projection.read_type [OF assms(1)] eps by blast
  then show "d_status d = PENDING \<and> d_event_id d = ea_event_id e
      \<and> d_tenant_id d = ea_tenant_id e \<and> d_payload d = ea_payload e
      \<and> (\<exists>x\<in>set eps. d_snapshot d = (esi_snapshot x)\<lparr>es_event_type := esi_event_type x\<rparr>)"
    by (intro conjI bexI [OF _ x]) (simp_all add: d new_delivery_def)
qed

text \<open>
  C15. What an accepted event gets depends on the index. With the one of the migration an event that
  no endpoint subscribes to is handled with nothing stored, and any other is refused with nothing
  stored. With an index that covers the statement the event gets one new pending delivery for
  every endpoint that the projection finds for it and that has no delivery of the event yet, with
  the endpoint's data as the snapshot and the event's payload; nothing else changes.
\<close>

theorem accepted_event_outcome:
  assumes "projection_ok pdb" and "ea_event_id e \<noteq> uuid_nil" and "ea_tenant_id e \<noteq> uuid_nil"
    and "ea_event_type e \<noteq> []" and "ea_payload e \<noteq> []"
    and "n = length (read_endpoints pdb (ea_tenant_id e) (ea_event_type e))"
    and "inj_on gen {0..<n}" and "\<forall>j\<in>{0..<n}. gen j \<notin> d_id ` set (db_deliveries db)"
  shows "(if read_endpoints pdb (ea_tenant_id e) (ea_event_type e) = []
      then handle_event_accepted no_faults migrated_index now gen (\<lambda>t ty. get_for_event no_faults t ty pdb) e db
             = (Inr (), db)
      else \<exists>err. handle_event_accepted no_faults migrated_index now gen
             (\<lambda>t ty. get_for_event no_faults t ty pdb) e db = (Inl err, db))
    \<and> (\<exists>new. handle_event_accepted no_faults Total_Index now gen
                 (\<lambda>t ty. get_for_event no_faults t ty pdb) e db
               = (Inr (), db\<lparr>db_deliveries := db_deliveries db @ new\<rparr>)
    \<and> distinct (map d_endpoint_id new)
    \<and> d_endpoint_id ` set new
        = {esi_endpoint_id x | x. x \<in> set (read_endpoints pdb (ea_tenant_id e) (ea_event_type e))
             \<and> \<not> has_original db (ea_event_id e) (esi_endpoint_id x)}
    \<and> (\<forall>d\<in>set new. d_status d = PENDING \<and> d_event_id d = ea_event_id e
          \<and> d_tenant_id d = ea_tenant_id e \<and> d_payload d = ea_payload e
          \<and> (\<exists>x\<in>set (read_endpoints pdb (ea_tenant_id e) (ea_event_type e)).
               d_snapshot d = (esi_snapshot x)\<lparr>es_event_type := esi_event_type x\<rparr>)))"
proof -
  let ?eps = "read_endpoints pdb (ea_tenant_id e) (ea_event_type e)"
  let ?new = "map (\<lambda>(j, ep). new_delivery now (gen j) e ep) (missing db (ea_event_id e) 0 ?eps)"
  have run: "handle_event_accepted no_faults Total_Index now gen
      (\<lambda>t ty. get_for_event no_faults t ty pdb) e db = (Inr (), db\<lparr>db_deliveries := db_deliveries db @ ?new\<rparr>)"
    using projection.accept_rows [OF assms] by simp
  note rows = rows_for_missing [OF assms(1) refl refl]
  have "if ?eps = [] then handle_event_accepted no_faults migrated_index now gen
             (\<lambda>t ty. get_for_event no_faults t ty pdb) e db = (Inr (), db)
      else \<exists>err. handle_event_accepted no_faults migrated_index now gen
             (\<lambda>t ty. get_for_event no_faults t ty pdb) e db = (Inl err, db)"
    using assms(2-5) create_without_arbiter [of ?eps no_faults now gen e db]
    by (auto simp: handle_event_accepted_def create_deliveries_def run_tx_no_fault)
  then show ?thesis
    by (intro conjI exI [of _ ?new] run rows(1,2) ballI) (use rows(3) in blast)+
qed

lemma example_read:
  "read_endpoints example_projection 3 ''order.created'' = [endpoint_of example_change ''order.created'']"
  by (simp add: read_endpoints_def join_endpoints_def example_projection_def example_change_def
      projected_row_def reader_snapshot_def endpoint_of_def)

theorem accepted_event_outcome_witness:
  "\<exists>new. snd (handle_event_accepted no_faults Total_Index 1000 (\<lambda>i. 11 + of_nat i)
          (\<lambda>t ty. get_for_event no_faults t ty example_projection) example_event empty_delivery_db)
        = empty_delivery_db\<lparr>db_deliveries := new\<rparr> \<and> d_endpoint_id ` set new = {7}"
proof -
  have ev: "ea_event_id example_event = 5" "ea_tenant_id example_event = 3"
    "ea_event_type example_event = ''order.created''" "ea_payload example_event = ''{}''"
    by (simp_all add: example_event_def)
  have "projection_ok example_projection"
    by (simp add: projection_ok_def example_projection_def)
  from accepted_event_outcome [OF this, of example_event 1
      "\<lambda>i. 11 + of_nat i" empty_delivery_db 1000]
  show ?thesis
    by (auto simp: ev example_read empty_delivery_db_def has_original_def endpoint_of_def
        example_change_def)
qed

end
