(* ===== verification/Json.thy ===== *)
theory Json
  imports GoStrings
begin

text \<open>
  JSON values as encoding/json sees them, and the parts of \<open>json.Unmarshal\<close> into a struct that
  the services rely on: which key sets which field, what \<open>null\<close> does, and which values a
  field refuses. The step between bytes and values (the syntax of JSON) is
  \<open>JsonText\<close>. Keys are compared without regard to ASCII case.
\<close>

datatype json =
  JNull | JBool bool | JNum string | JStr string | JArr "json list" | JObj "(string \<times> json) list"

definition type_error :: "string \<Rightarrow> error" where
  "type_error field = Msg (''json: cannot unmarshal value into Go struct field '' @ field)"

text \<open>
  \<open>encoding/json\<close> compares names by a folding of every character to the smallest one that has the
  same simple case folding, and \<open>strings.EqualFold\<close> compares them the same way. ASCII letters
  become upper case, and of the characters outside ASCII the Kelvin sign becomes K and the long s
  becomes S; no other becomes an ASCII character, and leaving those as they are gives the same
  answer to every comparison with an ASCII name.
\<close>

definition fold_ascii :: "char \<Rightarrow> char" where
  "fold_ascii c = (if CHR ''a'' \<le> c \<and> c \<le> CHR ''z'' then char_of (of_char c - (32::nat)) else c)"

fun fold_name :: "string \<Rightarrow> string" where
  "fold_name [] = []"
| "fold_name [c] = [fold_ascii c]"
| "fold_name [c, d] = (if c = CHR 0xC5 \<and> d = CHR 0xBF then ''S'' else [fold_ascii c, fold_ascii d])"
| "fold_name (c # d # e # cs) =
     (if c = CHR 0xE2 \<and> d = CHR 0x84 \<and> e = CHR 0xAA then CHR ''K'' # fold_name cs
      else if c = CHR 0xC5 \<and> d = CHR 0xBF then CHR ''S'' # fold_name (e # cs)
      else fold_ascii c # fold_name (d # e # cs))"

definition same_key :: "string \<Rightarrow> string \<Rightarrow> bool" where
  "same_key k field = (fold_name k = fold_name field)"

text \<open>The names of the fields as they are compared, computed once.\<close>

lemma field_upper:
  "fold_name ''message_id'' = ''MESSAGE_ID''"
  "fold_name ''event_name'' = ''EVENT_NAME''"
  "fold_name ''schema_version'' = ''SCHEMA_VERSION''"
  "fold_name ''tenant_id'' = ''TENANT_ID''"
  "fold_name ''endpoint_id'' = ''ENDPOINT_ID''"
  "fold_name ''name'' = ''NAME''"
  "fold_name ''url'' = ''URL''"
  "fold_name ''secret_encrypted'' = ''SECRET_ENCRYPTED''"
  "fold_name ''secret'' = ''SECRET''"
  "fold_name ''status'' = ''STATUS''"
  "fold_name ''connect_timeout_ms'' = ''CONNECT_TIMEOUT_MS''"
  "fold_name ''request_timeout_ms'' = ''REQUEST_TIMEOUT_MS''"
  "fold_name ''retry_policy'' = ''RETRY_POLICY''"
  "fold_name ''version'' = ''VERSION''"
  "fold_name ''updated_at'' = ''UPDATED_AT''"
  "fold_name ''event_types'' = ''EVENT_TYPES''"
  "fold_name ''retry_policy_id'' = ''RETRY_POLICY_ID''"
  "fold_name ''max_attempts'' = ''MAX_ATTEMPTS''"
  "fold_name ''backoff_type'' = ''BACKOFF_TYPE''"
  "fold_name ''initial_delay_ms'' = ''INITIAL_DELAY_MS''"
  "fold_name ''max_delay_ms'' = ''MAX_DELAY_MS''"
  "fold_name ''jitter_percent'' = ''JITTER_PERCENT''"
  "fold_name ''event_id'' = ''EVENT_ID''"
  "fold_name ''aggregate_type'' = ''AGGREGATE_TYPE''"
  "fold_name ''aggregate_id'' = ''AGGREGATE_ID''"
  "fold_name ''event_type'' = ''EVENT_TYPE''"
  "fold_name ''payload'' = ''PAYLOAD''"
  "fold_name ''id'' = ''ID''"
  "fold_name ''type'' = ''TYPE''"
  "fold_name ''data'' = ''DATA''"
  "fold_name ''occurred_at'' = ''OCCURRED_AT''"
  "fold_name ''source'' = ''SOURCE''"
  "fold_name ''metadata'' = ''METADATA''"
  "fold_name ''idempotency_key'' = ''IDEMPOTENCY_KEY''"
  "fold_name ''message-id'' = ''MESSAGE-ID''"
  "fold_name ''api_key'' = ''API_KEY''"
  "fold_name ''key_name'' = ''KEY_NAME''"
  "fold_name ''scopes'' = ''SCOPES''"
  "fold_name ''expires_at'' = ''EXPIRES_AT''"
  by (simp_all add: fold_ascii_def) (simp_all add: char_of_def bit_0)

text \<open>A name may be written with a Kelvin sign, but a dotless i is no i.\<close>

lemma same_key_examples:
  "same_key (''api_'' @ [CHR 0xE2, CHR 0x84, CHR 0xAA] @ ''ey'') ''api_key''"
  "\<not> same_key (''ap'' @ [CHR 0xC4, CHR 0xB1] @ ''_key'') ''api_key''"
  by (simp_all add: same_key_def fold_ascii_def) (simp_all add: char_of_def bit_0)

text \<open>A string field, and a field whose type reads its own text (\<open>uuid.UUID\<close>).\<close>

fun set_string :: "string \<Rightarrow> (string \<Rightarrow> 's) \<Rightarrow> 's \<Rightarrow> json \<Rightarrow> 's result" where
  "set_string field upd s (JStr x) = Inr (upd x)"
| "set_string field upd s JNull = Inr s"
| "set_string field upd s v = Inl (type_error field)"

fun set_text ::
    "(string \<Rightarrow> 'a option) \<Rightarrow> string \<Rightarrow> ('a \<Rightarrow> 's) \<Rightarrow> 's \<Rightarrow> json \<Rightarrow> 's result" where
  "set_text parse field upd s (JStr x) =
     (case parse x of Some a \<Rightarrow> Inr (upd a) | None \<Rightarrow> Inl (type_error field))"
| "set_text parse field upd s JNull = Inr s"
| "set_text parse field upd s v = Inl (type_error field)"

text \<open>The keys of an object in their order; the first refused value makes the result an error.\<close>

fun decode_keys :: "(string \<Rightarrow> json \<Rightarrow> 's \<Rightarrow> 's result) \<Rightarrow> (string \<times> json) list \<Rightarrow> 's \<Rightarrow> 's result" where
  "decode_keys step [] s = Inr s"
| "decode_keys step ((k, v) # kvs) s =
     (case step k v s of Inl e \<Rightarrow> Inl e | Inr s' \<Rightarrow> decode_keys step kvs s')"

fun decode_struct :: "(string \<Rightarrow> json \<Rightarrow> 's \<Rightarrow> 's result) \<Rightarrow> json \<Rightarrow> 's \<Rightarrow> 's result" where
  "decode_struct step (JObj kvs) s = decode_keys step kvs s"
| "decode_struct step JNull s = Inr s"
| "decode_struct step v s = Inl (type_error [])"

text \<open>A relation that every key keeps is kept by decoding the whole struct.\<close>

lemma decode_keys_invariant:
  assumes "decode_keys step kvs s = Inr s'" and "P s"
    and "\<And>k v s s'. (k, v) \<in> set kvs \<Longrightarrow> step k v s = Inr s' \<Longrightarrow> P s \<Longrightarrow> P s'"
  shows "P s'"
  using assms
proof (induction kvs arbitrary: s)
  case (Cons kv kvs)
  obtain k v where kv: "kv = (k, v)" by force
  with Cons.prems(1) obtain s1 where s1: "step k v s = Inr s1" "decode_keys step kvs s1 = Inr s'"
    by (auto split: sum.splits)
  have "P s1" using Cons.prems(3) [of k v s s1] s1(1) Cons.prems(2) kv by simp
  moreover have "P t'" if "(k, v) \<in> set kvs" "step k v t = Inr t'" "P t" for k v t t'
    using Cons.prems(3) [of k v t t'] that by simp
  ultimately show ?case using Cons.IH [OF s1(2)] by blast
qed simp

end
