(* ===== verification/EventStore.thy ===== *)
theory EventStore
  imports Json
begin

text \<open>
  event-service/internal/event and migrations/001_init.sql: accepting an event once per
  idempotency key, with its outbox message in the same transaction (model.go, repository.go,
  service.go). The interface \<open>Repository\<close> of the service is the locale \<open>event_repository\<close>,
  interpreted on the PostgreSQL repository.
\<close>

section \<open>Data\<close>

record event =
  ev_id :: uuid
  ev_tenant_id :: uuid
  ev_type :: string
  ev_payload :: bytes
  ev_occurred_at :: "time option"
  ev_source :: "string option"
  ev_metadata :: bytes
  ev_created_at :: time

record publish_request =
  pq_type :: string
  pq_idempotency_key :: string
  pq_data :: bytes
  pq_occurred_at :: "time option"
  pq_source :: "string option"
  pq_metadata :: bytes

text \<open>The rows of \<open>events\<close> have the fields of \<open>Event\<close>, with \<open>NULL\<close> for no metadata.\<close>

record event_row =
  er_id :: uuid
  er_tenant_id :: uuid
  er_type :: string
  er_payload :: bytes
  er_occurred_at :: "time option"
  er_source :: "string option"
  er_metadata :: "bytes option"
  er_created_at :: time

record idempotency_row =
  id_tenant_id :: uuid
  id_key :: string
  id_event_id :: uuid

record outbox_row =
  ob_id :: uuid
  ob_aggregate_type :: string
  ob_aggregate_id :: uuid
  ob_event_type :: string
  ob_payload :: json
  ob_created_at :: time
  ob_published_at :: "time option"
  ob_attempts :: int
  ob_last_error :: "string option"

record event_db =
  evs_events :: "event_row list"
  evs_idempotency :: "idempotency_row list"
  evs_outbox :: "outbox_row list"

definition empty_event_db :: event_db where
  "empty_event_db = \<lparr>evs_events = [], evs_idempotency = [], evs_outbox = []\<rparr>"

text \<open>
  What one call takes from outside: the identifiers that \<open>uuid.New\<close> and the database
  generate, the transaction's \<open>NOW()\<close>, the text PostgreSQL gives back for a JSONB value,
  and the texts of identifiers and times.
\<close>

record event_env =
  ee_new_id :: uuid
  ee_outbox_id :: uuid
  ee_now :: time
  ee_jsonb :: "bytes \<Rightarrow> bytes"
  ee_uuid_text :: "uuid \<Rightarrow> string"
  ee_time_text :: "time \<Rightarrow> string"

section \<open>The repository\<close>

definition nullable_json :: "bytes \<Rightarrow> bytes option" where
  "nullable_json data = (if data = [] then None else Some data)"

definition invalid_request :: "publish_request \<Rightarrow> bool" where
  "invalid_request req \<longleftrightarrow> pq_type req = [] \<or> pq_idempotency_key req = [] \<or> pq_data req = []"

definition event_of_row :: "event_row \<Rightarrow> event" where
  "event_of_row r =
     \<lparr>ev_id = er_id r, ev_tenant_id = er_tenant_id r, ev_type = er_type r,
      ev_payload = er_payload r, ev_occurred_at = er_occurred_at r, ev_source = er_source r,
      ev_metadata = (case er_metadata r of None \<Rightarrow> [] | Some m \<Rightarrow> m),
      ev_created_at = er_created_at r\<rparr>"

text \<open>\<open>getEventTx\<close> and \<open>GetByID\<close> run the same query.\<close>

definition select_event :: "error option \<Rightarrow> uuid \<Rightarrow> uuid \<Rightarrow> event_db \<Rightarrow> event result" where
  "select_event f tenant i db =
     guard (map_option (wrap ''get event: '') f)
       (case List.find (\<lambda>r. er_id r = i \<and> er_tenant_id r = tenant) (evs_events db) of
          None \<Rightarrow> Inl (wrap ''get event: '' NoRows)
        | Some r \<Rightarrow> Inr (event_of_row r))"

definition get_by_id :: "error option \<Rightarrow> uuid \<Rightarrow> uuid \<Rightarrow> event_db \<Rightarrow> event result" where
  "get_by_id = select_event"

definition new_event :: "event_env \<Rightarrow> publish_request \<Rightarrow> uuid \<Rightarrow> event" where
  "new_event env req tenant =
     \<lparr>ev_id = ee_new_id env, ev_tenant_id = tenant, ev_type = pq_type req,
      ev_payload = pq_data req, ev_occurred_at = pq_occurred_at req, ev_source = pq_source req,
      ev_metadata = pq_metadata req, ev_created_at = 0\<rparr>"

definition row_of_event :: "event_env \<Rightarrow> event \<Rightarrow> event_row" where
  "row_of_event env e =
     \<lparr>er_id = ev_id e, er_tenant_id = ev_tenant_id e, er_type = ev_type e,
      er_payload = ee_jsonb env (ev_payload e), er_occurred_at = map_option pg_time (ev_occurred_at e),
      er_source = ev_source e, er_metadata = map_option (ee_jsonb env) (nullable_json (ev_metadata e)),
      er_created_at = ee_now env\<rparr>"

text \<open>The outbox payload; \<open>json.Marshal\<close> writes the keys of a map in their order.\<close>

definition outbox_payload :: "event_env \<Rightarrow> event \<Rightarrow> json" where
  "outbox_payload env e =
     JObj [(''event_id'', JStr (ee_uuid_text env (ev_id e))),
           (''event_type'', JStr (ev_type e)),
           (''occurred_at'', JStr (ee_time_text env (ev_created_at e))),
           (''tenant_id'', JStr (ee_uuid_text env (ev_tenant_id e)))]"

definition new_outbox_row :: "event_env \<Rightarrow> event \<Rightarrow> outbox_row" where
  "new_outbox_row env e =
     \<lparr>ob_id = ee_outbox_id env, ob_aggregate_type = ''event'', ob_aggregate_id = ev_id e,
      ob_event_type = ''EventAccepted'', ob_payload = outbox_payload env e,
      ob_created_at = ee_now env, ob_published_at = None, ob_attempts = 0, ob_last_error = None\<rparr>"

datatype create_event_call =
  CE_Begin | CE_Check | CE_Get | CE_Event | CE_Key | CE_Outbox | CE_Commit

text \<open>The three inserts of a new event.\<close>

definition insert_event ::
    "create_event_call faults \<Rightarrow> event_env \<Rightarrow> publish_request \<Rightarrow> uuid \<Rightarrow> event_db
       \<Rightarrow> (event \<times> event_db) result" where
  "insert_event f env req tenant db =
     (let e = new_event env req tenant in
      guard (map_option (wrap ''insert event: '') (f CE_Event))
        (if ev_id e \<in> er_id ` set (evs_events db)
         then Inl (wrap ''insert event: '' (pg_unique ''events_pkey''))
         else guard (map_option (wrap ''insert idempotency record: '') (f CE_Key))
           (if list_ex (\<lambda>k. id_tenant_id k = tenant \<and> id_key k = pq_idempotency_key req)
                 (evs_idempotency db)
            then Inl (wrap ''insert idempotency record: '' (pg_unique ''event_idempotency_pkey''))
            else guard (map_option (wrap ''insert outbox event: '') (f CE_Outbox))
              (if ee_outbox_id env \<in> ob_id ` set (evs_outbox db)
               then Inl (wrap ''insert outbox event: '' (pg_unique ''outbox_pkey''))
               else Inr (e, \<lparr>evs_events = evs_events db @ [row_of_event env e],
                      evs_idempotency = evs_idempotency db @
                        [\<lparr>id_tenant_id = tenant, id_key = pq_idempotency_key req, id_event_id = ev_id e\<rparr>],
                      evs_outbox = evs_outbox db @ [new_outbox_row env e]\<rparr>)))))"

definition find_key :: "uuid \<Rightarrow> string \<Rightarrow> event_db \<Rightarrow> idempotency_row option" where
  "find_key tenant key db =
     List.find (\<lambda>k. id_tenant_id k = tenant \<and> id_key k = key) (evs_idempotency db)"

definition create_event ::
    "create_event_call faults \<Rightarrow> event_env \<Rightarrow> publish_request \<Rightarrow> uuid \<Rightarrow> event_db
       \<Rightarrow> event result \<times> event_db" where
  "create_event f env req tenant db =
     (if invalid_request req then (Inl Event_ErrInvalidRequest, db)
      else case f CE_Begin of
        Some e \<Rightarrow> (Inl (wrap ''begin transaction: '' e), db)
      | None \<Rightarrow>
          (case f CE_Check of
             Some e \<Rightarrow> (Inl (wrap ''check idempotency: '' e), db)
           | None \<Rightarrow>
               (case find_key tenant (pq_idempotency_key req) db of
                  Some k \<Rightarrow> (select_event (f CE_Get) tenant (id_event_id k) db, db)
                | None \<Rightarrow>
                    run_tx None (map_option (wrap ''commit transaction: '') (f CE_Commit))
                      (insert_event f env req tenant) db)))"

section \<open>The service\<close>

text \<open>The service calls its repository through an interface, here the argument \<open>create\<close>.\<close>

definition publish ::
    "(publish_request \<Rightarrow> uuid \<Rightarrow> 's \<Rightarrow> event result \<times> 's) \<Rightarrow> uuid \<Rightarrow> publish_request \<Rightarrow> 's
       \<Rightarrow> event result \<times> 's" where
  "publish create tenant req s =
     (if pq_type req = [] then (Inl Event_ErrInvalidRequest, s)
      else if pq_idempotency_key req = [] then (Inl Event_ErrInvalidRequest, s)
      else if pq_data req = [] then (Inl Event_ErrInvalidRequest, s)
      else create req tenant s)"

section \<open>The invariant of the tables\<close>

abbreviation key_of :: "idempotency_row \<Rightarrow> uuid \<times> string" where
  "key_of k \<equiv> (id_tenant_id k, id_key k)"

text \<open>
  Every event was accepted under exactly one key of its tenant and has exactly one outbox
  message: the three tables list the same events in the same order.
\<close>

definition event_db_ok :: "event_db \<Rightarrow> bool" where
  "event_db_ok db \<longleftrightarrow>
     distinct (map er_id (evs_events db)) \<and> distinct (map key_of (evs_idempotency db))
     \<and> distinct (map ob_id (evs_outbox db))
     \<and> map (\<lambda>k. (id_event_id k, id_tenant_id k)) (evs_idempotency db)
         = map (\<lambda>r. (er_id r, er_tenant_id r)) (evs_events db)
     \<and> map ob_aggregate_id (evs_outbox db) = map er_id (evs_events db)"

lemma event_db_ok_empty: "event_db_ok empty_event_db"
  by (simp add: event_db_ok_def empty_event_db_def)

lemma insert_event_result:
  "insert_event f env req tenant db = Inr (e, db') \<longleftrightarrow>
     e = new_event env req tenant \<and> f CE_Event = None \<and> f CE_Key = None \<and> f CE_Outbox = None
     \<and> ee_new_id env \<notin> er_id ` set (evs_events db)
     \<and> (tenant, pq_idempotency_key req) \<notin> key_of ` set (evs_idempotency db)
     \<and> ee_outbox_id env \<notin> ob_id ` set (evs_outbox db)
     \<and> db' = \<lparr>evs_events = evs_events db @ [row_of_event env e],
              evs_idempotency = evs_idempotency db @
                [\<lparr>id_tenant_id = tenant, id_key = pq_idempotency_key req, id_event_id = ee_new_id env\<rparr>],
              evs_outbox = evs_outbox db @ [new_outbox_row env e]\<rparr>"
  by (auto simp: insert_event_def Let_def guard_Inr list_ex_iff new_event_def image_iff)

lemma insert_event_ok:
  "event_db_ok db \<Longrightarrow> insert_event f env req tenant db = Inr (e, db') \<Longrightarrow> event_db_ok db'"
  by (auto simp: event_db_ok_def insert_event_result row_of_event_def new_event_def
      new_outbox_row_def)

lemma create_event_ok: "event_db_ok db \<Longrightarrow> event_db_ok (snd (create_event f env req tenant db))"
  unfolding create_event_def
  by (auto split: option.split intro!: run_tx_preserves [where P = event_db_ok] dest: insert_event_ok)

lemma find_key_Some:
  "find_key tenant key db = Some k \<Longrightarrow>
     k \<in> set (evs_idempotency db) \<and> id_tenant_id k = tenant \<and> id_key k = key"
  by (auto simp: find_key_def find_Some_iff)

lemma find_event_of_key:
  assumes "event_db_ok db" and "k \<in> set (evs_idempotency db)"
  shows "\<exists>r. List.find (\<lambda>r. er_id r = id_event_id k \<and> er_tenant_id r = id_tenant_id k) (evs_events db)
             = Some r \<and> er_id r = id_event_id k \<and> er_tenant_id r = id_tenant_id k"
proof -
  have "(id_event_id k, id_tenant_id k) \<in> set (map (\<lambda>r. (er_id r, er_tenant_id r)) (evs_events db))"
    using assms unfolding event_db_ok_def by (metis (no_types, lifting) image_eqI set_map)
  then obtain r where "r \<in> set (evs_events db)" "er_id r = id_event_id k" "er_tenant_id r = id_tenant_id k"
    by auto
  then have "List.find (\<lambda>r. er_id r = id_event_id k \<and> er_tenant_id r = id_tenant_id k) (evs_events db) \<noteq> None"
    by (auto simp: find_None_iff)
  then show ?thesis by (auto simp: find_Some_iff)
qed

section \<open>The interface Repository\<close>

text \<open>
  The contract behind \<open>event.Repository\<close>: \<open>accepted\<close> is the map from a tenant and an
  idempotency key to the event accepted under it. A call that fails changes nothing; a
  successful one for a known key changes nothing and returns the known event; a successful
  one for a new key adds its event; a known event can be read.
\<close>

locale event_repository =
  fixes create :: "'w \<Rightarrow> publish_request \<Rightarrow> uuid \<Rightarrow> 's \<Rightarrow> event result \<times> 's"
    and get :: "uuid \<Rightarrow> uuid \<Rightarrow> 's \<Rightarrow> event result"
    and accepted :: "'s \<Rightarrow> uuid \<times> string \<Rightarrow> uuid option"
    and quiet :: "'w \<Rightarrow> bool"
    and ok :: "'s \<Rightarrow> bool"
  assumes create_ok: "ok s \<Longrightarrow> ok (snd (create w req t s))"
    and create_error: "create w req t s = (Inl err, s') \<Longrightarrow> s' = s"
    and create_new: "ok s \<Longrightarrow> create w req t s = (Inr e, s') \<Longrightarrow>
      accepted s (t, pq_idempotency_key req) = None \<Longrightarrow>
      accepted s' = (accepted s)((t, pq_idempotency_key req) \<mapsto> ev_id e)"
    and create_known: "ok s \<Longrightarrow> create w req t s = (Inr e, s') \<Longrightarrow>
      accepted s (t, pq_idempotency_key req) = Some i \<Longrightarrow> s' = s \<and> ev_id e = i"
    and create_retry: "ok s \<Longrightarrow> quiet w \<Longrightarrow> \<not> invalid_request req \<Longrightarrow>
      accepted s (t, pq_idempotency_key req) = Some i \<Longrightarrow> \<exists>e. create w req t s = (Inr e, s)"
    and get_known: "ok s \<Longrightarrow> accepted s (t, key) = Some i \<Longrightarrow> \<exists>e. get t i s = Inr e"
    and get_own: "get t i s = Inr e \<Longrightarrow> ev_id e = i \<and> ev_tenant_id e = t"

text \<open>Calls of the service one after the other, each with its own environment.\<close>

fun publish_all ::
    "('w \<Rightarrow> publish_request \<Rightarrow> uuid \<Rightarrow> 's \<Rightarrow> event result \<times> 's)
       \<Rightarrow> ('w \<times> uuid \<times> publish_request) list \<Rightarrow> 's \<Rightarrow> 's" where
  "publish_all create [] s = s"
| "publish_all create ((w, t, req) # calls) s =
     publish_all create calls (snd (publish (create w) t req s))"

lemma publish_eq:
  "publish create t req s =
     (if invalid_request req then (Inl Event_ErrInvalidRequest, s) else create req t s)"
  by (simp add: publish_def invalid_request_def)

context event_repository
begin

lemma publish_keeps_ok: "ok s \<Longrightarrow> ok (snd (publish (create w) t req s))"
  by (simp add: publish_eq create_ok)

lemma create_grows:
  assumes "ok s" and "accepted s k = Some i"
  shows "accepted (snd (create w req t s)) k = Some i"
proof (cases "create w req t s")
  case (Pair r s')
  show ?thesis
  proof (cases r)
    case (Inl err)
    then have "s' = s" using create_error Pair by simp
    then show ?thesis using Pair assms(2) by simp
  next
    case (Inr e)
    then have c: "create w req t s = (Inr e, s')" using Pair by simp
    show ?thesis
    proof (cases "accepted s (t, pq_idempotency_key req)")
      case None
      then show ?thesis using create_new [OF assms(1) c] assms(2) c by auto
    next
      case (Some j)
      then show ?thesis using create_known [OF assms(1) c] assms(2) c by simp
    qed
  qed
qed

lemma publish_all_grows:
  "ok s \<Longrightarrow> ok (publish_all create calls s)
     \<and> (accepted s k = Some i \<longrightarrow> accepted (publish_all create calls s) k = Some i)"
proof (induction calls arbitrary: s)
  case (Cons c calls)
  obtain w t req where c: "c = (w, t, req)" by (metis prod_cases3)
  let ?s = "snd (publish (create w) t req s)"
  have "ok ?s" using Cons.prems by (rule publish_keeps_ok)
  moreover have "accepted s k = Some i \<longrightarrow> accepted ?s k = Some i"
    by (simp add: publish_eq create_grows Cons.prems)
  ultimately show ?case using Cons.IH [of ?s] by (simp add: c)
qed simp

lemma publish_accepted:
  assumes "ok s" and "publish (create w) t req s = (Inr e, s')"
  shows "accepted s' (t, pq_idempotency_key req) = Some (ev_id e)"
proof -
  have c: "create w req t s = (Inr e, s')"
    using assms(2) by (simp add: publish_eq split: if_splits)
  show ?thesis
  proof (cases "accepted s (t, pq_idempotency_key req)")
    case None
    then show ?thesis using create_new [OF assms(1) c] by simp
  next
    case (Some j)
    then show ?thesis using create_known [OF assms(1) c] by simp
  qed
qed

lemma publish_once:
  assumes "ok s" and "publish (create w) t req s = (Inr e, s1)" and "s2 = publish_all create calls s1"
    and "quiet w'" and "\<not> invalid_request req'" and "pq_idempotency_key req' = pq_idempotency_key req"
  shows "\<exists>e' e''. publish (create w') t req' s2 = (Inr e', s2) \<and> ev_id e' = ev_id e
           \<and> get t (ev_id e) s2 = Inr e'' \<and> ev_id e'' = ev_id e"
proof -
  have ok1: "ok s1" using publish_keeps_ok [OF assms(1), of w t req] assms(2) by simp
  have acc: "accepted s2 (t, pq_idempotency_key req') = Some (ev_id e)" and ok2: "ok s2"
    using publish_all_grows [OF ok1] publish_accepted [OF assms(1,2)] assms(3,6) by simp_all
  obtain e' where again: "create w' req' t s2 = (Inr e', s2)"
    using create_retry [OF ok2 assms(4,5) acc] by blast
  moreover have "ev_id e' = ev_id e" using create_known [OF ok2 again acc] by simp
  moreover obtain e'' where "get t (ev_id e) s2 = Inr e''" using get_known [OF ok2 acc] by blast
  ultimately show ?thesis using assms(5) get_own by (auto simp: publish_eq)
qed

end

section \<open>The PostgreSQL repository implements it\<close>

definition accepted_events :: "event_db \<Rightarrow> uuid \<times> string \<Rightarrow> uuid option" where
  "accepted_events db k = map_option id_event_id (find_key (fst k) (snd k) db)"

abbreviation create_with ::
    "create_event_call faults \<times> event_env \<Rightarrow> publish_request \<Rightarrow> uuid \<Rightarrow> event_db
       \<Rightarrow> event result \<times> event_db" where
  "create_with w \<equiv> create_event (fst w) (snd w)"

lemma find_key_None: "find_key t k db = None \<longleftrightarrow> (t, k) \<notin> key_of ` set (evs_idempotency db)"
  by (auto simp: find_key_def find_None_iff image_iff)

lemma find_append:
  "List.find P (xs @ ys) = (case List.find P xs of None \<Rightarrow> List.find P ys | Some x \<Rightarrow> Some x)"
  by (induction xs) auto

lemma create_event_error: "create_event f env req t db = (Inl err, db') \<Longrightarrow> db' = db"
  by (auto simp: create_event_def split: option.splits if_splits dest: run_tx_atomic)

lemma create_event_new:
  "find_key t (pq_idempotency_key req) db = None \<Longrightarrow> create_event f env req t db = (Inr e, db') \<Longrightarrow>
     insert_event f env req t db = Inr (e, db')"
  by (auto simp: create_event_def run_tx_commit split: option.splits if_splits)

lemma select_event_own: "select_event f t i db = Inr e \<Longrightarrow> ev_id e = i \<and> ev_tenant_id e = t"
  by (auto simp: select_event_def guard_Inr find_Some_iff event_of_row_def split: option.splits)

lemma create_event_known:
  assumes "create_event f env req t db = (Inr e, db')"
    and "find_key t (pq_idempotency_key req) db = Some k"
  shows "db' = db \<and> ev_id e = id_event_id k"
proof -
  have "select_event (f CE_Get) t (id_event_id k) db = Inr e \<and> db' = db"
    using assms by (auto simp: create_event_def split: option.splits if_splits)
  then show ?thesis using select_event_own by blast
qed

lemma select_event_ok:
  assumes "event_db_ok db" and "find_key t key db = Some k"
  shows "\<exists>e. select_event None t (id_event_id k) db = Inr e"
  using find_event_of_key [OF assms(1)] find_key_Some [OF assms(2)]
  by (fastforce simp: select_event_def)

lemma accepted_insert:
  assumes "insert_event f env req t db = Inr (e, db')"
    and "accepted_events db (t, pq_idempotency_key req) = None"
  shows "accepted_events db' = (accepted_events db)((t, pq_idempotency_key req) \<mapsto> ev_id e)"
proof
  fix k :: "uuid \<times> string"
  obtain t' key' where k: "k = (t', key')" by force
  from assms(1) have idem: "evs_idempotency db' = evs_idempotency db @
      [\<lparr>id_tenant_id = t, id_key = pq_idempotency_key req, id_event_id = ee_new_id env\<rparr>]"
    and e: "ev_id e = ee_new_id env"
    by (simp_all add: insert_event_result new_event_def)
  show "accepted_events db' k = ((accepted_events db)((t, pq_idempotency_key req) \<mapsto> ev_id e)) k"
    using assms(2) unfolding k accepted_events_def find_key_def idem find_append
    by (auto simp: e split: option.split)
qed

interpretation event_store: event_repository create_with "get_by_id None" accepted_events
  "\<lambda>w. fst w = no_faults" event_db_ok
proof
  show "event_db_ok (snd (create_with w req t s))" if "event_db_ok s" for s w req t
    using that by (rule create_event_ok)
  show "s' = s" if "create_with w req t s = (Inl err, s')" for w req t s err s'
    using that by (rule create_event_error)
  show "accepted_events s' = (accepted_events s)((t, pq_idempotency_key req) \<mapsto> ev_id e)"
    if "event_db_ok s" "create_with w req t s = (Inr e, s')"
      "accepted_events s (t, pq_idempotency_key req) = None" for s w req t e s'
    using accepted_insert [OF create_event_new [OF _ that(2)] that(3)] that(3)
    by (simp add: accepted_events_def)
  show "s' = s \<and> ev_id e = i" if "event_db_ok s" "create_with w req t s = (Inr e, s')"
      "accepted_events s (t, pq_idempotency_key req) = Some i" for s w req t e s' i
    using create_event_known [OF that(2)] that(3) by (auto simp: accepted_events_def)
  show "\<exists>e. create_with w req t s = (Inr e, s)"
    if "event_db_ok s" "fst w = no_faults" "\<not> invalid_request req"
      "accepted_events s (t, pq_idempotency_key req) = Some i" for s w req t i
    using that select_event_ok [OF that(1), of t "pq_idempotency_key req"]
    by (auto simp: create_event_def accepted_events_def)
  show "\<exists>e. get_by_id None t i s = Inr e"
    if "event_db_ok s" "accepted_events s (t, key) = Some i" for s t key i
    using that select_event_ok [OF that(1), of t key] by (auto simp: get_by_id_def accepted_events_def)
  show "ev_id e = i \<and> ev_tenant_id e = t" if "get_by_id None t i s = Inr e" for t i s e
    using that select_event_own by (simp add: get_by_id_def)
qed

end
