(* ===== verification/EventOutbox.thy ===== *)
theory EventOutbox
  imports EventStore
begin

text \<open>
  event-service/internal/outbox/publisher.go: the transaction that writes the unpublished
  outbox messages to Kafka and marks them. What has been written to Kafka stays written when
  the transaction is rolled back, so the result of a batch lists the messages written next
  to the new state of the tables. An error of the result stream, which the code does not
  check, ends the rows early; rows not read are treated like locked ones.
\<close>

section \<open>One batch\<close>

record kafka_message =
  km_key :: bytes
  km_value :: json

definition envelope :: "(uuid \<Rightarrow> string) \<Rightarrow> outbox_row \<Rightarrow> kafka_message" where
  "envelope ut r =
     \<lparr>km_key = ut (ob_aggregate_id r),
      km_value = JObj [(''id'', JStr (ut (ob_id r))), (''event_type'', JStr (ob_event_type r)),
        (''aggregate_type'', JStr (ob_aggregate_type r)),
        (''aggregate_id'', JStr (ut (ob_aggregate_id r))), (''payload'', ob_payload r)]\<rparr>"

definition batch_rows :: "(uuid \<Rightarrow> bool) \<Rightarrow> event_db \<Rightarrow> outbox_row list" where
  "batch_rows locked db =
     take 100 (sort_key ob_created_at
       (filter (\<lambda>r. ob_published_at r = None \<and> \<not> locked (ob_id r)) (evs_outbox db)))"

definition update_outbox :: "uuid \<Rightarrow> (outbox_row \<Rightarrow> outbox_row) \<Rightarrow> event_db \<Rightarrow> event_db" where
  "update_outbox i g db = db\<lparr>evs_outbox := update_where (\<lambda>r. ob_id r = i) g (evs_outbox db)\<rparr>"

definition failed_row :: "error \<Rightarrow> outbox_row \<Rightarrow> outbox_row" where
  "failed_row err r = r\<lparr>ob_attempts := ob_attempts r + 1, ob_last_error := Some (error_text err)\<rparr>"

definition published_row :: "time \<Rightarrow> outbox_row \<Rightarrow> outbox_row" where
  "published_row now r = r\<lparr>ob_published_at := Some now\<rparr>"

datatype batch_call = PB_Begin | PB_Query | PB_Scan | PB_Fail uuid | PB_Mark uuid | PB_Commit

fun batch_loop ::
    "batch_call faults \<Rightarrow> (uuid \<Rightarrow> error option) \<Rightarrow> time \<Rightarrow> (uuid \<Rightarrow> string) \<Rightarrow> outbox_row list
       \<Rightarrow> event_db \<Rightarrow> event_db result \<times> kafka_message list" where
  "batch_loop f kafka now ut [] db = (Inr db, [])"
| "batch_loop f kafka now ut (r # rs) db =
     (case kafka (ob_id r) of
        Some err \<Rightarrow>
          (case f (PB_Fail (ob_id r)) of
             Some e \<Rightarrow> (Inl (wrap ''update failed outbox: '' e), [])
           | None \<Rightarrow> batch_loop f kafka now ut rs (update_outbox (ob_id r) (failed_row err) db))
      | None \<Rightarrow>
          (case f (PB_Mark (ob_id r)) of
             Some e \<Rightarrow> (Inl (wrap ''mark outbox published: '' e), [envelope ut r])
           | None \<Rightarrow>
               (let (res, ms) =
                  batch_loop f kafka now ut rs (update_outbox (ob_id r) (published_row now) db)
                in (res, envelope ut r # ms))))"

definition publish_batch ::
    "batch_call faults \<Rightarrow> (uuid \<Rightarrow> error option) \<Rightarrow> (uuid \<Rightarrow> bool) \<Rightarrow> time \<Rightarrow> (uuid \<Rightarrow> string)
       \<Rightarrow> event_db \<Rightarrow> unit result \<times> kafka_message list \<times> event_db" where
  "publish_batch f kafka locked now ut db =
     (case f PB_Begin of
        Some e \<Rightarrow> (Inl (wrap ''begin transaction: '' e), [], db)
      | None \<Rightarrow>
          (case f PB_Query of
             Some e \<Rightarrow> (Inl (wrap ''query outbox: '' e), [], db)
           | None \<Rightarrow>
               (if batch_rows locked db \<noteq> [] \<and> f PB_Scan \<noteq> None
                then (Inl (wrap ''scan outbox: '' (the (f PB_Scan))), [], db)
                else (let (res, ms) = batch_loop f kafka now ut (batch_rows locked db) db in
                      case res of
                        Inl e \<Rightarrow> (Inl e, ms, db)
                      | Inr db' \<Rightarrow>
                          (case f PB_Commit of
                             Some e \<Rightarrow> (Inl e, ms, db)
                           | None \<Rightarrow> (Inr (), ms, db'))))))"

section \<open>What a batch does\<close>

definition row_outcome :: "(uuid \<Rightarrow> error option) \<Rightarrow> time \<Rightarrow> outbox_row \<Rightarrow> outbox_row" where
  "row_outcome kafka now r =
     (case kafka (ob_id r) of None \<Rightarrow> published_row now r | Some err \<Rightarrow> failed_row err r)"

lemma row_fields [simp]:
  "ob_id (failed_row err r) = ob_id r" "ob_id (published_row now r) = ob_id r"
  "ob_aggregate_id (failed_row err r) = ob_aggregate_id r"
  "ob_aggregate_id (published_row now r) = ob_aggregate_id r"
  "ob_published_at (failed_row err r) = ob_published_at r"
  "ob_published_at (published_row now r) = Some now"
  "envelope ut (failed_row err r) = envelope ut r" "envelope ut (published_row now r) = envelope ut r"
  by (simp_all add: failed_row_def published_row_def envelope_def)

lemma row_outcome_fields [simp]:
  "ob_id (row_outcome kafka now r) = ob_id r"
  "ob_aggregate_id (row_outcome kafka now r) = ob_aggregate_id r"
  "envelope ut (row_outcome kafka now r) = envelope ut r"
  by (simp_all add: row_outcome_def split: option.split)

lemma batch_loop_result:
  assumes "batch_loop f kafka now ut rs db = (Inr db', ms)" and "distinct (map ob_id rs)"
  shows "evs_events db' = evs_events db \<and> evs_idempotency db' = evs_idempotency db
    \<and> evs_outbox db' = map (\<lambda>r. if ob_id r \<in> ob_id ` set rs then row_outcome kafka now r else r)
                          (evs_outbox db)
    \<and> ms = map (envelope ut) (filter (\<lambda>r. kafka (ob_id r) = None) rs)"
  using assms
proof (induction rs arbitrary: db ms)
  case (Cons r rs)
  define g where "g = (case kafka (ob_id r) of None \<Rightarrow> published_row now | Some err \<Rightarrow> failed_row err)"
  define db1 where "db1 = update_outbox (ob_id r) g db"
  from Cons.prems(1) obtain ms' where loop: "batch_loop f kafka now ut rs db1 = (Inr db', ms')"
    and ms: "ms = (if kafka (ob_id r) = None then envelope ut r # ms' else ms')"
    by (auto simp: db1_def g_def split: option.splits prod.splits)
  have g: "ob_id x = ob_id r \<Longrightarrow> g x = row_outcome kafka now x" "ob_id (g x) = ob_id x" for x
    by (auto simp: g_def row_outcome_def split: option.split)
  have db1: "evs_outbox db1 = map (\<lambda>x. if ob_id x = ob_id r then row_outcome kafka now x else x)
      (evs_outbox db)"
    by (auto simp: db1_def update_outbox_def update_where_def g)
  have "evs_events db1 = evs_events db" "evs_idempotency db1 = evs_idempotency db"
    by (simp_all add: db1_def update_outbox_def)
  moreover have "ob_id r \<notin> ob_id ` set rs" using Cons.prems(2) by simp
  ultimately show ?case
    using Cons.IH [OF loop] Cons.prems(2) by (auto simp: db1 ms)
qed simp

lemma batch_loop_sent:
  "batch_loop f kafka now ut rs db = (res, ms) \<Longrightarrow> set ms \<subseteq> envelope ut ` set rs"
  by (induction rs arbitrary: db ms res)
    (auto split: option.splits prod.splits simp: Let_def, blast+)

lemma batch_rows_subset: "set (batch_rows locked db) \<subseteq> set (evs_outbox db)"
  by (auto simp: batch_rows_def dest: in_set_takeD)

lemma distinct_batch_rows:
  assumes "distinct (map ob_id (evs_outbox db))"
  shows "distinct (map ob_id (batch_rows locked db))"
proof -
  have "distinct (map ob_id (sort_key ob_created_at
      (filter (\<lambda>r. ob_published_at r = None \<and> \<not> locked (ob_id r)) (evs_outbox db))))"
    using assms by (simp add: distinct_map inj_on_def)
  then show ?thesis unfolding batch_rows_def by (simp add: distinct_take flip: take_map)
qed

lemma publish_batch_result:
  assumes "publish_batch f kafka locked now ut db = (Inr u, ms, db')"
    and "distinct (map ob_id (evs_outbox db))"
  shows "evs_events db' = evs_events db \<and> evs_idempotency db' = evs_idempotency db
    \<and> evs_outbox db' = map (\<lambda>r. if ob_id r \<in> ob_id ` set (batch_rows locked db)
                               then row_outcome kafka now r else r) (evs_outbox db)
    \<and> ms = map (envelope ut) (filter (\<lambda>r. kafka (ob_id r) = None) (batch_rows locked db))"
  using assms batch_loop_result [OF _ distinct_batch_rows [OF assms(2)]]
  by (auto simp: publish_batch_def split: option.splits if_splits prod.splits sum.splits)

lemma publish_batch_error:
  "publish_batch f kafka locked now ut db = (Inl e, ms, db') \<Longrightarrow>
     db' = db \<and> set ms \<subseteq> envelope ut ` set (batch_rows locked db)"
  by (auto simp: publish_batch_def split: option.splits if_splits prod.splits sum.splits
      dest: batch_loop_sent)

end
