(* ===== verification/EventSystem.thy ===== *)
theory EventSystem
  imports EventOutbox
begin

text \<open>
  The event service as a whole: requests and outbox batches in any order, with any failing
  calls. The properties: one event per idempotency key, an event is visible to its tenant
  only, every event's message is waiting or written to Kafka, and the outbox empties.
\<close>

section \<open>Steps and reachable states\<close>

record esys =
  esy_db :: event_db
  esy_sent :: "kafka_message list"

definition init_esys :: esys where
  "init_esys = \<lparr>esy_db = empty_event_db, esy_sent = []\<rparr>"

inductive estep :: "(uuid \<Rightarrow> string) \<Rightarrow> esys \<Rightarrow> esys \<Rightarrow> bool" for ut where
  request: "estep ut s (s\<lparr>esy_db := snd (publish (create_event f env) tenant req (esy_db s))\<rparr>)"
| batch: "publish_batch f kafka locked now ut (esy_db s) = (res, ms, db') \<Longrightarrow>
    estep ut s \<lparr>esy_db = db', esy_sent = esy_sent s @ ms\<rparr>"

inductive ereach :: "(uuid \<Rightarrow> string) \<Rightarrow> esys \<Rightarrow> bool" for ut where
  init: "ereach ut init_esys"
| step: "ereach ut s \<Longrightarrow> estep ut s t \<Longrightarrow> ereach ut t"

definition sent_ok :: "(uuid \<Rightarrow> string) \<Rightarrow> outbox_row list \<Rightarrow> kafka_message list \<Rightarrow> bool" where
  "sent_ok ut rows sent \<longleftrightarrow>
     (\<forall>r\<in>set rows. ob_published_at r \<noteq> None \<longrightarrow> envelope ut r \<in> set sent)
     \<and> set sent \<subseteq> envelope ut ` set rows"

definition esys_inv :: "(uuid \<Rightarrow> string) \<Rightarrow> esys \<Rightarrow> bool" where
  "esys_inv ut s \<longleftrightarrow>
     event_db_ok (esy_db s) \<and> sent_ok ut (evs_outbox (esy_db s)) (esy_sent s)"

lemma create_event_outbox:
  "evs_outbox (snd (create_event f env req tenant db)) = evs_outbox db
   \<or> (\<exists>e. evs_outbox (snd (create_event f env req tenant db)) = evs_outbox db @ [new_outbox_row env e])"
proof (cases "create_event f env req tenant db")
  case (Pair res db')
  show ?thesis
  proof (cases res)
    case (Inl e)
    then show ?thesis using create_event_error Pair by fastforce
  next
    case (Inr e)
    then have c: "create_event f env req tenant db = (Inr e, db')" using Pair by simp
    show ?thesis
    proof (cases "find_key tenant (pq_idempotency_key req) db")
      case None
      then show ?thesis using create_event_new [OF None c] c by (auto simp: insert_event_result)
    next
      case (Some k)
      then show ?thesis using create_event_known [OF c] c by simp
    qed
  qed
qed

lemma sent_ok_request:
  "sent_ok ut (evs_outbox db) sent \<Longrightarrow>
     sent_ok ut (evs_outbox (snd (publish (create_event f env) tenant req db))) sent"
  using create_event_outbox [of f env req tenant db]
  by (auto simp: publish_eq sent_ok_def new_outbox_row_def)

lemma event_db_ok_batch:
  assumes "event_db_ok db" and "publish_batch f kafka locked now ut db = (res, ms, db')"
  shows "event_db_ok db'"
proof (cases res)
  case (Inl e)
  then show ?thesis using publish_batch_error assms by blast
next
  case (Inr u)
  let ?g = "\<lambda>r. if ob_id r \<in> ob_id ` set (batch_rows locked db) then row_outcome kafka now r else r"
  have "evs_events db' = evs_events db" "evs_idempotency db' = evs_idempotency db"
    and rows: "evs_outbox db' = map ?g (evs_outbox db)"
    using publish_batch_result [of f kafka locked now ut db u ms db'] assms Inr
    by (simp_all add: event_db_ok_def)
  moreover have "map ob_id (map ?g (evs_outbox db)) = map ob_id (evs_outbox db)"
    and "map ob_aggregate_id (map ?g (evs_outbox db)) = map ob_aggregate_id (evs_outbox db)"
    by simp_all
  ultimately show ?thesis using assms(1) unfolding event_db_ok_def by metis
qed

lemma sent_ok_batch:
  assumes ok: "sent_ok ut (evs_outbox db) sent" "distinct (map ob_id (evs_outbox db))"
    and b: "publish_batch f kafka locked now ut db = (res, ms, db')"
  shows "sent_ok ut (evs_outbox db') (sent @ ms)"
proof (cases res)
  case (Inl e)
  then have "db' = db" "set ms \<subseteq> envelope ut ` set (batch_rows locked db)"
    using publish_batch_error b by blast+
  then show ?thesis using ok(1) batch_rows_subset [of locked db] unfolding sent_ok_def by auto
next
  case (Inr u)
  let ?B = "batch_rows locked db"
  let ?g = "\<lambda>r. if ob_id r \<in> ob_id ` set ?B then row_outcome kafka now r else r"
  have rows: "evs_outbox db' = map ?g (evs_outbox db)"
    and ms: "ms = map (envelope ut) (filter (\<lambda>r. kafka (ob_id r) = None) ?B)"
    using publish_batch_result [of f kafka locked now ut db u ms db'] b Inr ok(2) by simp_all
  have env: "envelope ut (?g r) = envelope ut r" for r by simp
  have sent: "envelope ut r \<in> set (sent @ ms)"
    if r: "r \<in> set (evs_outbox db)" and p: "ob_published_at (?g r) \<noteq> None" for r
  proof (cases "ob_published_at r = None")
    case False
    then show ?thesis using ok(1) r by (simp add: sent_ok_def)
  next
    case True
    then have "ob_id r \<in> ob_id ` set ?B" "kafka (ob_id r) = None"
      using p by (auto simp: row_outcome_def split: if_splits option.splits)
    then obtain b where "b \<in> set ?B" "ob_id b = ob_id r" by auto
    then have "r \<in> set ?B"
      using distinct_keys_eq [OF ok(2) r, of b] batch_rows_subset by auto
    then show ?thesis using \<open>kafka (ob_id r) = None\<close> by (simp add: ms)
  qed
  have sub: "set (sent @ ms) \<subseteq> envelope ut ` set (evs_outbox db)"
    using ok(1) batch_rows_subset [of locked db] by (auto simp: sent_ok_def ms)
  have "map (envelope ut) (evs_outbox db') = map (envelope ut) (evs_outbox db)"
    unfolding rows map_map by (intro map_cong refl) simp
  then have "envelope ut ` set (evs_outbox db') = envelope ut ` set (evs_outbox db)"
    by (metis set_map)
  with sub have covered: "set (sent @ ms) \<subseteq> envelope ut ` set (evs_outbox db')" by simp
  have "envelope ut x \<in> set (sent @ ms)" if x: "x \<in> set (evs_outbox db')" and p: "ob_published_at x \<noteq> None" for x
  proof -
    from x obtain r where "r \<in> set (evs_outbox db)" "x = ?g r" unfolding rows by auto
    then show ?thesis using sent [of r] p env [of r] by (simp del: set_append)
  qed
  with covered show ?thesis unfolding sent_ok_def by blast
qed

lemma estep_inv: "estep ut s t \<Longrightarrow> esys_inv ut s \<Longrightarrow> esys_inv ut t"
proof (induction rule: estep.induct)
  case (request s f env tenant req)
  then show ?case
    using event_store.publish_keeps_ok [of "esy_db s" "(f, env)" tenant req]
    by (simp add: esys_inv_def sent_ok_request)
next
  case (batch f kafka locked now s res ms db')
  then have ok: "event_db_ok (esy_db s)" and sent: "sent_ok ut (evs_outbox (esy_db s)) (esy_sent s)"
    by (simp_all add: esys_inv_def)
  have "distinct (map ob_id (evs_outbox (esy_db s)))" using ok by (simp add: event_db_ok_def)
  from event_db_ok_batch [OF ok batch(1)] sent_ok_batch [OF sent this batch(1)]
  show ?case by (simp add: esys_inv_def)
qed

lemma ereach_inv: "ereach ut s \<Longrightarrow> esys_inv ut s"
proof (induction rule: ereach.induct)
  case init
  then show ?case
    by (simp add: esys_inv_def init_esys_def event_db_ok_empty sent_ok_def) (simp add: empty_event_db_def)
qed (blast intro: estep_inv)

section \<open>Properties\<close>

text \<open>
  C18. Publishing is idempotent: once a request has been accepted, a request of the tenant with
  the same key is answered with the same event and changes nothing, however many other
  requests, of this or other tenants and with any failures, came in between; and the event
  can still be read.
\<close>

theorem publish_exactly_once:
  assumes "event_db_ok db"
    and "publish (create_event f env) tenant req db = (Inr e, db1)"
    and "db2 = publish_all create_with calls db1"
    and "\<not> invalid_request req'" and "pq_idempotency_key req' = pq_idempotency_key req"
  shows "\<exists>e' e''. publish (create_event no_faults env') tenant req' db2 = (Inr e', db2)
           \<and> ev_id e' = ev_id e \<and> get_by_id None tenant (ev_id e) db2 = Inr e''"
  using event_store.publish_once [of db "(f, env)" tenant req e db1 db2 calls "(no_faults, env')" req']
    assms by auto

definition example_event_env :: event_env where
  "example_event_env = \<lparr>ee_new_id = 5, ee_outbox_id = 50, ee_now = 1000, ee_jsonb = (\<lambda>b. b),
     ee_uuid_text = (\<lambda>i. format_int (uint i)), ee_time_text = format_int\<rparr>"

definition example_publish :: publish_request where
  "example_publish = \<lparr>pq_type = ''order.created'', pq_idempotency_key = ''k'', pq_data = ''{}'',
     pq_occurred_at = None, pq_source = None, pq_metadata = []\<rparr>"

definition example_event_db :: event_db where
  "example_event_db = (let e = new_event example_event_env example_publish 3 in
     \<lparr>evs_events = [row_of_event example_event_env e],
      evs_idempotency = [\<lparr>id_tenant_id = 3, id_key = ''k'', id_event_id = 5\<rparr>],
      evs_outbox = [new_outbox_row example_event_env e]\<rparr>)"

lemma example_publish_run:
  "publish (create_event no_faults example_event_env) 3 example_publish empty_event_db
     = (Inr (new_event example_event_env example_publish 3), example_event_db)"
  by (simp add: publish_eq invalid_request_def create_event_def find_key_def insert_event_def
      run_tx_no_fault example_event_db_def Let_def empty_event_db_def new_event_def
      example_publish_def example_event_env_def)

theorem publish_exactly_once_witness:
  "\<exists>e'. publish (create_event no_faults (example_event_env\<lparr>ee_new_id := 6\<rparr>)) 3 example_publish
           example_event_db = (Inr e', example_event_db) \<and> ev_id e' = 5"
  using publish_exactly_once [OF event_db_ok_empty example_publish_run, of example_event_db "[]"
      example_publish "example_event_env\<lparr>ee_new_id := 6\<rparr>"]
  by (auto simp: invalid_request_def example_publish_def new_event_def example_event_env_def)

text \<open>
  A newly accepted event is read back by its tenant with the data of the request (the
  payload in the database's JSONB form), and no other tenant can read it.
\<close>

lemma published_event_readable:
  assumes "create_event f env req tenant db = (Inr e, db')"
    and "find_key tenant (pq_idempotency_key req) db = None"
  shows "get_by_id None t (ev_id e) db'
           = (if t = tenant
              then Inr (e\<lparr>ev_payload := ee_jsonb env (pq_data req),
                          ev_occurred_at := map_option pg_time (pq_occurred_at req),
                          ev_metadata := (if pq_metadata req = [] then [] else ee_jsonb env (pq_metadata req)),
                          ev_created_at := ee_now env\<rparr>)
              else Inl (wrap ''get event: '' NoRows))"
proof -
  have ins: "insert_event f env req tenant db = Inr (e, db')"
    using create_event_new [OF assms(2,1)] .
  then have e: "e = new_event env req tenant" and new: "ee_new_id env \<notin> er_id ` set (evs_events db)"
    and rows: "evs_events db' = evs_events db @ [row_of_event env e]"
    by (simp_all add: insert_event_result)
  have "List.find (\<lambda>r. er_id r = ev_id e \<and> er_tenant_id r = t) (evs_events db) = None"
    using new by (auto simp: find_None_iff e new_event_def image_iff)
  then show ?thesis
    by (simp add: get_by_id_def select_event_def rows find_append row_of_event_def event_of_row_def
        e new_event_def nullable_json_def)
qed

lemma example_create_run:
  "create_event no_faults example_event_env example_publish 3 empty_event_db
     = (Inr (new_event example_event_env example_publish 3), example_event_db)"
  using example_publish_run by (simp add: publish_eq invalid_request_def example_publish_def)

text \<open>
  C20. In every state that the event service can reach, whatever calls fail: event identifiers
  are unique, every event has exactly one outbox message, every message that is marked
  published has been written to Kafka, and nothing else has ever been written.
\<close>

theorem outbox_at_least_once:
  assumes "ereach ut s"
  shows "distinct (map er_id (evs_events (esy_db s)))
    \<and> distinct (map ob_aggregate_id (evs_outbox (esy_db s)))
    \<and> ob_aggregate_id ` set (evs_outbox (esy_db s)) = er_id ` set (evs_events (esy_db s))
    \<and> (\<forall>r\<in>set (evs_outbox (esy_db s)). ob_published_at r \<noteq> None \<longrightarrow> envelope ut r \<in> set (esy_sent s))
    \<and> set (esy_sent s) \<subseteq> envelope ut ` set (evs_outbox (esy_db s))"
proof -
  have inv: "event_db_ok (esy_db s)" "sent_ok ut (evs_outbox (esy_db s)) (esy_sent s)"
    using ereach_inv [OF assms] by (simp_all add: esys_inv_def)
  have "map ob_aggregate_id (evs_outbox (esy_db s)) = map er_id (evs_events (esy_db s))"
    and "distinct (map er_id (evs_events (esy_db s)))"
    using inv(1) by (simp_all add: event_db_ok_def)
  then show ?thesis using inv(2) unfolding sent_ok_def by (metis set_map)
qed

definition example_text :: "uuid \<Rightarrow> string" where
  "example_text i = format_int (uint i)"

definition example_sent :: esys where
  "example_sent =
     \<lparr>esy_db = example_event_db\<lparr>evs_outbox := map (published_row 2000) (evs_outbox example_event_db)\<rparr>,
      esy_sent = map (envelope example_text) (evs_outbox example_event_db)\<rparr>"

lemma example_batch:
  "publish_batch no_faults (\<lambda>_. None) (\<lambda>_. False) 2000 example_text example_event_db
     = (Inr (), esy_sent example_sent, esy_db example_sent)"
  by (simp add: publish_batch_def batch_rows_def example_sent_def example_event_db_def Let_def
      new_outbox_row_def update_outbox_def)

lemma example_sent_reach: "ereach example_text example_sent"
proof -
  have "estep example_text init_esys (init_esys\<lparr>esy_db := example_event_db\<rparr>)"
    using estep.request [of example_text init_esys no_faults example_event_env 3 example_publish]
    by (simp add: init_esys_def example_publish_run)
  then have "ereach example_text (init_esys\<lparr>esy_db := example_event_db\<rparr>)"
    by (rule ereach.step [OF ereach.init])
  moreover have "estep example_text (init_esys\<lparr>esy_db := example_event_db\<rparr>) example_sent"
    using estep.batch [OF _ , of no_faults "\<lambda>_. None" "\<lambda>_. False" 2000 example_text
        "init_esys\<lparr>esy_db := example_event_db\<rparr>"] example_batch
    by (simp add: init_esys_def) (simp add: example_sent_def)
  ultimately show ?thesis by (rule ereach.step)
qed

theorem outbox_at_least_once_witness:
  "envelope example_text (hd (evs_outbox (esy_db example_sent))) \<in> set (esy_sent example_sent)
   \<and> er_id ` set (evs_events (esy_db example_sent)) = {5}"
proof -
  have "hd (evs_outbox (esy_db example_sent)) \<in> set (evs_outbox (esy_db example_sent))"
    and "ob_published_at (hd (evs_outbox (esy_db example_sent))) \<noteq> None"
    by (simp_all add: example_sent_def example_event_db_def Let_def)
  moreover have "er_id ` set (evs_events (esy_db example_sent)) = {5}"
    by (simp add: example_sent_def example_event_db_def Let_def row_of_event_def new_event_def
        example_event_env_def)
  ultimately show ?thesis using outbox_at_least_once [OF example_sent_reach] by blast
qed

section \<open>The outbox empties\<close>

definition pending :: "event_db \<Rightarrow> outbox_row list" where
  "pending db = filter (\<lambda>r. ob_published_at r = None) (evs_outbox db)"

text \<open>The ticks of \<open>Run\<close> at the given times, with no failing call and no other publisher.\<close>

fun run_batches :: "(uuid \<Rightarrow> string) \<Rightarrow> time list \<Rightarrow> event_db \<Rightarrow> kafka_message list \<times> event_db" where
  "run_batches ut [] db = ([], db)"
| "run_batches ut (now # nows) db =
     (let (_, ms, db') = publish_batch no_faults (\<lambda>_. None) (\<lambda>_. False) now ut db;
          (ms', db'') = run_batches ut nows db'
      in (ms @ ms', db''))"

lemma batch_loop_quiet: "\<exists>db' ms. batch_loop no_faults (\<lambda>_. None) now ut rs db = (Inr db', ms)"
  by (induction rs arbitrary: db) (auto simp: split_beta, metis fst_conv)

lemma publish_batch_quiet:
  "\<exists>ms db'. publish_batch no_faults (\<lambda>_. None) (\<lambda>_. False) now ut db = (Inr (), ms, db')"
  using batch_loop_quiet [of now ut "batch_rows (\<lambda>_. False) db" db] by (auto simp: publish_batch_def)

lemma batch_rows_pending:
  "batch_rows (\<lambda>_. False) db = take 100 (sort_key ob_created_at (pending db))"
  by (simp add: batch_rows_def pending_def)

lemma pending_after_batch:
  assumes "distinct (map ob_id (evs_outbox db))"
    and "publish_batch no_faults (\<lambda>_. None) (\<lambda>_. False) now ut db = (Inr u, ms, db')"
  shows "pending db' = filter (\<lambda>r. r \<notin> set (batch_rows (\<lambda>_. False) db)) (pending db)"
    and "set ms = envelope ut ` set (batch_rows (\<lambda>_. False) db)"
    and "distinct (map ob_id (evs_outbox db'))"
proof -
  let ?B = "batch_rows (\<lambda>_. False) db"
  let ?g = "\<lambda>r. if ob_id r \<in> ob_id ` set ?B then published_row now r else r"
  have rows: "evs_outbox db' = map ?g (evs_outbox db)" and ms: "ms = map (envelope ut) ?B"
    using publish_batch_result [OF assms(2,1)] by (simp_all add: row_outcome_def cong: if_cong)
  show "set ms = envelope ut ` set ?B" by (simp add: ms)
  have "map ob_id (map ?g (evs_outbox db)) = map ob_id (evs_outbox db)" by simp
  with assms(1) show "distinct (map ob_id (evs_outbox db'))" by (simp only: rows)
  have mem: "ob_id r \<in> ob_id ` set ?B \<longleftrightarrow> r \<in> set ?B" if "r \<in> set (evs_outbox db)" for r
    using that distinct_keys_eq [OF assms(1) that] batch_rows_subset [of "\<lambda>_. False" db] by auto
  have "filter (\<lambda>r. ob_published_at r = None) (map ?g rs) = filter (\<lambda>r. r \<notin> set ?B) (filter (\<lambda>r. ob_published_at r = None) rs)"
    if "set rs \<subseteq> set (evs_outbox db)" for rs
    using that mem by (induction rs) auto
  then show "pending db' = filter (\<lambda>r. r \<notin> set ?B) (pending db)"
    by (simp add: pending_def rows)
qed

lemma length_filter_not_in:
  assumes "distinct xs" and "set ys \<subseteq> set xs" and "distinct ys"
  shows "length (filter (\<lambda>x. x \<notin> set ys) xs) = length xs - length ys"
proof -
  have "length (filter (\<lambda>x. x \<notin> set ys) xs) = card (set xs - set ys)"
    using assms(1) by (simp add: set_diff_eq flip: distinct_card)
  then show ?thesis using assms by (simp add: card_Diff_subset distinct_card)
qed

lemma run_batches_drain:
  assumes "distinct (map ob_id (evs_outbox db))" and "length (pending db) \<le> 100 * length nows"
    and "run_batches ut nows db = (ms, db')"
  shows "pending db' = [] \<and> envelope ut ` set (pending db) \<subseteq> set ms"
  using assms
proof (induction nows arbitrary: db ms)
  case (Cons now nows)
  obtain ms1 db1 where b: "publish_batch no_faults (\<lambda>_. None) (\<lambda>_. False) now ut db = (Inr (), ms1, db1)"
    using publish_batch_quiet by blast
  then obtain ms2 where ms: "ms = ms1 @ ms2" "run_batches ut nows db1 = (ms2, db')"
    using Cons.prems(3) by (auto split: prod.splits)
  let ?B = "batch_rows (\<lambda>_. False) db"
  note after = pending_after_batch [OF Cons.prems(1) b]
  have d: "distinct (pending db)"
    using Cons.prems(1) by (simp add: pending_def distinct_map)
  have B: "set ?B \<subseteq> set (pending db)" "distinct ?B"
    using d by (auto simp: batch_rows_pending dest: in_set_takeD)
  have "length (pending db1) = length (pending db) - length ?B"
    unfolding after(1) by (rule length_filter_not_in [OF d B])
  then have "length (pending db1) \<le> 100 * length nows"
    using Cons.prems(2) by (simp add: batch_rows_pending)
  from Cons.IH [OF after(3) this ms(2)] have rest: "pending db' = []"
    and "envelope ut ` set (pending db1) \<subseteq> set ms2" by simp_all
  moreover have "set (pending db) \<subseteq> set ?B \<union> set (pending db1)" by (auto simp: after(1))
  ultimately have "envelope ut ` set (pending db) \<subseteq> set ms" using after(2) ms(1) by auto
  with rest show ?case by simp
qed simp

text \<open>
  C21. The outbox empties: with no failing call, as many ticks as it takes to send 100 messages
  each write every waiting message to Kafka and leave none waiting.
\<close>

theorem outbox_empties:
  assumes "event_db_ok db" and "length (pending db) \<le> 100 * length nows"
    and "run_batches ut nows db = (ms, db')"
  shows "pending db' = [] \<and> envelope ut ` set (pending db) \<subseteq> set ms"
  using run_batches_drain [OF _ assms(2,3)] assms(1) by (simp add: event_db_ok_def)

theorem outbox_empties_witness:
  "envelope example_text ` set (pending example_event_db) \<subseteq> set (esy_sent example_sent)"
proof -
  have "event_db_ok example_event_db"
    using create_event_ok [OF event_db_ok_empty, of no_faults example_event_env example_publish 3]
    by (simp add: example_create_run)
  moreover have "length (pending example_event_db) \<le> 100 * length [2000 :: time]"
    by (simp add: pending_def example_event_db_def Let_def)
  moreover have "run_batches example_text [2000] example_event_db = (esy_sent example_sent, esy_db example_sent)"
    by (simp add: example_batch)
  ultimately show ?thesis using outbox_empties by blast
qed

end
