(* ===== verification/JsonText.thy ===== *)
theory JsonText
  imports Json
begin

text \<open>
  The syntax of encoding/json: how bytes are read as JSON values (the scanner, \<open>json.Unmarshal\<close>
  and one call of \<open>Decoder.Decode\<close>) and how values are written (\<open>json.Marshal\<close>, which escapes the
  characters of HTML). What is written is read back.
\<close>

section \<open>Reading strings\<close>

definition hex_val :: "char \<Rightarrow> nat option" where
  "hex_val c = (let n = (of_char c :: nat) in
     if 48 \<le> n \<and> n \<le> 57 then Some (n - 48)
     else if 97 \<le> n \<and> n \<le> 102 then Some (n - 87)
     else if 65 \<le> n \<and> n \<le> 70 then Some (n - 55) else None)"

definition hex4 :: "bytes \<Rightarrow> (nat \<times> bytes) option" where
  "hex4 s =
     (case s of
        a # b # c # d # r \<Rightarrow>
          (case (hex_val a, hex_val b, hex_val c, hex_val d) of
             (Some w, Some x, Some y, Some z) \<Rightarrow> Some (4096 * w + 256 * x + 16 * y + z, r)
           | _ \<Rightarrow> None)
      | _ \<Rightarrow> None)"

text \<open>\<open>utf8.EncodeRune\<close>, with U+FFFD for what is no character.\<close>

definition replacement :: bytes where
  "replacement = [char_of (239 :: nat), char_of (191 :: nat), char_of (189 :: nat)]"

definition is_surrogate :: "nat \<Rightarrow> bool" where
  "is_surrogate v \<longleftrightarrow> 55296 \<le> v \<and> v < 57344"

definition encode_rune :: "nat \<Rightarrow> bytes" where
  "encode_rune v =
     (if v < 128 then [char_of v]
      else if v < 2048 then map char_of [192 + v div 64, 128 + v mod 64]
      else if is_surrogate v \<or> 1114112 \<le> v then replacement
      else if v < 65536 then map char_of [224 + v div 4096, 128 + v div 64 mod 64, 128 + v mod 64]
      else map char_of [240 + v div 262144, 128 + v div 4096 mod 64, 128 + v div 64 mod 64, 128 + v mod 64])"

text \<open>\<open>utf16.DecodeRune\<close>.\<close>

definition surrogate_pair :: "nat \<Rightarrow> nat \<Rightarrow> nat option" where
  "surrogate_pair v w =
     (if 55296 \<le> v \<and> v < 56320 \<and> 56320 \<le> w \<and> w < 57344
      then Some ((v - 55296) * 1024 + (w - 56320) + 65536) else None)"

definition simple_escape :: "char \<Rightarrow> char option" where
  "simple_escape c =
     (if c = CHR 0x22 \<or> c = CHR 0x5C \<or> c = CHR ''/'' then Some c
      else if c = CHR ''b'' then Some (CHR 0x08)
      else if c = CHR ''f'' then Some (CHR 0x0C)
      else if c = CHR ''n'' then Some (CHR 0x0A)
      else if c = CHR ''r'' then Some (CHR 0x0D)
      else if c = CHR ''t'' then Some (CHR 0x09) else None)"

text \<open>One step inside a string: its end, the next bytes of its value, or an error.\<close>

datatype string_step = String_End bytes | String_Part bytes bytes | String_Bad

definition escape_step :: "bytes \<Rightarrow> string_step" where
  "escape_step s =
     (case s of
        [] \<Rightarrow> String_Bad
      | d # r \<Rightarrow>
          if d = CHR ''u''
          then (case hex4 r of
                  None \<Rightarrow> String_Bad
                | Some (v, r1) \<Rightarrow>
                    if is_surrogate v
                    then (case r1 of
                            b # u # r2 \<Rightarrow>
                              (if b = CHR 0x5C \<and> u = CHR ''u''
                               then (case hex4 r2 of
                                       Some (w, r3) \<Rightarrow>
                                         (case surrogate_pair v w of
                                            Some x \<Rightarrow> String_Part (encode_rune x) r3
                                          | None \<Rightarrow> String_Part replacement r1)
                                     | None \<Rightarrow> String_Part replacement r1)
                               else String_Part replacement r1)
                          | _ \<Rightarrow> String_Part replacement r1)
                    else String_Part (encode_rune v) r1)
          else (case simple_escape d of None \<Rightarrow> String_Bad | Some c \<Rightarrow> String_Part [c] r))"

text \<open>A byte that starts no character of UTF-8 is replaced.\<close>

definition string_step :: "bytes \<Rightarrow> string_step" where
  "string_step s =
     (case s of
        [] \<Rightarrow> String_Bad
      | c # cs \<Rightarrow>
          if c = CHR 0x22 then String_End cs
          else if c = CHR 0x5C then escape_step cs
          else if (of_char c :: nat) < 32 then String_Bad
          else let w = utf8_width c cs in
            if w \<noteq> 0 \<and> w - 1 \<le> length cs \<and> list_all cont_byte (take (w - 1) cs)
            then String_Part (c # take (w - 1) cs) (drop (w - 1) cs)
            else String_Part replacement cs)"

lemma hex4_shrinks: "hex4 s = Some (v, r) \<Longrightarrow> length r < length s"
  by (auto simp: hex4_def split: list.splits option.splits)

lemma escape_step_shrinks: "escape_step s = String_Part x r \<Longrightarrow> length r < length s"
  by (auto simp: escape_step_def split: list.splits option.splits prod.splits if_splits dest!: hex4_shrinks)

lemma string_step_shrinks: "string_step s = String_Part x r \<Longrightarrow> length r < length s"
  by (auto simp: string_step_def Let_def split: list.splits if_splits dest!: escape_step_shrinks)

text \<open>The rest of a string after its opening quote: its value, and what follows it.\<close>

function parse_string :: "bytes \<Rightarrow> (bytes \<times> bytes) option" where
  "parse_string s =
     (case string_step s of
        String_End r \<Rightarrow> Some ([], r)
      | String_Part x r \<Rightarrow> map_option (apfst ((@) x)) (parse_string r)
      | String_Bad \<Rightarrow> None)"
  by pat_completeness auto
termination by (relation "measure length") (auto dest: string_step_shrinks)

declare parse_string.simps [simp del]

section \<open>Reading numbers and values\<close>

definition scan_int :: "bytes \<Rightarrow> (bytes \<times> bytes) option" where
  "scan_int s =
     (let (sg, t) = (case s of c # cs \<Rightarrow> (if c = CHR ''-'' then ([c], cs) else ([], s)) | [] \<Rightarrow> ([], [])) in
      case t of
        [] \<Rightarrow> None
      | c # cs \<Rightarrow>
          if c = CHR ''0'' then Some (sg @ [c], cs)
          else if is_digit c then Some (sg @ takeWhile is_digit t, dropWhile is_digit t) else None)"

definition scan_frac :: "bytes \<Rightarrow> (bytes \<times> bytes) option" where
  "scan_frac s =
     (case s of
        [] \<Rightarrow> Some ([], [])
      | c # cs \<Rightarrow>
          if c \<noteq> CHR ''.'' then Some ([], s)
          else if takeWhile is_digit cs = [] then None
          else Some (c # takeWhile is_digit cs, dropWhile is_digit cs))"

definition scan_exp :: "bytes \<Rightarrow> (bytes \<times> bytes) option" where
  "scan_exp s =
     (case s of
        [] \<Rightarrow> Some ([], [])
      | c # cs \<Rightarrow>
          if c \<noteq> CHR ''e'' \<and> c \<noteq> CHR ''E'' then Some ([], s)
          else let (sg, t) = (case cs of
                   d # ds \<Rightarrow> (if d = CHR ''+'' \<or> d = CHR ''-'' then ([d], ds) else ([], cs)) | [] \<Rightarrow> ([], [])) in
            if takeWhile is_digit t = [] then None
            else Some (c # sg @ takeWhile is_digit t, dropWhile is_digit t))"

definition scan_number :: "bytes \<Rightarrow> (bytes \<times> bytes) option" where
  "scan_number s =
     (case scan_int s of
        None \<Rightarrow> None
      | Some (a, s1) \<Rightarrow>
          (case scan_frac s1 of
             None \<Rightarrow> None
           | Some (b, s2) \<Rightarrow>
               (case scan_exp s2 of None \<Rightarrow> None | Some (c, s3) \<Rightarrow> Some (a @ b @ c, s3))))"

definition is_json_space :: "char \<Rightarrow> bool" where
  "is_json_space c \<longleftrightarrow> c = CHR '' '' \<or> c = CHR 0x09 \<or> c = CHR 0x0A \<or> c = CHR 0x0D"

definition skip_space :: "bytes \<Rightarrow> bytes" where
  "skip_space = dropWhile is_json_space"

definition parse_literal :: "bytes \<Rightarrow> (json \<times> bytes) option" where
  "parse_literal s =
     (if has_prefix s ''true'' then Some (JBool True, drop 4 s)
      else if has_prefix s ''false'' then Some (JBool False, drop 5 s)
      else if has_prefix s ''null'' then Some (JNull, drop 4 s) else None)"

text \<open>
  The first argument bounds the number of calls (twice the length of the text is enough, lemma
  \<open>parse_fuel_enough\<close>), the second is the nesting that is still allowed.
\<close>

fun parse_value :: "nat \<Rightarrow> nat \<Rightarrow> bytes \<Rightarrow> (json \<times> bytes) option"
  and parse_items :: "nat \<Rightarrow> nat \<Rightarrow> bytes \<Rightarrow> (json list \<times> bytes) option"
  and parse_members :: "nat \<Rightarrow> nat \<Rightarrow> bytes \<Rightarrow> ((string \<times> json) list \<times> bytes) option" where
  "parse_value 0 d s = None"
| "parse_value (Suc n) d s =
     (case skip_space s of
        [] \<Rightarrow> None
      | c # t \<Rightarrow>
          if c = CHR ''{''
          then (if d = 0 then None
                else case skip_space t of
                  [] \<Rightarrow> None
                | e # u \<Rightarrow> if e = CHR ''}'' then Some (JObj [], u)
                    else map_option (apfst JObj) (parse_members n (d - 1) t))
          else if c = CHR ''[''
          then (if d = 0 then None
                else case skip_space t of
                  [] \<Rightarrow> None
                | e # u \<Rightarrow> if e = CHR '']'' then Some (JArr [], u)
                    else map_option (apfst JArr) (parse_items n (d - 1) t))
          else if c = CHR 0x22 then map_option (apfst JStr) (parse_string t)
          else if c = CHR ''-'' \<or> is_digit c then map_option (apfst JNum) (scan_number (c # t))
          else parse_literal (c # t))"
| "parse_items 0 d s = None"
| "parse_items (Suc n) d s =
     (case parse_value n d s of
        None \<Rightarrow> None
      | Some (v, t) \<Rightarrow>
          (case skip_space t of
             [] \<Rightarrow> None
           | c # u \<Rightarrow>
               if c = CHR '','' then map_option (apfst (Cons v)) (parse_items n d u)
               else if c = CHR '']'' then Some ([v], u) else None))"
| "parse_members 0 d s = None"
| "parse_members (Suc n) d s =
     (case skip_space s of
        [] \<Rightarrow> None
      | q # s1 \<Rightarrow>
          if q \<noteq> CHR 0x22 then None
          else case parse_string s1 of
            None \<Rightarrow> None
          | Some (k, s2) \<Rightarrow>
              (case skip_space s2 of
                 [] \<Rightarrow> None
               | c # s3 \<Rightarrow>
                   if c \<noteq> CHR '':'' then None
                   else case parse_value n d s3 of
                     None \<Rightarrow> None
                   | Some (v, t) \<Rightarrow>
                       (case skip_space t of
                          [] \<Rightarrow> None
                        | e # u \<Rightarrow>
                            if e = CHR '','' then map_option (apfst (Cons (k, v))) (parse_members n d u)
                            else if e = CHR ''}'' then Some ([(k, v)], u) else None)))"

definition max_nesting :: nat where
  "max_nesting = 10000"

definition json_parse :: "bytes \<Rightarrow> (json \<times> bytes) option" where
  "json_parse s = parse_value (2 * length s) max_nesting s"

text \<open>\<open>json.Unmarshal\<close>: the whole text is one value.\<close>

definition json_unmarshal :: "bytes \<Rightarrow> json option" where
  "json_unmarshal s =
     (case json_parse s of
        Some (v, r) \<Rightarrow> (if skip_space r = [] then Some v else None)
      | None \<Rightarrow> None)"

text \<open>One call of \<open>Decoder.Decode\<close>: the first value of the stream and what follows, its end, or
  an error.\<close>

datatype stream_read = Read_EOF | Read_Error | Read_Value json bytes

definition json_read :: "bytes \<Rightarrow> stream_read" where
  "json_read s =
     (if skip_space s = [] then Read_EOF
      else case json_parse s of None \<Rightarrow> Read_Error | Some (v, r) \<Rightarrow> Read_Value v r)"

section \<open>The bound on the calls is enough\<close>

lemma skip_space_length: "length (skip_space s) \<le> length s"
  by (simp add: skip_space_def length_dropWhile_le)

lemma skip_space_Cons: "skip_space s = c # t \<Longrightarrow> length t < length s"
  using skip_space_length [of s] by simp

lemma parse_string_shrinks: "parse_string s = Some (x, r) \<Longrightarrow> length r < length s"
proof (induction s arbitrary: x r rule: parse_string.induct)
  case (1 s)
  show ?case
  proof (cases "string_step s")
    case (String_End r')
    then have "length r' < length s" by (auto simp: string_step_def Let_def escape_step_def split: list.splits if_splits option.splits prod.splits)
    then show ?thesis using "1.prems" String_End by (simp add: parse_string.simps [of s])
  next
    case (String_Part y r')
    then obtain z where z: "parse_string r' = Some z" "r = snd z"
      using "1.prems" by (auto simp: parse_string.simps [of s])
    then show ?thesis using "1.IH" [OF String_Part, of "fst z" "snd z"] string_step_shrinks [OF String_Part] by simp
  next
    case String_Bad
    then show ?thesis using "1.prems" by (simp add: parse_string.simps [of s])
  qed
qed

lemma dropWhile_length_Suc: "length (dropWhile P s) < Suc (length s)"
  using length_dropWhile_le [of P s] by simp

lemma scan_int_shrinks: "scan_int s = Some (x, r) \<Longrightarrow> length r < length s"
  using length_dropWhile_le [of is_digit]
  by (fastforce simp: scan_int_def Let_def less_Suc_eq_le le_Suc_eq split: list.splits if_splits prod.splits)

lemma scan_frac_shrinks: "scan_frac s = Some (x, r) \<Longrightarrow> length r \<le> length s"
  using length_dropWhile_le [of is_digit]
  by (fastforce simp: scan_frac_def le_Suc_eq split: list.splits if_splits)

lemma scan_exp_shrinks: "scan_exp s = Some (x, r) \<Longrightarrow> length r \<le> length s"
  using length_dropWhile_le [of is_digit]
  by (fastforce simp: scan_exp_def Let_def le_Suc_eq split: list.splits if_splits prod.splits)

lemma scan_number_shrinks: "scan_number s = Some (x, r) \<Longrightarrow> length r < length s"
  by (fastforce simp: scan_number_def split: option.splits prod.splits
      dest!: scan_int_shrinks scan_frac_shrinks scan_exp_shrinks)

lemma parse_literal_shrinks: "parse_literal s = Some (v, r) \<Longrightarrow> length r < length s"
  by (cases s) (auto simp: parse_literal_def has_prefix_def split: if_splits)

lemma parse_shrinks:
  "parse_value n d s = Some (v, r) \<Longrightarrow> length r < length s"
  "parse_items n d s = Some (vs, r) \<Longrightarrow> length r < length s"
  "parse_members n d s = Some (kvs, r) \<Longrightarrow> length r < length s"
proof (induction n d s and n d s and n d s arbitrary: v r and vs r and kvs r
    rule: parse_value_parse_items_parse_members.induct)
  case (2 n d s)
  then obtain c t where c: "skip_space s = c # t" by (auto split: list.splits)
  note t = skip_space_Cons [OF c]
  show ?case
  proof (cases "skip_space t")
    case Nil
    then show ?thesis using "2.prems" t c
      by (auto split: if_splits dest!: parse_string_shrinks scan_number_shrinks parse_literal_shrinks)
  next
    case e: (Cons e u)
    show ?thesis using "2.prems" t c e skip_space_Cons [OF e] "2.IH"(1) [OF c _ _ e] "2.IH"(2) [OF c _ _ _ e]
      by (fastforce split: if_splits dest!: parse_string_shrinks scan_number_shrinks parse_literal_shrinks)
  qed
next
  case (4 n d s)
  then show ?case
    by (fastforce split: list.splits if_splits option.splits dest!: skip_space_Cons)
next
  case (6 n d s)
  then show ?case
    by (fastforce split: list.splits if_splits option.splits dest!: skip_space_Cons parse_string_shrinks)
qed simp_all

lemma value_step:
  assumes "\<And>c t. skip_space s = c # t \<Longrightarrow>
      parse_members k (d - 1) t = parse_members n (d - 1) t \<and> parse_items k (d - 1) t = parse_items n (d - 1) t"
  shows "parse_value (Suc k) d s = parse_value (Suc n) d s"
proof (cases "skip_space s")
  case (Cons c t)
  then show ?thesis using assms [OF Cons] by (simp del: One_nat_def split: list.split)
qed simp

lemma items_step:
  assumes "parse_value k d s = parse_value n d s"
    and "\<And>v t c u. parse_value n d s = Some (v, t) \<Longrightarrow> skip_space t = c # u \<Longrightarrow> parse_items k d u = parse_items n d u"
  shows "parse_items (Suc k) d s = parse_items (Suc n) d s"
  using assms(2) by (auto simp: assms(1) split: option.split list.split)

lemma members_step:
  assumes "\<And>q s1 key s2 c s3. skip_space s = q # s1 \<Longrightarrow> parse_string s1 = Some (key, s2) \<Longrightarrow>
      skip_space s2 = c # s3 \<Longrightarrow> parse_value k d s3 = parse_value n d s3
        \<and> (\<forall>v t e u. parse_value n d s3 = Some (v, t) \<longrightarrow> skip_space t = e # u \<longrightarrow>
              parse_members k d u = parse_members n d u)"
  shows "parse_members (Suc k) d s = parse_members (Suc n) d s"
proof (cases "skip_space s")
  case q: (Cons q s1)
  show ?thesis
  proof (cases "parse_string s1")
    case (Some ks)
    then obtain key s2 where ks: "parse_string s1 = Some (key, s2)" by (cases ks) auto
    show ?thesis
    proof (cases "skip_space s2")
      case c: (Cons c s3)
      show ?thesis using assms [OF q ks c] by (simp add: q ks c split: option.split list.split)
    qed (simp add: q ks)
  qed (simp add: q)
qed simp

lemma parse_fuel:
  "2 * length s \<le> n \<Longrightarrow> n \<le> m \<Longrightarrow> parse_value m d s = parse_value n d s"
  "2 * length s < n \<Longrightarrow> n \<le> m \<Longrightarrow> parse_items m d s = parse_items n d s"
  "2 * length s < n \<Longrightarrow> n \<le> m \<Longrightarrow> parse_members m d s = parse_members n d s"
proof (induction n arbitrary: m d s)
  case 0
  {
    case 1
    then show ?case by (cases m) (simp_all add: skip_space_def)
  next
    case 2
    then show ?case by simp
  next
    case 3
    then show ?case by simp
  }
next
  case (Suc n)
  {
    case 1
    then obtain k where m: "m = Suc k" "n \<le> k" by (cases m) auto
    show ?case unfolding m(1)
    proof (rule value_step)
      fix c t assume "skip_space s = c # t"
      then have "2 * length t < n" using 1(1) skip_space_Cons by fastforce
      then show "parse_members k (d - 1) t = parse_members n (d - 1) t \<and> parse_items k (d - 1) t = parse_items n (d - 1) t"
        by (intro conjI Suc.IH(2,3) m(2))
    qed
  next
    case 2
    then obtain k where m: "m = Suc k" "n \<le> k" by (cases m) auto
    show ?case unfolding m(1)
    proof (rule items_step)
      show "parse_value k d s = parse_value n d s" by (rule Suc.IH(1)) (use 2(1) m(2) in simp_all)
      show "parse_items k d u = parse_items n d u" if "parse_value n d s = Some (v, t)" "skip_space t = c # u" for v t c u
        by (rule Suc.IH(2)) (use 2(1) m(2) parse_shrinks(1) [OF that(1)] skip_space_Cons [OF that(2)] in simp_all)
    qed
  next
    case 3
    then obtain k where m: "m = Suc k" "n \<le> k" by (cases m) auto
    show ?case unfolding m(1)
    proof (rule members_step)
      fix q s1 key s2 c s3
      assume h: "skip_space s = q # s1" "parse_string s1 = Some (key, s2)" "skip_space s2 = c # s3"
      have l: "length s3 < length s"
        using skip_space_Cons [OF h(1)] parse_string_shrinks [OF h(2)] skip_space_Cons [OF h(3)] by simp
      have "parse_members k d u = parse_members n d u"
        if "parse_value n d s3 = Some (v, t)" "skip_space t = e # u" for v t e u
        by (rule Suc.IH(3)) (use 3(1) m(2) l parse_shrinks(1) [OF that(1)] skip_space_Cons [OF that(2)] in simp_all)
      moreover have "parse_value k d s3 = parse_value n d s3" by (rule Suc.IH(1)) (use 3(1) m(2) l in simp_all)
      ultimately show "parse_value k d s3 = parse_value n d s3
        \<and> (\<forall>v t e u. parse_value n d s3 = Some (v, t) \<longrightarrow> skip_space t = e # u \<longrightarrow>
              parse_members k d u = parse_members n d u)" by blast
    qed
  }
qed

lemma parse_fuel_enough: "2 * length s \<le> n \<Longrightarrow> parse_value n max_nesting s = json_parse s"
  unfolding json_parse_def by (rule parse_fuel(1)) simp_all

lemma json_read_progress: "json_read s = Read_Value v r \<Longrightarrow> length r < length s"
  by (auto simp: json_read_def json_parse_def split: if_splits option.splits dest: parse_shrinks)

section \<open>Writing\<close>

definition hex_escape :: "nat \<Rightarrow> bytes" where
  "hex_escape n = [CHR 0x5C, CHR ''u'', CHR ''0'', CHR ''0'', hex_digit (n div 16), hex_digit (n mod 16)]"

definition escape_char :: "char \<Rightarrow> bytes" where
  "escape_char c =
     (if c = CHR 0x22 \<or> c = CHR 0x5C then [CHR 0x5C, c]
      else if c = CHR 0x08 then [CHR 0x5C, CHR ''b'']
      else if c = CHR 0x0C then [CHR 0x5C, CHR ''f'']
      else if c = CHR 0x0A then [CHR 0x5C, CHR ''n'']
      else if c = CHR 0x0D then [CHR 0x5C, CHR ''r'']
      else if c = CHR 0x09 then [CHR 0x5C, CHR ''t'']
      else if (of_char c :: nat) < 32 \<or> c = CHR ''<'' \<or> c = CHR ''>'' \<or> c = CHR ''&''
      then hex_escape (of_char c)
      else [c])"

text \<open>A character of more than one byte; U+2028 and U+2029 are escaped.\<close>

definition escape_wide :: "bytes \<Rightarrow> bytes" where
  "escape_wide x =
     (if x = encode_rune 8232 then CHR 0x5C # ''u2028''
      else if x = encode_rune 8233 then CHR 0x5C # ''u2029'' else x)"

fun string_body :: "bytes \<Rightarrow> bytes" where
  "string_body [] = []"
| "string_body (c # cs) =
     (if (of_char c :: nat) < 128 then escape_char c @ string_body cs
      else let w = utf8_width c cs in
        if w \<noteq> 0 \<and> w - 1 \<le> length cs \<and> list_all cont_byte (take (w - 1) cs)
        then escape_wide (c # take (w - 1) cs) @ string_body (drop (w - 1) cs)
        else CHR 0x5C # ''ufffd'' @ string_body cs)"

declare string_body.simps(2) [simp del]

definition string_text :: "bytes \<Rightarrow> bytes" where
  "string_text x = CHR 0x22 # string_body x @ [CHR 0x22]"

fun comma_join :: "bytes list \<Rightarrow> bytes" where
  "comma_join [] = []"
| "comma_join [x] = x"
| "comma_join (x # y # ys) = x @ CHR '','' # comma_join (y # ys)"

primrec json_text :: "json \<Rightarrow> bytes" where
  "json_text JNull = ''null''"
| "json_text (JBool b) = (if b then ''true'' else ''false'')"
| "json_text (JNum x) = x"
| "json_text (JStr x) = string_text x"
| "json_text (JArr vs) = CHR ''['' # comma_join (map json_text vs) @ '']''"
| "json_text (JObj kvs) =
     CHR ''{'' # comma_join (map (\<lambda>(k, x). string_text k @ CHR '':'' # x) (map (map_prod id json_text) kvs)) @ ''}''"

section \<open>What is written is read back: strings\<close>

lemma hex_val_digit [simp]: "n < 16 \<Longrightarrow> hex_val (hex_digit n) = Some n"
  by (auto simp: hex_val_def hex_digit_def Let_def)

lemma hex4_byte [simp]:
  assumes "n < 256"
  shows "hex4 (CHR ''0'' # CHR ''0'' # hex_digit (n div 16) # hex_digit (n mod 16) # s) = Some (n, s)"
proof -
  have "hex_val CHR ''0'' = Some 0" by (simp add: hex_val_def)
  moreover have "n div 16 < 16" using assms by (simp add: div_less_iff_less_mult)
  moreover have "n mod 16 < 16" by simp
  ultimately show ?thesis by (simp add: hex4_def)
qed

lemma string_step_escape: "string_step (CHR 0x5C # s) = escape_step s"
  by (simp add: string_step_def)

lemma step_hex_escape:
  assumes "(of_char c :: nat) < 128"
  shows "string_step (hex_escape (of_char c) @ s) = String_Part [c] s"
proof -
  have "\<not> is_surrogate (of_char c)" "encode_rune (of_char c) = [c]"
    using assms by (simp_all add: is_surrogate_def encode_rune_def)
  then show ?thesis using assms by (simp add: hex_escape_def string_step_escape escape_step_def)
qed

lemma step_escape_char:
  assumes "(of_char c :: nat) < 128" and "c \<noteq> CHR 0x00"
  shows "string_step (escape_char c @ s) = String_Part [c] s"
proof -
  let ?short = "c = CHR 0x22 \<or> c = CHR 0x5C \<or> c = CHR 0x08 \<or> c = CHR 0x0C \<or> c = CHR 0x0A \<or> c = CHR 0x0D \<or> c = CHR 0x09"
  let ?hex = "(of_char c :: nat) < 32 \<or> c = CHR ''<'' \<or> c = CHR ''>'' \<or> c = CHR ''&''"
  show ?thesis
  proof (cases ?short)
    case True
    then show ?thesis
      by (elim disjE) (simp_all add: escape_char_def string_step_escape escape_step_def simple_escape_def)
  next
    case short: False
    show ?thesis
    proof (cases ?hex)
      case True
      then have "escape_char c = hex_escape (of_char c)" using short unfolding escape_char_def by presburger
      then show ?thesis using step_hex_escape [OF assms(1)] by simp
    next
      case False
      then have "escape_char c = [c]" using short unfolding escape_char_def by presburger
      then show ?thesis using False short assms by (simp add: string_step_def utf8_width_def)
    qed
  qed
qed

lemma encode_separators:
  "encode_rune 8232 = [char_of (226 :: nat), char_of (128 :: nat), char_of (168 :: nat)]"
  "encode_rune 8233 = [char_of (226 :: nat), char_of (128 :: nat), char_of (169 :: nat)]"
  by (simp_all add: encode_rune_def is_surrogate_def)

lemma hex4_separators: "hex4 (''2028'' @ s) = Some (8232, s)" "hex4 (''2029'' @ s) = Some (8233, s)"
  by (simp_all add: hex4_def hex_val_def)

lemma step_escape_wide:
  assumes "\<not> (of_char c :: nat) < 128" and "w = utf8_width c cs" "w \<noteq> 0" "w - 1 \<le> length cs"
    and "list_all cont_byte (take (w - 1) cs)"
  shows "string_step (escape_wide (c # take (w - 1) cs) @ s) = String_Part (c # take (w - 1) cs) s"
proof -
  let ?x = "c # take (w - 1) cs"
  have w: "2 \<le> w" using assms(1-3) by (auto simp: utf8_width_def Let_def split: if_splits)
  then obtain d ds where cs: "cs = d # ds" using assms(4) by (cases cs) auto
  then have take: "take (w - 1) cs = d # take (w - 2) ds"
    using w by (simp add: take_Cons' numeral_2_eq_2)
  consider "?x = encode_rune 8232" | "?x = encode_rune 8233" | "escape_wide ?x = ?x"
    unfolding escape_wide_def by presburger
  then show ?thesis
  proof cases
    case 1
    then show ?thesis
      by (simp add: escape_wide_def string_step_escape escape_step_def hex4_separators [simplified] is_surrogate_def)
  next
    case 2
    moreover have "encode_rune 8232 \<noteq> encode_rune 8233" by (simp add: encode_separators)
    ultimately show ?thesis
      by (simp add: escape_wide_def string_step_escape escape_step_def hex4_separators [simplified] is_surrogate_def)
  next
    case 3
    have "utf8_width c (take (w - 1) cs @ s) = w" unfolding take by (simp add: assms(2) cs utf8_width_def)
    then show ?thesis using 3 assms w by (auto simp: string_step_def Let_def)
  qed
qed

lemma parse_string_body:
  "pg_text_ok x \<Longrightarrow> parse_string (string_body x @ CHR 0x22 # s) = Some (x, s)"
proof (induction x rule: pg_text_ok.induct)
  case 1
  then show ?case by (simp add: parse_string.simps string_step_def)
next
  case (2 c cs)
  define w where "w = utf8_width c cs"
  have ok: "w \<noteq> 0" "w - 1 \<le> length cs" "list_all cont_byte (take (w - 1) cs)" "pg_text_ok (drop (w - 1) cs)"
    using "2.prems" by (simp_all add: pg_text_ok.simps Let_def w_def)
  note IH = "2.IH" [OF w_def ok(4)]
  show ?case
  proof (cases "(of_char c :: nat) < 128")
    case True
    then have one: "w = 1" and nz: "c \<noteq> CHR 0x00" using ok(1) by (auto simp: w_def utf8_width_def Let_def split: if_splits)
    show ?thesis using step_escape_char [OF True nz] IH True one
      by (simp add: string_body.simps parse_string.simps [of "escape_char c @ _"])
  next
    case False
    show ?thesis using step_escape_wide [OF False w_def ok(1-3)] IH False ok
      by (simp add: string_body.simps Let_def w_def [symmetric] parse_string.simps [of "escape_wide _ @ _"])
  qed
qed

section \<open>What is written is read back: values\<close>

text \<open>A text that does not go on with a number.\<close>

definition stops :: "bytes \<Rightarrow> bool" where
  "stops r \<longleftrightarrow> (case r of [] \<Rightarrow> True | c # cs \<Rightarrow> \<not> is_digit c \<and> c \<noteq> CHR ''.'' \<and> c \<noteq> CHR ''e'' \<and> c \<noteq> CHR ''E'')"

lemma takeWhile_stops [simp]: "stops r \<Longrightarrow> takeWhile is_digit (x @ r) = takeWhile is_digit x"
  by (induction x) (auto simp: stops_def split: list.splits)

lemma dropWhile_stops [simp]: "stops r \<Longrightarrow> dropWhile is_digit (x @ r) = dropWhile is_digit x @ r"
  by (induction x) (auto simp: stops_def split: list.splits)

lemma stops_digits [simp]: "stops r \<Longrightarrow> takeWhile is_digit r = []" "stops r \<Longrightarrow> dropWhile is_digit r = r"
  by (cases r; simp add: stops_def)+

lemma scan_int_append:
  assumes "scan_int x = Some (a, b)" and "stops r"
  shows "scan_int (x @ r) = Some (a, b @ r)"
proof (cases x)
  case (Cons c cs)
  then show ?thesis using assms
    by (cases cs; cases "c = CHR ''-''") (auto simp: scan_int_def split: if_splits)
qed (use assms in \<open>simp add: scan_int_def\<close>)

lemma scan_frac_append:
  assumes "scan_frac x = Some (a, b)" and "stops r"
  shows "scan_frac (x @ r) = Some (a, b @ r)"
proof (cases x)
  case Nil
  then show ?thesis using assms by (cases r) (auto simp: scan_frac_def stops_def)
next
  case (Cons c cs)
  then show ?thesis using assms by (auto simp: scan_frac_def split: if_splits)
qed

lemma scan_exp_append:
  assumes "scan_exp x = Some (a, b)" and "stops r"
  shows "scan_exp (x @ r) = Some (a, b @ r)"
proof (cases x)
  case Nil
  then show ?thesis using assms by (cases r) (auto simp: scan_exp_def stops_def)
next
  case (Cons c cs)
  then show ?thesis using assms
    by (cases cs) (auto simp: scan_exp_def Let_def split: if_splits prod.splits)
qed

definition number_ok :: "string \<Rightarrow> bool" where
  "number_ok x \<longleftrightarrow> scan_number x = Some (x, [])"

lemma scan_number_append:
  assumes "number_ok x" and "stops r"
  shows "scan_number (x @ r) = Some (x, r)"
proof -
  from assms(1) obtain a b c s1 s2 where "scan_int x = Some (a, s1)" "scan_frac s1 = Some (b, s2)"
    "scan_exp s2 = Some (c, [])" "a @ b @ c = x"
    by (auto simp: number_ok_def scan_number_def split: option.splits prod.splits)
  then show ?thesis
    using scan_int_append [OF _ assms(2)] scan_frac_append [OF _ assms(2)] scan_exp_append [OF _ assms(2)]
    by (simp add: scan_number_def)
qed

lemma number_head:
  assumes "number_ok x"
  shows "\<exists>c cs. x = c # cs \<and> (c = CHR ''-'' \<or> is_digit c)"
  using assms
  by (cases x) (auto simp: number_ok_def scan_number_def scan_int_def is_digit_def split: option.splits prod.splits if_splits)

text \<open>Values that can be written: valid strings and numbers, and at most \<open>d\<close> levels deep.\<close>

primrec json_ok :: "json \<Rightarrow> nat \<Rightarrow> bool" where
  "json_ok JNull d \<longleftrightarrow> True"
| "json_ok (JBool b) d \<longleftrightarrow> True"
| "json_ok (JNum x) d \<longleftrightarrow> number_ok x"
| "json_ok (JStr x) d \<longleftrightarrow> pg_text_ok x"
| "json_ok (JArr vs) d \<longleftrightarrow> d \<noteq> 0 \<and> list_all (\<lambda>f. f (d - 1)) (map json_ok vs)"
| "json_ok (JObj kvs) d \<longleftrightarrow>
     d \<noteq> 0 \<and> list_all (\<lambda>(k, f). pg_text_ok k \<and> f (d - 1)) (map (map_prod id json_ok) kvs)"

lemma json_ok_JArr [simp]: "json_ok (JArr vs) d \<longleftrightarrow> d \<noteq> 0 \<and> list_all (\<lambda>v. json_ok v (d - 1)) vs"
  by (simp add: list_all_iff)

lemma json_ok_JObj [simp]:
  "json_ok (JObj kvs) d \<longleftrightarrow> d \<noteq> 0 \<and> list_all (\<lambda>kv. pg_text_ok (fst kv) \<and> json_ok (snd kv) (d - 1)) kvs"
  by (auto simp: list_all_iff split: prod.splits)

declare json_ok.simps(5,6) [simp del]

definition member_text :: "string \<times> json \<Rightarrow> bytes" where
  "member_text kv = string_text (fst kv) @ CHR '':'' # json_text (snd kv)"

lemma json_text_JObj [simp]:
  "json_text (JObj kvs) = CHR ''{'' # comma_join (map member_text kvs) @ ''}''"
  by (simp add: member_text_def [abs_def] split_def comp_def map_prod_def)

declare json_text.simps(6) [simp del]

lemma json_text_head:
  assumes "json_ok j d"
  shows "\<exists>c cs. json_text j = c # cs \<and> \<not> is_json_space c \<and> c \<noteq> CHR '']''"
  using assms number_head
  by (cases j) (auto simp: is_json_space_def string_text_def is_digit_def dest!: number_head)

lemma comma_join_Cons: "xs \<noteq> [] \<Longrightarrow> comma_join (x # xs) = x @ CHR '','' # comma_join xs"
  by (cases xs) simp_all

lemma skip_space_Cons_id [simp]: "\<not> is_json_space c \<Longrightarrow> skip_space (c # s) = c # s"
  by (simp add: skip_space_def)

lemma not_spaces [simp]:
  "\<not> is_json_space CHR '',''" "\<not> is_json_space CHR '']''" "\<not> is_json_space CHR ''}''"
  "\<not> is_json_space CHR '':''" "\<not> is_json_space CHR 0x22" "\<not> is_json_space CHR ''{''"
  "\<not> is_json_space CHR ''[''" "\<not> is_json_space CHR ''n''" "\<not> is_json_space CHR ''t''" "\<not> is_json_space CHR ''f''"
  by (simp_all add: is_json_space_def)

lemma stops_punctuation [simp]: "stops (CHR '','' # s)" "stops (CHR '']'' # s)" "stops (CHR ''}'' # s)"
  by (simp_all add: stops_def is_digit_def)

definition reads_back :: "json \<Rightarrow> nat \<Rightarrow> bool" where
  "reads_back j d \<longleftrightarrow>
     (\<forall>n r. stops r \<longrightarrow> 2 * length (json_text j) \<le> n \<longrightarrow> parse_value n d (json_text j @ r) = Some (j, r))"

lemma items_read_back:
  assumes "vs \<noteq> []" and "list_all (\<lambda>v. reads_back v d) vs"
    and "2 * length (comma_join (map json_text vs)) < n"
  shows "parse_items n d (comma_join (map json_text vs) @ CHR '']'' # r) = Some (vs, r)"
  using assms
proof (induction vs arbitrary: n rule: list_nonempty_induct)
  case (single v)
  then obtain k where "n = Suc k" by (cases n) auto
  then show ?case using single by (simp add: reads_back_def)
next
  case (cons v vs)
  then obtain k where n: "n = Suc k" by (cases n) auto
  have v: "parse_value k d (json_text v @ CHR '','' # comma_join (map json_text vs) @ CHR '']'' # r)
      = Some (v, CHR '','' # comma_join (map json_text vs) @ CHR '']'' # r)"
    using cons.prems cons.hyps n by (simp add: reads_back_def comma_join_Cons)
  show ?case using cons.prems cons.hyps cons.IH [of k] n by (simp add: v comma_join_Cons)
qed

lemma members_read_back:
  assumes "kvs \<noteq> []" and "list_all (\<lambda>kv. pg_text_ok (fst kv) \<and> reads_back (snd kv) d) kvs"
    and "2 * length (comma_join (map member_text kvs)) < n"
  shows "parse_members n d (comma_join (map member_text kvs) @ CHR ''}'' # r) = Some (kvs, r)"
  using assms
proof (induction kvs arbitrary: n rule: list_nonempty_induct)
  case (single kv)
  then obtain k where "n = Suc k" by (cases n) auto
  then show ?case using single
    by (simp add: reads_back_def member_text_def string_text_def parse_string_body)
next
  case (cons kv kvs)
  then obtain k where n: "n = Suc k" by (cases n) auto
  show ?case using cons.prems cons.hyps cons.IH [of k] n
    by (simp add: comma_join_Cons reads_back_def member_text_def string_text_def parse_string_body)
qed

lemma parse_literals:
  "0 < n \<Longrightarrow> parse_value n d (''null'' @ r) = Some (JNull, r)"
  "0 < n \<Longrightarrow> parse_value n d (''true'' @ r) = Some (JBool True, r)"
  "0 < n \<Longrightarrow> parse_value n d (''false'' @ r) = Some (JBool False, r)"
  by (cases n; simp add: parse_literal_def has_prefix_def is_digit_def)+

lemma json_reads_back: "json_ok j d \<Longrightarrow> reads_back j d"
proof (induction j arbitrary: d)
  case (JArr vs)
  show ?case
    unfolding reads_back_def
  proof (intro allI impI)
    fix n r
    assume n: "2 * length (json_text (JArr vs)) \<le> n"
    then obtain k where k: "n = Suc k" "2 * length (comma_join (map json_text vs)) < k" by (cases n) auto
    show "parse_value n d (json_text (JArr vs) @ r) = Some (JArr vs, r)"
    proof (cases vs)
      case Nil
      then show ?thesis using JArr.prems by (simp add: k)
    next
      case (Cons v ws)
      have ok: "json_ok v (d - 1)" "d \<noteq> 0" using JArr.prems Cons by simp_all
      obtain c cs where c: "comma_join (map json_text vs) = c # cs" "\<not> is_json_space c" "c \<noteq> CHR '']''"
        using json_text_head [OF ok(1)] Cons by (cases ws) auto
      have "list_all (\<lambda>v. reads_back v (d - 1)) vs" using JArr by (auto simp: list_all_iff)
      from items_read_back [OF _ this k(2), of r] show ?thesis using Cons c ok(2) by (simp add: k(1))
    qed
  qed
next
  case (JObj kvs)
  show ?case
    unfolding reads_back_def
  proof (intro allI impI)
    fix n r
    assume n: "2 * length (json_text (JObj kvs)) \<le> n"
    then obtain k where k: "n = Suc k" "2 * length (comma_join (map member_text kvs)) < k" by (cases n) auto
    show "parse_value n d (json_text (JObj kvs) @ r) = Some (JObj kvs, r)"
    proof (cases kvs)
      case Nil
      then show ?thesis using JObj.prems by (simp add: k)
    next
      case (Cons kv ws)
      obtain cs where c: "comma_join (map member_text kvs) = CHR 0x22 # cs"
        using Cons by (cases ws) (simp_all add: member_text_def string_text_def)
      have "list_all (\<lambda>kv. pg_text_ok (fst kv) \<and> reads_back (snd kv) (d - 1)) kvs"
        using JObj by (fastforce simp: list_all_iff)
      from members_read_back [OF _ this k(2), of r] show ?thesis using Cons c JObj.prems by (simp add: k(1))
    qed
  qed
next
  case (JNum x)
  then obtain c cs where c: "x = c # cs" "c = CHR ''-'' \<or> is_digit c" using number_head [of x] by auto
  then have "\<not> is_json_space c" "c \<noteq> CHR ''{''" "c \<noteq> CHR ''[''" "c \<noteq> CHR 0x22"
    by (auto simp: is_json_space_def is_digit_def)
  moreover have "scan_number (c # cs @ r) = Some (x, r)" if "stops r" for r
    using scan_number_append [of x, OF _ that] JNum c(1) by simp
  ultimately show ?case using c by (auto simp: reads_back_def dest!: Suc_le_D)
qed (auto simp: reads_back_def string_text_def parse_string_body parse_literals [simplified] dest!: Suc_le_D)

lemma json_parse_text: "json_ok j max_nesting \<Longrightarrow> stops r \<Longrightarrow> json_parse (json_text j @ r) = Some (j, r)"
  using json_reads_back [of j max_nesting] by (simp add: json_parse_def reads_back_def)

lemma json_unmarshal_text: "json_ok j max_nesting \<Longrightarrow> json_unmarshal (json_text j) = Some j"
  using json_parse_text [of j "[]"] by (simp add: json_unmarshal_def stops_def skip_space_def)

lemma json_read_text:
  assumes "json_ok j max_nesting" and "stops r"
  shows "json_read (json_text j @ r) = Read_Value j r"
proof -
  obtain c cs where "json_text j = c # cs" "\<not> is_json_space c" using json_text_head [OF assms(1)] by blast
  then have "skip_space (json_text j @ r) \<noteq> []" by simp
  then show ?thesis using json_parse_text [OF assms] by (simp add: json_read_def)
qed

lemma json_read_end: "json_read [] = Read_EOF"
  by (simp add: json_read_def skip_space_def)

text \<open>ASCII texts are valid, and decimal integers are numbers.\<close>

definition ascii :: "string \<Rightarrow> bool" where
  "ascii s \<longleftrightarrow> list_all (\<lambda>c. 0 < (of_char c :: nat) \<and> (of_char c :: nat) < 128) s"

lemma ascii_simps [simp]:
  "ascii []" "ascii (c # s) \<longleftrightarrow> 0 < (of_char c :: nat) \<and> (of_char c :: nat) < 128 \<and> ascii s"
  "ascii (s @ t) \<longleftrightarrow> ascii s \<and> ascii t"
  by (simp_all add: ascii_def)

lemma pg_text_ok_ascii: "ascii s \<Longrightarrow> pg_text_ok s"
  by (induction s) (simp_all add: pg_text_ok.simps utf8_width_def Let_def)

lemma ascii_digits: "list_all is_digit s \<Longrightarrow> ascii s"
  by (induction s) (simp_all add: is_digit_def)

lemma pg_text_ok_int [simp]: "pg_text_ok (format_int n)"
  using ascii_digits [OF show_nat_digits] by (intro pg_text_ok_ascii) (simp add: format_int_def)

lemma show_nat_no_zero: "n \<noteq> 0 \<Longrightarrow> hd (show_nat n) \<noteq> CHR ''0''"
proof (induction n rule: show_nat.induct)
  case (1 n)
  show ?case
  proof (cases "n < 10")
    case True
    then have "digit n \<noteq> CHR ''0''" using 1 by (auto simp: digit_def char_of_eq_iff take_bit_eq_mod)
    then show ?thesis using True by (subst show_nat.simps) simp
  next
    case False
    then have "n div 10 \<noteq> 0" by simp
    then show ?thesis using 1 False by (subst show_nat.simps) simp
  qed
qed

lemma scan_digits:
  assumes "list_all is_digit s" and "s \<noteq> []" "hd s = CHR ''0'' \<Longrightarrow> s = ''0''"
  shows "scan_int s = Some (s, [])" and "scan_int (CHR ''-'' # s) = Some (CHR ''-'' # s, [])"
proof -
  obtain c cs where s: "s = c # cs" using assms(2) by (cases s) auto
  have "takeWhile is_digit s = s" "dropWhile is_digit s = []"
    using assms(1) by (simp_all add: takeWhile_eq_all_conv dropWhile_eq_Nil_conv list_all_iff)
  moreover have "c \<noteq> CHR ''-''" "is_digit c" using assms(1) s by auto
  ultimately show "scan_int s = Some (s, [])" and "scan_int (CHR ''-'' # s) = Some (CHR ''-'' # s, [])"
    using assms(3) s by (auto simp: scan_int_def)
qed

lemma number_ok_int [simp]: "number_ok (format_int n)"
proof -
  have zero: "hd (show_nat k) = CHR ''0'' \<Longrightarrow> show_nat k = ''0''" for k
    using show_nat_no_zero [of k] by (cases "k = 0") (simp_all add: show_nat.simps [of 0] digit_def)
  note scan = scan_digits [OF show_nat_digits show_nat_nonempty zero]
  show ?thesis
    by (simp add: number_ok_def scan_number_def format_int_def scan_frac_def scan_exp_def scan)
qed

end
