(* ===== verification/Intake.thy ===== *)
theory Intake
  imports Projection EventSystem JsonText
begin

text \<open>
  How messages reach the delivery service: the consumer loop of
  delivery-service/internal/kafka (consumer.go, message.go), its two handlers
  (eventHandler.go, endpointHandler.go) and the client that fetches an event
  (eventClient/Client.go). The Kafka client, HTTP and the texts of UUIDs are parameters.
\<close>

section \<open>Messages\<close>

record message =
  mk_topic :: string
  mk_partition :: int
  mk_offset :: int
  mk_headers :: "(string \<times> bytes) list"
  mk_value :: bytes

text \<open>\<open>MessageID\<close>: the header of this name, or the position of the message.\<close>

definition message_id :: "message \<Rightarrow> string" where
  "message_id msg =
     (case List.find (\<lambda>h. same_key (fst h) ''message-id'') (mk_headers msg) of
        Some h \<Rightarrow> snd h
      | None \<Rightarrow> mk_topic msg @ '':'' @ format_int (mk_partition msg) @ '':'' @ format_int (mk_offset msg))"

section \<open>Decoding\<close>

text \<open>The functions of google/uuid that decoding uses. A \<open>json.RawMessage\<close> holds the text of its
  value in the form of \<open>json.Marshal\<close>: every text goes through Marshal or a JSONB column before it
  is used, so the spaces and escapes of the source are never seen.\<close>

record json_env =
  jn_parse_uuid :: "string \<Rightarrow> uuid option"
  jn_uuid_text :: "uuid \<Rightarrow> string"

definition zero_event_accepted :: event_accepted where
  "zero_event_accepted = \<lparr>ea_message_id = [], ea_event_id = uuid_nil, ea_tenant_id = uuid_nil,
     ea_event_type = [], ea_payload = []\<rparr>"

text \<open>The keys are those of the struct tags of \<open>delivery.EventAccepted\<close>.\<close>

definition event_accepted_key ::
    "json_env \<Rightarrow> string \<Rightarrow> json \<Rightarrow> event_accepted \<Rightarrow> event_accepted result" where
  "event_accepted_key jn k v e =
     (if same_key k ''message_id'' then set_string k (\<lambda>x. e\<lparr>ea_message_id := x\<rparr>) e v
      else if same_key k ''event_id'' then set_text (jn_parse_uuid jn) k (\<lambda>x. e\<lparr>ea_event_id := x\<rparr>) e v
      else if same_key k ''tenant_id'' then set_text (jn_parse_uuid jn) k (\<lambda>x. e\<lparr>ea_tenant_id := x\<rparr>) e v
      else if same_key k ''event_type'' then set_string k (\<lambda>x. e\<lparr>ea_event_type := x\<rparr>) e v
      else if same_key k ''payload'' then Inr (e\<lparr>ea_payload := json_text v\<rparr>)
      else Inr e)"

definition decode_envelope ::
    "(string \<Rightarrow> json \<Rightarrow> 's \<Rightarrow> 's result) \<Rightarrow> 's \<Rightarrow> message \<Rightarrow> 's result" where
  "decode_envelope step zero msg =
     (case json_unmarshal (mk_value msg) of
        None \<Rightarrow> Inl (wrap ''decode Kafka message: '' (Msg ''invalid JSON''))
      | Some j \<Rightarrow>
          (case decode_struct step j zero of
             Inl e \<Rightarrow> Inl (wrap ''decode Kafka message: '' e)
           | Inr s \<Rightarrow> Inr s))"

section \<open>The event client\<close>

record client_event =
  ce_id :: uuid
  ce_tenant_id :: uuid
  ce_type :: string
  ce_data :: bytes

definition client_event_key ::
    "json_env \<Rightarrow> string \<Rightarrow> json \<Rightarrow> client_event \<Rightarrow> client_event result" where
  "client_event_key jn k v e =
     (if same_key k ''id'' then set_text (jn_parse_uuid jn) k (\<lambda>x. e\<lparr>ce_id := x\<rparr>) e v
      else if same_key k ''tenant_id'' then set_text (jn_parse_uuid jn) k (\<lambda>x. e\<lparr>ce_tenant_id := x\<rparr>) e v
      else if same_key k ''type'' then set_string k (\<lambda>x. e\<lparr>ce_type := x\<rparr>) e v
      else if same_key k ''data'' then Inr (e\<lparr>ce_data := json_text v\<rparr>)
      else Inr e)"

text \<open>The HTTP exchange: the URL and the \<open>X-Tenant-ID\<close> header, to a status and a body.\<close>

record client_env =
  cl_base_url :: string
  cl_request_error :: "string \<Rightarrow> error option"
  cl_do :: "string \<Rightarrow> string \<Rightarrow> (int \<times> bytes) result"

definition client_get ::
    "json_env \<Rightarrow> client_env \<Rightarrow> uuid \<Rightarrow> uuid \<Rightarrow> client_event result" where
  "client_get jn cl tenant event =
     (let url = cl_base_url cl @ ''/v1/events/'' @ jn_uuid_text jn event in
      guard (cl_request_error cl url)
        (case cl_do cl url (jn_uuid_text jn tenant) of
           Inl e \<Rightarrow> Inl (wrap ''event service request: '' e)
         | Inr (status, body) \<Rightarrow>
             (if status \<noteq> 200 then Inl (Msg (''event service returned '' @ format_int status))
              else case json_read body of
                Read_EOF \<Rightarrow> Inl (Msg ''EOF'')
              | Read_Error \<Rightarrow> Inl (Msg ''invalid JSON'')
              | Read_Value j rest \<Rightarrow> decode_struct (client_event_key jn) j
                    \<lparr>ce_id = uuid_nil, ce_tenant_id = uuid_nil, ce_type = [], ce_data = []\<rparr>)))"

section \<open>The handlers\<close>

definition handle_event_message ::
    "json_env \<Rightarrow> client_env \<Rightarrow> (event_accepted \<Rightarrow> delivery_db \<Rightarrow> unit result \<times> delivery_db)
       \<Rightarrow> message \<Rightarrow> delivery_db \<Rightarrow> unit result \<times> delivery_db" where
  "handle_event_message jn cl accept msg db =
     (case decode_envelope (event_accepted_key jn) zero_event_accepted msg of
        Inl e \<Rightarrow> (Inl e, db)
      | Inr e \<Rightarrow>
          (let e = (if ea_message_id e = [] then e\<lparr>ea_message_id := format_int (mk_offset msg)\<rparr> else e) in
           if ea_payload e = []
           then (case client_get jn cl (ea_tenant_id e) (ea_event_id e) of
                   Inl err \<Rightarrow> (Inl err, db)
                 | Inr fetched \<Rightarrow>
                     accept (e\<lparr>ea_payload := ce_data fetched, ea_event_type := ce_type fetched\<rparr>) db)
           else accept e db))"

text \<open>The endpoint message is decoded by \<open>decode\<close>, and copied field by field.\<close>

definition handle_endpoint_message ::
    "(message \<Rightarrow> endpoint_changed result) \<Rightarrow> upsert_call faults \<Rightarrow> message \<Rightarrow> projection_db
       \<Rightarrow> unit result \<times> projection_db" where
  "handle_endpoint_message decode f msg db =
     (case decode msg of
        Inl e \<Rightarrow> (Inl e, db)
      | Inr e \<Rightarrow> upsert f
          \<lparr>ec_message_id = ec_message_id e, ec_tenant_id = ec_tenant_id e,
           ec_endpoint_id = ec_endpoint_id e, ec_name = ec_name e, ec_url = ec_url e,
           ec_secret = ec_secret e, ec_status = ec_status e,
           ec_connect_timeout_ms = ec_connect_timeout_ms e,
           ec_request_timeout_ms = ec_request_timeout_ms e, ec_retry_policy = ec_retry_policy e,
           ec_version = ec_version e, ec_updated_at = ec_updated_at e,
           ec_event_types = ec_event_types e\<rparr> db)"

section \<open>The consumer\<close>

text \<open>
  What \<open>FetchMessage\<close> gives: a message, with the environment in which it is handled, or an
  error, with whether the context has been cancelled. A run over the fetches so far ends
  waiting for the next one, stopped, or with an error; it lists the committed messages.
\<close>

datatype 'w fetch = Fetched 'w message | Fetch_Failed error bool

datatype run_end = Waiting | Stopped | Run_Failed error

fun consume ::
    "('w \<Rightarrow> message \<Rightarrow> 's \<Rightarrow> unit result \<times> 's) \<Rightarrow> (message \<Rightarrow> error option) \<Rightarrow> 'w fetch list \<Rightarrow> 's
       \<Rightarrow> run_end \<times> message list \<times> 's" where
  "consume h commit [] s = (Waiting, [], s)"
| "consume h commit (Fetch_Failed e cancelled # fs) s =
     ((if cancelled then Stopped else Run_Failed (wrap ''fetch Kafka message: '' e)), [], s)"
| "consume h commit (Fetched w msg # fs) s =
     (case h w msg s of
        (Inl e, s') \<Rightarrow> consume h commit fs s'
      | (Inr _, s') \<Rightarrow>
          (case commit msg of
             Some e \<Rightarrow> (Run_Failed (wrap ''commit Kafka message: '' e), [], s')
           | None \<Rightarrow> (let (end, ms, s'') = consume h commit fs s' in (end, msg # ms, s''))))"

text \<open>What the goroutine of a consumer logs when \<open>Run\<close> has returned; it is not started again.\<close>

definition run_consumer :: "bool \<Rightarrow> run_end \<Rightarrow> error option" where
  "run_consumer cancelled end =
     (case end of Run_Failed e \<Rightarrow> (if cancelled then None else Some e) | _ \<Rightarrow> None)"

text \<open>One failing fetch or commit ends the consumer: nothing that arrives later is handled.\<close>

lemma consume_ended:
  "consume h commit fs s = (Run_Failed e, ms, s') \<Longrightarrow> consume h commit (fs @ gs) s = (Run_Failed e, ms, s')"
proof (induction h commit fs s arbitrary: ms rule: consume.induct)
  case (3 h commit w msg fs s)
  then show ?case by (auto split: prod.splits sum.splits option.splits)
qed auto

lemma consumer_not_restarted:
  assumes "run_consumer False (fst (consume h commit fs s)) = Some e"
  shows "consume h commit (fs @ gs) s = consume h commit fs s"
  using assms consume_ended [of h commit fs s]
  by (cases "consume h commit fs s") (auto simp: run_consumer_def split: run_end.splits)

section \<open>Properties\<close>

text \<open>Handling an event message in an environment: the HTTP exchange, the failing calls, the
  time, the generated identifiers and the endpoints read.\<close>

type_synonym intake_env =
  "client_env \<times> create_call faults \<times> time \<times> (nat \<Rightarrow> uuid)
     \<times> (uuid \<Rightarrow> string \<Rightarrow> endpoint_snapshot_with_id list result)"

fun event_handler ::
    "json_env \<Rightarrow> event_endpoint_index \<Rightarrow> intake_env \<Rightarrow> message \<Rightarrow> delivery_db
       \<Rightarrow> unit result \<times> delivery_db" where
  "event_handler jn ix (cl, f, now, gen, reader) msg db =
     handle_event_message jn cl (handle_event_accepted f ix now gen reader) msg db"

lemma handle_event_accepted_atomic:
  "handle_event_accepted f ix now gen reader e db = (Inl err, db') \<Longrightarrow> db' = db"
  by (auto simp: handle_event_accepted_def create_deliveries_def
      split: if_splits sum.splits dest: run_tx_atomic)

lemma event_handler_atomic: "event_handler jn ix w msg db = (Inl err, db') \<Longrightarrow> db' = db"
  by (cases w)
    (auto simp: handle_event_message_def Let_def split: if_splits sum.splits
      dest: handle_event_accepted_atomic)

text \<open>
  An event message whose handling fails, for whatever reason and however briefly, is
  dropped: the run of the consumer goes on as if the message had not been in the topic, and
  the next message of the partition that is handled commits an offset beyond it.
\<close>

lemma failed_message_is_dropped:
  assumes "event_handler jn ix w msg db = (Inl e, db')"
    and "event_handler jn ix w' msg' db = (Inr (), db2)" and "commit msg' = None"
    and "mk_partition msg' = mk_partition msg" and "mk_offset msg < mk_offset msg'"
  shows "consume (event_handler jn ix) commit (Fetched w msg # fs) db
           = consume (event_handler jn ix) commit fs db
    \<and> (\<exists>end ms db3.
          consume (event_handler jn ix) commit (Fetched w msg # Fetched w' msg' # fs) db
            = (end, msg' # ms, db3) \<and> mk_offset msg < mk_offset msg')"
  using event_handler_atomic [OF assms(1)] assms by (auto split: prod.split)

definition example_json :: json_env where
  "example_json = \<lparr>jn_parse_uuid = (\<lambda>t. if t = ''5'' then Some 5 else Some 3), jn_uuid_text = (\<lambda>i. format_int (uint i))\<rparr>"

definition example_accepted_json :: json where
  "example_accepted_json = JObj [(''message_id'', JStr ''m''), (''event_id'', JStr ''5''), (''tenant_id'', JStr ''3''),
     (''event_type'', JStr ''order.created''), (''payload'', JObj [])]"

definition example_client :: client_env where
  "example_client = \<lparr>cl_base_url = [], cl_request_error = (\<lambda>_. None), cl_do = (\<lambda>_ _. Inl (Msg []))\<rparr>"

definition example_message :: "json \<Rightarrow> int \<Rightarrow> message" where
  "example_message v n = \<lparr>mk_topic = ''t'', mk_partition = 0, mk_offset = n, mk_headers = [], mk_value = json_text v\<rparr>"

lemma example_decoded:
  "handle_event_message example_json cl accept (example_message example_accepted_json n) db
     = accept example_event db"
proof -
  have "json_ok example_accepted_json max_nesting"
    by (simp add: example_accepted_json_def max_nesting_def pg_text_ok_ascii)
  from json_unmarshal_text [OF this] show ?thesis
    by (simp add: handle_event_message_def decode_envelope_def example_json_def example_message_def)
      (simp add: example_accepted_json_def event_accepted_key_def same_key_def field_upper zero_event_accepted_def example_event_def
        del: fold_name.simps)
qed

definition down :: "create_call faults" where
  "down = (\<lambda>c. if c = CD_Begin then Some (Msg ''connection refused'') else None)"

lemma failed_message_is_dropped_example:
  "\<exists>end ms db3. consume (event_handler example_json Total_Index) (\<lambda>_. None)
      [Fetched (example_client, down, 1000, \<lambda>i. 11 + of_nat i, \<lambda>_ _. Inr [example_endpoint]) (example_message example_accepted_json 1),
       Fetched (example_client, no_faults, 1000, \<lambda>i. 11 + of_nat i, \<lambda>_ _. Inr []) (example_message example_accepted_json 2)]
      empty_delivery_db = (end, example_message example_accepted_json 2 # ms, db3)"
proof -
  let ?w = "(example_client, down, 1000, \<lambda>i. 11 + of_nat i, \<lambda>_ _. Inr [example_endpoint])"
  let ?w' = "(example_client, no_faults, 1000, \<lambda>i. 11 + of_nat i, \<lambda>_ _. Inr [])"
  have 1: "event_handler example_json Total_Index ?w (example_message example_accepted_json 1)
      empty_delivery_db = (Inl (wrap ''begin: '' (Msg ''connection refused'')), empty_delivery_db)"
    by (simp add: example_decoded handle_event_accepted_def create_deliveries_def run_tx_def down_def
        example_event_def)
  have 2: "event_handler example_json Total_Index ?w' (example_message example_accepted_json 2)
      empty_delivery_db = (Inr (), empty_delivery_db)"
    by (simp add: example_decoded handle_event_accepted_def example_event_def)
  from failed_message_is_dropped [OF 1 2, of "\<lambda>_. None" "[]"] show ?thesis
    by (auto simp: example_message_def)
qed

text \<open>The payloads of the outbox are JSON objects.\<close>

lemma row_outcome_payload [simp]: "ob_payload (row_outcome kafka now r) = ob_payload r"
  by (simp add: row_outcome_def failed_row_def published_row_def split: option.split)

lemma outbox_objects: "ereach ut s \<Longrightarrow> r \<in> set (evs_outbox (esy_db s)) \<Longrightarrow> \<exists>kvs. ob_payload r = JObj kvs"
proof (induction arbitrary: r rule: ereach.induct)
  case init
  then show ?case by (simp add: init_esys_def empty_event_db_def)
next
  case (step s t)
  from step.hyps(2) show ?case
  proof cases
    case (request f env tenant req)
    then show ?thesis using step.IH [of r] step.prems create_event_outbox [of f env req tenant "esy_db s"]
      by (auto simp: publish_eq new_outbox_row_def outbox_payload_def split: if_splits)
  next
    case (batch f kafka locked now res ms db')
    have d: "distinct (map ob_id (evs_outbox (esy_db s)))"
      using ereach_inv [OF step.hyps(1)] by (simp add: esys_inv_def event_db_ok_def)
    show ?thesis
    proof (cases res)
      case (Inl e)
      then have "db' = esy_db s" using publish_batch_error batch(2) by blast
      then show ?thesis using step.IH step.prems batch(1) by simp
    next
      case (Inr u)
      then have "evs_outbox db' = map (\<lambda>r. if ob_id r \<in> ob_id ` set (batch_rows locked (esy_db s))
          then row_outcome kafka now r else r) (evs_outbox (esy_db s))"
        using publish_batch_result [of f kafka locked now ut "esy_db s" u ms db'] batch(2) d by simp
      then show ?thesis using step.IH step.prems batch(1) by auto
    qed
  qed
qed

text \<open>
  C22. No message that the event service writes to Kafka is ever accepted by the delivery
  service: the service wraps the outbox payload in an envelope whose keys carry neither the
  event nor the tenant at the top, so the handler sees nil identifiers and rejects it,
  whatever the rest of the environment does.
\<close>

theorem published_events_are_rejected:
  assumes "ereach ut s" and "m \<in> set (esy_sent s)" and "json_unmarshal (mk_value msg) = Some (km_value m)"
  shows "event_handler jn ix w msg db = (Inl (Msg ''invalid EventAccepted''), db)"
proof -
  have "sent_ok ut (evs_outbox (esy_db s)) (esy_sent s)"
    using ereach_inv [OF assms(1)] by (simp add: esys_inv_def)
  then obtain r where m: "m = envelope ut r" "r \<in> set (evs_outbox (esy_db s))" using assms(2) by (auto simp: sent_ok_def)
  then obtain kvs where "ob_payload r = JObj kvs" using outbox_objects [OF assms(1)] by blast
  then have filled: "json_text (ob_payload r) \<noteq> []" by simp
  have "decode_envelope (event_accepted_key jn) zero_event_accepted msg
      = Inr (zero_event_accepted\<lparr>ea_event_type := ob_event_type r, ea_payload := json_text (ob_payload r)\<rparr>)"
    by (simp add: decode_envelope_def assms(3) m envelope_def event_accepted_key_def same_key_def field_upper
        del: fold_name.simps)
  then show ?thesis using filled
    by (cases w) (simp add: handle_event_message_def Let_def zero_event_accepted_def
        handle_event_accepted_def)
qed

lemma example_sent_text: "json_ok (km_value (hd (esy_sent example_sent))) max_nesting"
  by (simp add: example_sent_def example_event_db_def Let_def new_outbox_row_def envelope_def outbox_payload_def
      example_text_def example_event_env_def new_event_def example_publish_def max_nesting_def pg_text_ok_ascii)

theorem published_events_are_rejected_witness:
  "fst (event_handler example_json Total_Index (example_client, no_faults, 1000, \<lambda>i. 11 + of_nat i,
      \<lambda>_ _. Inr [example_endpoint]) (example_message (km_value (hd (esy_sent example_sent))) 1) empty_delivery_db)
     = Inl (Msg ''invalid EventAccepted'')"
proof -
  let ?m = "hd (esy_sent example_sent)"
  have "?m \<in> set (esy_sent example_sent)"
    by (simp add: example_sent_def example_event_db_def Let_def)
  moreover have "json_unmarshal (mk_value (example_message (km_value ?m) 1)) = Some (km_value ?m)"
    using json_unmarshal_text [OF example_sent_text] by (simp add: example_message_def)
  ultimately have "event_handler example_json Total_Index (example_client, no_faults, 1000, \<lambda>i. 11 + of_nat i,
      \<lambda>_ _. Inr [example_endpoint]) (example_message (km_value ?m) 1) empty_delivery_db
    = (Inl (Msg ''invalid EventAccepted''), empty_delivery_db)"
    by (rule published_events_are_rejected [OF example_sent_reach])
  then show ?thesis by simp
qed

end
