(* ===== verification/Base64.thy ===== *)
theory Base64
  imports GoStrings
begin

text \<open>
  \<open>base64.RawURLEncoding\<close> of the standard library, which the services use for the cursors of
  their lists: the URL alphabet without padding. The decoder skips carriage returns and line
  feeds, as Go's does, and does not look at the unused low bits of the last character. Then
  \<open>base64.StdEncoding\<close>, which encoding/json uses for byte slices.
\<close>

section \<open>The alphabet\<close>

definition b64_char :: "nat \<Rightarrow> char" where
  "b64_char i = char_of (if i < 26 then 65 + i else if i < 52 then 71 + i else if i < 62 then i - 4
     else if i = 62 then 45 else (95 :: nat))"

definition b64_value :: "char \<Rightarrow> nat option" where
  "b64_value c =
     (let n = of_char c in
      if 65 \<le> n \<and> n \<le> 90 then Some (n - 65) else if 97 \<le> n \<and> n \<le> 122 then Some (n - 71)
      else if 48 \<le> n \<and> n \<le> 57 then Some (n + 4) else if n = 45 then Some 62
      else if n = 95 then Some 63 else None)"

lemma of_char_b64: "i < 64 \<Longrightarrow> of_char (b64_char i) = (if i < 26 then 65 + i else if i < 52 then 71 + i
     else if i < 62 then i - 4 else if i = 62 then 45 else (95 :: nat))"
  by (simp add: b64_char_def)

lemma b64_value_char [simp]: "i < 64 \<Longrightarrow> b64_value (b64_char i) = Some i"
  by (auto simp: b64_value_def of_char_b64 Let_def)

lemma b64_char_no_break: "i < 64 \<Longrightarrow> of_char (b64_char i) \<noteq> (10 :: nat) \<and> of_char (b64_char i) \<noteq> (13 :: nat)"
  by (auto simp: of_char_b64)

section \<open>Encoding and decoding\<close>

fun b64_encode :: "bytes \<Rightarrow> string" where
  "b64_encode [] = []"
| "b64_encode [a] =
     (let n = of_char a * 16 in [b64_char (n div 64), b64_char (n mod 64)])"
| "b64_encode [a, b] =
     (let n = (of_char a * 256 + of_char b) * 4
      in [b64_char (n div 4096), b64_char (n div 64 mod 64), b64_char (n mod 64)])"
| "b64_encode (a # b # c # s) =
     (let n = of_char a * 65536 + of_char b * 256 + of_char c
      in b64_char (n div 262144) # b64_char (n div 4096 mod 64) # b64_char (n div 64 mod 64)
           # b64_char (n mod 64) # b64_encode s)"

fun b64_quads :: "nat list \<Rightarrow> bytes option" where
  "b64_quads [] = Some []"
| "b64_quads [x] = None"
| "b64_quads [x, y] = Some [char_of ((x * 64 + y) div 16)]"
| "b64_quads [x, y, z] =
     (let n = (x * 4096 + y * 64 + z) div 4 in Some [char_of (n div 256), char_of (n mod 256)])"
| "b64_quads (w # x # y # z # vs) =
     (let n = w * 262144 + x * 4096 + y * 64 + z in
      map_option (\<lambda>s. char_of (n div 65536) # char_of (n div 256 mod 256) # char_of (n mod 256) # s)
        (b64_quads vs))"

definition is_break :: "char \<Rightarrow> bool" where
  "is_break c \<longleftrightarrow> of_char c = (10 :: nat) \<or> of_char c = (13 :: nat)"

fun b64_values :: "string \<Rightarrow> nat list option" where
  "b64_values [] = Some []"
| "b64_values (c # s) =
     (if is_break c then b64_values s
      else case b64_value c of None \<Rightarrow> None | Some v \<Rightarrow> map_option (Cons v) (b64_values s))"

definition b64_decode :: "string \<Rightarrow> bytes option" where
  "b64_decode s = (case b64_values s of None \<Rightarrow> None | Some vs \<Rightarrow> b64_quads vs)"

section \<open>The round trip\<close>

fun b64_digits :: "bytes \<Rightarrow> nat list" where
  "b64_digits [] = []"
| "b64_digits [a] = (let n = of_char a * 16 in [n div 64, n mod 64])"
| "b64_digits [a, b] =
     (let n = (of_char a * 256 + of_char b) * 4 in [n div 4096, n div 64 mod 64, n mod 64])"
| "b64_digits (a # b # c # s) =
     (let n = of_char a * 65536 + of_char b * 256 + of_char c
      in n div 262144 # n div 4096 mod 64 # n div 64 mod 64 # n mod 64 # b64_digits s)"

lemma of_char_256: "(of_char c :: nat) < 256"
  by (metis of_char_mod_256 mod_less_divisor zero_less_numeral)

lemma b64_encode_digits: "b64_encode s = map b64_char (b64_digits s)"
  by (induction s rule: b64_encode.induct) (simp_all add: Let_def)

lemma div_less_64: "n < m * 64 \<Longrightarrow> n div m < (64 :: nat)"
  by (simp add: less_mult_imp_div_less mult.commute)

lemma b64_digits_less: "v \<in> set (b64_digits s) \<Longrightarrow> v < 64"
proof (induction s rule: b64_digits.induct)
  case (2 a)
  have "(of_char a * 16 :: nat) div 64 < 64" using of_char_256 [of a] by (intro div_less_64) simp
  with 2 show ?case by (auto simp: Let_def)
next
  case (3 a b)
  have "of_char a * 256 + of_char b < (65536 :: nat)"
    using of_char_256 [of a] of_char_256 [of b] by linarith
  then have "(of_char a * 256 + of_char b) * 4 < (4096 * 64 :: nat)" by simp
  then have "((of_char a * 256 + of_char b) * 4 :: nat) div 4096 < 64" by (rule div_less_64)
  with 3 show ?case by (auto simp: Let_def)
next
  case (4 a b c s)
  have "(of_char a * 65536 + of_char b * 256 + of_char c :: nat) div 262144 < 64"
    using of_char_256 [of a] of_char_256 [of b] of_char_256 [of c] by (intro div_less_64) linarith
  with 4 show ?case by (auto simp: Let_def)
qed simp

lemma b64_values_chars: "\<forall>v\<in>set vs. v < 64 \<Longrightarrow> b64_values (map b64_char vs) = Some vs"
  by (induction vs) (auto simp: is_break_def b64_char_no_break)

text \<open>Digits to the base 64 or 256 put back together.\<close>

lemma join_2: "n div 4096 * 4096 + n div 64 mod 64 * 64 + n mod 64 = (n :: nat)"
proof -
  have "n div 4096 = n div 64 div 64" using div_mult2_eq [of n 64 64] by simp
  then have "n div 4096 * 64 + n div 64 mod 64 = n div 64" using div_mult_mod_eq [of "n div 64" 64] by simp
  moreover have "n div 64 * 64 + n mod 64 = n" by (rule div_mult_mod_eq)
  ultimately show ?thesis by linarith
qed

lemma join_3:
  "n div 262144 * 262144 + n div 4096 mod 64 * 4096 + n div 64 mod 64 * 64 + n mod 64 = (n :: nat)"
proof -
  have "n div 262144 = n div 4096 div 64" using div_mult2_eq [of n 4096 64] by simp
  then have "n div 262144 * 64 + n div 4096 mod 64 = n div 4096"
    using div_mult_mod_eq [of "n div 4096" 64] by simp
  then show ?thesis using join_2 [of n] by linarith
qed

lemma bytes_2:
  assumes "b < 256"
  shows "(a * 256 + b) div 256 = a" and "(a * 256 + b) mod 256 = (b :: nat)"
  using assms by (simp_all add: div_plus_div_distrib_dvd_left)

lemma bytes_3:
  assumes "b < 256" "c < 256"
  shows "(a * 65536 + b * 256 + c) div 65536 = a" and "(a * 65536 + b * 256 + c) div 256 mod 256 = b"
    and "(a * 65536 + b * 256 + c) mod 256 = (c :: nat)"
proof -
  have n: "a * 65536 + b * 256 + c = (a * 256 + b) * 256 + c" by simp
  show "(a * 65536 + b * 256 + c) div 256 mod 256 = b" and "(a * 65536 + b * 256 + c) mod 256 = c"
    unfolding n bytes_2 [OF assms(2)] bytes_2 [OF assms(1)] by simp_all
  have "(a * 65536 + b * 256 + c) div 65536 = (a * 65536 + b * 256 + c) div 256 div 256"
    using div_mult2_eq [of "a * 65536 + b * 256 + c" 256 256] by simp
  then show "(a * 65536 + b * 256 + c) div 65536 = a"
    unfolding n bytes_2 [OF assms(2)] bytes_2 [OF assms(1)] .
qed

lemma b64_quads_1:
  "(x * 64 + y) div 16 = of_char a \<Longrightarrow> b64_quads [x, y] = Some [a]"
  by simp

lemma b64_quads_2:
  assumes "x * 4096 + y * 64 + z = (of_char a * 256 + of_char b) * 4"
  shows "b64_quads [x, y, z] = Some [a, b]"
proof -
  have "(x * 4096 + y * 64 + z) div 4 = of_char a * 256 + of_char b" using assms by simp
  then show ?thesis
    by (simp add: Let_def bytes_2 [OF of_char_256] del: char_of_mod_256)
qed

lemma b64_quads_3:
  assumes "w * 262144 + x * 4096 + y * 64 + z = of_char a * 65536 + of_char b * 256 + of_char c"
    and "b64_quads vs = Some s"
  shows "b64_quads (w # x # y # z # vs) = Some (a # b # c # s)"
  using assms(2) unfolding b64_quads.simps assms(1)
  by (simp add: Let_def bytes_3 [OF of_char_256 of_char_256] del: char_of_mod_256)

lemma b64_quads_digits: "b64_quads (b64_digits s) = Some s"
proof (induction s rule: b64_digits.induct)
  case (2 a)
  have "(of_char a * 16 div 64 * 64 + of_char a * 16 mod 64) div 16 = (of_char a :: nat)"
    unfolding div_mult_mod_eq by simp
  then show ?case by (simp only: b64_digits.simps Let_def b64_quads_1)
next
  case (3 a b)
  show ?case unfolding b64_digits.simps Let_def by (rule b64_quads_2) (rule join_2)
next
  case (4 a b c s)
  show ?case unfolding b64_digits.simps Let_def
    by (rule b64_quads_3 [OF join_3]) (rule 4; simp)
qed simp

lemma b64_decode_encode [simp]: "b64_decode (b64_encode s) = Some s"
proof -
  have "b64_values (b64_encode s) = Some (b64_digits s)"
    unfolding b64_encode_digits using b64_digits_less by (intro b64_values_chars) blast
  then show ?thesis by (simp add: b64_decode_def b64_quads_digits)
qed

lemma b64_encode_nonempty: "s \<noteq> [] \<Longrightarrow> b64_encode s \<noteq> []"
  by (cases s rule: b64_encode.cases) (simp_all add: Let_def)

section \<open>The standard encoding\<close>

definition std_char :: "nat \<Rightarrow> char" where
  "std_char i = (if i = 62 then CHR ''+'' else if i = 63 then CHR ''/'' else b64_char i)"

definition std_value :: "char \<Rightarrow> nat option" where
  "std_value c =
     (if c = CHR ''+'' then Some 62 else if c = CHR ''/'' then Some 63
      else if c = CHR ''-'' \<or> c = CHR ''_'' then None else b64_value c)"

fun std_values :: "string \<Rightarrow> nat list option" where
  "std_values [] = Some []"
| "std_values (c # s) =
     (case std_value c of None \<Rightarrow> None | Some v \<Rightarrow> map_option (Cons v) (std_values s))"

definition std_pad :: "nat \<Rightarrow> string" where
  "std_pad n = replicate ((3 - n mod 3) mod 3) CHR ''=''"

definition std_encode :: "bytes \<Rightarrow> string" where
  "std_encode s = map std_char (b64_digits s) @ std_pad (length s)"

text \<open>At most two padding characters at the end of a text whose length is a multiple of four.\<close>

definition std_pad_length :: "string \<Rightarrow> nat" where
  "std_pad_length t =
     (case rev t of
        c # d # u \<Rightarrow> if c \<noteq> CHR ''='' then 0 else if d = CHR ''='' then 2 else 1
      | _ \<Rightarrow> 0)"

definition std_decode :: "string \<Rightarrow> bytes option" where
  "std_decode s =
     (let t = filter (\<lambda>c. \<not> is_break c) s in
      if length t mod 4 \<noteq> 0 then None
      else case std_values (take (length t - std_pad_length t) t) of
        None \<Rightarrow> None | Some vs \<Rightarrow> b64_quads vs)"

lemma b64_char_code:
  assumes "i < 64"
  shows "(of_char (b64_char i) :: nat) \<noteq> 43" "(of_char (b64_char i) :: nat) \<noteq> 47" "(of_char (b64_char i) :: nat) \<noteq> 61"
    "(of_char (b64_char i) :: nat) = 45 \<Longrightarrow> i = 62" "(of_char (b64_char i) :: nat) = 95 \<Longrightarrow> i = 63"
  using assms by (auto simp: of_char_b64 split: if_splits)

lemma std_value_char [simp]:
  assumes "i < 64" shows "std_value (std_char i) = Some i"
proof -
  have "b64_char i \<noteq> CHR ''+''" "b64_char i \<noteq> CHR ''/''" "b64_char i = CHR ''-'' \<Longrightarrow> i = 62"
    "b64_char i = CHR ''_'' \<Longrightarrow> i = 63"
    using b64_char_code [OF assms] by auto
  then show ?thesis using assms by (auto simp: std_value_def std_char_def)
qed

lemma std_char_plain:
  assumes "i < 64" shows "\<not> is_break (std_char i)" and "std_char i \<noteq> CHR ''=''"
  using b64_char_no_break [OF assms] b64_char_code(3) [OF assms] by (auto simp: std_char_def is_break_def)

lemma std_values_chars: "\<forall>v\<in>set vs. v < 64 \<Longrightarrow> std_values (map std_char vs) = Some vs"
  by (induction vs) auto

lemma std_pad_cases:
  obtains "n mod 3 = 0" "std_pad n = []" | "n mod 3 = 1" "std_pad n = ''==''" | "n mod 3 = 2" "std_pad n = ''=''"
proof -
  have "n mod 3 = 0 \<or> n mod 3 = 1 \<or> n mod 3 = 2" by arith
  then show thesis using that by (elim disjE) (simp_all add: std_pad_def numeral_2_eq_2)
qed

lemma length_std_encode: "length (std_encode s) mod 4 = 0"
proof (induction s rule: b64_digits.induct)
  case (4 a b c s)
  have "Suc (Suc (Suc (length s))) mod 3 = length s mod 3" by presburger
  then have "length (std_encode (a # b # c # s)) = length (std_encode s) + 4"
    by (simp add: std_encode_def Let_def std_pad_def)
  then show ?case using 4 by simp
qed (simp_all add: std_encode_def Let_def std_pad_def)

lemma std_pad_length_digits:
  assumes "\<forall>v\<in>set vs. v < 64" and "vs = [] \<Longrightarrow> n = 0"
  shows "std_pad_length (map std_char vs @ std_pad n) = length (std_pad n)"
proof (cases vs rule: rev_cases)
  case Nil
  then show ?thesis using assms(2) by (simp add: std_pad_length_def std_pad_def)
next
  case (snoc us v)
  have "std_char v \<noteq> CHR ''=''" using assms(1) snoc std_char_plain(2) by simp
  then show ?thesis unfolding snoc
    by (cases n rule: std_pad_cases) (simp_all add: std_pad_length_def split: list.split)
qed

lemma std_decode_encode [simp]: "std_decode (std_encode s) = Some s"
proof -
  have d: "\<forall>v\<in>set (b64_digits s). v < 64" using b64_digits_less by blast
  have n: "b64_digits s = [] \<Longrightarrow> length s = 0" by (cases s rule: b64_digits.cases) (simp_all add: Let_def)
  have "filter (\<lambda>c. \<not> is_break c) (std_encode s) = std_encode s"
    using d std_char_plain(1) by (auto simp: std_encode_def std_pad_def is_break_def intro!: filter_True)
  moreover have "length (std_encode s) mod 4 = 0" by (rule length_std_encode)
  moreover have "take (length (std_encode s) - std_pad_length (std_encode s)) (std_encode s)
      = map std_char (b64_digits s)"
    using std_pad_length_digits [OF d n] by (simp add: std_encode_def)
  ultimately show ?thesis
    by (simp add: std_decode_def Let_def std_values_chars [OF d] b64_quads_digits)
qed

end
