(* ===== verification/GoTime.thy ===== *)
theory GoTime
  imports GoStrings "HOL-Library.Monad_Syntax"
begin

text \<open>
  \<open>time.Format\<close> and \<open>time.Parse\<close> of the standard library for the layout
  \<open>time.RFC3339Nano\<close> in UTC, which the services use for the cursors of their lists. A time is
  the number of nanoseconds since the first of January of the year 1. The parser is Go's
  general one: one digit hours, a comma for the decimal point, more than nine digits of a
  second and every zone offset are accepted as it accepts them.
\<close>

section \<open>The calendar\<close>

definition leap_year :: "int \<Rightarrow> bool" where
  "leap_year y \<longleftrightarrow> 4 dvd y \<and> (\<not> 100 dvd y \<or> 400 dvd y)"

definition days_before_year :: "int \<Rightarrow> int" where
  "days_before_year y = 365 * (y - 1) + (y - 1) div 4 - (y - 1) div 100 + (y - 1) div 400"

definition days_before_month :: "bool \<Rightarrow> nat \<Rightarrow> int" where
  "days_before_month leap m =
     [0, 0, 31, 59, 90, 120, 151, 181, 212, 243, 273, 304, 334, 365] ! m + (if leap \<and> 2 < m then 1 else 0)"

definition year_of_day :: "int \<Rightarrow> int" where
  "year_of_day d =
     (let y = d * 400 div 146097 + 1 in
      if d < days_before_year y then y - 1 else if days_before_year (y + 1) \<le> d then y + 1 else y)"

definition month_of_day :: "bool \<Rightarrow> int \<Rightarrow> nat" where
  "month_of_day leap yd = length (filter (\<lambda>m. days_before_month leap m \<le> yd) [1..<13])"

definition days_in :: "bool \<Rightarrow> nat \<Rightarrow> int" where
  "days_in leap m = days_before_month leap (m + 1) - days_before_month leap m"

lemma div_bounds: "0 < k \<Longrightarrow> k * (n div k) \<le> n \<and> n < k * (n div k) + (k :: int)"
  using mult_div_mod_eq [of k n] pos_mod_sign [of k n] pos_mod_bound [of k n] by linarith

lemma days_before_year_bounds:
  "146097 * y - 146897 \<le> 400 * days_before_year y" "400 * days_before_year y < 146097 * y - 145697"
  using div_bounds [of 4 "y - 1"] div_bounds [of 100 "y - 1"] div_bounds [of 400 "y - 1"]
  by (simp_all add: days_before_year_def algebra_simps)

lemma length_of_year: "days_before_year (y + 1) = days_before_year y + (if leap_year y then 366 else 365)"
proof -
  have "y div k = (y - 1) div k + (if k dvd y then 1 else 0)" if "0 < k" for k :: int
  proof (cases "k dvd y")
    case True
    then obtain q where q: "y = k * q" by (rule dvdE)
    have "(k * q - 1) div k = q - 1"
      using that by (intro int_div_pos_eq [of _ _ _ "k - 1"]) (simp_all add: algebra_simps)
    with True q that show ?thesis by simp
  next
    case False
    then have "0 < y mod k" using that by (simp add: dvd_eq_mod_eq_0 order_less_le)
    moreover have "y - 1 = k * (y div k) + (y mod k - 1)" by (simp add: algebra_simps)
    ultimately have "(y - 1) div k = y div k"
      using that pos_mod_bound [of k y] by (intro int_div_pos_eq [of _ _ _ "y mod k - 1"]) linarith+
    with False show ?thesis by simp
  qed
  from this [of 4] this [of 100] this [of 400] have
    "days_before_year (y + 1) = days_before_year y + 365 + (if 4 dvd y then 1 else 0)
       - (if 100 dvd y then 1 else 0) + (if 400 dvd y then 1 else 0)"
    unfolding days_before_year_def by simp
  moreover have "400 dvd y \<Longrightarrow> 100 dvd y" by (rule dvd_trans [of 100 400]) simp_all
  moreover have "100 dvd y \<Longrightarrow> 4 dvd y" by (rule dvd_trans [of 4 100]) simp_all
  ultimately show ?thesis unfolding leap_year_def by presburger
qed

lemma year_of_day:
  "days_before_year (year_of_day d) \<le> d \<and> d < days_before_year (year_of_day d + 1)"
proof -
  define q where "q = d * 400 div 146097"
  have q: "146097 * q \<le> d * 400" "d * 400 < 146097 * q + 146097"
    using div_bounds [of 146097 "d * 400"] by (simp_all add: q_def)
  note b = days_before_year_bounds
  have "days_before_year q \<le> d" using b(2) [of q] q by linarith
  moreover have "d < days_before_year (q + 3)" using b(1) [of "q + 3"] q by (simp add: algebra_simps)
  ultimately show ?thesis by (simp add: year_of_day_def Let_def q_def [symmetric] add.commute)
qed

lemma month_of_day:
  assumes "0 \<le> yd" and "yd < (if leap then 366 else 365)"
  defines "m \<equiv> month_of_day leap yd"
  shows "1 \<le> m" "m \<le> 12" "days_before_month leap m \<le> yd" "yd < days_before_month leap (m + 1)"
proof -
  have r: "[1..<13] = [1, 2, 3, 4, 5, 6, 7, 8, 9, 10, 11, 12 :: nat]" by (simp add: upt_rec)
  have "1 \<le> m \<and> m \<le> 12 \<and> days_before_month leap m \<le> yd \<and> yd < days_before_month leap (m + 1)"
    using assms(1,2) unfolding m_def month_of_day_def r days_before_month_def
    by (cases leap) (simp_all split: if_splits)
  then show "1 \<le> m" "m \<le> 12" "days_before_month leap m \<le> yd" "yd < days_before_month leap (m + 1)"
    by blast+
qed

section \<open>Formatting\<close>

fun pad_digits :: "nat \<Rightarrow> nat \<Rightarrow> string" where
  "pad_digits 0 n = []"
| "pad_digits (Suc k) n = pad_digits k (n div 10) @ [digit (n mod 10)]"

definition format_year :: "int \<Rightarrow> string" where
  "format_year y =
     (if y < 0 then ''-'' else []) @ (if \<bar>y\<bar> < 10000 then pad_digits 4 (nat \<bar>y\<bar>) else show_nat (nat \<bar>y\<bar>))"

definition format_fraction :: "nat \<Rightarrow> string" where
  "format_fraction ns =
     (if ns = 0 then [] else CHR ''.'' # rev (dropWhile (\<lambda>c. c = digit 0) (rev (pad_digits 9 ns))))"

definition format_rfc3339_nano :: "time \<Rightarrow> string" where
  "format_rfc3339_nano t =
     (let d = t div 86400000000000; r = nat (t mod 86400000000000); y = year_of_day d;
          yd = d - days_before_year y; m = month_of_day (leap_year y) yd;
          day = nat (yd - days_before_month (leap_year y) m + 1)
      in format_year y @ CHR ''-'' # pad_digits 2 m @ CHR ''-'' # pad_digits 2 day
           @ CHR ''T'' # pad_digits 2 (r div 3600000000000)
           @ CHR '':'' # pad_digits 2 (r div 60000000000 mod 60)
           @ CHR '':'' # pad_digits 2 (r div 1000000000 mod 60)
           @ format_fraction (r mod 1000000000) @ ''Z'')"

section \<open>Parsing\<close>

definition lit :: "char \<Rightarrow> string \<Rightarrow> string option" where
  "lit c s = (case s of [] \<Rightarrow> None | d # t \<Rightarrow> if d = c then Some t else None)"

definition parse_year :: "string \<Rightarrow> (int \<times> string) option" where
  "parse_year s =
     (if 4 \<le> length s \<and> list_all is_digit (take 4 s)
      then Some (int (read_digits (take 4 s)), drop 4 s) else None)"

text \<open>\<open>getnum\<close>: two digits, or one if \<open>fixed\<close> does not hold.\<close>

fun getnum :: "bool \<Rightarrow> string \<Rightarrow> (nat \<times> string) option" where
  "getnum fixed [] = None"
| "getnum fixed [c] = (if is_digit c \<and> \<not> fixed then Some (read_digits [c], []) else None)"
| "getnum fixed (c # d # s) =
     (if \<not> is_digit c then None
      else if is_digit d then Some (read_digits [c, d], s)
      else if fixed then None else Some (read_digits [c], d # s))"

definition getnum_below :: "nat \<Rightarrow> bool \<Rightarrow> string \<Rightarrow> (nat \<times> string) option" where
  "getnum_below n fixed s =
     (case getnum fixed s of None \<Rightarrow> None | Some (v, t) \<Rightarrow> if v < n then Some (v, t) else None)"

definition parse_fraction :: "string \<Rightarrow> nat \<times> string" where
  "parse_fraction s =
     (case s of
        c # d # t \<Rightarrow>
          (if (c = CHR ''.'' \<or> c = CHR '','') \<and> is_digit d
           then let ds = takeWhile is_digit (d # t)
                in (read_digits (take 9 ds) * 10 ^ (9 - length ds), drop (length ds) (d # t))
           else (0, s))
      | _ \<Rightarrow> (0, s))"

text \<open>The offset in seconds; 24 hours and 60 minutes are accepted.\<close>

definition parse_zone :: "string \<Rightarrow> (int \<times> string) option" where
  "parse_zone s =
     (case s of
        [] \<Rightarrow> None
      | c # t \<Rightarrow>
          if c = CHR ''Z'' then Some (0, t)
          else if length s < 6 \<or> s ! 3 \<noteq> CHR '':'' then None
          else do {
            (hr, _) \<leftarrow> getnum_below 25 True (take 2 t);
            (mm, _) \<leftarrow> getnum_below 61 True (take 2 (drop 4 s));
            let off = (int hr * 60 + int mm) * 60;
            if c = CHR ''+'' then Some (off, drop 6 s)
            else if c = CHR ''-'' then Some (- off, drop 6 s) else None
          })"

definition date_days :: "int \<Rightarrow> nat \<Rightarrow> nat \<Rightarrow> int" where
  "date_days y m d = days_before_year y + days_before_month (leap_year y) m + int d - 1"

definition parse_rfc3339_nano :: "string \<Rightarrow> time option" where
  "parse_rfc3339_nano s = do {
     (y, s) \<leftarrow> parse_year s;
     s \<leftarrow> lit CHR ''-'' s;
     (m, s) \<leftarrow> getnum_below 13 True s;
     s \<leftarrow> lit CHR ''-'' s;
     (d, s) \<leftarrow> getnum True s;
     s \<leftarrow> lit CHR ''T'' s;
     (hh, s) \<leftarrow> getnum_below 24 False s;
     s \<leftarrow> lit CHR '':'' s;
     (mi, s) \<leftarrow> getnum_below 60 True s;
     s \<leftarrow> lit CHR '':'' s;
     (ss, s) \<leftarrow> getnum_below 60 True s;
     let (ns, s) = parse_fraction s;
     (off, s) \<leftarrow> parse_zone s;
     if s \<noteq> [] \<or> m < 1 \<or> d < 1 \<or> days_in (leap_year y) m < int d then None
     else Some ((date_days y m d * 86400 + int (hh * 3600 + mi * 60 + ss) - off) * 1000000000 + int ns)
   }"

section \<open>A formatted time parses back\<close>

lemma length_pad_digits [simp]: "length (pad_digits k n) = k"
  by (induction k arbitrary: n) auto

lemma pad_digits_digits [simp]: "list_all is_digit (pad_digits k n)"
  by (induction k arbitrary: n) auto

lemma read_pad_digits: "read_digits (pad_digits k n) = n mod 10 ^ k"
proof (induction k arbitrary: n)
  case (Suc k)
  have "n mod (10 * 10 ^ k) = 10 * (n div 10 mod 10 ^ k) + n mod 10" by (rule mod_mult2_eq)
  with Suc show ?case by (simp add: read_digits_snoc of_char_digit)
qed (simp add: read_digits_def)

lemma lit_Cons [simp]: "lit c (c # s) = Some s"
  by (simp add: lit_def)

lemma parse_year_pad [simp]: "n < 10000 \<Longrightarrow> parse_year (pad_digits 4 n @ s) = Some (int n, s)"
  by (simp add: parse_year_def read_pad_digits)

lemma getnum_pad [simp]:
  assumes "n < 100"
  shows "getnum fixed (pad_digits 2 n @ s) = Some (n, s)"
proof -
  obtain c d where cd: "pad_digits 2 n = [c, d]"
    by (metis length_pad_digits length_Suc_conv length_0_conv numeral_2_eq_2)
  then have "is_digit c" "is_digit d" using pad_digits_digits [of 2 n] by simp_all
  moreover have "read_digits [c, d] = n" using assms read_pad_digits [of 2 n] by (simp add: cd)
  ultimately show ?thesis by (simp add: cd)
qed

lemma getnum_below_pad [simp]:
  "n < b \<Longrightarrow> b \<le> 100 \<Longrightarrow> getnum_below b fixed (pad_digits 2 n @ s) = Some (n, s)"
  by (simp add: getnum_below_def)

lemma read_digits_zeros: "read_digits (s @ replicate k (digit 0)) = read_digits s * 10 ^ k"
proof (induction k)
  case (Suc k)
  have "s @ replicate (Suc k) (digit 0) = (s @ replicate k (digit 0)) @ [digit 0]"
    by (simp add: replicate_append_same [symmetric])
  with Suc show ?case by (simp only: read_digits_snoc) (simp add: of_char_digit)
qed simp

lemma parse_format_fraction:
  assumes "ns < 1000000000"
  shows "parse_fraction (format_fraction ns @ ''Z'') = (ns, ''Z'')"
proof (cases "ns = 0")
  case False
  define p where "p = pad_digits 9 ns"
  define q where "q = rev (dropWhile (\<lambda>c. c = digit 0) (rev p))"
  have "rev p = takeWhile (\<lambda>c. c = digit 0) (rev p) @ dropWhile (\<lambda>c. c = digit 0) (rev p)" by simp
  moreover have "takeWhile (\<lambda>c. c = digit 0) (rev p)
      = replicate (length (takeWhile (\<lambda>c. c = digit 0) (rev p))) (digit 0)"
    by (rule replicate_eqI [symmetric, THEN sym]) (auto dest: set_takeWhileD)
  ultimately obtain k where "rev p = replicate k (digit 0) @ rev q" unfolding q_def by (metis rev_rev_ident)
  then have p: "p = q @ replicate k (digit 0)" by (metis rev_append rev_replicate rev_rev_ident)
  have len: "length q + k = 9" using arg_cong [OF p, of length] by (simp add: p_def)
  have "list_all is_digit p" unfolding p_def by (rule pad_digits_digits)
  then have dig: "list_all is_digit q" unfolding p list_all_append by blast
  have "read_digits p = ns" using assms by (simp add: p_def read_pad_digits)
  then have val: "read_digits q * 10 ^ k = ns" by (simp add: p read_digits_zeros)
  with False have "q \<noteq> []" by (auto simp: read_digits_def)
  then obtain c t where q: "q = c # t" by (cases q) auto
  have z: "\<not> is_digit CHR ''Z''" by (simp add: is_digit_def)
  have "takeWhile is_digit (q @ ''Z'') = q" using dig z by (simp add: takeWhile_append list_all_iff)
  moreover have "9 - length q = k" "take 9 q = q" using len by simp_all
  moreover have "format_fraction ns = CHR ''.'' # q"
    using False by (simp add: format_fraction_def q_def p_def)
  ultimately show ?thesis using dig val by (simp add: parse_fraction_def q)
qed (simp add: parse_fraction_def format_fraction_def)

lemma days_in_bounds:
  assumes "0 \<le> yd" and "yd < (if leap then 366 else 365)"
  defines "m \<equiv> month_of_day leap yd"
  shows "nat (yd - days_before_month leap m + 1) < 100"
    and "1 \<le> nat (yd - days_before_month leap m + 1)"
    and "int (nat (yd - days_before_month leap m + 1)) \<le> days_in leap m"
proof -
  note m = month_of_day [OF assms(1,2), folded m_def]
  from m(1,2) have "m = 1 \<or> m = 2 \<or> m = 3 \<or> m = 4 \<or> m = 5 \<or> m = 6 \<or> m = 7 \<or> m = 8 \<or> m = 9
      \<or> m = 10 \<or> m = 11 \<or> m = 12" by presburger
  then have "days_in leap m \<le> 31" by (auto simp: days_in_def days_before_month_def)
  then show "nat (yd - days_before_month leap m + 1) < 100"
    "1 \<le> nat (yd - days_before_month leap m + 1)"
    "int (nat (yd - days_before_month leap m + 1)) \<le> days_in leap m"
    using m(3,4) by (simp_all add: days_in_def)
qed

lemma clock_join:
  fixes r :: nat
  shows "(r div 3600000000000 * 3600 + r div 60000000000 mod 60 * 60 + r div 1000000000 mod 60) * 1000000000
           + r mod 1000000000 = r"
proof -
  define s where "s = r div 1000000000"
  define q where "q = s div 60"
  have "r div 60000000000 = q" using div_mult2_eq [of r 1000000000 60] by (simp add: q_def s_def)
  moreover from this have "r div 3600000000000 = q div 60" using div_mult2_eq [of r 60000000000 60] by simp
  moreover have "a * 3600 + b * 60 + c = s" if "a * 60 + b = q" "q * 60 + c = s" for a b c :: nat
    using that by linarith
  from this [of "q div 60" "q mod 60" "s mod 60"]
  have "q div 60 * 3600 + q mod 60 * 60 + s mod 60 = s" by (simp only: q_def div_mult_mod_eq)
  ultimately show ?thesis using div_mult_mod_eq [of r 1000000000] by (simp only: s_def [symmetric])
qed

lemma parse_parts:
  assumes "y < 10000" "1 \<le> m" "m \<le> 12" "1 \<le> d" "d < 100" "int d \<le> days_in (leap_year (int y)) m"
    and "hh < 24" "mi < 60" "ss < 60" "ns < 1000000000"
  shows "parse_rfc3339_nano
      (pad_digits 4 y @ CHR ''-'' # pad_digits 2 m @ CHR ''-'' # pad_digits 2 d
         @ CHR ''T'' # pad_digits 2 hh @ CHR '':'' # pad_digits 2 mi @ CHR '':'' # pad_digits 2 ss
         @ format_fraction ns @ ''Z'')
    = Some ((date_days (int y) m d * 86400 + int (hh * 3600 + mi * 60 + ss) - 0) * 1000000000 + int ns)"
  unfolding parse_rfc3339_nano_def using assms
  by (simp add: parse_format_fraction parse_zone_def Let_def)

text \<open>For the years 1 to 9999.\<close>

text \<open>The days that \<open>format_year\<close> writes with four digits.\<close>

lemma year_of_day_range:
  assumes "0 \<le> d" "d < 3652059"
  shows "0 < year_of_day d" "year_of_day d < 10000"
proof -
  define y where "y = year_of_day d"
  have yb: "days_before_year y \<le> d" "d < days_before_year (y + 1)"
    using year_of_day [of d] by (simp_all add: y_def)
  have "0 < y"
  proof (rule ccontr)
    assume "\<not> 0 < y"
    moreover have "400 * days_before_year (y + 1) < 146097 * y + 400"
      using days_before_year_bounds(2) [of "y + 1"] by (simp add: algebra_simps)
    ultimately show False using yb assms by linarith
  qed
  moreover have "y < 10000"
  proof (rule ccontr)
    assume "\<not> y < 10000"
    then have "y = 10000 \<or> 10001 \<le> y" by linarith
    moreover have "days_before_year 10000 = 3652059" by (simp add: days_before_year_def)
    ultimately show False using days_before_year_bounds(1) [of y] yb assms by auto
  qed
  ultimately show "0 < year_of_day d" "year_of_day d < 10000" by (simp_all add: y_def)
qed

lemma parse_format_time:
  assumes "0 \<le> t" and "t < 315537897600000000000"
  shows "parse_rfc3339_nano (format_rfc3339_nano t) = Some t"
proof -
  define d where "d = t div 86400000000000"
  define r where "r = nat (t mod 86400000000000)"
  define y where "y = year_of_day d"
  define yd where "yd = d - days_before_year y"
  define m where "m = month_of_day (leap_year y) yd"
  define day where "day = nat (yd - days_before_month (leap_year y) m + 1)"
  have dt: "0 \<le> d" "d < 3652059" using assms
    using div_bounds [of 86400000000000 t] by (simp_all add: d_def pos_imp_zdiv_nonneg_iff)
  have r: "r < 86400000000000" by (simp add: r_def nat_less_iff)
  have yb: "days_before_year y \<le> d" "d < days_before_year (y + 1)"
    using year_of_day [of d] by (simp_all add: y_def)
  have y: "format_year y = pad_digits 4 (nat y)" "nat y < 10000" "int (nat y) = y"
    using year_of_day_range [OF dt] by (simp_all add: format_year_def y_def)
  have yd: "0 \<le> yd" "yd < (if leap_year y then 366 else 365)"
    using yb length_of_year [of y] by (auto simp: yd_def)
  note m = month_of_day [OF yd, folded m_def]
  note day = days_in_bounds [OF yd, folded m_def, folded day_def]
  have hh: "r div 3600000000000 < 24" using r by (simp add: less_mult_imp_div_less)
  have "date_days y m day = d" using day(2) m(3) by (simp add: date_days_def day_def yd_def)
  moreover have "d * 86400000000000 + int r = t" by (simp add: d_def r_def)
  moreover have "int ((r div 3600000000000 * 3600 + r div 60000000000 mod 60 * 60 + r div 1000000000 mod 60))
      * 1000000000 + int (r mod 1000000000) = int r"
    using arg_cong [OF clock_join [of r], of int] by simp
  ultimately have "(date_days y m day * 86400 + int (r div 3600000000000 * 3600
      + r div 60000000000 mod 60 * 60 + r div 1000000000 mod 60) - 0) * 1000000000
      + int (r mod 1000000000) = t"
    by (simp only:) (simp only: algebra_simps)
  moreover have "format_rfc3339_nano t =
      pad_digits 4 (nat y) @ CHR ''-'' # pad_digits 2 m @ CHR ''-'' # pad_digits 2 day
           @ CHR ''T'' # pad_digits 2 (r div 3600000000000)
           @ CHR '':'' # pad_digits 2 (r div 60000000000 mod 60)
           @ CHR '':'' # pad_digits 2 (r div 1000000000 mod 60)
           @ format_fraction (r mod 1000000000) @ ''Z''"
    unfolding format_rfc3339_nano_def Let_def d_def [symmetric] r_def [symmetric] y_def [symmetric]
      yd_def [symmetric] m_def [symmetric] day_def [symmetric] y(1) ..
  moreover have "int day \<le> days_in (leap_year (int (nat y))) m" unfolding y(3) by (rule day(3))
  ultimately show ?thesis
    using parse_parts [OF y(2) m(1,2) day(2,1) _ hh, of "r div 60000000000 mod 60" "r div 1000000000 mod 60"
        "r mod 1000000000"] unfolding y(3) by simp
qed

text \<open>The text has no vertical bar, which the cursors put after it.\<close>

lemma pad_digits_not_bar: "c \<in> set (pad_digits k n) \<Longrightarrow> c \<noteq> CHR ''|''"
  using pad_digits_digits [of k n] by (auto simp: list_all_iff is_digit_def)

lemma format_time_no_bar: "CHR ''|'' \<notin> set (format_rfc3339_nano t)"
proof -
  have "\<not> is_digit CHR ''|''" by (simp add: is_digit_def)
  then have "CHR ''|'' \<notin> set (show_nat n)" "CHR ''|'' \<notin> set (pad_digits k n)" for k n
    using show_nat_digits [of n] pad_digits_digits [of k n] by (auto simp: list_all_iff)
  then have "CHR ''|'' \<notin> set (format_year y)" for y by (simp add: format_year_def)
  moreover have "CHR ''|'' \<notin> set (format_fraction n)" for n
    using pad_digits_not_bar [of "CHR ''|''" 9 n] by (auto simp: format_fraction_def dest: set_dropWhileD)
  ultimately show ?thesis
    unfolding format_rfc3339_nano_def Let_def by (auto dest: pad_digits_not_bar)
qed

end
