(* ===== verification/Paging.thy ===== *)
theory Paging
  imports Base64 GoTime
begin

text \<open>
  Lists in pages, as delivery-service/internal/delivery/repository.go (\<open>List\<close>,
  \<open>ListAttempts\<close>) and endpoint-service/internal/endpoint/repository.go (\<open>List\<close>) have them: the
  keyset \<open>(created_at, id)\<close> with PostgreSQL's comparison of rows, the cursor that names it, the
  cut of a result into a page and the cursor of the next one, and the interface
  \<open>paged_list\<close>, whose client follows the cursors to the end.
\<close>

section \<open>Keysets\<close>

datatype keyset = Keyset (ks_time: time) (ks_id: uuid)

instantiation keyset :: linorder
begin

definition less_eq_keyset :: "keyset \<Rightarrow> keyset \<Rightarrow> bool" where
  "less_eq_keyset a b \<longleftrightarrow> ks_time a < ks_time b \<or> ks_time a = ks_time b \<and> ks_id a \<le> ks_id b"

definition less_keyset :: "keyset \<Rightarrow> keyset \<Rightarrow> bool" where
  "less_keyset a b \<longleftrightarrow> ks_time a < ks_time b \<or> ks_time a = ks_time b \<and> ks_id a < ks_id b"

instance
  by standard (auto simp: less_eq_keyset_def less_keyset_def keyset.expand)

end

section \<open>Cursors\<close>

text \<open>
  The text of a UUID is the business of github.com/google/uuid. What the cursors rely on: a
  printed UUID parses back, and it has no vertical bar.
\<close>

definition uuid_codec :: "(uuid \<Rightarrow> string) \<Rightarrow> (string \<Rightarrow> uuid option) \<Rightarrow> bool" where
  "uuid_codec show_id read_id \<longleftrightarrow> (\<forall>u. read_id (show_id u) = Some u \<and> CHR ''|'' \<notin> set (show_id u))"

lemma uuid_codecD: "uuid_codec show_id read_id \<Longrightarrow> read_id (show_id u) = Some u \<and> CHR ''|'' \<notin> set (show_id u)"
  by (simp add: uuid_codec_def)

definition format_cursor :: "(uuid \<Rightarrow> string) \<Rightarrow> time \<Rightarrow> uuid \<Rightarrow> string" where
  "format_cursor show_id t i = b64_encode (format_rfc3339_nano t @ ''|'' @ show_id i)"

text \<open>No cursor leaves Go's zero time and the nil UUID; \<open>None\<close> is "invalid cursor".\<close>

definition parse_cursor :: "(string \<Rightarrow> uuid option) \<Rightarrow> string \<Rightarrow> (time \<times> uuid) option" where
  "parse_cursor read_id cursor =
     (if cursor = [] then Some (0, uuid_nil)
      else do {
        decoded \<leftarrow> b64_decode cursor;
        (case split_on CHR ''|'' decoded of
           [p0, p1] \<Rightarrow> do { t \<leftarrow> parse_rfc3339_nano p0; i \<leftarrow> read_id p1; Some (t, i) }
         | _ \<Rightarrow> None)
      })"

definition time_in_range :: "time \<Rightarrow> bool" where
  "time_in_range t \<longleftrightarrow> 0 < t \<and> t < 315537897600000000000"

lemma format_cursor_nonempty [simp]: "format_cursor show_id t i \<noteq> []"
  unfolding format_cursor_def by (rule b64_encode_nonempty) simp

lemma parse_format_cursor:
  assumes "uuid_codec show_id read_id" and "time_in_range t"
  shows "parse_cursor read_id (format_cursor show_id t i) = Some (t, i)"
proof -
  have "split_on CHR ''|'' (format_rfc3339_nano t @ ''|'' @ show_id i) = [format_rfc3339_nano t, show_id i]"
    using uuid_codecD [OF assms(1)] format_time_no_bar [of t] by (simp add: split_on_append split_on_no_sep)
  moreover have "parse_rfc3339_nano (format_rfc3339_nano t) = Some t"
    using assms(2) by (intro parse_format_time) (simp_all add: time_in_range_def)
  moreover have "parse_cursor read_id (format_cursor show_id t i) =
      do {
        decoded \<leftarrow> b64_decode (format_cursor show_id t i);
        (case split_on CHR ''|'' decoded of
           [p0, p1] \<Rightarrow> do { t \<leftarrow> parse_rfc3339_nano p0; i \<leftarrow> read_id p1; Some (t, i) }
         | _ \<Rightarrow> None)
      }" by (simp add: parse_cursor_def)
  ultimately show ?thesis
    using uuid_codecD [OF assms(1)] by (simp add: format_cursor_def)
qed

text \<open>Identifiers as decimal numbers.\<close>

definition show_decimal :: "uuid \<Rightarrow> string" where
  "show_decimal i = show_nat (unat i)"

definition read_decimal :: "string \<Rightarrow> uuid option" where
  "read_decimal s = Some (of_nat (read_digits s))"

lemma decimal_codec: "uuid_codec show_decimal read_decimal"
proof -
  have "CHR ''|'' \<notin> set (show_nat n)" for n
    using show_nat_digits [of n] by (auto simp: list_all_iff is_digit_def)
  then show ?thesis by (simp add: uuid_codec_def show_decimal_def read_decimal_def read_show_nat)
qed

text \<open>The cursor condition of the queries; a zero time is no condition. The parameter keeps
  microseconds.\<close>

definition before_cursor :: "time \<Rightarrow> uuid \<Rightarrow> keyset \<Rightarrow> bool" where
  "before_cursor t i k \<longleftrightarrow> t = 0 \<or> k < Keyset (pg_time t) i"

section \<open>Pages\<close>

text \<open>A limit outside 1 to 100 is 50.\<close>

definition page_limit :: "int \<Rightarrow> int" where
  "page_limit limit = (if limit < 1 \<or> 100 < limit then 50 else limit)"

lemma page_limit_bounds: "1 \<le> page_limit n" "page_limit n \<le> 100"
  by (simp_all add: page_limit_def)

text \<open>The query asks for one row more than the page holds; if it comes, the last row of the page
  gives the next cursor.\<close>

definition cut_page :: "nat \<Rightarrow> ('r \<Rightarrow> string) \<Rightarrow> 'r list \<Rightarrow> 'r list \<times> string" where
  "cut_page n cursor_of items =
     (if n < length items then (take n items, cursor_of (items ! (n - 1))) else (items, []))"

text \<open>Scanning the rows of a result: the first row that fails ends it.\<close>

fun scan_rows :: "('r \<Rightarrow> error option) \<Rightarrow> 'r list \<Rightarrow> 'r list result" where
  "scan_rows f [] = Inr []"
| "scan_rows f (r # rs) =
     guard (f r) (case scan_rows f rs of Inl e \<Rightarrow> Inl e | Inr xs \<Rightarrow> Inr (r # xs))"

lemma scan_rows_Inr: "scan_rows f rs = Inr xs \<Longrightarrow> xs = rs"
  by (induction rs arbitrary: xs) (auto simp: guard_Inr split: sum.splits)

lemma scan_rows_ok [simp]: "(\<And>r. r \<in> set rs \<Longrightarrow> f r = None) \<Longrightarrow> scan_rows f rs = Inr rs"
  by (induction rs) auto

section \<open>Following the cursors\<close>

text \<open>Fetch the first page, then the page of each next cursor, until there is none; at most
  \<open>fuel\<close> pages.\<close>

fun walk :: "(string \<Rightarrow> ('r list \<times> string) result) \<Rightarrow> nat \<Rightarrow> string \<Rightarrow> 'r list option" where
  "walk fetch 0 cursor = None"
| "walk fetch (Suc fuel) cursor =
     (case fetch cursor of
        Inl e \<Rightarrow> None
      | Inr (items, nxt) \<Rightarrow>
          (if nxt = [] then Some items else map_option ((@) items) (walk fetch fuel nxt)))"

locale paged_list =
  fixes good :: "'s \<Rightarrow> bool"
    and fetch :: "'s \<Rightarrow> string \<Rightarrow> ('r list \<times> string) result"
    and all_rows :: "'s \<Rightarrow> 'r list"
    and cursor_of :: "'r \<Rightarrow> string"
    and size :: nat
  assumes size: "0 < size"
    and first_page: "good s \<Longrightarrow> fetch s [] = Inr (cut_page size cursor_of (take (size + 1) (all_rows s)))"
    and page_after: "good s \<Longrightarrow> all_rows s = xs @ r # ys \<Longrightarrow>
          fetch s (cursor_of r) = Inr (cut_page size cursor_of (take (size + 1) ys))"
    and cursor_of: "good s \<Longrightarrow> r \<in> set (all_rows s) \<Longrightarrow> cursor_of r \<noteq> []"
begin

lemma walk_from:
  assumes "good s" and "all_rows s = xs @ ys" and "length ys \<le> n * size" and "0 < n"
    and "fetch s c = Inr (cut_page size cursor_of (take (size + 1) ys))"
  shows "walk (fetch s) n c = Some ys"
  using assms(2-)
proof (induction n arbitrary: xs ys c)
  case (Suc n)
  show ?case
  proof (cases "size < length ys")
    case False
    then show ?thesis using Suc.prems(4) by (simp add: cut_page_def)
  next
    case True
    let ?r = "ys ! (size - 1)"
    have split: "ys = take size ys @ drop size ys" by simp
    have "take size ys = take (size - 1) ys @ [?r]"
      using True size take_Suc_conv_app_nth [of "size - 1" ys] by simp
    then have all: "all_rows s = (xs @ take (size - 1) ys) @ ?r # drop size ys"
      using Suc.prems(1) split by (metis append.assoc append_Cons append_Nil)
    have next_nonempty: "cursor_of ?r \<noteq> []"
      using all by (intro cursor_of [OF assms(1)]) simp
    have "length (drop size ys) \<le> n * size" using Suc.prems(2) by simp
    moreover have "0 < n" using Suc.prems(2) True by (cases n) auto
    ultimately have "walk (fetch s) n (cursor_of ?r) = Some (drop size ys)"
      using all by (intro Suc.IH [of "xs @ take size ys"] page_after [OF assms(1) all])
        (simp_all add: Suc.prems(1))
    moreover have "fetch s c = Inr (take size ys, cursor_of ?r)"
      using True size Suc.prems(4) by (simp add: cut_page_def)
    ultimately show ?thesis using next_nonempty split by simp
  qed
qed simp

text \<open>Enough pages give every row once, in order.\<close>

lemma walk_all:
  assumes "good s" and "length (all_rows s) \<le> n * size" and "0 < n"
  shows "walk (fetch s) n [] = Some (all_rows s)"
  using walk_from [OF assms(1) _ assms(2,3) first_page [OF assms(1)], of "[]"] by simp

text \<open>No page is longer than the limit.\<close>

lemma page_size: "fst (cut_page size cursor_of rs) = take size rs"
  by (simp add: cut_page_def)

end

lemma to_upper_trim_empty [simp]: "to_upper (trim_space []) = []"
  using length_trim_space [of "[]"] by simp

section \<open>Ordered results\<close>

lemma filter_after:
  assumes "sorted_wrt R (xs @ r # ys)" and "\<And>a b. R a b \<Longrightarrow> \<not> R b a" and "\<not> R r r"
  shows "filter (R r) (xs @ r # ys) = ys"
proof -
  have "filter (R r) xs = []" using assms(1,2) by (auto simp: sorted_wrt_append filter_empty_conv)
  moreover have "filter (R r) ys = ys" using assms(1) by (simp add: sorted_wrt_append filter_id_conv)
  ultimately show ?thesis using assms(3) by simp
qed

definition newest_first :: "('r \<Rightarrow> keyset) \<Rightarrow> 'r list \<Rightarrow> 'r list" where
  "newest_first key rows = rev (sort_key key rows)"

lemma set_newest_first [simp]: "set (newest_first key rows) = set rows"
  by (simp add: newest_first_def)

lemma filter_newest_first: "filter P (newest_first key rows) = newest_first key (filter P rows)"
  by (simp add: newest_first_def filter_sort rev_filter [symmetric])

lemma sort_key_strict:
  fixes key :: "'r \<Rightarrow> 'k::linorder"
  assumes "distinct (map key rows)"
  shows "sorted_wrt (\<lambda>a b. key a < key b) (sort_key key rows)"
proof -
  have "distinct (map key (sort_key key rows))"
    using assms by (metis distinct_map distinct_sort set_sort)
  then have "sorted_wrt (<) (map key (sort_key key rows))" by (simp only: strict_sorted_iff sorted_sort_key simp_thms)
  then show ?thesis by (simp add: sorted_wrt_map)
qed

lemma newest_first_sorted:
  "distinct (map key rows) \<Longrightarrow> sorted_wrt (\<lambda>a b. key b < key a) (newest_first key rows)"
  by (simp add: newest_first_def sorted_wrt_rev sort_key_strict)

text \<open>The rows after one of the list are those with a smaller key.\<close>

lemma newest_first_after:
  assumes "distinct (map key rows)" and "newest_first key rows = xs @ r # ys"
  shows "newest_first key (filter (\<lambda>d. key d < key r) rows) = ys"
proof -
  have "filter (\<lambda>d. key d < key r) (xs @ r # ys) = ys"
    using newest_first_sorted [OF assms(1)] unfolding assms(2)
    by (rule filter_after [where R = "\<lambda>a b. key b < key a"]) auto
  then show ?thesis using assms(2) filter_newest_first [of "\<lambda>d. key d < key r" key rows] by simp
qed

lemma sorted_after:
  assumes "distinct (map key rows)" and "sort_key key rows = xs @ r # ys"
  shows "sort_key key (filter (\<lambda>d. key r < key d) rows) = ys"
proof -
  have "sorted_wrt (\<lambda>a b. key a < key b) (xs @ r # ys)"
    using sort_key_strict [OF assms(1)] by (simp add: assms(2))
  then have "filter (\<lambda>d. key r < key d) (xs @ r # ys) = ys"
    by (rule filter_after) auto
  then show ?thesis using assms(2) by (metis filter_sort)
qed

end
