(* ===== verification/EndpointOutbox.thy ===== *)
theory EndpointOutbox
  imports Paging Backoff
begin

text \<open>
  endpoint-service/internal/outbox and internal/kafka: the table \<open>outbox_messages\<close> of
  migrations/001_init.sql with \<open>Enqueue\<close>, \<open>Claim\<close>, \<open>MarkPublished\<close> and \<open>Release\<close>, the relay that
  passes claimed messages to a publisher, and the Kafka publisher. The interface
  \<open>Publisher\<close> of relay.go is the locale \<open>message_publisher\<close>.
\<close>

section \<open>Data\<close>

record outbox_message =
  ms_id :: uuid
  ms_topic :: string
  ms_key :: string
  ms_payload :: bytes
  ms_attempts :: int
  ms_available_at :: time

record outbox_message_row =
  om_id :: uuid
  om_topic :: string
  om_key :: string
  om_payload :: bytes
  om_attempts :: int
  om_available_at :: time
  om_locked_by :: "string option"
  om_locked_until :: "time option"
  om_published_at :: "time option"
  om_created_at :: time

text \<open>The columns that no operation changes.\<close>

definition om_content :: "outbox_message_row \<Rightarrow> uuid \<times> string \<times> string \<times> bytes" where
  "om_content r = (om_id r, om_topic r, om_key r, om_payload r)"

definition ms_content :: "outbox_message \<Rightarrow> uuid \<times> string \<times> string \<times> bytes" where
  "ms_content m = (ms_id m, ms_topic m, ms_key m, ms_payload m)"

text \<open>\<open>"%f seconds"\<close> as an interval: microseconds.\<close>

definition interval :: "duration \<Rightarrow> duration" where
  "interval d = (d + 500) div 1000 * 1000"

section \<open>The repository\<close>

definition new_message_row ::
    "time \<Rightarrow> uuid \<Rightarrow> string \<Rightarrow> string \<Rightarrow> bytes \<Rightarrow> outbox_message_row" where
  "new_message_row now i topic key body =
     \<lparr>om_id = i, om_topic = topic, om_key = key, om_payload = body, om_attempts = 0,
      om_available_at = now, om_locked_by = None, om_locked_until = None, om_published_at = None,
      om_created_at = now\<rparr>"

text \<open>\<open>body\<close> is the result of \<open>json.Marshal\<close>, \<open>new_id\<close> that of \<open>uuid.New\<close>. The statement runs in
  the transaction of the caller.\<close>

definition enqueue ::
    "error option \<Rightarrow> time \<Rightarrow> uuid \<Rightarrow> string \<Rightarrow> string \<Rightarrow> bytes result \<Rightarrow> outbox_message_row list
       \<Rightarrow> (uuid \<times> outbox_message_row list) result" where
  "enqueue f now new_id topic key body rows =
     (case body of
        Inl e \<Rightarrow> Inl (wrap ''marshal outbox payload: '' e)
      | Inr b \<Rightarrow>
          (case f of
             Some e \<Rightarrow> Inl (wrap ''insert outbox message: '' e)
           | None \<Rightarrow>
               (if new_id \<in> om_id ` set rows
                then Inl (wrap ''insert outbox message: '' (pg_unique ''outbox_messages_pkey''))
                else Inr (new_id, rows @ [new_message_row now new_id topic key b]))))"

definition message_ready :: "time \<Rightarrow> outbox_message_row \<Rightarrow> bool" where
  "message_ready now r \<longleftrightarrow>
     om_published_at r = None \<and> om_available_at r \<le> now
     \<and> (case om_locked_until r of None \<Rightarrow> True | Some t \<Rightarrow> t < now)"

definition om_keyset :: "outbox_message_row \<Rightarrow> keyset" where
  "om_keyset r = Keyset (om_created_at r) (om_id r)"

definition ready_rows ::
    "time \<Rightarrow> (uuid \<Rightarrow> bool) \<Rightarrow> int \<Rightarrow> outbox_message_row list \<Rightarrow> outbox_message_row list" where
  "ready_rows now locked limit rows =
     take (nat limit) (sort_key om_keyset (filter (\<lambda>r. message_ready now r \<and> \<not> locked (om_id r)) rows))"

definition message_of :: "outbox_message_row \<Rightarrow> outbox_message" where
  "message_of r = \<lparr>ms_id = om_id r, ms_topic = om_topic r, ms_key = om_key r, ms_payload = om_payload r,
     ms_attempts = om_attempts r, ms_available_at = om_available_at r\<rparr>"

definition lock_row :: "time \<Rightarrow> string \<Rightarrow> duration \<Rightarrow> outbox_message_row \<Rightarrow> outbox_message_row" where
  "lock_row now worker lease r =
     r\<lparr>om_locked_by := Some worker, om_locked_until := Some (now + interval lease),
       om_attempts := om_attempts r + 1\<rparr>"

datatype outbox_claim_call = OC_Begin | OC_Query | OC_Scan uuid | OC_Rows | OC_Lock uuid | OC_Commit

fun lock_loop ::
    "outbox_claim_call faults \<Rightarrow> time \<Rightarrow> string \<Rightarrow> duration \<Rightarrow> outbox_message list
       \<Rightarrow> outbox_message_row list \<Rightarrow> outbox_message_row list result" where
  "lock_loop f now worker lease [] rows = Inr rows"
| "lock_loop f now worker lease (m # ms) rows =
     guard (f (OC_Lock (ms_id m)))
       (if 2147483647 < ms_attempts m + 1 then Inl (PgError ''22003'' ''integer out of range'')
        else lock_loop f now worker lease ms
               (update_where (\<lambda>r. om_id r = ms_id m) (lock_row now worker lease) rows))"

definition claim_messages ::
    "outbox_claim_call faults \<Rightarrow> (uuid \<Rightarrow> bool) \<Rightarrow> time \<Rightarrow> string \<Rightarrow> int \<Rightarrow> duration
       \<Rightarrow> outbox_message_row list \<Rightarrow> outbox_message list result \<times> outbox_message_row list" where
  "claim_messages f locked now worker limit lease rows =
     run_tx (f OC_Begin) (f OC_Commit)
       (\<lambda>rows. guard (map_option (wrap ''claim outbox rows: '') (f OC_Query))
          (if limit < 0
           then Inl (wrap ''claim outbox rows: '' (PgError ''2201W'' ''LIMIT must not be negative''))
           else
           (case scan_rows (\<lambda>m. f (OC_Scan (ms_id m))) (map message_of (ready_rows now locked limit rows)) of
              Inl e \<Rightarrow> Inl e
            | Inr msgs \<Rightarrow>
                guard (f OC_Rows)
                  (case lock_loop f now worker lease msgs rows of
                     Inl e \<Rightarrow> Inl e
                   | Inr rows' \<Rightarrow> Inr (msgs, rows'))))) rows"

definition owned :: "uuid \<Rightarrow> string \<Rightarrow> outbox_message_row \<Rightarrow> bool" where
  "owned i worker r \<longleftrightarrow> om_id r = i \<and> om_locked_by r = Some worker"

definition mark_published ::
    "error option \<Rightarrow> time \<Rightarrow> uuid \<Rightarrow> string \<Rightarrow> outbox_message_row list
       \<Rightarrow> unit result \<times> outbox_message_row list" where
  "mark_published f now i worker rows =
     (case f of
        Some e \<Rightarrow> (Inl e, rows)
      | None \<Rightarrow> (Inr (), update_where (owned i worker)
          (\<lambda>r. r\<lparr>om_published_at := Some now, om_locked_by := None, om_locked_until := None\<rparr>) rows))"

definition release_message ::
    "error option \<Rightarrow> time \<Rightarrow> uuid \<Rightarrow> string \<Rightarrow> duration \<Rightarrow> outbox_message_row list
       \<Rightarrow> unit result \<times> outbox_message_row list" where
  "release_message f now i worker delay rows =
     (case f of
        Some e \<Rightarrow> (Inl e, rows)
      | None \<Rightarrow> (Inr (), update_where (owned i worker)
          (\<lambda>r. r\<lparr>om_available_at := now + interval delay, om_locked_by := None, om_locked_until := None\<rparr>) rows))"

section \<open>The relay\<close>

text \<open>
  What a relay takes from outside when it works on one message: the failures of \<open>Release\<close> and
  \<open>MarkPublished\<close>, their \<open>NOW()\<close>, and the processor's conversion of floating point numbers.
\<close>

record relay_env =
  rl_release :: "error option"
  rl_mark :: "error option"
  rl_now :: time
  rl_impl :: "f64 \<Rightarrow> 64 word"

definition relay_message ::
    "(outbox_message \<Rightarrow> 'k \<Rightarrow> unit result \<times> 'k) \<Rightarrow> relay_env \<Rightarrow> string \<Rightarrow> outbox_message
       \<Rightarrow> outbox_message_row list \<times> 'k \<Rightarrow> outbox_message_row list \<times> 'k" where
  "relay_message publish env worker m s =
     (case s of (rows, sent) \<Rightarrow>
        (case publish m sent of
           (Inl err, sent') \<Rightarrow>
             (snd (release_message (rl_release env) (rl_now env) (ms_id m) worker
                (sint (retry_delay (rl_impl env) (ms_attempts m))) rows), sent')
         | (Inr _, sent') \<Rightarrow>
             (snd (mark_published (rl_mark env) (rl_now env) (ms_id m) worker rows), sent')))"

fun relay_messages ::
    "(outbox_message \<Rightarrow> 'k \<Rightarrow> unit result \<times> 'k) \<Rightarrow> (uuid \<Rightarrow> relay_env) \<Rightarrow> string \<Rightarrow> outbox_message list
       \<Rightarrow> outbox_message_row list \<times> 'k \<Rightarrow> outbox_message_row list \<times> 'k" where
  "relay_messages publish envs worker [] s = s"
| "relay_messages publish envs worker (m # ms) s =
     relay_messages publish envs worker ms (relay_message publish (envs (ms_id m)) worker m s)"

record relay =
  re_worker :: string
  re_batch :: int
  re_lease :: duration

definition flush ::
    "(outbox_message \<Rightarrow> 'k \<Rightarrow> unit result \<times> 'k) \<Rightarrow> outbox_claim_call faults \<Rightarrow> (uuid \<Rightarrow> bool) \<Rightarrow> time
       \<Rightarrow> (uuid \<Rightarrow> relay_env) \<Rightarrow> relay \<Rightarrow> outbox_message_row list \<times> 'k \<Rightarrow> outbox_message_row list \<times> 'k" where
  "flush publish f locked now envs rl s =
     (case s of (rows, sent) \<Rightarrow>
        (case claim_messages f locked now (re_worker rl) (re_batch rl) (re_lease rl) rows of
           (Inl e, rows') \<Rightarrow> (rows', sent)
         | (Inr msgs, rows') \<Rightarrow> relay_messages publish envs (re_worker rl) msgs (rows', sent)))"

section \<open>The Kafka publisher\<close>

record kafka_record =
  kr_topic :: string
  kr_key :: bytes
  kr_value :: bytes
  kr_headers :: "(string \<times> bytes) list"

definition kafka_record_of :: "(uuid \<Rightarrow> string) \<Rightarrow> outbox_message \<Rightarrow> kafka_record" where
  "kafka_record_of show_id m =
     \<lparr>kr_topic = ms_topic m, kr_key = ms_key m, kr_value = ms_payload m,
      kr_headers = [(''content-type'', ''application/json''), (''message-id'', show_id (ms_id m))]\<rparr>"

text \<open>
  \<open>WriteMessages\<close> of kafka-go, which waits for all replicas: \<open>None\<close> means that the brokers have
  the record. With an error they may have it or not (the flag).
\<close>

type_synonym kafka_write = "kafka_record \<Rightarrow> (error \<times> bool) option"

definition kafka_publish ::
    "(uuid \<Rightarrow> string) \<Rightarrow> kafka_write \<Rightarrow> outbox_message \<Rightarrow> kafka_record list
       \<Rightarrow> unit result \<times> kafka_record list" where
  "kafka_publish show_id write m sent =
     (case write (kafka_record_of show_id m) of
        None \<Rightarrow> (Inr (), sent @ [kafka_record_of show_id m])
      | Some (e, stored) \<Rightarrow>
          (Inl (wrap ''publish outbox message: '' e),
           if stored then sent @ [kafka_record_of show_id m] else sent))"


section \<open>What the repository does\<close>

text \<open>Updates that keep the content of every row.\<close>

lemma om_content_update:
  "(\<And>r. om_content (g r) = om_content r) \<Longrightarrow> map om_content (update_where P g rows) = map om_content rows"
  by (rule map_update_where)

lemma content_id: "om_content r = (i, t, k, p) \<Longrightarrow> om_id r = i"
  by (simp add: om_content_def)

lemma om_id_content: "map om_id rows = map fst (map om_content rows)"
  by (simp add: om_content_def)

lemma lock_row_simps [simp]:
  "om_id (lock_row now w l r) = om_id r" "om_content (lock_row now w l r) = om_content r"
  "om_published_at (lock_row now w l r) = om_published_at r"
  "om_locked_by (lock_row now w l r) = Some w"
  "om_locked_until (lock_row now w l r) = Some (now + interval l)"
  "om_attempts (lock_row now w l r) = om_attempts r + 1"
  "om_available_at (lock_row now w l r) = om_available_at r"
  by (simp_all add: lock_row_def om_content_def)

lemma message_of_simps [simp]:
  "ms_id (message_of r) = om_id r" "ms_content (message_of r) = om_content r"
  "ms_attempts (message_of r) = om_attempts r"
  by (simp_all add: message_of_def ms_content_def om_content_def)

lemma lock_loop_result:
  assumes "lock_loop f now w lease ms rows = Inr rows'" and "distinct (map ms_id ms)"
  shows "rows' = update_where (\<lambda>r. om_id r \<in> ms_id ` set ms) (lock_row now w lease) rows"
  using assms
proof (induction ms arbitrary: rows)
  case Nil
  then show ?case by (simp add: update_where_def)
next
  case (Cons m ms)
  then have "rows' = update_where (\<lambda>r. om_id r \<in> ms_id ` set ms) (lock_row now w lease)
      (update_where (\<lambda>r. om_id r = ms_id m) (lock_row now w lease) rows)"
    by (simp add: guard_Inr split: if_splits)
  then show ?case using Cons.prems(2) by (auto simp: update_where_def)
qed

lemma ready_rows_mem:
  "r \<in> set (ready_rows now locked limit rows) \<Longrightarrow> r \<in> set rows \<and> message_ready now r"
  by (auto simp: ready_rows_def dest: in_set_takeD)

lemma distinct_ready_rows:
  assumes "distinct (map om_id rows)"
  shows "distinct (map om_id (ready_rows now locked limit rows))"
proof -
  have "distinct (map om_id (filter P rows))" for P using assms by (rule distinct_map_filter)
  then have "distinct (map om_id (sort_key om_keyset (filter P rows)))" for P
    by (metis distinct_map distinct_sort set_sort)
  then show ?thesis by (simp add: ready_rows_def distinct_take flip: take_map)
qed

text \<open>A claim that succeeds: the first ready rows, as they were, and these rows locked.\<close>

lemma claim_messages_Inr:
  assumes "claim_messages f locked now w limit lease rows = (Inr ms, rows')"
    and "distinct (map om_id rows)"
  shows "ms = map message_of (ready_rows now locked limit rows)"
    and "rows' = update_where (\<lambda>r. om_id r \<in> ms_id ` set ms) (lock_row now w lease) rows"
proof -
  have run: "\<exists>rows1. lock_loop f now w lease (map message_of (ready_rows now locked limit rows)) rows = Inr rows1
      \<and> rows' = rows1 \<and> ms = map message_of (ready_rows now locked limit rows)"
    using assms(1)
    by (auto simp: claim_messages_def run_tx_def guard_def dest!: scan_rows_Inr
        split: option.splits sum.splits if_splits prod.splits)
  then show ms: "ms = map message_of (ready_rows now locked limit rows)" by blast
  have "map ms_id ms = map om_id (ready_rows now locked limit rows)" by (simp add: ms comp_def)
  then have "distinct (map ms_id ms)" using distinct_ready_rows [OF assms(2)] by simp
  then show "rows' = update_where (\<lambda>r. om_id r \<in> ms_id ` set ms) (lock_row now w lease) rows"
    using run ms lock_loop_result by blast
qed

lemma claim_messages_Inl:
  "claim_messages f locked now w limit lease rows = (Inl e, rows') \<Longrightarrow> rows' = rows"
  unfolding claim_messages_def by (drule run_tx_atomic)


section \<open>The interface of the publisher\<close>

text \<open>
  What the relay may rely on: a message published without an error has been accepted, and what
  has been accepted stays so. \<open>e\<close> is the outside's choice for one call.
\<close>

locale message_publisher =
  fixes publish :: "'e \<Rightarrow> outbox_message \<Rightarrow> 'k \<Rightarrow> unit result \<times> 'k"
    and accepted :: "uuid \<times> string \<times> string \<times> bytes \<Rightarrow> 'k \<Rightarrow> bool"
  assumes published: "publish e m k = (Inr u, k') \<Longrightarrow> accepted (ms_content m) k'"
    and keeps: "accepted c k \<Longrightarrow> accepted c (snd (publish e m k))"
begin

definition marked_accepted :: "outbox_message_row list \<Rightarrow> 'k \<Rightarrow> bool" where
  "marked_accepted rows k \<longleftrightarrow> (\<forall>r\<in>set rows. om_published_at r \<noteq> None \<longrightarrow> accepted (om_content r) k)"

lemma relay_message_marked:
  assumes "marked_accepted rows k" and "distinct (map om_id rows)"
    and "ms_content m \<in> om_content ` set rows"
    and "relay_message (publish e) env w m (rows, k) = (rows', k')"
  shows "marked_accepted rows' k'"
proof (cases "publish e m k")
  case (Pair res k1)
  have k': "k' = k1" using assms(4) Pair by (auto simp: relay_message_def split: sum.splits)
  have keep: "accepted (om_content r) k'" if "r \<in> set rows" "om_published_at r \<noteq> None" for r
    using assms(1) that keeps [of "om_content r" k e m] Pair by (simp add: marked_accepted_def k')
  show ?thesis
  proof (cases res)
    case (Inl err)
    then show ?thesis using assms(4) Pair keep
      by (auto simp: relay_message_def release_message_def marked_accepted_def set_update_where om_content_def
          split: option.splits if_splits)
  next
    case (Inr u)
    have new: "accepted (om_content r) k'" if "r \<in> set rows" "om_id r = ms_id m" for r
    proof -
      obtain x where x: "x \<in> set rows" "om_content x = ms_content m" using assms(3) by auto
      then have "om_id x = ms_id m" by (simp add: om_content_def ms_content_def)
      then have "r = x" using distinct_keys_eq [OF assms(2) that(1) x(1)] that(2) by simp
      then show ?thesis using published [of e m k u k1] Pair Inr x(2) k' by simp
    qed
    show ?thesis using assms(4) Pair Inr keep new
      by (auto simp: relay_message_def mark_published_def marked_accepted_def set_update_where om_content_def
          owned_def split: option.splits if_splits)
  qed
qed

end

definition content_recorded :: "(uuid \<Rightarrow> string) \<Rightarrow> uuid \<times> string \<times> string \<times> bytes \<Rightarrow> kafka_record list \<Rightarrow> bool" where
  "content_recorded show_id c sent \<longleftrightarrow> (\<exists>m. ms_content m = c \<and> kafka_record_of show_id m \<in> set sent)"

interpretation kafka: message_publisher "kafka_publish show_id" "content_recorded show_id"
  for show_id
proof unfold_locales
  fix e m k u k'
  assume "kafka_publish show_id e m k = (Inr u, k')"
  then show "content_recorded show_id (ms_content m) k'"
    by (auto simp: kafka_publish_def content_recorded_def split: option.splits prod.splits)
next
  fix c k e m
  assume "content_recorded show_id c k"
  then show "content_recorded show_id c (snd (kafka_publish show_id e m k))"
    by (auto simp: kafka_publish_def content_recorded_def split: option.splits prod.splits)
qed

end
