(* ===== verification/EndpointRelay.thy ===== *)
theory EndpointRelay
  imports EndpointOutbox
begin

text \<open>
  Several relays of the endpoint service at work on one outbox, in any order and with any
  failures, relays that stop included: what is published at least once, who holds a message,
  how long a failed message waits, and what a flush without failures does.
\<close>

section \<open>Relays at work\<close>

text \<open>
  The outbox, what Kafka has, the messages that relays hold between their claim and the end of
  their work, and what has been enqueued.
\<close>

record relay_sys =
  rs_rows :: "outbox_message_row list"
  rs_sent :: "kafka_record list"
  rs_held :: "(string \<times> outbox_message) list"
  rs_enqueued :: "(uuid \<times> string \<times> string \<times> bytes) list"

definition init_relays :: relay_sys where
  "init_relays = \<lparr>rs_rows = [], rs_sent = [], rs_held = [], rs_enqueued = []\<rparr>"

inductive rstep :: "(uuid \<Rightarrow> string) \<Rightarrow> relay_sys \<Rightarrow> relay_sys \<Rightarrow> bool" for show_id where
  enqueue: "enqueue f now i topic key (Inr b) (rs_rows s) = Inr (j, rows') \<Longrightarrow>
    rstep show_id s (s\<lparr>rs_rows := rows', rs_enqueued := rs_enqueued s @ [(j, topic, key, b)]\<rparr>)"
| claim: "claim_messages f locked now w limit lease (rs_rows s) = (Inr ms, rows') \<Longrightarrow>
    rstep show_id s (s\<lparr>rs_rows := rows', rs_held := rs_held s @ map (Pair w) ms\<rparr>)"
| work: "rs_held s = xs @ (w, m) # ys \<Longrightarrow>
    relay_message (kafka_publish show_id write) env w m (rs_rows s, rs_sent s) = (rows', sent') \<Longrightarrow>
    rstep show_id s (s\<lparr>rs_rows := rows', rs_sent := sent', rs_held := xs @ ys\<rparr>)"
| crash: "rs_held s = xs @ h # ys \<Longrightarrow> rstep show_id s (s\<lparr>rs_held := xs @ ys\<rparr>)"

inductive rreach :: "(uuid \<Rightarrow> string) \<Rightarrow> relay_sys \<Rightarrow> bool" for show_id where
  init: "rreach show_id init_relays"
| step: "rreach show_id s \<Longrightarrow> rstep show_id s t \<Longrightarrow> rreach show_id t"

definition relay_inv :: "(uuid \<Rightarrow> string) \<Rightarrow> relay_sys \<Rightarrow> bool" where
  "relay_inv show_id s \<longleftrightarrow>
     map om_content (rs_rows s) = rs_enqueued s
     \<and> distinct (map om_id (rs_rows s))
     \<and> kafka.marked_accepted show_id (rs_rows s) (rs_sent s)
     \<and> (\<forall>h\<in>set (rs_held s). ms_content (snd h) \<in> set (rs_enqueued s))
     \<and> (\<forall>k\<in>set (rs_sent s). \<exists>m. ms_content m \<in> set (rs_enqueued s) \<and> k = kafka_record_of show_id m)
     \<and> (\<forall>r\<in>set (rs_rows s). (om_locked_by r = None \<longleftrightarrow> om_locked_until r = None)
          \<and> (om_published_at r \<noteq> None \<longrightarrow> om_locked_by r = None))"

lemma relay_message_content:
  assumes "relay_message publish env w m (rows, sent) = (rows', sent')"
  shows "map om_content rows' = map om_content rows"
proof -
  have "map om_content (update_where P g rows) = map om_content rows"
    if "\<And>r. om_content (g r) = om_content r" for P g using that by (rule om_content_update)
  then show ?thesis using assms
    by (auto simp: relay_message_def release_message_def mark_published_def om_content_def
        split: sum.splits prod.splits option.splits)
qed

lemma relay_message_locks:
  assumes "relay_message publish env w m (rows, sent) = (rows', sent')"
    and "\<forall>r\<in>set rows. (om_locked_by r = None \<longleftrightarrow> om_locked_until r = None)
          \<and> (om_published_at r \<noteq> None \<longrightarrow> om_locked_by r = None)"
  shows "\<forall>r\<in>set rows'. (om_locked_by r = None \<longleftrightarrow> om_locked_until r = None)
          \<and> (om_published_at r \<noteq> None \<longrightarrow> om_locked_by r = None)"
  using assms by (auto simp: relay_message_def release_message_def mark_published_def set_update_where
      split: sum.splits prod.splits option.splits)

lemma distinct_ids_content:
  "map om_content rows' = map om_content rows \<Longrightarrow> distinct (map om_id rows) \<Longrightarrow> distinct (map om_id rows')"
  by (simp only: om_id_content)

lemma enqueue_inv:
  assumes "relay_inv show_id s" and "enqueue f now i topic key (Inr b) (rs_rows s) = Inr (j, rows')"
  shows "relay_inv show_id (s\<lparr>rs_rows := rows', rs_enqueued := rs_enqueued s @ [(j, topic, key, b)]\<rparr>)"
proof -
  from assms(2) have "i \<notin> om_id ` set (rs_rows s)" "j = i"
    and "rows' = rs_rows s @ [new_message_row now i topic key b]"
    by (auto simp: enqueue_def split: option.splits if_splits)
  then show ?thesis using assms(1)
    by (fastforce simp: relay_inv_def new_message_row_def om_content_def kafka.marked_accepted_def)
qed

lemma claim_inv:
  assumes "relay_inv show_id s"
    and "claim_messages f locked now w limit lease (rs_rows s) = (Inr ms, rows')"
  shows "relay_inv show_id (s\<lparr>rs_rows := rows', rs_held := rs_held s @ map (Pair w) ms\<rparr>)"
proof -
  have d: "distinct (map om_id (rs_rows s))" and c: "map om_content (rs_rows s) = rs_enqueued s"
    using assms(1) by (simp_all add: relay_inv_def)
  note claim = claim_messages_Inr [OF assms(2) d]
  have ready: "message_ready now r" if "r \<in> set (rs_rows s)" "om_id r \<in> ms_id ` set ms" for r
  proof -
    from that(2) obtain x where x: "x \<in> set (ready_rows now locked limit (rs_rows s))" "om_id x = om_id r"
      by (auto simp: claim(1))
    then have "x = r" using distinct_keys_eq [OF d _ that(1)] ready_rows_mem by metis
    then show ?thesis using ready_rows_mem [OF x(1)] by simp
  qed
  have content: "map om_content rows' = rs_enqueued s"
    unfolding claim(2) using c by (simp add: om_content_update)
  have held: "ms_content m \<in> set (rs_enqueued s)" if "m \<in> set ms" for m
    using that ready_rows_mem by (auto simp: claim(1) simp flip: c)
  have "kafka.marked_accepted show_id rows' (rs_sent s)"
    using assms(1) by (auto simp: relay_inv_def kafka.marked_accepted_def claim(2) set_update_where)
  moreover have "\<forall>r\<in>set rows'. (om_locked_by r = None \<longleftrightarrow> om_locked_until r = None)
          \<and> (om_published_at r \<noteq> None \<longrightarrow> om_locked_by r = None)"
    using assms(1) ready by (auto simp: relay_inv_def claim(2) set_update_where message_ready_def)
  ultimately show ?thesis
    using assms(1) content held distinct_ids_content [of rows' "rs_rows s"] c d
    by (auto simp: relay_inv_def)
qed

lemma work_inv:
  assumes "relay_inv show_id s" and "rs_held s = xs @ (w, m) # ys"
    and "relay_message (kafka_publish show_id write) env w m (rs_rows s, rs_sent s) = (rows', sent')"
  shows "relay_inv show_id (s\<lparr>rs_rows := rows', rs_sent := sent', rs_held := xs @ ys\<rparr>)"
proof -
  have d: "distinct (map om_id (rs_rows s))" and c: "map om_content (rs_rows s) = rs_enqueued s"
    and locks: "\<forall>r\<in>set (rs_rows s). (om_locked_by r = None \<longleftrightarrow> om_locked_until r = None)
          \<and> (om_published_at r \<noteq> None \<longrightarrow> om_locked_by r = None)"
    and held: "ms_content m \<in> set (rs_enqueued s)"
    using assms(1,2) by (auto simp: relay_inv_def)
  have content: "map om_content rows' = rs_enqueued s"
    using relay_message_content [OF assms(3)] c by simp
  have "ms_content m \<in> om_content ` set (rs_rows s)" using held c by (metis list.set_map)
  then have marked: "kafka.marked_accepted show_id rows' sent'"
    using kafka.relay_message_marked [OF _ d _ assms(3)] assms(1) by (simp add: relay_inv_def)
  have "k \<in> set (rs_sent s) \<or> k = kafka_record_of show_id m" if "k \<in> set sent'" for k
    using assms(3) that
    by (auto simp: relay_message_def kafka_publish_def split: sum.splits prod.splits option.splits if_splits)
  then have "\<forall>k\<in>set sent'. \<exists>m. ms_content m \<in> set (rs_enqueued s) \<and> k = kafka_record_of show_id m"
    using assms(1) held by (metis relay_inv_def)
  then show ?thesis
    using assms(1,2) content marked relay_message_locks [OF assms(3) locks]
      distinct_ids_content [of rows' "rs_rows s"] c d
    by (auto simp: relay_inv_def)
qed

lemma rstep_inv: "rstep show_id s t \<Longrightarrow> relay_inv show_id s \<Longrightarrow> relay_inv show_id t"
proof (induction rule: rstep.induct)
  case (crash s xs h ys)
  then show ?case by (auto simp: relay_inv_def)
qed (simp_all add: enqueue_inv claim_inv work_inv)

lemma rreach_inv: "rreach show_id s \<Longrightarrow> relay_inv show_id s"
proof (induction rule: rreach.induct)
  case init
  then show ?case by (simp add: relay_inv_def init_relays_def kafka.marked_accepted_def)
next
  case (step s t)
  then show ?case by (blast intro: rstep_inv)
qed


section \<open>Properties\<close>

text \<open>
  C27. Whatever calls fail, however claims, publications and crashes of any number of relays
  interleave: every enqueued message has exactly one row, in the order of enqueueing, with its
  topic, key and payload unchanged; a message marked as published has been written to Kafka
  with exactly these; and Kafka has nothing that was not enqueued.
\<close>

theorem relay_at_least_once:
  assumes "rreach show_id s"
  shows "map om_content (rs_rows s) = rs_enqueued s
    \<and> distinct (map om_id (rs_rows s))
    \<and> (\<forall>r\<in>set (rs_rows s). om_published_at r \<noteq> None \<longrightarrow>
         (\<exists>m. ms_content m = om_content r \<and> kafka_record_of show_id m \<in> set (rs_sent s)))
    \<and> (\<forall>k\<in>set (rs_sent s). \<exists>m. ms_content m \<in> set (rs_enqueued s) \<and> k = kafka_record_of show_id m)"
  using rreach_inv [OF assms]
  by (simp add: relay_inv_def kafka.marked_accepted_def content_recorded_def)

definition example_message_row :: outbox_message_row where
  "example_message_row = new_message_row 1000 5 ''t'' ''k'' ''{}''"

definition example_enqueued :: relay_sys where
  "example_enqueued = \<lparr>rs_rows = [example_message_row], rs_sent = [], rs_held = [],
     rs_enqueued = [(5, ''t'', ''k'', ''{}'')]\<rparr>"

definition example_locked_row :: outbox_message_row where
  "example_locked_row = lock_row 2000 ''relay'' (seconds 30) example_message_row"

definition example_relay_env :: relay_env where
  "example_relay_env = \<lparr>rl_release = None, rl_mark = None, rl_now = 3000, rl_impl = (\<lambda>_. 0)\<rparr>"

definition example_published_row :: outbox_message_row where
  "example_published_row = example_locked_row\<lparr>om_published_at := Some 3000, om_locked_by := None,
     om_locked_until := None\<rparr>"

lemmas example_relay_defs = example_message_row_def example_locked_row_def example_published_row_def
  example_relay_env_def new_message_row_def lock_row_def interval_def message_of_def

lemma example_claim_message:
  "claim_messages no_faults (\<lambda>_. False) 2000 ''relay'' 100 (seconds 30) [example_message_row]
     = (Inr [message_of example_message_row], [example_locked_row])"
  by (simp add: claim_messages_def run_tx_def ready_rows_def message_ready_def example_relay_defs)

lemma example_relay_message:
  "relay_message (kafka_publish show_decimal (\<lambda>_. None)) example_relay_env ''relay''
      (message_of example_message_row) ([example_locked_row], [])
    = ([example_published_row], [kafka_record_of show_decimal (message_of example_message_row)])"
  by (simp add: relay_message_def kafka_publish_def mark_published_def owned_def example_relay_defs)

lemma example_published_reach:
  "rreach show_decimal \<lparr>rs_rows = [example_published_row],
     rs_sent = [kafka_record_of show_decimal (message_of example_message_row)], rs_held = [],
     rs_enqueued = [(5, ''t'', ''k'', ''{}'')]\<rparr>"
proof -
  have "rstep show_decimal init_relays example_enqueued"
    using rstep.enqueue [of None 1000 5 "''t''" "''k''" "''{}''" init_relays 5 "[example_message_row]"]
    by (simp add: enqueue_def init_relays_def example_enqueued_def example_message_row_def)
  then have r1: "rreach show_decimal example_enqueued" by (rule rreach.step [OF rreach.init])
  let ?c = "example_enqueued\<lparr>rs_rows := [example_locked_row],
      rs_held := [(''relay'', message_of example_message_row)]\<rparr>"
  have "rstep show_decimal example_enqueued ?c"
    using rstep.claim [of no_faults "\<lambda>_. False" 2000 "''relay''" 100 "seconds 30" example_enqueued
        "[message_of example_message_row]" "[example_locked_row]" show_decimal]
      example_claim_message by (simp add: example_enqueued_def)
  then have r2: "rreach show_decimal ?c" by (rule rreach.step [OF r1])
  have "rstep show_decimal ?c \<lparr>rs_rows = [example_published_row],
     rs_sent = [kafka_record_of show_decimal (message_of example_message_row)], rs_held = [],
     rs_enqueued = [(5, ''t'', ''k'', ''{}'')]\<rparr>"
    using rstep.work [of ?c "[]" "''relay''" "message_of example_message_row" "[]" show_decimal "\<lambda>_. None"
        example_relay_env "[example_published_row]"
        "[kafka_record_of show_decimal (message_of example_message_row)]"] example_relay_message
    by (simp add: example_enqueued_def)
  then show ?thesis by (rule rreach.step [OF r2])
qed

theorem relay_at_least_once_witness:
  "\<exists>m. ms_content m = om_content example_published_row
     \<and> kafka_record_of show_decimal m \<in> set [kafka_record_of show_decimal (message_of example_message_row)]"
proof -
  have "om_published_at example_published_row \<noteq> None" by (simp add: example_published_row_def)
  then show ?thesis using relay_at_least_once [OF example_published_reach] by (metis (lifting) list.set_intros(1) relay_sys.select_convs(1,2))
qed

text \<open>
  A claim of the outbox that succeeds returns at most \<open>limit\<close> messages, each once, in the
  order of their creation, all ready; and a second claim, by whatever relay, before the lease
  of the first one ends, returns none of them.
\<close>

lemma relay_claims_disjoint:
  assumes "claim_messages f locked now w limit lease rows = (Inr ms, rows1)"
    and "claim_messages g locked2 now2 w2 limit2 lease2 rows1 = (Inr ms2, rows2)"
    and "distinct (map om_id rows)" and "now2 \<le> now + interval lease"
  shows "length ms \<le> nat limit \<and> distinct (map ms_id ms)
    \<and> ms_id ` set ms \<subseteq> om_id ` {r \<in> set rows. message_ready now r}
    \<and> sorted (map om_keyset (ready_rows now locked limit rows)) \<and> ms = map message_of (ready_rows now locked limit rows)
    \<and> ms_id ` set ms \<inter> ms_id ` set ms2 = {}"
proof -
  note c1 = claim_messages_Inr [OF assms(1,3)]
  have d1: "distinct (map om_id rows1)"
    using assms(3) unfolding c1(2) by (simp add: map_update_where)
  note c2 = claim_messages_Inr [OF assms(2) d1]
  have "om_id r \<notin> ms_id ` set ms" if "r \<in> set (ready_rows now2 locked2 limit2 rows1)" for r
  proof
    assume i: "om_id r \<in> ms_id ` set ms"
    from ready_rows_mem [OF that] have r: "r \<in> set rows1" "message_ready now2 r" by simp_all
    then obtain x where "x \<in> set rows" "r = (if om_id x \<in> ms_id ` set ms then lock_row now w lease x else x)"
      by (auto simp: c1(2) set_update_where)
    then have "om_locked_until r = Some (now + interval lease)" using i by (auto split: if_splits)
    then show False using r(2) assms(4) by (simp add: message_ready_def)
  qed
  then have "ms_id ` set ms \<inter> ms_id ` set ms2 = {}" by (force simp: c2(1))
  moreover have "sorted (map om_keyset (ready_rows now locked limit rows))"
    by (simp add: ready_rows_def sorted_wrt_take flip: take_map)
  moreover have "length ms \<le> nat limit" by (simp add: c1(1) ready_rows_def)
  moreover have "distinct (map ms_id ms)" using distinct_ready_rows [OF assms(3)] by (simp add: c1(1) comp_def)
  moreover have "ms_id ` set ms \<subseteq> om_id ` {r \<in> set rows. message_ready now r}"
    using ready_rows_mem by (fastforce simp: c1(1))
  ultimately show ?thesis using c1(1) by blast
qed

lemma relay_claims_disjoint_example:
  "claim_messages no_faults (\<lambda>_. False) 2500 ''other'' 100 (seconds 30) [example_locked_row]
     = (Inr [], [example_locked_row])
   \<and> ms_id ` set [message_of example_message_row] \<inter> ms_id ` set ([] :: outbox_message list) = {}"
proof -
  have two: "claim_messages no_faults (\<lambda>_. False) 2500 ''other'' 100 (seconds 30) [example_locked_row]
     = (Inr [], [example_locked_row])"
    by (simp add: claim_messages_def run_tx_def ready_rows_def message_ready_def example_relay_defs)
  have d: "distinct (map om_id [example_message_row])" by simp
  have t: "(2500 :: time) \<le> 2000 + interval (seconds 30)" by (simp add: interval_def)
  show ?thesis using two relay_claims_disjoint [OF example_claim_message two d t] by blast
qed

text \<open>
  When the publication of a claimed message fails and the release succeeds, the message is
  unlocked with its attempt counted and becomes ready again exactly after the relay's delay:
  with \<open>n\<close> attempts before this one, \<open>2 ^ (n - 1)\<close> seconds (1 second for \<open>n = 0\<close>) and never more
  than 300. The delay goes by the count before the claim, so the first two delays are the same.
\<close>

lemma failed_message_waits:
  assumes "claim_messages f locked now w limit lease rows = (Inr ms, rows1)"
    and "distinct (map om_id rows)" and "m \<in> set ms"
    and "publish m sent = (Inl err, sent1)" and "rl_release env = None"
    and "delay = (if ms_attempts m \<le> 9 then 2 ^ nat (max 1 (ms_attempts m) - 1) else 300) * 1000000000"
  shows "\<exists>rows2 r. relay_message publish env w m (rows1, sent) = (rows2, sent1)
    \<and> r \<in> set rows2 \<and> om_id r = ms_id m \<and> om_attempts r = ms_attempts m + 1
    \<and> om_locked_by r = None \<and> om_published_at r = None
    \<and> (\<forall>t. message_ready t r \<longleftrightarrow> rl_now env + delay \<le> t)"
proof -
  note claim = claim_messages_Inr [OF assms(1,2)]
  from assms(3) obtain x where x: "x \<in> set rows" "message_ready now x" "m = message_of x"
    by (auto simp: claim(1) dest: ready_rows_mem)
  let ?g = "\<lambda>r. r\<lparr>om_available_at := rl_now env + delay, om_locked_by := None, om_locked_until := None\<rparr>"
  have "interval delay = delay" by (simp add: assms(6) interval_def)
  moreover have "sint (retry_delay (rl_impl env) (ms_attempts m)) = delay"
    by (simp add: retry_delay_exact assms(6))
  ultimately have "relay_message publish env w m (rows1, sent)
      = (update_where (owned (ms_id m) w) ?g rows1, sent1)"
    using assms(4,5) by (simp add: relay_message_def release_message_def)
  moreover have "lock_row now w lease x \<in> set rows1"
    using x assms(3) by (force simp: claim(2) set_update_where)
  then have "?g (lock_row now w lease x) \<in> set (update_where (owned (ms_id m) w) ?g rows1)"
    by (force simp: set_update_where owned_def x(3))
  moreover have "message_ready t (?g (lock_row now w lease x)) \<longleftrightarrow> rl_now env + delay \<le> t" for t
    using x(2) by (simp add: message_ready_def)
  moreover have "om_published_at x = None" using x(2) by (simp add: message_ready_def)
  ultimately show ?thesis using x(3) by (intro exI conjI) (assumption | simp)+
qed

lemma failed_message_waits_example:
  "\<exists>rows2 r. relay_message (kafka_publish show_decimal (\<lambda>_. Some (Msg ''down'', False))) example_relay_env ''relay''
      (message_of example_message_row) ([example_locked_row], []) = (rows2, [])
    \<and> r \<in> set rows2 \<and> om_attempts r = 1 \<and> message_ready 1000003000 r \<and> \<not> message_ready 1000002999 r"
proof -
  have d: "distinct (map om_id [example_message_row])"
    and m: "message_of example_message_row \<in> set [message_of example_message_row]"
    and rel: "rl_release example_relay_env = None" by (simp_all add: example_relay_env_def)
  have pub: "kafka_publish show_decimal (\<lambda>_. Some (Msg ''down'', False)) (message_of example_message_row) []
      = (Inl (wrap ''publish outbox message: '' (Msg ''down'')), [])" by (simp add: kafka_publish_def)
  have at: "ms_attempts (message_of example_message_row) = 0" and nw: "rl_now example_relay_env = 3000"
    by (simp_all add: example_relay_defs)
  from failed_message_waits [where publish = "kafka_publish show_decimal (\<lambda>_. Some (Msg ''down'', False))",
      OF example_claim_message d m pub rel refl]
  show ?thesis unfolding at nw by (elim exE conjE) (intro exI conjI, assumption+, simp_all)
qed

section \<open>A flush without failures\<close>

lemma lock_loop_ok:
  assumes "list_all (\<lambda>m. ms_attempts m < 2147483647) ms"
  shows "\<exists>rows'. lock_loop no_faults now w lease ms rows = Inr rows'"
  using assms by (induction ms arbitrary: rows) auto

lemma relay_messages_ok:
  assumes "list_all (\<lambda>m. rl_mark (envs (ms_id m)) = None) ms" and "distinct (map ms_id ms)"
    and "\<And>r. r \<in> set rows \<Longrightarrow> om_id r \<in> ms_id ` set ms \<Longrightarrow> om_locked_by r = Some w"
  shows "relay_messages (kafka_publish show_id (\<lambda>_. None)) envs w ms (rows, sent)
     = (update_where (\<lambda>r. om_id r \<in> ms_id ` set ms)
          (\<lambda>r. r\<lparr>om_published_at := Some (rl_now (envs (om_id r))), om_locked_by := None, om_locked_until := None\<rparr>)
          rows, sent @ map (kafka_record_of show_id) ms)"
  using assms
proof (induction ms arbitrary: rows sent)
  case Nil
  then show ?case by (simp add: update_where_def)
next
  case (Cons m ms)
  let ?g = "\<lambda>r. r\<lparr>om_published_at := Some (rl_now (envs (om_id r))), om_locked_by := None, om_locked_until := None\<rparr>"
  have one: "relay_message (kafka_publish show_id (\<lambda>_. None)) (envs (ms_id m)) w m (rows, sent)
      = (update_where (\<lambda>r. om_id r = ms_id m) ?g rows, sent @ [kafka_record_of show_id m])"
    using Cons.prems(1,3)
    by (auto simp: relay_message_def kafka_publish_def mark_published_def update_where_def owned_def)
  have "om_locked_by r = Some w"
    if "r \<in> set (update_where (\<lambda>r. om_id r = ms_id m) ?g rows)" "om_id r \<in> ms_id ` set ms" for r
  proof -
    from that(1) obtain x where x: "x \<in> set rows" "r = (if om_id x = ms_id m then ?g x else x)"
      by (auto simp: set_update_where)
    then have "om_id x \<noteq> ms_id m" using that(2) Cons.prems(2) by (auto split: if_splits)
    then show ?thesis using x that(2) Cons.prems(3) by simp
  qed
  note IH = Cons.IH [OF _ _ this]
  have "update_where (\<lambda>r. om_id r \<in> ms_id ` set ms) ?g (update_where (\<lambda>r. om_id r = ms_id m) ?g rows)
      = update_where (\<lambda>r. om_id r \<in> ms_id ` set (m # ms)) ?g rows"
    by (auto simp: update_where_def)
  then show ?case using IH Cons.prems(1,2) by (simp add: one)
qed

text \<open>The first \<open>batch\<close> ready messages are written, oldest first, and marked; no other row changes.\<close>

definition done_row :: "time \<Rightarrow> string \<Rightarrow> duration \<Rightarrow> (uuid \<Rightarrow> relay_env) \<Rightarrow> outbox_message_row \<Rightarrow> outbox_message_row" where
  "done_row now w lease envs r = (lock_row now w lease r)
     \<lparr>om_published_at := Some (rl_now (envs (om_id r))), om_locked_by := None, om_locked_until := None\<rparr>"

lemma done_row_simps [simp]:
  "om_id (done_row now w lease envs r) = om_id r"
  "om_content (done_row now w lease envs r) = om_content r"
  "om_published_at (done_row now w lease envs r) = Some (rl_now (envs (om_id r)))"
  "om_locked_by (done_row now w lease envs r) = None"
  by (simp_all add: done_row_def om_content_def lock_row_def)

lemma flush_exact:
  assumes "distinct (map om_id rows)" and "0 \<le> re_batch rl"
    and "ready = ready_rows now (\<lambda>_. False) (re_batch rl) rows"
    and "list_all (\<lambda>r. om_attempts r < 2147483647) ready"
    and "list_all (\<lambda>r. rl_mark (envs (om_id r)) = None) ready"
  shows "flush (kafka_publish show_id (\<lambda>_. None)) no_faults (\<lambda>_. False) now envs rl (rows, sent)
      = (update_where (\<lambda>r. om_id r \<in> om_id ` set ready) (done_row now (re_worker rl) (re_lease rl) envs) rows,
         sent @ map (kafka_record_of show_id) (map message_of ready))"
proof -
  let ?ms = "map message_of ready" and ?w = "re_worker rl"
  have ids: "ms_id ` set ?ms = om_id ` set ready" by force
  have "\<exists>rows1. lock_loop no_faults now ?w (re_lease rl) ?ms rows = Inr rows1"
    using assms(4) by (intro lock_loop_ok) (simp add: list_all_iff)
  then obtain rows1 where claim: "claim_messages no_faults (\<lambda>_. False) now ?w (re_batch rl) (re_lease rl) rows
      = (Inr ?ms, rows1)"
    using assms(2,3) by (auto simp: claim_messages_def run_tx_def)
  note locked = claim_messages_Inr(2) [OF claim assms(1), unfolded ids]
  have d: "distinct (map ms_id ?ms)"
    using distinct_ready_rows [OF assms(1)] by (simp add: assms(3) comp_def)
  have "om_locked_by r = Some ?w" if "r \<in> set rows1" "om_id r \<in> ms_id ` set ?ms" for r
    using that by (auto simp: locked set_update_where ids)
  from relay_messages_ok [OF _ d this, where envs = envs and show_id = show_id and sent = sent] assms(5)
  show ?thesis
    by (simp add: flush_def claim image_image list_all_iff locked)
      (auto simp: update_where_def done_row_def)
qed

lemma flush_publishes_ready:
  assumes "distinct (map om_id rows)" and "0 \<le> re_batch rl"
    and "ready = ready_rows now (\<lambda>_. False) (re_batch rl) rows"
    and "list_all (\<lambda>r. om_attempts r < 2147483647) ready"
    and "list_all (\<lambda>r. rl_mark (envs (om_id r)) = None) ready"
  shows "\<exists>rows'. flush (kafka_publish show_id (\<lambda>_. None)) no_faults (\<lambda>_. False) now envs rl (rows, sent)
      = (rows', sent @ map (kafka_record_of show_id) (map message_of ready))
    \<and> map om_content rows' = map om_content rows
    \<and> (\<forall>r\<in>set ready. \<exists>r'\<in>set rows'. om_id r' = om_id r \<and> om_published_at r' \<noteq> None \<and> om_locked_by r' = None)
    \<and> (\<forall>r\<in>set rows. om_id r \<notin> om_id ` set ready \<longrightarrow> r \<in> set rows')"
proof -
  let ?rows' = "update_where (\<lambda>r. om_id r \<in> om_id ` set ready) (done_row now (re_worker rl) (re_lease rl) envs) rows"
  have "done_row now (re_worker rl) (re_lease rl) envs r \<in> set ?rows'" if "r \<in> set ready" for r
    using that ready_rows_mem by (force simp: assms(3) set_update_where)
  then have "\<exists>r'\<in>set ?rows'. om_id r' = om_id r \<and> om_published_at r' \<noteq> None \<and> om_locked_by r' = None"
    if "r \<in> set ready" for r
    using that by (intro bexI [of _ "done_row now (re_worker rl) (re_lease rl) envs r"]) simp_all
  moreover have "r \<in> set ?rows'" if "r \<in> set rows" "om_id r \<notin> om_id ` set ready" for r
    using that by (force simp: set_update_where)
  ultimately show ?thesis by (simp add: flush_exact [OF assms] om_content_update)
qed

lemma flush_publishes_ready_example:
  "\<exists>rows'. flush (kafka_publish show_decimal (\<lambda>_. None)) no_faults (\<lambda>_. False) 2000 (\<lambda>_. example_relay_env)
      \<lparr>re_worker = ''relay'', re_batch = 100, re_lease = seconds 30\<rparr> ([example_message_row], [])
    = (rows', [kafka_record_of show_decimal (message_of example_message_row)])
    \<and> (\<exists>r\<in>set rows'. om_published_at r \<noteq> None)"
proof -
  let ?rl = "\<lparr>re_worker = ''relay'', re_batch = 100, re_lease = seconds 30\<rparr>"
  have d: "distinct (map om_id [example_message_row])" and b: "0 \<le> re_batch ?rl" by simp_all
  have rd: "[example_message_row] = ready_rows 2000 (\<lambda>_. False) (re_batch ?rl) [example_message_row]"
    by (simp add: ready_rows_def message_ready_def example_relay_defs)
  have n: "list_all (\<lambda>r. om_attempts r < 2147483647) [example_message_row]"
    and e: "list_all (\<lambda>r. rl_mark example_relay_env = None) [example_message_row]"
    by (simp_all add: example_relay_defs)
  show ?thesis using flush_publishes_ready [OF d b rd n e, of show_decimal "[]"] by fastforce
qed

end
