(* ===== verification/RelayRun.thy ===== *)
theory RelayRun
  imports EndpointRelay
begin

text \<open>
  The loop \<open>Relay.Run\<close> of endpoint-service/internal/outbox/relay.go: a flush at every tick until
  the context is done. Every run is a sequence of the steps of EndpointRelay, so what holds of
  all their interleavings holds of the loop; and ticks without failures publish everything that
  was ready.
\<close>

section \<open>The loop\<close>

text \<open>What a tick takes from outside, and the two cases of the \<open>select\<close>.\<close>

record relay_tick =
  tk_faults :: "outbox_claim_call faults"
  tk_locked :: "uuid \<Rightarrow> bool"
  tk_now :: time
  tk_write :: kafka_write
  tk_envs :: "uuid \<Rightarrow> relay_env"

datatype relay_signal = Relay_Done | Relay_Tick relay_tick

definition tick_flush ::
    "(uuid \<Rightarrow> string) \<Rightarrow> relay \<Rightarrow> relay_tick \<Rightarrow> outbox_message_row list \<times> kafka_record list
       \<Rightarrow> outbox_message_row list \<times> kafka_record list" where
  "tick_flush show_id rl t =
     flush (kafka_publish show_id (tk_write t)) (tk_faults t) (tk_locked t) (tk_now t) (tk_envs t) rl"

fun relay_run ::
    "(uuid \<Rightarrow> string) \<Rightarrow> relay \<Rightarrow> relay_signal list \<Rightarrow> outbox_message_row list \<times> kafka_record list
       \<Rightarrow> outbox_message_row list \<times> kafka_record list" where
  "relay_run show_id rl [] s = s"
| "relay_run show_id rl (Relay_Done # ss) s = s"
| "relay_run show_id rl (Relay_Tick t # ss) s = relay_run show_id rl ss (tick_flush show_id rl t s)"

section \<open>A run is a sequence of steps\<close>

lemma relay_messages_reach:
  assumes "rreach show_id s" and "rs_held s = xs @ map (Pair w) ms"
  shows "\<exists>s'. rreach show_id s'
    \<and> (rs_rows s', rs_sent s') = relay_messages (kafka_publish show_id write) envs w ms (rs_rows s, rs_sent s)
    \<and> rs_held s' = xs \<and> rs_enqueued s' = rs_enqueued s"
  using assms
proof (induction ms arbitrary: s)
  case Nil
  then show ?case by auto
next
  case (Cons m ms)
  obtain rows' sent' where one: "relay_message (kafka_publish show_id write) (envs (ms_id m)) w m
      (rs_rows s, rs_sent s) = (rows', sent')" by fastforce
  let ?t = "s\<lparr>rs_rows := rows', rs_sent := sent', rs_held := xs @ map (Pair w) ms\<rparr>"
  from rstep.work [OF _ one, of xs "map (Pair w) ms"] Cons.prems(2)
  have "rreach show_id ?t" by (auto intro: rreach.step [OF Cons.prems(1)])
  from Cons.IH [OF this] show ?case by (simp add: one)
qed

lemma flush_reach:
  assumes "rreach show_id s"
  shows "\<exists>s'. rreach show_id s' \<and> (rs_rows s', rs_sent s') = tick_flush show_id rl t (rs_rows s, rs_sent s)
    \<and> rs_held s' = rs_held s \<and> rs_enqueued s' = rs_enqueued s"
proof -
  obtain res rows' where claim: "claim_messages (tk_faults t) (tk_locked t) (tk_now t) (re_worker rl)
      (re_batch rl) (re_lease rl) (rs_rows s) = (res, rows')" by fastforce
  show ?thesis
  proof (cases res)
    case (Inl e)
    then have "rows' = rs_rows s" using claim claim_messages_Inl by blast
    then show ?thesis using assms claim Inl by (auto simp: tick_flush_def flush_def)
  next
    case (Inr ms)
    let ?s = "s\<lparr>rs_rows := rows', rs_held := rs_held s @ map (Pair (re_worker rl)) ms\<rparr>"
    have "rreach show_id ?s" using rstep.claim [OF claim [unfolded Inr]] by (rule rreach.step [OF assms])
    from relay_messages_reach [OF this, of "rs_held s" "re_worker rl" ms] show ?thesis
      by (simp add: tick_flush_def flush_def claim Inr)
  qed
qed

lemma relay_run_reach:
  assumes "rreach show_id s"
  shows "\<exists>s'. rreach show_id s' \<and> (rs_rows s', rs_sent s') = relay_run show_id rl ss (rs_rows s, rs_sent s)
    \<and> rs_held s' = rs_held s \<and> rs_enqueued s' = rs_enqueued s"
  using assms
proof (induction ss arbitrary: s)
  case Nil
  then show ?case by auto
next
  case (Cons x ss)
  show ?case
  proof (cases x)
    case Relay_Done
    then show ?thesis using Cons.prems by auto
  next
    case (Relay_Tick t)
    from flush_reach [OF Cons.prems, of rl t] obtain s1 where s1: "rreach show_id s1"
      "(rs_rows s1, rs_sent s1) = tick_flush show_id rl t (rs_rows s, rs_sent s)"
      "rs_held s1 = rs_held s" "rs_enqueued s1 = rs_enqueued s" by blast
    from Cons.IH [OF s1(1)] show ?thesis using s1(2-4) by (simp add: Relay_Tick)
  qed
qed

section \<open>Ticks without failures\<close>

definition tick_ok :: "relay_tick \<Rightarrow> bool" where
  "tick_ok t \<longleftrightarrow> tk_faults t = no_faults \<and> tk_locked t = (\<lambda>_. False) \<and> tk_write t = (\<lambda>_. None)
     \<and> (\<forall>i. rl_mark (tk_envs t i) = None)"

definition waiting :: "outbox_message_row list \<Rightarrow> outbox_message_row list" where
  "waiting rows = filter (\<lambda>r. om_published_at r = None) rows"

definition published_id :: "uuid \<Rightarrow> outbox_message_row list \<Rightarrow> bool" where
  "published_id i rows \<longleftrightarrow> (\<exists>r\<in>set rows. om_id r = i \<and> om_published_at r \<noteq> None)"

text \<open>One tick: what was waiting and is among the first ready messages is published, the rest waits on.\<close>

lemma waiting_done:
  assumes "ready \<subseteq> set (waiting rows)" and "distinct (map om_id rows)"
  shows "waiting (update_where (\<lambda>r. om_id r \<in> om_id ` ready) (done_row now w lease envs) rows)
    = filter (\<lambda>r. r \<notin> ready) (waiting rows)"
proof -
  have same: "r \<in> ready" if "r \<in> set rows" "om_id r \<in> om_id ` ready" for r
  proof -
    from that(2) obtain x where x: "x \<in> ready" "om_id r = om_id x" by blast
    then have "x \<in> set rows" using assms(1) by (auto simp: waiting_def)
    then show ?thesis using distinct_keys_eq [OF assms(2) that(1) _ x(2)] x(1) by simp
  qed
  have "filter (\<lambda>r. om_published_at r = None)
      (map (\<lambda>r. if om_id r \<in> om_id ` ready then done_row now w lease envs r else r) xs)
    = filter (\<lambda>r. r \<notin> ready) (filter (\<lambda>r. om_published_at r = None) xs)" if "set xs \<subseteq> set rows" for xs
    using that by (induction xs) (auto dest: same)
  then show ?thesis by (simp add: waiting_def update_where_def)
qed

lemma length_filter_notin:
  assumes "set ys \<subseteq> set xs" and "distinct ys" and "distinct xs"
  shows "length (filter (\<lambda>x. x \<notin> set ys) xs) = length xs - length ys"
proof -
  have "set (filter (\<lambda>x. x \<notin> set ys) xs) = set xs - set ys" by auto
  then show ?thesis
    using assms by (metis card_Diff_subset distinct_card distinct_filter finite_set)
qed

lemma tick_progress:
  assumes "distinct (map om_id rows)" and "tick_ok t" and "0 \<le> re_batch rl"
    and "list_all (\<lambda>r. om_attempts r < 2147483647) (waiting rows)"
    and "tick_flush show_id rl t (rows, sent) = (rows', sent')"
  shows "waiting rows' = filter (\<lambda>r. r \<notin> set (ready_rows (tk_now t) (\<lambda>_. False) (re_batch rl) rows)) (waiting rows)"
    and "map om_id rows' = map om_id rows"
    and "sent' = sent @ map (kafka_record_of show_id) (map message_of (ready_rows (tk_now t) (\<lambda>_. False) (re_batch rl) rows))"
proof -
  let ?ready = "ready_rows (tk_now t) (\<lambda>_. False) (re_batch rl) rows"
  have sub: "set ?ready \<subseteq> set (waiting rows)"
    using ready_rows_mem by (fastforce simp: waiting_def message_ready_def)
  have "list_all (\<lambda>r. om_attempts r < 2147483647) ?ready" using assms(4) sub by (auto simp: list_all_iff)
  then have run: "rows' = update_where (\<lambda>r. om_id r \<in> om_id ` set ?ready)
        (done_row (tk_now t) (re_worker rl) (re_lease rl) (tk_envs t)) rows
      \<and> sent' = sent @ map (kafka_record_of show_id) (map message_of ?ready)"
    using assms(2,5) flush_exact [OF assms(1,3) refl, of "tk_now t" "tk_envs t" show_id sent]
    by (simp add: tick_flush_def tick_ok_def list_all_iff)
  then show "waiting rows' = filter (\<lambda>r. r \<notin> set ?ready) (waiting rows)"
    using waiting_done [OF sub assms(1)] by simp
  show "map om_id rows' = map om_id rows" using run by (simp add: map_update_where)
  show "sent' = sent @ map (kafka_record_of show_id) (map message_of ?ready)" using run by blast
qed

lemma ready_again: "message_ready t0 r \<Longrightarrow> t0 \<le> t \<Longrightarrow> message_ready t r"
  by (auto simp: message_ready_def split: option.splits)

lemma all_ready_taken:
  assumes "r \<in> set rows" and "message_ready now r" and "length (waiting rows) \<le> nat limit"
  shows "r \<in> set (ready_rows now (\<lambda>_. False) limit rows)"
proof -
  let ?xs = "filter (message_ready now) rows"
  have "length ?xs \<le> length (waiting rows)"
    unfolding waiting_def by (induction rows) (auto simp: message_ready_def)
  then have "take (nat limit) (sort_key om_keyset ?xs) = sort_key om_keyset ?xs"
    using assms(3) by simp
  then show ?thesis using assms(1,2) by (simp add: ready_rows_def)
qed

lemma length_ready_rows:
  "length (ready_rows now (\<lambda>_. False) limit rows) = min (nat limit) (length (filter (message_ready now) rows))"
  by (simp add: ready_rows_def min.commute)

lemma ready_waiting: "set (ready_rows now locked limit rows) \<subseteq> set (waiting rows)"
  using ready_rows_mem by (fastforce simp: waiting_def message_ready_def)

lemma ready_count:
  assumes "distinct (map om_id rows)"
  shows "length (filter (\<lambda>r. r \<notin> set (ready_rows now (\<lambda>_. False) limit rows)) (waiting rows))
    = length (waiting rows) - min (nat limit) (length (filter (message_ready now) rows))"
  using length_filter_notin [OF ready_waiting] assms distinct_ready_rows [OF assms]
  by (metis distinct_filter distinct_map length_ready_rows waiting_def)

definition relayed ::
    "(uuid \<Rightarrow> string) \<Rightarrow> outbox_message_row list \<times> kafka_record list
       \<Rightarrow> outbox_message_row list \<times> kafka_record list \<Rightarrow> bool" where
  "relayed show_id s s' \<longleftrightarrow>
     map om_id (fst s') = map om_id (fst s) \<and> set (waiting (fst s')) \<subseteq> set (waiting (fst s))
     \<and> (\<exists>ms. distinct ms \<and> set ms = set (waiting (fst s)) - set (waiting (fst s'))
          \<and> snd s' = snd s @ map (kafka_record_of show_id) (map message_of ms))"

lemma relayed_refl: "relayed show_id s s"
  by (auto simp: relayed_def)

lemma relayed_trans:
  assumes "relayed show_id s t" and "relayed show_id t u"
  shows "relayed show_id s u"
proof -
  from assms obtain xs ys where
    xs: "distinct xs" "set xs = set (waiting (fst s)) - set (waiting (fst t))"
      "snd t = snd s @ map (kafka_record_of show_id) (map message_of xs)" and
    ys: "distinct ys" "set ys = set (waiting (fst t)) - set (waiting (fst u))"
      "snd u = snd t @ map (kafka_record_of show_id) (map message_of ys)"
    by (auto simp: relayed_def)
  have sub: "set (waiting (fst u)) \<subseteq> set (waiting (fst t))" "set (waiting (fst t)) \<subseteq> set (waiting (fst s))"
    using assms by (auto simp: relayed_def)
  have "distinct (xs @ ys)" using xs(1,2) ys(1,2) by auto
  moreover have "set (xs @ ys) = set (waiting (fst s)) - set (waiting (fst u))"
    using xs(2) ys(2) sub by auto
  moreover have "snd u = snd s @ map (kafka_record_of show_id) (map message_of (xs @ ys))"
    using xs(3) ys(3) by simp
  ultimately show ?thesis using assms unfolding relayed_def by (metis order_trans)
qed

lemma tick_relayed:
  assumes "distinct (map om_id rows)" and "tick_ok t" and "0 \<le> re_batch rl"
    and "list_all (\<lambda>r. om_attempts r < 2147483647) (waiting rows)"
  shows "relayed show_id (rows, sent) (tick_flush show_id rl t (rows, sent))"
proof -
  obtain rows' sent' where run: "tick_flush show_id rl t (rows, sent) = (rows', sent')" by fastforce
  note tick = tick_progress [OF assms run]
  let ?ready = "ready_rows (tk_now t) (\<lambda>_. False) (re_batch rl) rows"
  have "distinct ?ready" using distinct_ready_rows [OF assms(1)] by (simp add: distinct_map)
  moreover have "set ?ready = set (waiting rows) - set (waiting rows')"
    using ready_waiting [of "tk_now t" "\<lambda>_. False" "re_batch rl" rows] by (auto simp: tick(1))
  ultimately show ?thesis using tick by (auto simp: relayed_def run)
qed

lemma ticks_relayed:
  assumes "distinct (map om_id rows)" and "0 \<le> re_batch rl"
    and "list_all (\<lambda>r. om_attempts r < 2147483647) (waiting rows)" and "list_all tick_ok ts"
  shows "relayed show_id (rows, sent) (relay_run show_id rl (map Relay_Tick ts) (rows, sent))"
  using assms
proof (induction ts arbitrary: rows sent)
  case Nil
  then show ?case by (simp add: relayed_refl)
next
  case (Cons t ts)
  obtain rows1 sent1 where run: "tick_flush show_id rl t (rows, sent) = (rows1, sent1)" by fastforce
  from Cons.prems have ok: "tick_ok t" by simp
  note tick = tick_progress [OF Cons.prems(1) ok Cons.prems(2,3) run]
  have one: "relayed show_id (rows, sent) (rows1, sent1)"
    using tick_relayed [OF Cons.prems(1) ok Cons.prems(2,3), of show_id sent] by (simp add: run)
  have "relayed show_id (rows1, sent1) (relay_run show_id rl (map Relay_Tick ts) (rows1, sent1))"
    using Cons.prems tick by (intro Cons.IH) (auto simp: list_all_iff)
  then show ?case using relayed_trans [OF one] by (simp add: run)
qed

lemma none_ready_left:
  assumes "distinct (map om_id rows)" and "0 < re_batch rl"
    and "list_all (\<lambda>r. om_attempts r < 2147483647) (waiting rows)"
    and "list_all (\<lambda>t. tick_ok t \<and> t0 \<le> tk_now t) ts"
    and "length (waiting rows) \<le> nat (re_batch rl) * length ts"
    and "r \<in> set (waiting (fst (relay_run show_id rl (map Relay_Tick ts) (rows, sent))))"
  shows "\<not> message_ready t0 r"
  using assms
proof (induction ts arbitrary: rows sent)
  case Nil
  then show ?case by simp
next
  case (Cons t ts)
  obtain rows1 sent1 where run: "tick_flush show_id rl t (rows, sent) = (rows1, sent1)" by fastforce
  from Cons.prems have ok: "tick_ok t" "t0 \<le> tk_now t" "0 \<le> re_batch rl" by simp_all
  note tick = tick_progress [OF Cons.prems(1) ok(1,3) Cons.prems(3) run]
  have d: "distinct (map om_id rows1)" using Cons.prems(1) by (simp add: tick(2))
  have n: "list_all (\<lambda>r. om_attempts r < 2147483647) (waiting rows1)"
    using Cons.prems(3) by (auto simp: tick(1) list_all_iff)
  show ?case
  proof (cases "length (waiting rows1) \<le> nat (re_batch rl) * length ts")
    case True
    from Cons.IH [OF d Cons.prems(2) n _ True, of sent1] Cons.prems(4,6) show ?thesis by (simp add: run)
  next
    case False
    have "length (filter (message_ready (tk_now t)) rows) < nat (re_batch rl)"
      using False Cons.prems(5) ready_count [OF Cons.prems(1), of "tk_now t" "re_batch rl"]
      by (simp add: tick(1))
    then have taken: "set (ready_rows (tk_now t) (\<lambda>_. False) (re_batch rl) rows)
        = set (filter (message_ready (tk_now t)) rows)"
      by (simp add: ready_rows_def)
    have "list_all tick_ok ts" using Cons.prems(4) by (simp add: list_all_iff)
    from ticks_relayed [OF d ok(3) n this, of show_id sent1] Cons.prems(6)
    have "r \<in> set (waiting rows1)" by (auto simp: relayed_def run)
    then have "r \<notin> set (filter (message_ready (tk_now t)) rows)" "r \<in> set (waiting rows)"
      by (simp_all add: tick(1) taken)
    then have "r \<in> set rows" "\<not> message_ready (tk_now t) r" by (auto simp: waiting_def)
    then show ?thesis using ready_again [OF _ ok(2)] by blast
  qed
qed

section \<open>Property\<close>

text \<open>
  C28. The relay does not fall behind for ever: when its loop gets enough ticks without failures
  for the messages that wait (one for each batch), every message that was ready is published.
  The run writes each message that it publishes to Kafka exactly once, and nothing else, marks
  exactly these, and the loop returns at once when the context is done.
\<close>

theorem relay_run_publishes:
  assumes "distinct (map om_id rows)" and "0 < re_batch rl"
    and "list_all (\<lambda>r. om_attempts r < 2147483647) (waiting rows)"
    and "list_all (\<lambda>t. tick_ok t \<and> t0 \<le> tk_now t) ts"
    and "length (waiting rows) \<le> nat (re_batch rl) * length ts"
    and "(rows', sent') = relay_run show_id rl (map Relay_Tick ts @ Relay_Done # rest) (rows, sent)"
  shows "\<exists>ms. distinct ms \<and> set ms = set (waiting rows) - set (waiting rows')
    \<and> sent' = sent @ map (kafka_record_of show_id) (map message_of ms)
    \<and> (\<forall>r\<in>set (waiting rows). message_ready t0 r \<longrightarrow>
         r \<in> set ms \<and> (\<exists>r'\<in>set rows'. om_id r' = om_id r \<and> om_published_at r' \<noteq> None))"
proof -
  have "relay_run show_id rl (map Relay_Tick ts @ Relay_Done # rest) s = relay_run show_id rl (map Relay_Tick ts) s" for s
    by (induction ts arbitrary: s) simp_all
  then have run: "relay_run show_id rl (map Relay_Tick ts) (rows, sent) = (rows', sent')" using assms(6) by simp
  have "0 \<le> re_batch rl" "list_all tick_ok ts" using assms(2,4) by (simp_all add: list_all_iff)
  from ticks_relayed [OF assms(1) this(1) assms(3) this(2), of show_id sent]
  obtain ms where ms: "distinct ms" "set ms = set (waiting rows) - set (waiting rows')"
      "sent' = sent @ map (kafka_record_of show_id) (map message_of ms)"
    and ids: "map om_id rows' = map om_id rows" and sub: "set (waiting rows') \<subseteq> set (waiting rows)"
    by (auto simp: relayed_def run)
  note none = none_ready_left [OF assms(1-5), of _ show_id sent, unfolded run fst_conv]
  have "om_published_at r' \<noteq> None" if "r \<in> set (waiting rows)" "message_ready t0 r" "r' \<in> set rows'" "om_id r' = om_id r"
    for r r'
  proof
    assume "om_published_at r' = None"
    then have w: "r' \<in> set (waiting rows')" using that(3) by (simp add: waiting_def)
    then have "r' \<in> set rows" "r \<in> set rows" using sub that(1) by (auto simp: waiting_def)
    then have "r' = r" using distinct_keys_eq [OF assms(1) _ _ that(4)] by blast
    then show False using none [OF w] that(2) by simp
  qed
  moreover have "\<exists>r'\<in>set rows'. om_id r' = om_id r" if "r \<in> set (waiting rows)" for r
  proof -
    have "om_id r \<in> set (map om_id rows')" using that by (simp add: ids waiting_def)
    then show ?thesis by auto
  qed
  moreover have "r \<in> set ms" if "r \<in> set (waiting rows)" "message_ready t0 r" for r
    using that none [of r] by (auto simp: ms(2))
  ultimately show ?thesis using ms by (intro exI [of _ ms]) (meson ms(1-3))
qed

lemma waiting_example: "waiting [example_message_row] = [example_message_row]"
  by (simp add: waiting_def example_relay_defs)

theorem relay_run_publishes_witness:
  "om_published_at (hd (fst (relay_run show_decimal \<lparr>re_worker = ''relay'', re_batch = 100, re_lease = seconds 30\<rparr>
      [Relay_Tick \<lparr>tk_faults = no_faults, tk_locked = (\<lambda>_. False), tk_now = 2000, tk_write = (\<lambda>_. None),
         tk_envs = (\<lambda>_. example_relay_env)\<rparr>, Relay_Done] ([example_message_row], [])))) \<noteq> None"
proof -
  let ?rl = "\<lparr>re_worker = ''relay'', re_batch = 100, re_lease = seconds 30\<rparr>"
  let ?t = "\<lparr>tk_faults = no_faults, tk_locked = (\<lambda>_. False), tk_now = 2000, tk_write = (\<lambda>_. None),
         tk_envs = (\<lambda>_. example_relay_env)\<rparr>"
  let ?rows = "[example_message_row]"
  obtain rows' sent' where run: "(rows', sent') = relay_run show_decimal ?rl (map Relay_Tick [?t] @ Relay_Done # []) (?rows, [])"
    by (metis surj_pair)
  have d: "distinct (map om_id ?rows)" and b: "0 < re_batch ?rl"
    and t: "list_all (\<lambda>t. tick_ok t \<and> 2000 \<le> tk_now t) [?t]"
    and r: "message_ready 2000 example_message_row" and a: "om_attempts example_message_row = 0"
    by (simp_all add: tick_ok_def message_ready_def example_relay_defs)
  have n: "list_all (\<lambda>r. om_attempts r < 2147483647) (waiting ?rows)"
    and l: "length (waiting ?rows) \<le> nat (re_batch ?rl) * length [?t]"
    using a by (simp_all add: waiting_example)
  from relay_run_publishes [OF d b n t l run] r
  have "\<exists>r'\<in>set rows'. om_published_at r' \<noteq> None" by (auto simp: waiting_example)
  moreover have "length rows' = 1"
    using ticks_relayed [OF d _ n, of ?rl "[?t]" show_decimal "[]"] t run
    by (cases "tick_flush show_decimal ?rl ?t (?rows, [])") (auto simp: relayed_def dest: arg_cong [where f = length])
  ultimately have "om_published_at (hd rows') \<noteq> None" by (cases rows') auto
  then have "om_published_at (hd (fst (rows', sent'))) \<noteq> None" by (simp only: fst_conv not_False_eq_True)
  then show ?thesis unfolding run by (simp only: list.map append.simps not_False_eq_True)
qed

end
