(* ===== verification/EventRaces.thy ===== *)
theory EventRaces
  imports EventSystem
begin

text \<open>
  Requests that accept events at the same time: \<open>CreateEvent\<close> of
  event-service/internal/event/repository.go as a transaction with steps of its own (the
  default isolation of PostgreSQL: a statement sees what is committed when it starts). Any
  number of requests run interleaved. The look-up of the key sees the committed rows. An insert
  waits while another transaction holds a row with the same unique key, fails if such a row is
  committed, and otherwise holds its rows, which nobody sees, until it commits. The inserts of
  one request are one step: only the rows of one event are held, and a request that waits for
  its key alone holds nothing that another waits for. Outbox batches run in between.
\<close>

section \<open>The transaction in steps\<close>

record create_job =
  cj_faults :: "create_event_call faults"
  cj_env :: event_env
  cj_tenant :: uuid
  cj_req :: publish_request

datatype create_phase = Started | Checked | Holding event | Answered "event result"

abbreviation job_key :: "create_job \<Rightarrow> uuid \<times> string" where
  "job_key j \<equiv> (cj_tenant j, pq_idempotency_key (cj_req j))"

definition check_job :: "create_job \<Rightarrow> event_db \<Rightarrow> create_phase" where
  "check_job j db =
     (if invalid_request (cj_req j) then Answered (Inl Event_ErrInvalidRequest)
      else case cj_faults j CE_Begin of
        Some e \<Rightarrow> Answered (Inl (wrap ''begin transaction: '' e))
      | None \<Rightarrow>
          (case cj_faults j CE_Check of
             Some e \<Rightarrow> Answered (Inl (wrap ''check idempotency: '' e))
           | None \<Rightarrow>
               (case find_key (cj_tenant j) (pq_idempotency_key (cj_req j)) db of
                  Some k \<Rightarrow> Answered (select_event (cj_faults j CE_Get) (cj_tenant j) (id_event_id k) db)
                | None \<Rightarrow> Checked)))"

definition insert_job :: "create_job \<Rightarrow> event_db \<Rightarrow> create_phase" where
  "insert_job j db =
     (case insert_event (cj_faults j) (cj_env j) (cj_req j) (cj_tenant j) db of
        Inl e \<Rightarrow> Answered (Inl e) | Inr (e, _) \<Rightarrow> Holding e)"

text \<open>The rows of a job that holds its rows, and what a commit makes of them.\<close>

definition job_rows :: "create_job \<Rightarrow> event \<Rightarrow> event_db \<Rightarrow> event_db" where
  "job_rows j e db =
     \<lparr>evs_events = evs_events db @ [row_of_event (cj_env j) e],
      evs_idempotency = evs_idempotency db @
        [\<lparr>id_tenant_id = cj_tenant j, id_key = pq_idempotency_key (cj_req j), id_event_id = ev_id e\<rparr>],
      evs_outbox = evs_outbox db @ [new_outbox_row (cj_env j) e]\<rparr>"

definition commit_job :: "create_job \<Rightarrow> event \<Rightarrow> event_db \<Rightarrow> create_phase \<times> event_db" where
  "commit_job j e db =
     (case cj_faults j CE_Commit of
        Some err \<Rightarrow> (Answered (Inl (wrap ''commit transaction: '' err)), db)
      | None \<Rightarrow> (Answered (Inr e), job_rows j e db))"

text \<open>Without others in between the steps are the operation.\<close>

lemma create_event_steps:
  "create_event (cj_faults j) (cj_env j) (cj_req j) (cj_tenant j) db =
     (case check_job j db of
        Answered r \<Rightarrow> (r, db)
      | _ \<Rightarrow>
          (case insert_job j db of
             Holding e \<Rightarrow> (case commit_job j e db of (Answered r, db') \<Rightarrow> (r, db'))
           | Answered r \<Rightarrow> (r, db)))"
proof -
  have "insert_event (cj_faults j) (cj_env j) (cj_req j) (cj_tenant j) db = Inr (e, db') \<Longrightarrow> db' = job_rows j e db" for e db'
    by (auto simp: insert_event_result job_rows_def new_event_def)
  then show ?thesis
    by (auto simp: create_event_def check_job_def insert_job_def commit_job_def run_tx_def
        split: option.split sum.split)
qed

section \<open>Any interleaving\<close>

record race =
  rc_sys :: esys
  rc_jobs :: "(create_job \<times> create_phase) list"

abbreviation rc_db :: "race \<Rightarrow> event_db" where
  "rc_db s \<equiv> esy_db (rc_sys s)"

text \<open>Two jobs that would wait for each other: the same key, or the same generated identifier.\<close>

definition clash :: "create_job \<Rightarrow> create_job \<Rightarrow> bool" where
  "clash i j \<longleftrightarrow> job_key i = job_key j \<or> ee_new_id (cj_env i) = ee_new_id (cj_env j)
     \<or> ee_outbox_id (cj_env i) = ee_outbox_id (cj_env j)"

definition holds :: "create_job \<times> create_phase \<Rightarrow> bool" where
  "holds p \<longleftrightarrow> (case snd p of Holding e \<Rightarrow> True | _ \<Rightarrow> False)"

definition free_to_insert :: "create_job \<Rightarrow> (create_job \<times> create_phase) list \<Rightarrow> bool" where
  "free_to_insert j ps \<longleftrightarrow> list_all (\<lambda>p. holds p \<longrightarrow> \<not> clash (fst p) j) ps"

inductive race_step :: "(uuid \<Rightarrow> string) \<Rightarrow> race \<Rightarrow> race \<Rightarrow> bool" for ut where
  arrive: "race_step ut s (s\<lparr>rc_jobs := rc_jobs s @ [(j, Started)]\<rparr>)"
| check: "n < length (rc_jobs s) \<Longrightarrow> rc_jobs s ! n = (j, Started) \<Longrightarrow>
    race_step ut s (s\<lparr>rc_jobs := (rc_jobs s)[n := (j, check_job j (rc_db s))]\<rparr>)"
| insert: "n < length (rc_jobs s) \<Longrightarrow> rc_jobs s ! n = (j, Checked) \<Longrightarrow> free_to_insert j (rc_jobs s) \<Longrightarrow>
    race_step ut s (s\<lparr>rc_jobs := (rc_jobs s)[n := (j, insert_job j (rc_db s))]\<rparr>)"
| commit: "n < length (rc_jobs s) \<Longrightarrow> rc_jobs s ! n = (j, Holding e) \<Longrightarrow> commit_job j e (rc_db s) = (ph, db') \<Longrightarrow>
    race_step ut s \<lparr>rc_sys = (rc_sys s)\<lparr>esy_db := db'\<rparr>, rc_jobs = (rc_jobs s)[n := (j, ph)]\<rparr>"
| batch: "publish_batch f kafka locked now ut (rc_db s) = (res, ms, db') \<Longrightarrow>
    race_step ut s (s\<lparr>rc_sys := \<lparr>esy_db = db', esy_sent = esy_sent (rc_sys s) @ ms\<rparr>\<rparr>)"

inductive race_reach :: "(uuid \<Rightarrow> string) \<Rightarrow> race \<Rightarrow> bool" for ut where
  init: "race_reach ut \<lparr>rc_sys = init_esys, rc_jobs = []\<rparr>"
| step: "race_reach ut s \<Longrightarrow> race_step ut s t \<Longrightarrow> race_reach ut t"

section \<open>The invariant\<close>

text \<open>A job can insert its rows if its key and its identifiers are not committed.\<close>

definition insertable :: "create_job \<Rightarrow> event_db \<Rightarrow> bool" where
  "insertable j db \<longleftrightarrow>
     cj_faults j CE_Event = None \<and> cj_faults j CE_Key = None \<and> cj_faults j CE_Outbox = None
     \<and> ee_new_id (cj_env j) \<notin> er_id ` set (evs_events db)
     \<and> job_key j \<notin> key_of ` set (evs_idempotency db) \<and> ee_outbox_id (cj_env j) \<notin> ob_id ` set (evs_outbox db)"

text \<open>What a job knows in each phase.\<close>

definition job_ok :: "event_db \<Rightarrow> create_job \<times> create_phase \<Rightarrow> bool" where
  "job_ok db p \<longleftrightarrow>
     (case snd p of
        Started \<Rightarrow> True
      | Checked \<Rightarrow> \<not> invalid_request (cj_req (fst p)) \<and> cj_faults (fst p) CE_Begin = None \<and> cj_faults (fst p) CE_Check = None
      | Holding e \<Rightarrow>
          \<not> invalid_request (cj_req (fst p)) \<and> cj_faults (fst p) CE_Begin = None \<and> cj_faults (fst p) CE_Check = None
          \<and> insertable (fst p) db \<and> e = new_event (cj_env (fst p)) (cj_req (fst p)) (cj_tenant (fst p))
      | Answered (Inl e) \<Rightarrow> True
      | Answered (Inr e) \<Rightarrow> accepted_events db (job_key (fst p)) = Some (ev_id e))"

definition holders_apart :: "(create_job \<times> create_phase) list \<Rightarrow> bool" where
  "holders_apart ps \<longleftrightarrow>
     (\<forall>m n. m < length ps \<longrightarrow> n < length ps \<longrightarrow> m \<noteq> n \<longrightarrow> holds (ps ! m) \<longrightarrow> holds (ps ! n) \<longrightarrow>
        \<not> clash (fst (ps ! m)) (fst (ps ! n)))"

definition race_inv :: "race \<Rightarrow> bool" where
  "race_inv s \<longleftrightarrow>
     event_db_ok (rc_db s) \<and> (\<forall>p\<in>set (rc_jobs s). job_ok (rc_db s) p) \<and> holders_apart (rc_jobs s)"

lemma clash_sym: "clash i j = clash j i"
  by (auto simp: clash_def)

lemma holds_simps [simp]:
  "holds (j, Holding e)" "\<not> holds (j, Started)" "\<not> holds (j, Checked)" "\<not> holds (j, Answered r)"
  by (simp_all add: holds_def)

lemma holds_check [simp]: "\<not> holds (j, check_job j db)"
  by (auto simp: check_job_def split: option.split)

lemma holders_apart_append: "holders_apart ps \<Longrightarrow> \<not> holds p \<Longrightarrow> holders_apart (ps @ [p])"
  by (auto simp: holders_apart_def nth_append less_Suc_eq)

lemma holders_apart_leave: "holders_apart ps \<Longrightarrow> n < length ps \<Longrightarrow> \<not> holds p \<Longrightarrow> holders_apart (ps[n := p])"
  by (auto simp: holders_apart_def nth_list_update split: if_splits)

lemma holders_apart_enter:
  assumes "holders_apart ps" and "free_to_insert (fst p) ps" and "n < length ps"
  shows "holders_apart (ps[n := p])"
proof -
  have "\<not> clash (fst (ps ! m)) (fst p)" if "m < length ps" "holds (ps ! m)" for m
    using assms(2) that by (auto simp: free_to_insert_def list_all_length)
  moreover have "\<not> clash (fst p) (fst (ps ! m))" if "m < length ps" "holds (ps ! m)" for m
    using calculation [OF that] clash_sym by blast
  ultimately show ?thesis using assms(1,3) by (auto simp: holders_apart_def nth_list_update split: if_splits)
qed

lemma insert_event_insertable:
  "insert_event (cj_faults j) (cj_env j) (cj_req j) (cj_tenant j) db = Inr (e, db') \<longleftrightarrow>
     insertable j db \<and> e = new_event (cj_env j) (cj_req j) (cj_tenant j) \<and> db' = job_rows j e db"
  by (auto simp: insert_event_result insertable_def job_rows_def new_event_def)

lemma insertable_apart:
  "insertable i db \<Longrightarrow> \<not> clash i j \<Longrightarrow> e = new_event (cj_env j) (cj_req j) (cj_tenant j) \<Longrightarrow>
     insertable i (job_rows j e db)"
  by (auto simp: insertable_def clash_def job_rows_def row_of_event_def new_event_def new_outbox_row_def)

lemma insertable_batch:
  assumes "publish_batch f kafka locked now ut db = (res, ms, db')" and "event_db_ok db"
  shows "insertable j db' = insertable j db" and "accepted_events db' = accepted_events db"
proof -
  have "evs_events db' = evs_events db \<and> evs_idempotency db' = evs_idempotency db
    \<and> map ob_id (evs_outbox db') = map ob_id (evs_outbox db)"
  proof (cases res)
    case (Inl e)
    then show ?thesis using publish_batch_error assms(1) by blast
  next
    case (Inr u)
    then show ?thesis using publish_batch_result [of f kafka locked now ut db u ms db'] assms
      by (simp add: event_db_ok_def)
  qed
  then show "insertable j db' = insertable j db" "accepted_events db' = accepted_events db"
    by (auto simp: insertable_def accepted_events_def find_key_def simp flip: set_map)
qed

lemma job_ok_check: "event_db_ok db \<Longrightarrow> job_ok db (j, check_job j db)"
  using select_event_own
  by (auto simp: job_ok_def check_job_def accepted_events_def split: option.split sum.split)

lemma job_ok_insert: "job_ok db (j, Checked) \<Longrightarrow> job_ok db (j, insert_job j db)"
  by (auto simp: job_ok_def insert_job_def insert_event_insertable split: sum.split)

lemma commit_job_ok:
  assumes "event_db_ok db" and "job_ok db (j, Holding e)" and "commit_job j e db = (ph, db')"
  shows "event_db_ok db'" and "job_ok db' (j, ph)"
    and "job_ok db p \<Longrightarrow> (holds p \<Longrightarrow> \<not> clash (fst p) j) \<Longrightarrow> job_ok db' p"
    and "db' = snd (publish (create_event (cj_faults j) (cj_env j)) (cj_tenant j) (cj_req j) db)"
    and "ph = Answered (Inr x) \<Longrightarrow> db' = job_rows j e db \<and> x = e"
proof -
  have j: "\<not> invalid_request (cj_req j)" "cj_faults j CE_Begin = None" "cj_faults j CE_Check = None"
    "insertable j db" "e = new_event (cj_env j) (cj_req j) (cj_tenant j)"
    using assms(2) by (simp_all add: job_ok_def)
  have ins: "insert_event (cj_faults j) (cj_env j) (cj_req j) (cj_tenant j) db = Inr (e, job_rows j e db)"
    using j by (simp add: insert_event_insertable)
  have new: "accepted_events db (job_key j) = None"
    using j(4) by (simp add: insertable_def accepted_events_def find_key_None)
  note acc = accepted_insert [OF ins new]
  show "db' = snd (publish (create_event (cj_faults j) (cj_env j)) (cj_tenant j) (cj_req j) db)"
  proof -
    have "check_job j db = Checked" using j new by (auto simp: check_job_def accepted_events_def)
    moreover have "insert_job j db = Holding e" by (simp add: insert_job_def ins)
    ultimately have "create_event (cj_faults j) (cj_env j) (cj_req j) (cj_tenant j) db
        = (case commit_job j e db of (Answered r, db') \<Rightarrow> (r, db'))"
      by (simp add: create_event_steps)
    then show ?thesis using assms(3) j(1)
      by (auto simp: publish_eq commit_job_def split: option.splits)
  qed
  show "event_db_ok db'"
    using assms(1,3) insert_event_ok [OF assms(1) ins] by (auto simp: commit_job_def split: option.splits)
  show "job_ok db' (j, ph)"
    using assms(3) acc by (auto simp: commit_job_def job_ok_def split: option.splits)
  show "job_ok db' p" if "job_ok db p" "holds p \<Longrightarrow> \<not> clash (fst p) j"
  proof (cases "db' = db")
    case False
    then have db': "db' = job_rows j e db" using assms(3) by (auto simp: commit_job_def split: option.splits)
    have old: "accepted_events db' k = Some i" if "accepted_events db k = Some i" for k i
      using that new by (cases "k = job_key j") (simp_all add: db' acc)
    show ?thesis using that old insertable_apart [OF _ _ j(5)]
      by (auto simp: job_ok_def holds_def db' split: create_phase.splits sum.splits)
  qed (use that in simp)
  show "db' = job_rows j e db \<and> x = e" if "ph = Answered (Inr x)"
    using assms(3) that by (auto simp: commit_job_def split: option.splits)
qed

lemma job_ok_update:
  "\<forall>p\<in>set ps. job_ok db p \<Longrightarrow> job_ok db q \<Longrightarrow> \<forall>p\<in>set (ps[n := q]). job_ok db p"
  using set_update_subset_insert [of ps n q] by blast

lemma race_step_inv: "race_step ut s t \<Longrightarrow> race_inv s \<Longrightarrow> race_inv t"
proof (induction rule: race_step.induct)
  case (arrive s j)
  then show ?case by (auto simp: race_inv_def job_ok_def intro: holders_apart_append)
next
  case (check n s j)
  then show ?case
    using job_ok_update [OF _ job_ok_check, of "rc_jobs s" "rc_db s" n j]
    by (simp add: race_inv_def holders_apart_leave)
next
  case (insert n s j)
  then have "job_ok (rc_db s) (j, Checked)" by (metis nth_mem race_inv_def)
  with insert show ?case
    using job_ok_update [OF _ job_ok_insert, of "rc_jobs s" "rc_db s" j n]
    by (simp add: race_inv_def holders_apart_enter)
next
  case (commit n s j e ph db')
  then have j: "job_ok (rc_db s) (j, Holding e)" and ok: "event_db_ok (rc_db s)"
    by (auto simp: race_inv_def dest: nth_mem)
  note c = commit_job_ok [OF ok j commit(3)]
  have "job_ok db' (rc_jobs s ! m)" if m: "m < length (rc_jobs s)" "m \<noteq> n" for m
  proof (rule c(3))
    show "job_ok (rc_db s) (rc_jobs s ! m)" using commit(4) m by (simp add: race_inv_def)
    show "\<not> clash (fst (rc_jobs s ! m)) j" if "holds (rc_jobs s ! m)"
      using commit(1,2,4) m that by (fastforce simp: race_inv_def holders_apart_def)
  qed
  then have "\<forall>p\<in>set ((rc_jobs s)[n := (j, ph)]). job_ok db' p"
    using c(2) commit(1) by (simp add: all_set_conv_all_nth nth_list_update)
  moreover have "\<not> holds (j, ph)" using commit(3) by (auto simp: commit_job_def split: option.splits)
  ultimately show ?case using commit c(1) by (simp add: race_inv_def holders_apart_leave)
next
  case (batch f kafka locked now s res ms db')
  then have ok: "event_db_ok (rc_db s)" by (simp add: race_inv_def)
  have "job_ok db' p = job_ok (rc_db s) p" for p
    using insertable_batch [OF batch(1) ok] by (simp add: job_ok_def split: create_phase.split sum.split)
  then show ?case using batch event_db_ok_batch [OF ok batch(1)] by (simp add: race_inv_def)
qed

lemma race_reach_inv: "race_reach ut s \<Longrightarrow> race_inv s"
proof (induction rule: race_reach.induct)
  case init
  then show ?case by (simp add: race_inv_def init_esys_def event_db_ok_empty holders_apart_def)
qed (rule race_step_inv)

text \<open>A step is a step of the system of undivided requests, or leaves the tables as they are.\<close>

lemma race_step_estep:
  assumes "race_step ut s t" and "race_inv s"
  shows "rc_sys t = rc_sys s \<or> estep ut (rc_sys s) (rc_sys t)"
  using assms
proof (induction rule: race_step.induct)
  case (commit n s j e ph db')
  then have "job_ok (rc_db s) (j, Holding e)" and "event_db_ok (rc_db s)"
    by (auto simp: race_inv_def dest: nth_mem)
  then have "db' = snd (publish (create_event (cj_faults j) (cj_env j)) (cj_tenant j) (cj_req j) (rc_db s))"
    using commit_job_ok(4) commit(3) by blast
  then show ?case by (auto intro: estep.request)
qed (auto intro: estep.batch)

section \<open>Properties\<close>

text \<open>A successful answer names the event that is stored under the key.\<close>

definition answer_stored :: "event_db \<Rightarrow> create_job \<times> create_phase \<Rightarrow> bool" where
  "answer_stored db p \<longleftrightarrow>
     (case snd p of Answered (Inr e) \<Rightarrow> accepted_events db (job_key (fst p)) = Some (ev_id e) | _ \<Rightarrow> True)"

lemma job_ok_answer: "job_ok db p \<Longrightarrow> answer_stored db p"
  by (auto simp: job_ok_def answer_stored_def split: create_phase.splits sum.splits)

text \<open>
  C19. However requests and outbox batches interleave, and whatever fails: the tables and the
  messages written are those of a run in which every request is undivided, so every invariant of
  the event service holds; and all successful answers to requests of one tenant with one key
  name the one event that is stored under the key.
\<close>

theorem concurrent_requests_serialize:
  assumes "race_reach ut s"
  shows "ereach ut (rc_sys s) \<and> list_all (answer_stored (rc_db s)) (rc_jobs s)"
proof
  show "ereach ut (rc_sys s)" using assms
  proof (induction rule: race_reach.induct)
    case (step s t)
    then show ?case using race_step_estep [OF step(2) race_reach_inv [OF step(1)]] by (auto intro: ereach.step)
  qed (simp add: ereach.init)
  show "list_all (answer_stored (rc_db s)) (rc_jobs s)"
    using race_reach_inv [OF assms] by (auto simp: list_all_iff race_inv_def intro: job_ok_answer)
qed

definition example_job :: create_job where
  "example_job = \<lparr>cj_faults = no_faults, cj_env = example_event_env, cj_tenant = 3, cj_req = example_publish\<rparr>"

definition other_job :: create_job where
  "other_job = example_job\<lparr>cj_env := example_event_env\<lparr>ee_new_id := 6, ee_outbox_id := 60\<rparr>\<rparr>"

definition example_race :: race where
  "example_race = \<lparr>rc_sys = \<lparr>esy_db = example_event_db, esy_sent = []\<rparr>,
     rc_jobs = [(example_job, Answered (Inr (new_event example_event_env example_publish 3))),
       (other_job, Answered (Inl (wrap ''insert idempotency record: '' (pg_unique ''event_idempotency_pkey''))))]\<rparr>"

lemma example_race_reach: "race_reach ut example_race"
proof -
  let ?i = example_job and ?j = other_job and ?e = "new_event example_event_env example_publish 3"
  define st where "st db a b = \<lparr>rc_sys = \<lparr>esy_db = db, esy_sent = []\<rparr>, rc_jobs = [(?i, a), (?j, b)]\<rparr>" for db a b
  have start: "race_reach ut (st empty_event_db Started Started)"
    using race_reach.step [OF race_reach.step [OF race_reach.init race_step.arrive] race_step.arrive, of ut ?i ?j]
    by (simp add: st_def init_esys_def)
  have check: "check_job j empty_event_db = Checked" if "j = ?i \<or> j = ?j" for j
    using that by (auto simp: check_job_def example_job_def other_job_def find_key_def invalid_request_def
        example_publish_def empty_event_db_def)
  have c1: "race_reach ut (st empty_event_db Checked Started)"
    using race_reach.step [OF start race_step.check [of 0 _ ?i]] by (simp add: st_def check)
  have c2: "race_reach ut (st empty_event_db Checked Checked)"
    using race_reach.step [OF c1 race_step.check [of 1 _ ?j]] by (simp add: st_def check)
  have "insert_job ?i empty_event_db = Holding ?e"
    by (simp add: insert_job_def insert_event_def Let_def example_job_def empty_event_db_def)
  then have c3: "race_reach ut (st empty_event_db (Holding ?e) Checked)"
    using race_reach.step [OF c2 race_step.insert [of 0 _ ?i]] by (simp add: st_def free_to_insert_def)
  have "commit_job ?i ?e empty_event_db = (Answered (Inr ?e), example_event_db)"
    by (simp add: commit_job_def job_rows_def example_job_def example_event_db_def empty_event_db_def Let_def
        new_event_def example_publish_def example_event_env_def)
  then have c4: "race_reach ut (st example_event_db (Answered (Inr ?e)) Checked)"
    using race_reach.step [OF c3 race_step.commit [of 0 _ ?i ?e]] by (simp add: st_def)
  have "insert_job ?j example_event_db
      = Answered (Inl (wrap ''insert idempotency record: '' (pg_unique ''event_idempotency_pkey'')))"
    by (simp add: insert_job_def insert_event_def Let_def other_job_def example_job_def example_event_db_def
        new_event_def row_of_event_def example_event_env_def example_publish_def guard_def)
  then show ?thesis
    using race_reach.step [OF c4 race_step.insert [of 1 _ ?j]]
    by (simp add: st_def free_to_insert_def example_race_def)
qed

theorem concurrent_requests_serialize_witness:
  "ereach example_text \<lparr>esy_db = example_event_db, esy_sent = []\<rparr>
   \<and> accepted_events example_event_db (3, ''k'') = Some 5"
  using concurrent_requests_serialize [OF example_race_reach [of example_text]]
  by (simp add: example_race_def answer_stored_def example_job_def example_publish_def new_event_def
      example_event_env_def)

text \<open>
  Of two requests with one key that both found it free, the second cannot insert while the first
  holds its rows, and once the first has committed it fails: the loser is not answered with the
  event, as a later request with the key is.
\<close>

lemma concurrent_duplicate_fails:
  assumes "job_key i = job_key j" and "cj_faults j CE_Event = None" and "cj_faults j CE_Key = None"
    and "ee_new_id (cj_env j) \<notin> er_id ` set (evs_events db)" and "ee_new_id (cj_env j) \<noteq> ev_id e"
  shows "\<not> free_to_insert j [(i, Holding e)]"
    and "insert_job j (job_rows i e db)
      = Answered (Inl (wrap ''insert idempotency record: '' (pg_unique ''event_idempotency_pkey'')))"
proof -
  show "\<not> free_to_insert j [(i, Holding e)]" using assms(1) by (simp add: free_to_insert_def clash_def)
  have "ee_new_id (cj_env j) \<notin> er_id ` set (evs_events (job_rows i e db))"
    using assms(4,5) by (auto simp: job_rows_def row_of_event_def)
  moreover have "list_ex (\<lambda>k. id_tenant_id k = cj_tenant j \<and> id_key k = pq_idempotency_key (cj_req j))
      (evs_idempotency (job_rows i e db))"
    using assms(1) by (simp add: job_rows_def)
  ultimately show "insert_job j (job_rows i e db)
      = Answered (Inl (wrap ''insert idempotency record: '' (pg_unique ''event_idempotency_pkey'')))"
    using assms(2,3) by (simp add: insert_job_def insert_event_def Let_def new_event_def guard_def)
qed

end
