(* ===== verification/Validation.thy ===== *)
theory Validation
  imports GoStrings
begin

text \<open>
  endpoint-service/internal/validation/validation.go: the checks on a new or changed endpoint.
  \<open>url.ParseRequestURI\<close> and the quoting of \<open>%q\<close> are parameters. Lengths are in bytes, as
  \<open>len\<close> of a Go string is.
\<close>

section \<open>The checks\<close>

record parsed_url =
  pu_scheme :: string
  pu_host :: string
  pu_has_user :: bool

definition endpoint_name :: "string \<Rightarrow> unit result" where
  "endpoint_name v =
     (let v = trim_space v in
      if v = [] \<or> 255 < length v then Inl (Msg ''name must be between 1 and 255 characters'') else Inr ())"

definition contains_any :: "string \<Rightarrow> string \<Rightarrow> bool" where
  "contains_any s chars \<longleftrightarrow> list_ex (\<lambda>c. c \<in> set chars) s"

definition webhook_url :: "(string \<Rightarrow> parsed_url option) \<Rightarrow> string \<Rightarrow> bool \<Rightarrow> unit result" where
  "webhook_url parse raw allow_http =
     (case parse raw of
        None \<Rightarrow> Inl (Msg ''invalid webhook URL'')
      | Some u \<Rightarrow>
          (if pu_scheme u = [] \<or> pu_host u = [] then Inl (Msg ''invalid webhook URL'')
           else if pu_has_user u then Inl (Msg ''webhook URL must not contain userinfo'')
           else if pu_scheme u \<noteq> ''https'' \<and> \<not> (allow_http \<and> pu_scheme u = ''http'')
           then Inl (Msg ''webhook URL must use https'')
           else if contains_any (pu_host u) [CHR 0x5C, CHR 0x0D, CHR 0x0A, CHR 0x09]
           then Inl (Msg ''invalid webhook host'')
           else Inr ()))"

text \<open>The expression \<open>[a-zA-Z0-9][a-zA-Z0-9._:-]{0,254}\<close>, for the whole text.\<close>

definition is_alnum :: "char \<Rightarrow> bool" where
  "is_alnum c \<longleftrightarrow>
     (CHR ''a'' \<le> c \<and> c \<le> CHR ''z'') \<or> (CHR ''A'' \<le> c \<and> c \<le> CHR ''Z'') \<or> is_digit c"

fun event_type_matches :: "string \<Rightarrow> bool" where
  "event_type_matches [] = False"
| "event_type_matches (c # cs) =
     (is_alnum c \<and> list_all (\<lambda>c. is_alnum c \<or> c \<in> set ''._:-'') cs \<and> length cs \<le> 254)"

fun event_types_loop :: "(string \<Rightarrow> string) \<Rightarrow> string list \<Rightarrow> string list \<Rightarrow> string list result" where
  "event_types_loop quote out [] = Inr out"
| "event_types_loop quote out (raw # types) =
     (let v = trim_space raw in
      if \<not> event_type_matches v then Inl (Msg (''invalid event type '' @ quote raw))
      else if v \<in> set out then event_types_loop quote out types
      else event_types_loop quote (out @ [v]) types)"

definition event_types :: "(string \<Rightarrow> string) \<Rightarrow> string list \<Rightarrow> string list result" where
  "event_types quote types =
     (if types = [] then Inl (Msg ''at least one event type is required'')
      else event_types_loop quote [] types)"

definition timeout :: "int \<Rightarrow> string \<Rightarrow> unit result" where
  "timeout ms field =
     (if ms < 100 \<or> 120000 < ms
      then Inl (Msg (field @ '' must be between 100 and 120000 ms'')) else Inr ())"

section \<open>What the checks establish\<close>

lemma timeout_Inr: "timeout ms field = Inr u \<longleftrightarrow> 100 \<le> ms \<and> ms \<le> 120000"
  by (auto simp: timeout_def)

lemma event_types_loop_result:
  assumes "event_types_loop quote out types = Inr ts" and "distinct out" "list_all event_type_matches out"
  shows "distinct ts \<and> set ts = set out \<union> trim_space ` set types \<and> list_all event_type_matches ts"
  using assms
proof (induction types arbitrary: out)
  case (Cons raw types)
  show ?case
  proof (cases "trim_space raw \<in> set out")
    case True
    with Cons.prems have "event_types_loop quote out types = Inr ts"
      by (auto simp: Let_def split: if_splits)
    from Cons.IH [OF this Cons.prems(2,3)] True show ?thesis by auto
  next
    case False
    with Cons.prems have "event_types_loop quote (out @ [trim_space raw]) types = Inr ts"
      and "event_type_matches (trim_space raw)" by (auto simp: Let_def split: if_splits)
    with Cons.IH [OF this(1)] Cons.prems False show ?thesis by auto
  qed
qed simp

lemma event_types_result:
  assumes "event_types quote types = Inr ts"
  shows "ts \<noteq> [] \<and> distinct ts \<and> set ts = trim_space ` set types \<and> (\<forall>t\<in>set ts. event_type_matches t)"
proof -
  have ne: "types \<noteq> []" and loop: "event_types_loop quote [] types = Inr ts"
    using assms by (auto simp: event_types_def split: if_splits)
  have r: "distinct ts \<and> set ts = trim_space ` set types \<and> list_all event_type_matches ts"
    using event_types_loop_result [OF loop] by simp
  have "set ts \<noteq> {}" using r ne by simp
  then show ?thesis using r by (auto simp: list_all_iff)
qed

lemma event_type_length: "event_type_matches t \<Longrightarrow> 1 \<le> length t \<and> length t \<le> 255"
  by (cases t) auto

end
