(* ===== verification/EndpointRepo.thy ===== *)
theory EndpointRepo
  imports Validation "HOL-Library.List_Lexorder" "HOL-Library.Char_ord"
begin

text \<open>
  endpoint-service/internal/endpoint (model.go, repository.go) and internal/retrypolicy: the
  tables \<open>endpoints\<close>, \<open>endpoint_subscriptions\<close> and \<open>retry_policies\<close> of
  migrations/001_init.sql and the operations on them. The table \<open>tenants\<close>, which the code
  reads and no migration of the service creates, is the list of its rows. Event types are
  sorted by their bytes. \<open>List\<close> is not here.
\<close>

section \<open>Data\<close>

record policy =
  po_id :: uuid
  po_tenant_id :: uuid
  po_name :: string
  po_max_attempts :: int
  po_backoff_type :: string
  po_initial_delay :: int
  po_max_delay :: int
  po_jitter_percent :: int

datatype endpoint_status = ACTIVE | DELETED

record endpoint_row =
  en_id :: uuid
  en_tenant_id :: uuid
  en_name :: string
  en_url :: string
  en_secret :: bytes
  en_status :: endpoint_status
  en_connect_timeout_ms :: int
  en_request_timeout_ms :: int
  en_policy_id :: uuid
  en_version :: int
  en_created_at :: time
  en_updated_at :: time
  en_deleted_at :: "time option"

text \<open>The struct \<open>Endpoint\<close>: a row with its event types.\<close>

record endpoint =
  ep_row :: endpoint_row
  ep_event_types :: "string list"

record create_request =
  cr_name :: string
  cr_url :: string
  cr_secret :: bytes
  cr_connect_timeout_ms :: int
  cr_request_timeout_ms :: int
  cr_policy_id :: "uuid option"
  cr_event_types :: "string list"

record patch_request =
  pt_name :: "string option"
  pt_url :: "string option"
  pt_secret :: "bytes option"
  pt_connect_timeout_ms :: "int option"
  pt_request_timeout_ms :: "int option"
  pt_policy_id :: "uuid option"
  pt_event_types :: "string list option"

record endpoint_db =
  edb_tenants :: "(uuid \<times> string) list"
  edb_policies :: "policy list"
  edb_endpoints :: "endpoint_row list"
  edb_subs :: "(uuid \<times> string) list"

text \<open>What one call takes from outside: generated identifiers, the transaction's \<open>NOW()\<close>, the
  clock of the service, and PostgreSQL's \<open>lower\<close>.\<close>

record endpoint_env =
  nv_new_id :: uuid
  nv_policy_id :: uuid
  nv_now :: time
  nv_clock :: time
  nv_lower :: "string \<Rightarrow> string"

section \<open>Statements\<close>

definition map_db_error :: "error \<Rightarrow> error" where
  "map_db_error err =
     (if contains (to_lower (error_text err)) ''duplicate key''
      then Wrap [] Endpoint_ErrConflict '': duplicate endpoint data''
      else wrap ''database error: '' err)"

text \<open>The partial unique index on the tenant and the lower-case name of endpoints that are not
  deleted, for a row other than those with its identifier.\<close>

definition name_taken :: "(string \<Rightarrow> string) \<Rightarrow> endpoint_row \<Rightarrow> endpoint_row list \<Rightarrow> bool" where
  "name_taken low r rows \<longleftrightarrow>
     en_deleted_at r = None \<and>
     list_ex (\<lambda>x. en_id x \<noteq> en_id r \<and> en_deleted_at x = None \<and> en_tenant_id x = en_tenant_id r
                \<and> low (en_name x) = low (en_name r)) rows"

text \<open>The constraints of the table that depend on other rows or on the values.\<close>

definition check_row :: "(string \<Rightarrow> string) \<Rightarrow> endpoint_row \<Rightarrow> endpoint_db \<Rightarrow> error option" where
  "check_row low r db =
     (if \<not> (100 \<le> en_connect_timeout_ms r \<and> en_connect_timeout_ms r \<le> 120000)
      then Some (PgError ''23514'' ''connect_timeout_ms'')
      else if \<not> (100 \<le> en_request_timeout_ms r \<and> en_request_timeout_ms r \<le> 120000)
      then Some (PgError ''23514'' ''request_timeout_ms'')
      else if name_taken low r (edb_endpoints db) then Some (pg_unique ''idx_endpoints_active_name'')
      else if \<not> list_ex (\<lambda>p. po_id p = en_policy_id r \<and> po_tenant_id p = en_tenant_id r) (edb_policies db)
      then Some (pg_foreign_key ''fk_endpoint_retry_policy_tenant'')
      else None)"

definition insert_endpoint ::
    "(string \<Rightarrow> string) \<Rightarrow> endpoint_row \<Rightarrow> endpoint_db \<Rightarrow> endpoint_db result" where
  "insert_endpoint low r db =
     (if en_id r \<in> en_id ` set (edb_endpoints db) then Inl (pg_unique ''endpoints_pkey'')
      else case check_row low r db of
        Some e \<Rightarrow> Inl e
      | None \<Rightarrow> Inr (db\<lparr>edb_endpoints := edb_endpoints db @ [r]\<rparr>))"

text \<open>An update of the row with this identifier and tenant to the row \<open>r\<close>.\<close>

definition update_endpoint ::
    "(string \<Rightarrow> string) \<Rightarrow> endpoint_row \<Rightarrow> endpoint_db \<Rightarrow> endpoint_db result" where
  "update_endpoint low r db =
     (case check_row low r db of
        Some e \<Rightarrow> Inl e
      | None \<Rightarrow> Inr (db\<lparr>edb_endpoints :=
          update_where (\<lambda>x. en_id x = en_id r \<and> en_tenant_id x = en_tenant_id r) (\<lambda>_. r) (edb_endpoints db)\<rparr>))"

datatype endpoint_call =
    EC_Begin | EC_Tenant | EC_Write | EC_Delete_Subs | EC_Sub string | EC_Scan | EC_Subs
  | EC_Policy | EC_Commit

fun insert_endpoint_subs ::
    "endpoint_call faults \<Rightarrow> uuid \<Rightarrow> string list \<Rightarrow> endpoint_db \<Rightarrow> endpoint_db result" where
  "insert_endpoint_subs f i [] db = Inr db"
| "insert_endpoint_subs f i (ty # tys) db =
     guard (map_option (wrap ''insert subscription: '') (f (EC_Sub ty)))
       (if (i, ty) \<in> set (edb_subs db)
        then Inl (wrap ''insert subscription: '' (pg_unique ''endpoint_subscriptions_pkey''))
        else insert_endpoint_subs f i tys (db\<lparr>edb_subs := edb_subs db @ [(i, ty)]\<rparr>))"

definition delete_subs :: "uuid \<Rightarrow> endpoint_db \<Rightarrow> endpoint_db" where
  "delete_subs i db = db\<lparr>edb_subs := filter (\<lambda>s. fst s \<noteq> i) (edb_subs db)\<rparr>"

definition types_of :: "uuid \<Rightarrow> endpoint_db \<Rightarrow> string list" where
  "types_of i db = sort (map snd (filter (\<lambda>s. fst s = i) (edb_subs db)))"

text \<open>\<open>scanEndpoint\<close> reads the one row of a query, or none; \<open>loadSubscriptions\<close> adds the event types.\<close>

definition scan_endpoint :: "error option \<Rightarrow> endpoint_row option \<Rightarrow> endpoint_row result" where
  "scan_endpoint f row = guard f (case row of None \<Rightarrow> Inl NoRows | Some r \<Rightarrow> Inr r)"

definition load_subscriptions :: "error option \<Rightarrow> endpoint_row \<Rightarrow> endpoint_db \<Rightarrow> endpoint result" where
  "load_subscriptions f r db = guard f (Inr \<lparr>ep_row = r, ep_event_types = types_of (en_id r) db\<rparr>)"

lemma scan_endpoint_Inr [simp]: "scan_endpoint f row = Inr r \<longleftrightarrow> f = None \<and> row = Some r"
  by (auto simp: scan_endpoint_def guard_Inr split: option.splits)

lemma load_subscriptions_Inr [simp]:
  "load_subscriptions f r db = Inr ep \<longleftrightarrow> f = None \<and> ep = \<lparr>ep_row = r, ep_event_types = types_of (en_id r) db\<rparr>"
  by (auto simp: load_subscriptions_def guard_Inr)

text \<open>\<open>scanTx\<close> with \<open>loadSubscriptionsTx\<close>.\<close>

definition scan_tx :: "endpoint_call faults \<Rightarrow> uuid \<Rightarrow> endpoint_db \<Rightarrow> endpoint result" where
  "scan_tx f i db =
     guard (f EC_Scan)
       (case find_row en_id i (edb_endpoints db) of
          None \<Rightarrow> Inl NoRows
        | Some r \<Rightarrow> guard (f EC_Subs) (Inr \<lparr>ep_row = r, ep_event_types = types_of i db\<rparr>))"

definition get_policy_tx :: "endpoint_call faults \<Rightarrow> uuid \<Rightarrow> uuid \<Rightarrow> endpoint_db \<Rightarrow> policy result" where
  "get_policy_tx f tenant i db =
     guard (map_option (wrap ''get retry policy: '') (f EC_Policy))
       (case List.find (\<lambda>p. po_tenant_id p = tenant \<and> po_id p = i) (edb_policies db) of
          None \<Rightarrow> Inl (wrap ''get retry policy: '' NoRows)
        | Some p \<Rightarrow> Inr p)"

section \<open>Operations\<close>

definition new_endpoint_row ::
    "endpoint_env \<Rightarrow> uuid \<Rightarrow> create_request \<Rightarrow> bytes \<Rightarrow> policy \<Rightarrow> endpoint_row" where
  "new_endpoint_row env tenant req enc p =
     \<lparr>en_id = nv_new_id env, en_tenant_id = tenant, en_name = cr_name req, en_url = cr_url req,
      en_secret = enc, en_status = ACTIVE, en_connect_timeout_ms = cr_connect_timeout_ms req,
      en_request_timeout_ms = cr_request_timeout_ms req, en_policy_id = po_id p, en_version = 1,
      en_created_at = nv_now env, en_updated_at = nv_now env, en_deleted_at = None\<rparr>"

definition create_endpoint ::
    "endpoint_call faults \<Rightarrow> endpoint_env \<Rightarrow> uuid \<Rightarrow> create_request \<Rightarrow> bytes \<Rightarrow> policy \<Rightarrow> endpoint_db
       \<Rightarrow> endpoint result \<times> endpoint_db" where
  "create_endpoint f env tenant req enc p =
     run_tx (map_option (wrap ''begin create endpoint: '') (f EC_Begin))
       (map_option (wrap ''commit create endpoint: '') (f EC_Commit))
       (\<lambda>db. guard (map_option (wrap ''check tenant: '') (f EC_Tenant))
         (case map_of (edb_tenants db) tenant of
            None \<Rightarrow> Inl (Wrap [] Endpoint_ErrInvalid '': tenant not found'')
          | Some status \<Rightarrow>
              (if status \<noteq> ''ACTIVE'' then Inl (Wrap [] Endpoint_ErrInvalid '': tenant is not active'')
               else guard (map_option map_db_error (f EC_Write))
                 (case insert_endpoint (nv_lower env) (new_endpoint_row env tenant req enc p) db of
                    Inl e \<Rightarrow> Inl (map_db_error e)
                  | Inr db1 \<Rightarrow>
                      (case insert_endpoint_subs f (nv_new_id env) (cr_event_types req) db1 of
                         Inl e \<Rightarrow> Inl e
                       | Inr db2 \<Rightarrow>
                           (case scan_tx f (nv_new_id env) db2 of
                              Inl e \<Rightarrow> Inl e
                            | Inr ep \<Rightarrow> Inr (ep, db2)))))))"

text \<open>\<open>getPolicy\<close> runs the statement of \<open>getPolicyTx\<close> outside of a transaction.\<close>

definition get_policy :: "endpoint_call faults \<Rightarrow> uuid \<Rightarrow> uuid \<Rightarrow> endpoint_db \<Rightarrow> policy result" where
  "get_policy = get_policy_tx"

definition get_endpoint ::
    "endpoint_call faults \<Rightarrow> uuid \<Rightarrow> uuid \<Rightarrow> endpoint_db \<Rightarrow> (endpoint \<times> policy) result" where
  "get_endpoint f tenant i db =
     (case scan_endpoint (f EC_Scan)
             (List.find (\<lambda>r. en_tenant_id r = tenant \<and> en_id r = i) (edb_endpoints db)) of
        Inl e \<Rightarrow> Inl (if errors_is e NoRows then Endpoint_ErrNotFound else wrap ''get endpoint: '' e)
      | Inr r \<Rightarrow>
          (case load_subscriptions (f EC_Subs) r db of
             Inl e \<Rightarrow> Inl e
           | Inr ep \<Rightarrow>
               (case get_policy f tenant (en_policy_id r) db of
                  Inl e \<Rightarrow> Inl e
                | Inr p \<Rightarrow> Inr (ep, p))))"

text \<open>What \<open>Patch\<close> and \<open>Delete\<close> read first.\<close>

definition scan_own :: "endpoint_call faults \<Rightarrow> uuid \<Rightarrow> uuid \<Rightarrow> endpoint_db \<Rightarrow> endpoint result" where
  "scan_own f tenant i db =
     (case scan_tx f i db of
        Inl e \<Rightarrow> Inl (if errors_is e NoRows then Endpoint_ErrNotFound else e)
      | Inr ep \<Rightarrow>
          (if en_tenant_id (ep_row ep) \<noteq> tenant then Inl Endpoint_ErrNotFound else Inr ep))"

definition patched_row ::
    "endpoint_env \<Rightarrow> patch_request \<Rightarrow> bytes \<Rightarrow> endpoint_row \<Rightarrow> endpoint_row" where
  "patched_row env req enc r =
     r\<lparr>en_name := orelse (pt_name req) (en_name r), en_url := orelse (pt_url req) (en_url r),
       en_secret := (if pt_secret req = None then en_secret r else enc),
       en_connect_timeout_ms := orelse (pt_connect_timeout_ms req) (en_connect_timeout_ms r),
       en_request_timeout_ms := orelse (pt_request_timeout_ms req) (en_request_timeout_ms r),
       en_policy_id := orelse (pt_policy_id req) (en_policy_id r),
       en_version := en_version r + 1, en_updated_at := nv_now env\<rparr>"

definition patch_policy ::
    "endpoint_call faults \<Rightarrow> uuid \<Rightarrow> uuid \<Rightarrow> policy option \<Rightarrow> endpoint_db \<Rightarrow> policy result" where
  "patch_policy f tenant i p db =
     (case p of
        None \<Rightarrow> get_policy_tx f tenant i db
      | Some q \<Rightarrow> (if po_id q \<noteq> i then get_policy_tx f tenant i db else Inr q))"

definition replace_subs ::
    "endpoint_call faults \<Rightarrow> uuid \<Rightarrow> string list option \<Rightarrow> endpoint_db \<Rightarrow> endpoint_db result" where
  "replace_subs f i types db =
     (case types of
        None \<Rightarrow> Inr db
      | Some tys \<Rightarrow> guard (f EC_Delete_Subs) (insert_endpoint_subs f i tys (delete_subs i db)))"

definition patch_endpoint ::
    "endpoint_call faults \<Rightarrow> endpoint_env \<Rightarrow> uuid \<Rightarrow> uuid \<Rightarrow> patch_request \<Rightarrow> bytes \<Rightarrow> policy option
       \<Rightarrow> endpoint_db \<Rightarrow> (endpoint \<times> policy) result \<times> endpoint_db" where
  "patch_endpoint f env tenant i req enc p =
     run_tx (map_option (wrap ''begin patch endpoint: '') (f EC_Begin))
       (map_option (wrap ''commit patch endpoint: '') (f EC_Commit))
       (\<lambda>db. case scan_own f tenant i db of
          Inl e \<Rightarrow> Inl e
        | Inr ep \<Rightarrow>
            (if en_status (ep_row ep) = DELETED
             then Inl (Wrap [] Endpoint_ErrConflict '': deleted endpoint cannot be patched'')
             else case patch_policy f tenant (en_policy_id (patched_row env req enc (ep_row ep))) p db of
               Inl e \<Rightarrow> Inl e
             | Inr q \<Rightarrow>
                 guard (map_option map_db_error (f EC_Write))
                   (case update_endpoint (nv_lower env) (patched_row env req enc (ep_row ep)) db of
                      Inl e \<Rightarrow> Inl (map_db_error e)
                    | Inr db1 \<Rightarrow>
                        (case replace_subs f i (pt_event_types req) db1 of
                           Inl e \<Rightarrow> Inl e
                         | Inr db2 \<Rightarrow>
                             (case scan_tx f i db2 of
                                Inl e \<Rightarrow> Inl e
                              | Inr ep' \<Rightarrow> Inr ((ep', q), db2))))))"

definition deleted_row :: "time \<Rightarrow> endpoint_row \<Rightarrow> endpoint_row" where
  "deleted_row now r = r\<lparr>en_status := DELETED, en_deleted_at := Some now,
     en_version := en_version r + 1, en_updated_at := now\<rparr>"

text \<open>The endpoint returned has the time of the clock, the row the database's precision.\<close>

definition delete_endpoint ::
    "endpoint_call faults \<Rightarrow> endpoint_env \<Rightarrow> uuid \<Rightarrow> uuid \<Rightarrow> endpoint_db
       \<Rightarrow> (endpoint \<times> policy) result \<times> endpoint_db" where
  "delete_endpoint f env tenant i =
     run_tx (f EC_Begin) None
       (\<lambda>db. case scan_own f tenant i db of
          Inl e \<Rightarrow> Inl e
        | Inr ep \<Rightarrow>
            (case get_policy_tx f tenant (en_policy_id (ep_row ep)) db of
               Inl e \<Rightarrow> Inl e
             | Inr p \<Rightarrow>
                 (if en_status (ep_row ep) = DELETED then Inr ((ep, p), db)
                  else guard (f EC_Write)
                    (case update_endpoint (nv_lower env) (deleted_row (pg_time (nv_clock env)) (ep_row ep)) db of
                       Inl e \<Rightarrow> Inl e
                     | Inr db1 \<Rightarrow>
                         guard (f EC_Delete_Subs) (guard (f EC_Commit)
                           (Inr ((\<lparr>ep_row = deleted_row (nv_clock env) (ep_row ep), ep_event_types = []\<rparr>, p),
                                 delete_subs i db1)))))))"

definition get_subscriptions ::
    "endpoint_call faults \<Rightarrow> uuid \<Rightarrow> string \<Rightarrow> endpoint_db \<Rightarrow> endpoint list result" where
  "get_subscriptions f tenant ty db =
     guard (f EC_Scan)
       (Inr (map (\<lambda>r. \<lparr>ep_row = r, ep_event_types = []\<rparr>)
          (sort_key en_id (filter (\<lambda>r. en_tenant_id r = tenant \<and> (en_id r, ty) \<in> set (edb_subs db)
             \<and> en_status r = ACTIVE \<and> en_deleted_at r = None) (edb_endpoints db)))))"

section \<open>Retry policies\<close>

definition policy_get :: "error option \<Rightarrow> uuid \<Rightarrow> uuid \<Rightarrow> endpoint_db \<Rightarrow> policy result" where
  "policy_get f tenant i db =
     guard f
       (case List.find (\<lambda>p. po_tenant_id p = tenant \<and> po_id p = i) (edb_policies db) of
          None \<Rightarrow> Inl NoRows
        | Some p \<Rightarrow> Inr p)"

definition policy_exists :: "error option \<Rightarrow> uuid \<Rightarrow> uuid \<Rightarrow> endpoint_db \<Rightarrow> bool result" where
  "policy_exists f tenant i db =
     guard f (Inr (list_ex (\<lambda>p. po_tenant_id p = tenant \<and> po_id p = i) (edb_policies db)))"

definition default_retry_policy :: "uuid \<Rightarrow> uuid \<Rightarrow> policy" where
  "default_retry_policy i tenant =
     \<lparr>po_id = i, po_tenant_id = tenant, po_name = ''default'', po_max_attempts = 5,
      po_backoff_type = ''exponential'', po_initial_delay = 10000, po_max_delay = 600000,
      po_jitter_percent = 20\<rparr>"

definition get_or_create_default ::
    "error option \<Rightarrow> uuid \<Rightarrow> uuid \<Rightarrow> endpoint_db \<Rightarrow> policy result \<times> endpoint_db" where
  "get_or_create_default f new_id tenant db =
     (case f of
        Some e \<Rightarrow> (Inl (wrap ''get default retry policy: '' e), db)
      | None \<Rightarrow>
          (case List.find (\<lambda>p. po_tenant_id p = tenant \<and> po_name p = ''default'') (edb_policies db) of
             Some p \<Rightarrow> (Inr p, db)
           | None \<Rightarrow>
               (if new_id \<in> po_id ` set (edb_policies db)
                then (Inl (wrap ''get default retry policy: '' (pg_unique ''retry_policies_pkey'')), db)
                else (Inr (default_retry_policy new_id tenant),
                      db\<lparr>edb_policies := edb_policies db @ [default_retry_policy new_id tenant]\<rparr>))))"

end
