(* ===== verification/EndpointInv.thy ===== *)
theory EndpointInv
  imports EndpointRepo
begin

text \<open>
  The invariant of the endpoint tables and that every operation of \<open>EndpointRepo\<close> keeps it.
\<close>

definition row_ok :: "endpoint_db \<Rightarrow> endpoint_row \<Rightarrow> bool" where
  "row_ok db r \<longleftrightarrow>
     100 \<le> en_connect_timeout_ms r \<and> en_connect_timeout_ms r \<le> 120000
     \<and> 100 \<le> en_request_timeout_ms r \<and> en_request_timeout_ms r \<le> 120000
     \<and> 1 \<le> en_version r \<and> (en_status r = DELETED \<longleftrightarrow> en_deleted_at r \<noteq> None)
     \<and> (\<exists>p\<in>set (edb_policies db). po_id p = en_policy_id r \<and> po_tenant_id p = en_tenant_id r)"

definition names_ok :: "(string \<Rightarrow> string) \<Rightarrow> endpoint_row list \<Rightarrow> bool" where
  "names_ok low rows \<longleftrightarrow>
     (\<forall>r\<in>set rows. \<forall>x\<in>set rows. en_deleted_at r = None \<longrightarrow> en_deleted_at x = None \<longrightarrow>
        en_tenant_id x = en_tenant_id r \<longrightarrow> low (en_name x) = low (en_name r) \<longrightarrow> en_id x = en_id r)"

definition subs_ok :: "endpoint_db \<Rightarrow> bool" where
  "subs_ok db \<longleftrightarrow> distinct (edb_subs db)
     \<and> (\<forall>s\<in>set (edb_subs db). \<exists>r\<in>set (edb_endpoints db). en_id r = fst s \<and> en_status r = ACTIVE)"

definition endpoint_db_ok :: "(string \<Rightarrow> string) \<Rightarrow> endpoint_db \<Rightarrow> bool" where
  "endpoint_db_ok low db \<longleftrightarrow>
     distinct (map en_id (edb_endpoints db)) \<and> list_all (row_ok db) (edb_endpoints db)
     \<and> names_ok low (edb_endpoints db) \<and> subs_ok db"

section \<open>Statements\<close>

lemma check_row_None:
  "check_row low r db = None \<longleftrightarrow>
     100 \<le> en_connect_timeout_ms r \<and> en_connect_timeout_ms r \<le> 120000
     \<and> 100 \<le> en_request_timeout_ms r \<and> en_request_timeout_ms r \<le> 120000
     \<and> \<not> name_taken low r (edb_endpoints db)
     \<and> (\<exists>p\<in>set (edb_policies db). po_id p = en_policy_id r \<and> po_tenant_id p = en_tenant_id r)"
  by (auto simp: check_row_def list_ex_iff)

lemma insert_endpoint_Inr:
  "insert_endpoint low r db = Inr db' \<longleftrightarrow>
     en_id r \<notin> en_id ` set (edb_endpoints db) \<and> check_row low r db = None
     \<and> db' = db\<lparr>edb_endpoints := edb_endpoints db @ [r]\<rparr>"
  by (auto simp: insert_endpoint_def split: option.split)

lemma update_endpoint_Inr:
  "update_endpoint low r db = Inr db' \<longleftrightarrow>
     check_row low r db = None
     \<and> db' = db\<lparr>edb_endpoints :=
         update_where (\<lambda>x. en_id x = en_id r \<and> en_tenant_id x = en_tenant_id r) (\<lambda>_. r) (edb_endpoints db)\<rparr>"
  by (auto simp: update_endpoint_def split: option.split)

lemma names_ok_insert:
  assumes "names_ok low rows" and "\<not> name_taken low r rows" and "set rows' \<subseteq> insert r (set rows)"
  shows "names_ok low rows'"
  unfolding names_ok_def
proof (intro ballI impI)
  fix a b
  assume ab: "a \<in> set rows'" "b \<in> set rows'" "en_deleted_at a = None" "en_deleted_at b = None"
    "en_tenant_id b = en_tenant_id a" "low (en_name b) = low (en_name a)"
  have key: "en_id x = en_id r" if "x \<in> set rows" "en_deleted_at x = None" "en_deleted_at r = None"
      "en_tenant_id x = en_tenant_id r" "low (en_name x) = low (en_name r)" for x
    using assms(2) that unfolding name_taken_def list_ex_iff by blast
  have "a = r \<or> a \<in> set rows" "b = r \<or> b \<in> set rows" using assms(3) ab(1,2) by auto
  then consider "a = r" "b = r" | "a = r" "b \<in> set rows" | "a \<in> set rows" "b = r"
    | "a \<in> set rows" "b \<in> set rows" by blast
  then show "en_id b = en_id a"
  proof cases
    case 2
    then show ?thesis using key [of b] ab by simp
  next
    case 3
    then show ?thesis using key [of a] ab by simp
  next
    case 4
    then show ?thesis using assms(1) ab unfolding names_ok_def by blast
  qed simp
qed

lemma insert_endpoint_ok:
  assumes "insert_endpoint low r db = Inr db'" and "endpoint_db_ok low db"
    and "en_version r = 1" "en_status r = ACTIVE" "en_deleted_at r = None"
  shows "endpoint_db_ok low db'"
proof -
  from assms(1) have new: "en_id r \<notin> en_id ` set (edb_endpoints db)" and chk: "check_row low r db = None"
    and db': "db' = db\<lparr>edb_endpoints := edb_endpoints db @ [r]\<rparr>"
    by (simp_all add: insert_endpoint_Inr)
  have "row_ok db' r" using chk assms(3-5) by (simp add: row_ok_def check_row_None db')
  moreover have "row_ok db' x = row_ok db x" for x by (simp add: row_ok_def db')
  moreover have "names_ok low (edb_endpoints db @ [r])"
    by (rule names_ok_insert [of low "edb_endpoints db" r])
      (use assms(2) chk in \<open>simp_all add: check_row_None endpoint_db_ok_def\<close>)
  moreover have "subs_ok db'"
    using assms(2) by (fastforce simp: subs_ok_def endpoint_db_ok_def db')
  ultimately show ?thesis using assms(2) new by (simp add: endpoint_db_ok_def db' list_all_iff)
qed

lemma update_endpoint_set:
  assumes "distinct (map en_id rows)" and "old \<in> set rows"
    and "en_id r = en_id old" "en_tenant_id r = en_tenant_id old"
  shows "set (update_where (\<lambda>x. en_id x = en_id r \<and> en_tenant_id x = en_tenant_id r) (\<lambda>_. r) rows)
           = insert r (set rows - {old})"
proof -
  have "x = old" if "x \<in> set rows" "en_id x = en_id old" for x
    using distinct_keys_eq [OF assms(1) that(1) assms(2)] that(2) by simp
  then show ?thesis using assms(2-4) by (auto simp: set_update_where)
qed

text \<open>Replacing a row that is not deleted by one with the same identity.\<close>

lemma update_endpoint_ok:
  assumes "update_endpoint low r db = Inr db'" and "endpoint_db_ok low db"
    and "old \<in> set (edb_endpoints db)" "en_id r = en_id old" "en_tenant_id r = en_tenant_id old"
    and "1 \<le> en_version r" "en_status r = DELETED \<longleftrightarrow> en_deleted_at r \<noteq> None"
    and "en_status r = DELETED \<Longrightarrow> \<forall>s\<in>set (edb_subs db). fst s \<noteq> en_id r"
  shows "endpoint_db_ok low db'"
proof -
  let ?rows = "update_where (\<lambda>x. en_id x = en_id r \<and> en_tenant_id x = en_tenant_id r) (\<lambda>_. r)
      (edb_endpoints db)"
  from assms(1) have chk: "check_row low r db = None" and db': "db' = db\<lparr>edb_endpoints := ?rows\<rparr>"
    by (simp_all add: update_endpoint_Inr)
  have d: "distinct (map en_id (edb_endpoints db))" using assms(2) by (simp add: endpoint_db_ok_def)
  have rows: "set ?rows = insert r (set (edb_endpoints db) - {old})"
    by (rule update_endpoint_set [OF d assms(3,4,5)])
  have "map en_id ?rows = map en_id (edb_endpoints db)" by (rule map_update_where) simp
  then have "distinct (map en_id ?rows)" using d by simp
  moreover have "row_ok db' r" using chk assms(6,7) by (simp add: row_ok_def check_row_None db')
  then have "\<forall>x\<in>set ?rows. row_ok db' x"
    using assms(2) unfolding rows by (auto simp: endpoint_db_ok_def list_all_iff row_ok_def db')
  moreover have "names_ok low ?rows"
    by (rule names_ok_insert [of low "edb_endpoints db" r])
      (use assms(2) chk rows in \<open>auto simp: check_row_None endpoint_db_ok_def\<close>)
  moreover have "subs_ok db'"
    unfolding subs_ok_def
  proof (intro conjI ballI)
    show "distinct (edb_subs db')" using assms(2) by (simp add: endpoint_db_ok_def subs_ok_def db')
    fix s assume s: "s \<in> set (edb_subs db')"
    then obtain x where x: "x \<in> set (edb_endpoints db)" "en_id x = fst s" "en_status x = ACTIVE"
      using assms(2) by (auto simp: endpoint_db_ok_def subs_ok_def db')
    have "r \<in> set ?rows" by (simp add: rows)
    moreover have "en_status r = ACTIVE" if "en_id r = fst s"
      using assms(8) s that by (cases "en_status r") (auto simp: db')
    moreover have "x \<in> set ?rows" if "x \<noteq> old" using x(1) that by (simp add: rows)
    ultimately show "\<exists>r\<in>set (edb_endpoints db'). en_id r = fst s \<and> en_status r = ACTIVE"
      using x assms(4) by (cases "x = old") (auto simp: db')
  qed
  ultimately show ?thesis by (simp add: endpoint_db_ok_def db' list_all_iff)
qed

lemma insert_endpoint_subs_Inr:
  assumes "insert_endpoint_subs f i tys db = Inr db'"
  shows "db' = db\<lparr>edb_subs := edb_subs db @ map (Pair i) tys\<rparr> \<and> distinct tys
           \<and> (\<forall>t\<in>set tys. (i, t) \<notin> set (edb_subs db))"
  using assms
proof (induction tys arbitrary: db)
  case (Cons ty tys)
  let ?db = "db\<lparr>edb_subs := edb_subs db @ [(i, ty)]\<rparr>"
  from Cons.prems have "insert_endpoint_subs f i tys ?db = Inr db'" and "(i, ty) \<notin> set (edb_subs db)"
    by (auto simp: guard_Inr split: if_splits)
  with Cons.IH [OF this(1)] show ?case by auto
qed simp

lemma insert_endpoint_subs_ok:
  assumes "insert_endpoint_subs f i tys db = Inr db'" and "endpoint_db_ok low db"
    and "r \<in> set (edb_endpoints db)" "en_id r = i" "en_status r = ACTIVE"
  shows "endpoint_db_ok low db'"
proof -
  from insert_endpoint_subs_Inr [OF assms(1)] have
    db': "db' = db\<lparr>edb_subs := edb_subs db @ map (Pair i) tys\<rparr>" and d: "distinct tys"
    and new: "\<forall>t\<in>set tys. (i, t) \<notin> set (edb_subs db)" by simp_all
  have "distinct (map (Pair i) tys)" using d by (simp add: distinct_map inj_on_def)
  then have "subs_ok db'"
    using assms(2-5) new by (auto simp: subs_ok_def endpoint_db_ok_def db')
  then show ?thesis using assms(2) by (simp add: endpoint_db_ok_def db' row_ok_def list_all_iff)
qed

lemma delete_subs_ok: "endpoint_db_ok low db \<Longrightarrow> endpoint_db_ok low (delete_subs i db)"
  by (auto simp: endpoint_db_ok_def delete_subs_def subs_ok_def row_ok_def list_all_iff)

section \<open>Operations\<close>

lemma create_endpoint_Inr:
  "create_endpoint f env tenant req enc p db = (Inr ep, db') \<Longrightarrow>
     map_of (edb_tenants db) tenant = Some ''ACTIVE''
     \<and> (\<exists>db1. insert_endpoint (nv_lower env) (new_endpoint_row env tenant req enc p) db = Inr db1
          \<and> insert_endpoint_subs f (nv_new_id env) (cr_event_types req) db1 = Inr db'
          \<and> scan_tx f (nv_new_id env) db' = Inr ep)"
  by (auto simp: create_endpoint_def run_tx_commit guard_Inr split: option.splits if_splits sum.splits)

lemma create_endpoint_ok:
  assumes "endpoint_db_ok (nv_lower env) db"
  shows "endpoint_db_ok (nv_lower env) (snd (create_endpoint f env tenant req enc p db))"
proof (cases "create_endpoint f env tenant req enc p db")
  case (Pair res db')
  show ?thesis
  proof (cases res)
    case (Inl e)
    then have "db' = db" using Pair run_tx_atomic by (simp add: create_endpoint_def)
    then show ?thesis using Pair assms by simp
  next
    case (Inr ep)
    let ?r = "new_endpoint_row env tenant req enc p"
    obtain db1 where ins: "insert_endpoint (nv_lower env) ?r db = Inr db1"
      and subs: "insert_endpoint_subs f (nv_new_id env) (cr_event_types req) db1 = Inr db'"
      using create_endpoint_Inr Pair Inr by blast
    have ok1: "endpoint_db_ok (nv_lower env) db1"
      by (rule insert_endpoint_ok [OF ins assms]) (simp_all add: new_endpoint_row_def)
    have "?r \<in> set (edb_endpoints db1)" using ins by (simp add: insert_endpoint_Inr)
    then show ?thesis
      using insert_endpoint_subs_ok [OF subs ok1, of ?r] Pair by (simp add: new_endpoint_row_def)
  qed
qed

lemma scan_tx_Inr:
  "scan_tx f i db = Inr ep \<Longrightarrow> ep_row ep \<in> set (edb_endpoints db) \<and> en_id (ep_row ep) = i
     \<and> ep_event_types ep = types_of i db"
  by (auto simp: scan_tx_def guard_Inr split: option.splits dest: find_row_SomeD)

text \<open>Creating returns the row that it has inserted.\<close>

lemma create_endpoint_row:
  assumes "create_endpoint f env tenant req enc p db = (Inr ep, db')"
  shows "ep_row ep = new_endpoint_row env tenant req enc p"
proof -
  let ?r = "new_endpoint_row env tenant req enc p" and ?i = "nv_new_id env"
  obtain db1 where ins: "insert_endpoint (nv_lower env) ?r db = Inr db1"
    and subs: "insert_endpoint_subs f ?i (cr_event_types req) db1 = Inr db'" and scan: "scan_tx f ?i db' = Inr ep"
    using create_endpoint_Inr [OF assms] by blast
  have "edb_endpoints db' = edb_endpoints db @ [?r]" and "?i \<notin> en_id ` set (edb_endpoints db)"
    using insert_endpoint_subs_Inr [OF subs] ins by (simp_all add: insert_endpoint_Inr new_endpoint_row_def)
  then show ?thesis using scan_tx_Inr [OF scan] by (auto simp: image_iff)
qed

lemma scan_own_Inr:
  "scan_own f tenant i db = Inr ep \<Longrightarrow> ep_row ep \<in> set (edb_endpoints db) \<and> en_id (ep_row ep) = i
     \<and> en_tenant_id (ep_row ep) = tenant"
  by (auto simp: scan_own_def split: sum.splits if_splits dest: scan_tx_Inr)

lemma patched_row_fields [simp]:
  "en_id (patched_row env req enc r) = en_id r"
  "en_tenant_id (patched_row env req enc r) = en_tenant_id r"
  "en_status (patched_row env req enc r) = en_status r"
  "en_deleted_at (patched_row env req enc r) = en_deleted_at r"
  "en_version (patched_row env req enc r) = en_version r + 1"
  by (simp_all add: patched_row_def)

lemma deleted_row_fields [simp]:
  "en_id (deleted_row now r) = en_id r" "en_tenant_id (deleted_row now r) = en_tenant_id r"
  "en_status (deleted_row now r) = DELETED" "en_deleted_at (deleted_row now r) = Some now"
  "en_version (deleted_row now r) = en_version r + 1"
  by (simp_all add: deleted_row_def)

lemma patch_endpoint_Inr:
  "patch_endpoint f env tenant i req enc p db = (Inr (ep', q), db') \<Longrightarrow>
     \<exists>ep db1. scan_own f tenant i db = Inr ep \<and> en_status (ep_row ep) = ACTIVE
       \<and> update_endpoint (nv_lower env) (patched_row env req enc (ep_row ep)) db = Inr db1
       \<and> replace_subs f i (pt_event_types req) db1 = Inr db' \<and> scan_tx f i db' = Inr ep'"
  by (auto simp: patch_endpoint_def run_tx_commit guard_Inr split: sum.splits if_splits)
    (metis endpoint_status.exhaust)

lemma replace_subs_Inr:
  "replace_subs f i types db = Inr db' \<Longrightarrow> edb_endpoints db' = edb_endpoints db
     \<and> edb_policies db' = edb_policies db \<and> edb_tenants db' = edb_tenants db
     \<and> set (edb_subs db') = (case types of None \<Rightarrow> set (edb_subs db)
          | Some tys \<Rightarrow> {s \<in> set (edb_subs db). fst s \<noteq> i} \<union> Pair i ` set tys)"
  by (auto simp: replace_subs_def guard_Inr delete_subs_def split: option.splits
      dest!: insert_endpoint_subs_Inr)

lemma replace_subs_ok:
  assumes "replace_subs f i types db = Inr db'" and "endpoint_db_ok low db"
    and "r \<in> set (edb_endpoints db)" "en_id r = i" "en_status r = ACTIVE"
  shows "endpoint_db_ok low db'"
proof (cases types)
  case None
  then show ?thesis using assms(1,2) by (simp add: replace_subs_def)
next
  case (Some tys)
  then have "insert_endpoint_subs f i tys (delete_subs i db) = Inr db'"
    using assms(1) by (simp add: replace_subs_def guard_Inr)
  then show ?thesis
    by (rule insert_endpoint_subs_ok [OF _ delete_subs_ok [OF assms(2)] _ assms(4,5)])
      (simp add: delete_subs_def assms(3))
qed

lemma update_endpoint_mem:
  assumes "update_endpoint low r db = Inr db'" and "distinct (map en_id (edb_endpoints db))"
    and "old \<in> set (edb_endpoints db)" "en_id r = en_id old" "en_tenant_id r = en_tenant_id old"
  shows "set (edb_endpoints db') = insert r (set (edb_endpoints db) - {old})"
    and "edb_policies db' = edb_policies db" "edb_subs db' = edb_subs db" "edb_tenants db' = edb_tenants db"
proof -
  have db': "db' = db\<lparr>edb_endpoints :=
      update_where (\<lambda>x. en_id x = en_id r \<and> en_tenant_id x = en_tenant_id r) (\<lambda>_. r) (edb_endpoints db)\<rparr>"
    using assms(1) by (simp add: update_endpoint_Inr)
  show "set (edb_endpoints db') = insert r (set (edb_endpoints db) - {old})"
    using update_endpoint_set [OF assms(2-5)] by (simp add: db')
  show "edb_policies db' = edb_policies db" "edb_subs db' = edb_subs db" "edb_tenants db' = edb_tenants db"
    by (simp_all add: db')
qed

lemma endpoint_db_okD:
  "endpoint_db_ok low db \<Longrightarrow> distinct (map en_id (edb_endpoints db))"
  "endpoint_db_ok low db \<Longrightarrow> r \<in> set (edb_endpoints db) \<Longrightarrow> row_ok db r"
  "endpoint_db_ok low db \<Longrightarrow> names_ok low (edb_endpoints db)"
  "endpoint_db_ok low db \<Longrightarrow> subs_ok db"
  by (simp_all add: endpoint_db_ok_def list_all_iff)

lemma patch_endpoint_ok_Inr:
  assumes "endpoint_db_ok (nv_lower env) db"
    and "patch_endpoint f env tenant i req enc p db = (Inr (ep', q), db')"
  shows "endpoint_db_ok (nv_lower env) db'"
proof -
  from patch_endpoint_Inr [OF assms(2)] obtain ep db1 where
    own: "scan_own f tenant i db = Inr ep" and act: "en_status (ep_row ep) = ACTIVE"
    and up: "update_endpoint (nv_lower env) (patched_row env req enc (ep_row ep)) db = Inr db1"
    and subs: "replace_subs f i (pt_event_types req) db1 = Inr db'" by blast
  let ?r = "patched_row env req enc (ep_row ep)"
  have old: "ep_row ep \<in> set (edb_endpoints db)" "en_id (ep_row ep) = i"
    using scan_own_Inr [OF own] by simp_all
  have rok: "row_ok db (ep_row ep)" using endpoint_db_okD(2) [OF assms(1) old(1)] .
  have ok1: "endpoint_db_ok (nv_lower env) db1"
    by (rule update_endpoint_ok [OF up assms(1) old(1)]) (use rok act in \<open>simp_all add: row_ok_def\<close>)
  have "set (edb_endpoints db1) = insert ?r (set (edb_endpoints db) - {ep_row ep})"
    by (rule update_endpoint_mem(1) [OF up endpoint_db_okD(1) [OF assms(1)] old(1)]) simp_all
  then show ?thesis
    by (intro replace_subs_ok [OF subs ok1, of ?r]) (use act old in simp_all)
qed

lemma patch_endpoint_error:
  "patch_endpoint f env tenant i req enc p db = (Inl e, db') \<Longrightarrow> db' = db"
  unfolding patch_endpoint_def by (rule run_tx_atomic)

lemma patch_endpoint_ok:
  "endpoint_db_ok (nv_lower env) db \<Longrightarrow>
     endpoint_db_ok (nv_lower env) (snd (patch_endpoint f env tenant i req enc p db))"
  using patch_endpoint_ok_Inr patch_endpoint_error
  by (cases "patch_endpoint f env tenant i req enc p db"; cases "fst (patch_endpoint f env tenant i req enc p db)")
    fastforce+

lemma delete_endpoint_Inr:
  assumes "delete_endpoint f env tenant i db = (Inr (ep', q), db')"
  shows "\<exists>ep. scan_own f tenant i db = Inr ep
       \<and> (if en_status (ep_row ep) = DELETED then db' = db \<and> ep' = ep
          else \<exists>db1. update_endpoint (nv_lower env) (deleted_row (pg_time (nv_clock env)) (ep_row ep)) db = Inr db1
             \<and> db' = delete_subs i db1
             \<and> ep' = \<lparr>ep_row = deleted_row (nv_clock env) (ep_row ep), ep_event_types = []\<rparr>)"
  using assms by (auto simp: delete_endpoint_def run_tx_commit guard_Inr split: sum.splits if_splits)

lemma delete_endpoint_ok_Inr:
  assumes "endpoint_db_ok (nv_lower env) db"
    and "delete_endpoint f env tenant i db = (Inr (ep', q), db')"
  shows "endpoint_db_ok (nv_lower env) db'"
proof -
  from delete_endpoint_Inr [OF assms(2)] obtain ep where own: "scan_own f tenant i db = Inr ep"
    and cases: "if en_status (ep_row ep) = DELETED then db' = db \<and> ep' = ep
      else \<exists>db1. update_endpoint (nv_lower env) (deleted_row (pg_time (nv_clock env)) (ep_row ep)) db = Inr db1
         \<and> db' = delete_subs i db1
         \<and> ep' = \<lparr>ep_row = deleted_row (nv_clock env) (ep_row ep), ep_event_types = []\<rparr>" by blast
  let ?r = "deleted_row (pg_time (nv_clock env)) (ep_row ep)"
  show ?thesis
  proof (cases "en_status (ep_row ep) = DELETED")
    case True
    then show ?thesis using cases assms(1) by simp
  next
    case False
    then obtain db1 where up: "update_endpoint (nv_lower env) ?r db = Inr db1"
      and db': "db' = delete_subs i db1" using cases by auto
    have old: "ep_row ep \<in> set (edb_endpoints db)" "en_id (ep_row ep) = i"
      using scan_own_Inr [OF own] by simp_all
    have d: "distinct (map en_id (edb_endpoints db))" by (rule endpoint_db_okD(1) [OF assms(1)])
    let ?db = "delete_subs i db"
    have up': "update_endpoint (nv_lower env) ?r ?db = Inr (delete_subs i db1)"
      using up by (simp add: update_endpoint_Inr check_row_None delete_subs_def)
    have "row_ok db (ep_row ep)" by (rule endpoint_db_okD(2) [OF assms(1) old(1)])
    then show ?thesis unfolding db'
      by (intro update_endpoint_ok [OF up' delete_subs_ok [OF assms(1)], of "ep_row ep"])
        (use old in \<open>simp_all add: delete_subs_def row_ok_def\<close>)
  qed
qed

lemma delete_endpoint_error: "delete_endpoint f env tenant i db = (Inl e, db') \<Longrightarrow> db' = db"
  unfolding delete_endpoint_def by (rule run_tx_atomic)

lemma delete_endpoint_ok:
  "endpoint_db_ok (nv_lower env) db \<Longrightarrow>
     endpoint_db_ok (nv_lower env) (snd (delete_endpoint f env tenant i db))"
  using delete_endpoint_ok_Inr delete_endpoint_error
  by (cases "delete_endpoint f env tenant i db"; cases "fst (delete_endpoint f env tenant i db)") fastforce+

lemma get_or_create_default_db:
  "snd (get_or_create_default f new_id tenant db) = db
   \<or> snd (get_or_create_default f new_id tenant db)
       = db\<lparr>edb_policies := edb_policies db @ [default_retry_policy new_id tenant]\<rparr>"
  by (auto simp: get_or_create_default_def split: option.split)

lemma get_or_create_default_ok:
  assumes "endpoint_db_ok low db"
  shows "endpoint_db_ok low (snd (get_or_create_default f new_id tenant db))"
proof -
  have "endpoint_db_ok low (db\<lparr>edb_policies := edb_policies db @ ps\<rparr>)" for ps
    using assms by (auto simp: endpoint_db_ok_def row_ok_def subs_ok_def list_all_iff)
  then show ?thesis using get_or_create_default_db [of f new_id tenant db] assms by auto
qed

end
