(* ===== verification/EndpointService.thy ===== *)
theory EndpointService
  imports EndpointInv
begin

text \<open>
  endpoint-service/internal/endpoint/service.go: the checks before the repository is called,
  and the service as a system of steps. The URL parser, the quoting of \<open>%q\<close> and the cipher are
  arguments; \<open>SecretPath\<close> takes the cipher of \<open>Secrets\<close>.
\<close>

section \<open>Checks\<close>

record service_env =
  sv_parse_url :: "string \<Rightarrow> parsed_url option"
  sv_quote :: "string \<Rightarrow> string"
  sv_allow_http :: bool
  sv_encrypt :: "bytes \<Rightarrow> bytes result"

text \<open>\<open>fmt.Errorf("%w: %v", ErrInvalid, err)\<close>.\<close>

definition invalid :: "error \<Rightarrow> error" where
  "invalid e = Wrap [] Endpoint_ErrInvalid ('': '' @ error_text e)"

definition check :: "unit result \<Rightarrow> 'a result \<Rightarrow> 'a result" where
  "check r k = (case r of Inl e \<Rightarrow> Inl (invalid e) | Inr _ \<Rightarrow> k)"

lemma check_Inr: "check r k = Inr x \<longleftrightarrow> r = Inr () \<and> k = Inr x"
  by (cases r) (auto simp: check_def)

definition validate_tenant :: "uuid \<Rightarrow> unit result" where
  "validate_tenant i = (if i = uuid_nil then Inl (Wrap [] Endpoint_ErrInvalid '': invalid tenant id'') else Inr ())"

definition normalize_create :: "create_request \<Rightarrow> create_request" where
  "normalize_create r =
     r\<lparr>cr_name := trim_space (cr_name r), cr_url := trim_space (cr_url r),
       cr_connect_timeout_ms := (if cr_connect_timeout_ms r = 0 then 5000 else cr_connect_timeout_ms r),
       cr_request_timeout_ms := (if cr_request_timeout_ms r = 0 then 10000 else cr_request_timeout_ms r)\<rparr>"

definition check_secret :: "bytes \<Rightarrow> unit result" where
  "check_secret s =
     (if s = [] \<or> 4096 < length s then Inl (Msg ''secret must be between 1 and 4096 characters'') else Inr ())"

definition validate_create :: "service_env \<Rightarrow> create_request \<Rightarrow> create_request result" where
  "validate_create sv req =
     (let req = normalize_create req in
      check (endpoint_name (cr_name req))
        (check (webhook_url (sv_parse_url sv) (cr_url req) (sv_allow_http sv))
          (check (check_secret (cr_secret req))
            (check (timeout (cr_connect_timeout_ms req) ''connect_timeout_ms'')
              (check (timeout (cr_request_timeout_ms req) ''request_timeout_ms'')
                (case event_types (sv_quote sv) (cr_event_types req) of
                   Inl e \<Rightarrow> Inl (invalid e)
                 | Inr types \<Rightarrow> Inr (req\<lparr>cr_event_types := types\<rparr>)))))))"

definition check_opt :: "('a \<Rightarrow> unit result) \<Rightarrow> 'a option \<Rightarrow> 'b result \<Rightarrow> 'b result" where
  "check_opt c x k = (case x of None \<Rightarrow> k | Some v \<Rightarrow> check (c v) k)"

lemma check_opt_Inr:
  "check_opt c x k = Inr y \<longleftrightarrow> (\<forall>v. x = Some v \<longrightarrow> c v = Inr ()) \<and> k = Inr y"
  by (cases x) (auto simp: check_opt_def check_Inr)

text \<open>The encrypted secret, nil when the request has none.\<close>

definition encrypt_patch :: "service_env \<Rightarrow> patch_request \<Rightarrow> bytes result" where
  "encrypt_patch sv req =
     (case pt_secret req of
        None \<Rightarrow> Inr []
      | Some s \<Rightarrow>
          check (check_secret s)
            (case sv_encrypt sv s of
               Inl e \<Rightarrow> Inl (wrap ''encrypt endpoint secret: '' e) | Inr enc \<Rightarrow> Inr enc))"

definition patch_types :: "service_env \<Rightarrow> patch_request \<Rightarrow> patch_request result" where
  "patch_types sv req =
     (case pt_event_types req of
        None \<Rightarrow> Inr req
      | Some tys \<Rightarrow>
          (case event_types (sv_quote sv) tys of
             Inl e \<Rightarrow> Inl (invalid e) | Inr types \<Rightarrow> Inr (req\<lparr>pt_event_types := Some types\<rparr>)))"

definition validate_patch :: "service_env \<Rightarrow> patch_request \<Rightarrow> (patch_request \<times> bytes) result" where
  "validate_patch sv req =
     (let req = req\<lparr>pt_name := map_option trim_space (pt_name req),
                    pt_url := map_option trim_space (pt_url req)\<rparr> in
      check_opt endpoint_name (pt_name req)
        (check_opt (\<lambda>u. webhook_url (sv_parse_url sv) u (sv_allow_http sv)) (pt_url req)
          (case encrypt_patch sv req of
             Inl e \<Rightarrow> Inl e
           | Inr enc \<Rightarrow>
               check_opt (\<lambda>t. timeout t ''connect_timeout_ms'') (pt_connect_timeout_ms req)
                 (check_opt (\<lambda>t. timeout t ''request_timeout_ms'') (pt_request_timeout_ms req)
                   (case patch_types sv req of
                      Inl e \<Rightarrow> Inl e | Inr req \<Rightarrow> Inr (req, enc))))))"

section \<open>Operations\<close>

definition resolve_policy ::
    "error option \<Rightarrow> endpoint_env \<Rightarrow> uuid \<Rightarrow> uuid option \<Rightarrow> endpoint_db \<Rightarrow> policy result \<times> endpoint_db" where
  "resolve_policy f env tenant i db =
     (case i of
        None \<Rightarrow> get_or_create_default f (nv_policy_id env) tenant db
      | Some i \<Rightarrow>
          (case policy_get f tenant i db of
             Inl e \<Rightarrow> (Inl (Wrap [] Endpoint_ErrInvalid '': retry policy not found''), db)
           | Inr p \<Rightarrow> (Inr p, db)))"

definition service_create ::
    "endpoint_call faults \<Rightarrow> error option \<Rightarrow> endpoint_env \<Rightarrow> service_env \<Rightarrow> uuid \<Rightarrow> create_request
       \<Rightarrow> endpoint_db \<Rightarrow> endpoint result \<times> endpoint_db" where
  "service_create f fp env sv tenant req db =
     (case validate_tenant tenant of
        Inl e \<Rightarrow> (Inl e, db)
      | Inr _ \<Rightarrow>
          (case validate_create sv req of
             Inl e \<Rightarrow> (Inl e, db)
           | Inr req \<Rightarrow>
               (case resolve_policy fp env tenant (cr_policy_id req) db of
                  (Inl e, db) \<Rightarrow> (Inl e, db)
                | (Inr p, db) \<Rightarrow>
                    (case sv_encrypt sv (cr_secret req) of
                       Inl e \<Rightarrow> (Inl (wrap ''encrypt endpoint secret: '' e), db)
                     | Inr enc \<Rightarrow> create_endpoint f env tenant req enc p db))))"

definition service_get ::
    "endpoint_call faults \<Rightarrow> uuid \<Rightarrow> uuid \<Rightarrow> endpoint_db \<Rightarrow> (endpoint \<times> policy) result" where
  "service_get f tenant i db =
     (case validate_tenant tenant of Inl e \<Rightarrow> Inl e | Inr _ \<Rightarrow> get_endpoint f tenant i db)"

definition service_patch ::
    "endpoint_call faults \<Rightarrow> error option \<Rightarrow> endpoint_env \<Rightarrow> service_env \<Rightarrow> uuid \<Rightarrow> uuid \<Rightarrow> patch_request
       \<Rightarrow> endpoint_db \<Rightarrow> (endpoint \<times> policy) result \<times> endpoint_db" where
  "service_patch f fp env sv tenant i req db =
     (case validate_tenant tenant of
        Inl e \<Rightarrow> (Inl e, db)
      | Inr _ \<Rightarrow>
          (case validate_patch sv req of
             Inl e \<Rightarrow> (Inl e, db)
           | Inr (req, enc) \<Rightarrow>
               (case pt_policy_id req of
                  None \<Rightarrow> patch_endpoint f env tenant i req enc None db
                | Some pid \<Rightarrow>
                    (case resolve_policy fp env tenant (Some pid) db of
                       (Inl e, db) \<Rightarrow> (Inl e, db)
                     | (Inr p, db) \<Rightarrow> patch_endpoint f env tenant i req enc (Some p) db))))"

definition service_delete ::
    "endpoint_call faults \<Rightarrow> endpoint_env \<Rightarrow> uuid \<Rightarrow> uuid \<Rightarrow> endpoint_db
       \<Rightarrow> (endpoint \<times> policy) result \<times> endpoint_db" where
  "service_delete f env tenant i db =
     (case validate_tenant tenant of Inl e \<Rightarrow> (Inl e, db) | Inr _ \<Rightarrow> delete_endpoint f env tenant i db)"

definition service_subscriptions ::
    "endpoint_call faults \<Rightarrow> service_env \<Rightarrow> uuid \<Rightarrow> string \<Rightarrow> endpoint_db \<Rightarrow> endpoint list result" where
  "service_subscriptions f sv tenant ty db =
     (case validate_tenant tenant of
        Inl e \<Rightarrow> Inl e
      | Inr _ \<Rightarrow>
          (case event_types (sv_quote sv) [ty] of
             Inl e \<Rightarrow> Inl (invalid e)
           | Inr types \<Rightarrow> get_subscriptions f tenant (hd types) db))"

section \<open>Steps and reachable states\<close>

text \<open>The rows of \<open>tenants\<close> are changed by others.\<close>

inductive nstep :: "(string \<Rightarrow> string) \<Rightarrow> endpoint_db \<Rightarrow> endpoint_db \<Rightarrow> bool" for low where
  create: "nv_lower env = low \<Longrightarrow> nstep low db (snd (service_create f fp env sv tenant req db))"
| patch: "nv_lower env = low \<Longrightarrow> nstep low db (snd (service_patch f fp env sv tenant i req db))"
| delete: "nv_lower env = low \<Longrightarrow> nstep low db (snd (service_delete f env tenant i db))"
| tenants: "nstep low db (db\<lparr>edb_tenants := ts\<rparr>)"

inductive nreach :: "(string \<Rightarrow> string) \<Rightarrow> endpoint_db \<Rightarrow> bool" for low where
  init: "nreach low \<lparr>edb_tenants = ts, edb_policies = [], edb_endpoints = [], edb_subs = []\<rparr>"
| step: "nreach low s \<Longrightarrow> nstep low s t \<Longrightarrow> nreach low t"

definition types_ok :: "endpoint_db \<Rightarrow> bool" where
  "types_ok db \<longleftrightarrow>
     (\<forall>s\<in>set (edb_subs db). event_type_matches (snd s))
     \<and> (\<forall>r\<in>set (edb_endpoints db). en_status r = ACTIVE \<longrightarrow> (\<exists>s\<in>set (edb_subs db). fst s = en_id r))"

lemma validate_create_types:
  assumes "validate_create sv req = Inr req'"
  shows "cr_event_types req' \<noteq> [] \<and> (\<forall>t\<in>set (cr_event_types req'). event_type_matches t)"
proof -
  obtain types where "event_types (sv_quote sv) (cr_event_types (normalize_create req)) = Inr types"
    and "cr_event_types req' = types"
    using assms by (auto simp: validate_create_def Let_def check_Inr split: sum.splits)
  with event_types_result [OF this(1)] show ?thesis by simp
qed

lemma validate_patch_types:
  assumes "validate_patch sv req = Inr (req', enc)" and "pt_event_types req' = Some tys"
  shows "tys \<noteq> [] \<and> (\<forall>t\<in>set tys. event_type_matches t)"
proof -
  obtain req1 where "patch_types sv req1 = Inr req'"
    using assms(1) by (auto simp: validate_patch_def Let_def check_opt_Inr split: sum.splits)
  then obtain raw where "event_types (sv_quote sv) raw = Inr tys"
    using assms(2) by (auto simp: patch_types_def split: option.splits sum.splits)
  with event_types_result [OF this] show ?thesis by simp
qed

lemma create_endpoint_types:
  assumes "types_ok db" and "cr_event_types req \<noteq> []" "\<forall>t\<in>set (cr_event_types req). event_type_matches t"
  shows "types_ok (snd (create_endpoint f env tenant req enc p db))"
proof (cases "create_endpoint f env tenant req enc p db")
  case (Pair res db')
  show ?thesis
  proof (cases res)
    case (Inl e)
    then have "db' = db" using Pair run_tx_atomic by (simp add: create_endpoint_def)
    then show ?thesis using Pair assms by simp
  next
    case (Inr ep)
    let ?r = "new_endpoint_row env tenant req enc p"
    obtain db1 where ins: "insert_endpoint (nv_lower env) ?r db = Inr db1"
      and subs: "insert_endpoint_subs f (nv_new_id env) (cr_event_types req) db1 = Inr db'"
      using create_endpoint_Inr Pair Inr by blast
    have db': "db' = db\<lparr>edb_endpoints := edb_endpoints db @ [?r],
        edb_subs := edb_subs db @ map (Pair (nv_new_id env)) (cr_event_types req)\<rparr>"
      using insert_endpoint_subs_Inr [OF subs] ins by (simp add: insert_endpoint_Inr)
    have "\<exists>s\<in>set (edb_subs db'). fst s = en_id r"
      if "r \<in> set (edb_endpoints db')" "en_status r = ACTIVE" for r
    proof (cases "r = ?r")
      case True
      have "(nv_new_id env, hd (cr_event_types req)) \<in> set (edb_subs db')" using assms(2) by (simp add: db')
      then show ?thesis using True by (force simp: new_endpoint_row_def)
    next
      case False
      then show ?thesis using that assms(1) by (auto simp: db' types_ok_def)
    qed
    moreover have "\<forall>s\<in>set (edb_subs db'). event_type_matches (snd s)"
      using assms(1,3) by (auto simp: db' types_ok_def)
    ultimately show ?thesis using Pair by (simp add: types_ok_def)
  qed
qed

lemma replace_subs_types:
  assumes "replace_subs f i types db = Inr db'"
    and "\<forall>s\<in>set (edb_subs db). event_type_matches (snd s)"
    and "\<And>tys. types = Some tys \<Longrightarrow> tys \<noteq> [] \<and> (\<forall>t\<in>set tys. event_type_matches t)"
  shows "(\<forall>s\<in>set (edb_subs db'). event_type_matches (snd s))
     \<and> (\<forall>j. (\<exists>s\<in>set (edb_subs db). fst s = j) \<longrightarrow> (\<exists>s\<in>set (edb_subs db'). fst s = j))"
proof (cases types)
  case None
  then show ?thesis using assms(1,2) by (simp add: replace_subs_def)
next
  case (Some tys)
  note new = assms(3) [OF Some]
  have subs: "set (edb_subs db') = {s \<in> set (edb_subs db). fst s \<noteq> i} \<union> Pair i ` set tys"
    using replace_subs_Inr [OF assms(1)] Some by simp
  have "(i, hd tys) \<in> set (edb_subs db')" using new by (simp add: subs)
  moreover have "s \<in> set (edb_subs db')" if "s \<in> set (edb_subs db)" "fst s \<noteq> i" for s
    using that by (simp add: subs)
  moreover have "\<forall>s\<in>set (edb_subs db'). event_type_matches (snd s)" using assms(2) new by (auto simp: subs)
  ultimately show ?thesis by (metis fst_conv)
qed

lemma patch_endpoint_types_Inr:
  assumes "endpoint_db_ok (nv_lower env) db" "types_ok db"
    and "patch_endpoint f env tenant i req enc p db = (Inr (ep', q), db')"
    and "\<And>tys. pt_event_types req = Some tys \<Longrightarrow> tys \<noteq> [] \<and> (\<forall>t\<in>set tys. event_type_matches t)"
  shows "types_ok db'"
proof -
  from patch_endpoint_Inr [OF assms(3)] obtain ep db1 where
    own: "scan_own f tenant i db = Inr ep"
    and up: "update_endpoint (nv_lower env) (patched_row env req enc (ep_row ep)) db = Inr db1"
    and subs: "replace_subs f i (pt_event_types req) db1 = Inr db'" by blast
  have old: "ep_row ep \<in> set (edb_endpoints db)" using scan_own_Inr [OF own] by simp
  note mem = update_endpoint_mem [OF up endpoint_db_okD(1) [OF assms(1)] old, simplified]
  have "\<exists>s\<in>set (edb_subs db). fst s = en_id r"
    if r: "r \<in> set (edb_endpoints db1)" "en_status r = ACTIVE" for r
  proof (cases "r = patched_row env req enc (ep_row ep)")
    case True
    then show ?thesis using r(2) old assms(2) by (auto simp: types_ok_def)
  next
    case False
    then show ?thesis using r assms(2) mem(1) by (auto simp: types_ok_def)
  qed
  moreover have "edb_endpoints db' = edb_endpoints db1" using replace_subs_Inr [OF subs] by simp
  moreover have "\<forall>s\<in>set (edb_subs db1). event_type_matches (snd s)"
    using assms(2) mem(3) by (simp add: types_ok_def)
  ultimately show ?thesis
    using replace_subs_types [OF subs _ assms(4)] mem(3) unfolding types_ok_def by metis
qed

lemma patch_endpoint_types:
  assumes "endpoint_db_ok (nv_lower env) db" "types_ok db"
    and "\<And>tys. pt_event_types req = Some tys \<Longrightarrow> tys \<noteq> [] \<and> (\<forall>t\<in>set tys. event_type_matches t)"
  shows "types_ok (snd (patch_endpoint f env tenant i req enc p db))"
proof (cases "fst (patch_endpoint f env tenant i req enc p db)")
  case (Inl e)
  then have "snd (patch_endpoint f env tenant i req enc p db) = db"
    by (intro patch_endpoint_error) (simp add: prod_eq_iff)
  then show ?thesis using assms(2) by simp
next
  case (Inr x)
  show ?thesis
    by (rule patch_endpoint_types_Inr [OF assms(1,2) _ assms(3),
          where f = f and tenant = tenant and i = i and enc = enc and p = p and ep' = "fst x" and q = "snd x"])
      (simp_all add: prod_eq_iff Inr)
qed

lemma delete_endpoint_types:
  assumes "endpoint_db_ok (nv_lower env) db" "types_ok db"
  shows "types_ok (snd (delete_endpoint f env tenant i db))"
proof (cases "fst (delete_endpoint f env tenant i db)")
  case (Inl e)
  then have "snd (delete_endpoint f env tenant i db) = db"
    by (intro delete_endpoint_error) (simp add: prod_eq_iff)
  then show ?thesis using assms(2) by simp
next
  case (Inr x)
  let ?db' = "snd (delete_endpoint f env tenant i db)"
  have "delete_endpoint f env tenant i db = (Inr (fst x, snd x), ?db')" by (simp add: prod_eq_iff Inr)
  from delete_endpoint_Inr [OF this] obtain ep where own: "scan_own f tenant i db = Inr ep"
    and cases: "if en_status (ep_row ep) = DELETED then ?db' = db \<and> fst x = ep
      else \<exists>db1. update_endpoint (nv_lower env) (deleted_row (pg_time (nv_clock env)) (ep_row ep)) db = Inr db1
         \<and> ?db' = delete_subs i db1
         \<and> fst x = \<lparr>ep_row = deleted_row (nv_clock env) (ep_row ep), ep_event_types = []\<rparr>" by blast
  have old: "ep_row ep \<in> set (edb_endpoints db)" "en_id (ep_row ep) = i"
    using scan_own_Inr [OF own] by simp_all
  show ?thesis
  proof (cases "en_status (ep_row ep) = DELETED")
    case True
    then show ?thesis using cases assms(2) by simp
  next
    case False
    then obtain db1 where up: "update_endpoint (nv_lower env) (deleted_row (pg_time (nv_clock env)) (ep_row ep)) db = Inr db1"
      and db': "?db' = delete_subs i db1" using cases by auto
    note mem = update_endpoint_mem [OF up endpoint_db_okD(1) [OF assms(1)] old(1), simplified]
    have "en_id r \<noteq> i \<and> r \<in> set (edb_endpoints db)"
      if "r \<in> set (edb_endpoints db1)" "en_status r = ACTIVE" for r
      using that old distinct_keys_eq [OF endpoint_db_okD(1) [OF assms(1)], of r "ep_row ep"]
      by (auto simp: mem(1))
    then show ?thesis using assms(2) unfolding db'
      by (fastforce simp: types_ok_def delete_subs_def mem(3))
  qed
qed

section \<open>The invariant of reachable states\<close>

definition service_inv :: "(string \<Rightarrow> string) \<Rightarrow> endpoint_db \<Rightarrow> bool" where
  "service_inv low db \<longleftrightarrow> endpoint_db_ok low db \<and> types_ok db"

lemma resolve_policy_inv:
  "service_inv low db \<Longrightarrow> service_inv low (snd (resolve_policy f env tenant i db))"
  using get_or_create_default_db [of f "nv_policy_id env" tenant db]
    get_or_create_default_ok [of low db f "nv_policy_id env" tenant]
  by (auto simp: resolve_policy_def service_inv_def types_ok_def split: option.split sum.split)

lemma service_create_inv:
  assumes "service_inv (nv_lower env) db"
  shows "service_inv (nv_lower env) (snd (service_create f fp env sv tenant req db))"
proof -
  have "service_inv (nv_lower env) (snd (create_endpoint f env tenant req' enc p db1))"
    if "service_inv (nv_lower env) db1" "validate_create sv req = Inr req'" for req' enc p db1
    using that create_endpoint_ok create_endpoint_types validate_create_types [OF that(2)]
    by (simp add: service_inv_def)
  moreover have "service_inv (nv_lower env) db1"
    if "resolve_policy fp env tenant i db = (res, db1)" for i res db1
    using resolve_policy_inv [OF assms] that by (metis snd_conv)
  ultimately show ?thesis using assms
    by (auto simp: service_create_def split: sum.splits prod.splits)
qed

lemma service_patch_inv:
  assumes "service_inv (nv_lower env) db"
  shows "service_inv (nv_lower env) (snd (service_patch f fp env sv tenant i req db))"
proof -
  have "service_inv (nv_lower env) (snd (patch_endpoint f env tenant i req' enc p db1))"
    if "service_inv (nv_lower env) db1" "validate_patch sv req = Inr (req', enc)" for req' enc p db1
    using that patch_endpoint_ok patch_endpoint_types validate_patch_types [OF that(2)]
    by (simp add: service_inv_def)
  moreover have "service_inv (nv_lower env) db1"
    if "resolve_policy fp env tenant j db = (res, db1)" for j res db1
    using resolve_policy_inv [OF assms] that by (metis snd_conv)
  ultimately show ?thesis using assms
    by (auto simp: service_patch_def split: sum.splits prod.splits option.splits)
qed

lemma service_delete_inv:
  "service_inv (nv_lower env) db \<Longrightarrow> service_inv (nv_lower env) (snd (service_delete f env tenant i db))"
  using delete_endpoint_ok delete_endpoint_types
  by (auto simp: service_delete_def service_inv_def split: sum.split)

lemma service_inv_init:
  "service_inv low \<lparr>edb_tenants = ts, edb_policies = [], edb_endpoints = [], edb_subs = []\<rparr>"
  by (simp add: service_inv_def endpoint_db_ok_def names_ok_def subs_ok_def types_ok_def)

lemma service_inv_tenants: "service_inv low db \<Longrightarrow> service_inv low (db\<lparr>edb_tenants := ts\<rparr>)"
  by (auto simp: service_inv_def endpoint_db_ok_def subs_ok_def types_ok_def row_ok_def list_all_iff)

lemma nreach_inv: "nreach low db \<Longrightarrow> service_inv low db"
proof (induction rule: nreach.induct)
  case (step s t)
  from step.hyps(2) step.IH show ?case
    by (cases rule: nstep.cases)
      (auto intro: service_create_inv service_patch_inv service_delete_inv service_inv_tenants)
qed (rule service_inv_init)

end
