(* ===== verification/EndpointProps.thy ===== *)
theory EndpointProps
  imports EndpointService
begin

text \<open>
  The properties of the endpoint service: the invariant of its tables, the versions that
  readers of its changes rely on, the separation of tenants, and what a created endpoint
  looks like.
\<close>

section \<open>The invariant\<close>

text \<open>
  In every state that operations reach which do not overlap, whatever calls fail: endpoint
  identifiers are unique; no two endpoints of a tenant that are not deleted have the same
  name; timeouts are between 100 ms and 2 minutes; an endpoint is deleted exactly when it
  has a time of deletion; its retry policy is one of its tenant's; every endpoint that is
  not deleted has a subscription, a deleted one has none, and every subscription has a well
  formed event type.
\<close>

lemma serial_store_consistent:
  assumes "nreach low db"
  shows "distinct (map en_id (edb_endpoints db))
    \<and> (\<forall>r\<in>set (edb_endpoints db).
         100 \<le> en_connect_timeout_ms r \<and> en_connect_timeout_ms r \<le> 120000
         \<and> 100 \<le> en_request_timeout_ms r \<and> en_request_timeout_ms r \<le> 120000
         \<and> 1 \<le> en_version r
         \<and> (en_status r = DELETED \<longleftrightarrow> en_deleted_at r \<noteq> None)
         \<and> (\<exists>p\<in>set (edb_policies db). po_id p = en_policy_id r \<and> po_tenant_id p = en_tenant_id r)
         \<and> (en_status r = ACTIVE \<longleftrightarrow> types_of (en_id r) db \<noteq> [])
         \<and> (\<forall>t\<in>set (types_of (en_id r) db). event_type_matches t)
         \<and> (\<forall>x\<in>set (edb_endpoints db). en_deleted_at r = None \<and> en_deleted_at x = None
              \<and> en_tenant_id x = en_tenant_id r \<and> low (en_name x) = low (en_name r) \<longrightarrow> x = r))
    \<and> distinct (edb_subs db)"
proof -
  have inv: "endpoint_db_ok low db" "types_ok db"
    using nreach_inv [OF assms] by (simp_all add: service_inv_def)
  note d = endpoint_db_okD(1) [OF inv(1)] and subs = endpoint_db_okD(4) [OF inv(1)]
  have act: "en_status r = ACTIVE \<longleftrightarrow> types_of (en_id r) db \<noteq> []"
    if r: "r \<in> set (edb_endpoints db)" for r
  proof
    assume "en_status r = ACTIVE"
    then obtain s where "s \<in> set (edb_subs db)" "fst s = en_id r"
      using inv(2) r by (auto simp: types_ok_def)
    then have "filter (\<lambda>s. fst s = en_id r) (edb_subs db) \<noteq> []" by (auto simp: filter_empty_conv)
    then show "types_of (en_id r) db \<noteq> []" by (simp add: types_of_def flip: length_greater_0_conv)
  next
    assume "types_of (en_id r) db \<noteq> []"
    then have "filter (\<lambda>s. fst s = en_id r) (edb_subs db) \<noteq> []" by (auto simp: types_of_def)
    then obtain s where "s \<in> set (edb_subs db)" "fst s = en_id r" by (auto simp: filter_empty_conv)
    then obtain x where "x \<in> set (edb_endpoints db)" "en_id x = en_id r" "en_status x = ACTIVE"
      using subs by (auto simp: subs_ok_def)
    then show "en_status r = ACTIVE" using distinct_keys_eq [OF d, of x r] r by simp
  qed
  have wf: "event_type_matches t" if "t \<in> set (types_of (en_id r) db)" for r t
    using that inv(2) by (auto simp: types_of_def types_ok_def)
  have name: "x = r" if "r \<in> set (edb_endpoints db)" "x \<in> set (edb_endpoints db)"
      "en_deleted_at r = None \<and> en_deleted_at x = None
       \<and> en_tenant_id x = en_tenant_id r \<and> low (en_name x) = low (en_name r)" for r x
    using endpoint_db_okD(3) [OF inv(1)] that distinct_keys_eq [OF d that(2,1)]
    unfolding names_ok_def by blast
  have row: "row_ok db r" if "r \<in> set (edb_endpoints db)" for r
    by (rule endpoint_db_okD(2) [OF inv(1) that])
  show ?thesis
    using d subs by (intro conjI ballI impI act wf name) (auto dest!: row simp: row_ok_def subs_ok_def)
qed

definition example_service :: service_env where
  "example_service = \<lparr>sv_parse_url = (\<lambda>_. Some \<lparr>pu_scheme = ''https'', pu_host = ''a'', pu_has_user = False\<rparr>),
     sv_quote = (\<lambda>s. s), sv_allow_http = False, sv_encrypt = (\<lambda>s. Inr s)\<rparr>"

definition example_endpoint_env :: endpoint_env where
  "example_endpoint_env = \<lparr>nv_new_id = 7, nv_policy_id = 9, nv_now = 1000, nv_clock = 1500,
     nv_lower = (\<lambda>s. s)\<rparr>"

definition example_create_request :: create_request where
  "example_create_request = \<lparr>cr_name = ''n'', cr_url = ''u'', cr_secret = ''s'',
     cr_connect_timeout_ms = 0, cr_request_timeout_ms = 0, cr_policy_id = None,
     cr_event_types = [''t'']\<rparr>"

definition example_tenants :: endpoint_db where
  "example_tenants = \<lparr>edb_tenants = [(3, ''ACTIVE'')], edb_policies = [], edb_endpoints = [], edb_subs = []\<rparr>"

definition example_endpoint_row :: endpoint_row where
  "example_endpoint_row = \<lparr>en_id = 7, en_tenant_id = 3, en_name = ''n'', en_url = ''u'', en_secret = ''s'',
     en_status = ACTIVE, en_connect_timeout_ms = 5000, en_request_timeout_ms = 10000,
     en_policy_id = 9, en_version = 1, en_created_at = 1000, en_updated_at = 1000, en_deleted_at = None\<rparr>"

definition example_endpoint_db :: endpoint_db where
  "example_endpoint_db = \<lparr>edb_tenants = [(3, ''ACTIVE'')], edb_policies = [default_retry_policy 9 3],
     edb_endpoints = [example_endpoint_row], edb_subs = [(7, ''t'')]\<rparr>"

lemma trim_space_letter:
  "trim_space ''n'' = ''n''" "trim_space ''u'' = ''u''" "trim_space ''t'' = ''t''"
  by (simp_all add: trim_space_char)

lemma example_service_create:
  "service_create no_faults None example_endpoint_env example_service 3 example_create_request example_tenants
     = (Inr \<lparr>ep_row = example_endpoint_row, ep_event_types = [''t'']\<rparr>, example_endpoint_db)"
  by (simp add: service_create_def validate_tenant_def validate_create_def normalize_create_def
      example_create_request_def trim_space_letter check_def endpoint_name_def webhook_url_def
      example_service_def contains_any_def check_secret_def timeout_def event_types_def is_alnum_def
      resolve_policy_def get_or_create_default_def example_tenants_def create_endpoint_def
      run_tx_no_fault insert_endpoint_def new_endpoint_row_def check_row_def name_taken_def
      example_endpoint_env_def scan_tx_def find_row_def types_of_def example_endpoint_db_def
      default_retry_policy_def example_endpoint_row_def)

lemma example_endpoint_reach: "nreach (\<lambda>s. s) example_endpoint_db"
proof -
  have "nreach (\<lambda>s. s) example_tenants"
    using nreach.init [of "\<lambda>s. s" "[(3, ''ACTIVE'')]"] by (simp add: example_tenants_def)
  moreover have "nstep (\<lambda>s. s) example_tenants example_endpoint_db"
    using nstep.create [of example_endpoint_env "\<lambda>s. s" example_tenants no_faults None example_service 3
        example_create_request]
    by (simp add: example_service_create) (simp add: example_endpoint_env_def)
  ultimately show ?thesis by (rule nreach.step)
qed

section \<open>Versions\<close>

text \<open>What one operation of the repository does to an endpoint.\<close>

definition raises_version :: "endpoint_db \<Rightarrow> endpoint_db \<Rightarrow> bool" where
  "raises_version db db' \<longleftrightarrow>
     (\<forall>r\<in>set (edb_endpoints db). \<exists>r'\<in>set (edb_endpoints db'). en_id r' = en_id r
        \<and> en_tenant_id r' = en_tenant_id r
        \<and> (if en_version r' = en_version r
           then r' = r \<and> set (types_of (en_id r) db') = set (types_of (en_id r) db)
           else en_version r' = en_version r + 1 \<and> en_status r = ACTIVE))"

lemma set_types_of: "set (types_of i db) = {t. (i, t) \<in> set (edb_subs db)}"
  by (force simp: types_of_def)

lemma raises_version_same:
  "set (edb_endpoints db) \<subseteq> set (edb_endpoints db') \<Longrightarrow>
   (\<And>r. r \<in> set (edb_endpoints db) \<Longrightarrow>
      {t. (en_id r, t) \<in> set (edb_subs db')} = {t. (en_id r, t) \<in> set (edb_subs db)}) \<Longrightarrow>
   raises_version db db'"
  unfolding raises_version_def set_types_of by (intro ballI bexI [OF _ subsetD]) simp_all

lemma raises_version_refl [simp]: "raises_version db db"
  by (rule raises_version_same) simp_all

text \<open>One row is replaced by one with the next version; subscriptions of others stay.\<close>

lemma raises_version_step:
  assumes "distinct (map en_id (edb_endpoints db))"
    and "set (edb_endpoints db') = insert r (set (edb_endpoints db) - {old})"
    and "old \<in> set (edb_endpoints db)" "en_id r = en_id old" "en_tenant_id r = en_tenant_id old"
    and "en_version r = en_version old + 1" "en_status old = ACTIVE"
    and "\<And>j t. j \<noteq> en_id old \<Longrightarrow> (j, t) \<in> set (edb_subs db') \<longleftrightarrow> (j, t) \<in> set (edb_subs db)"
  shows "raises_version db db'"
  unfolding raises_version_def
proof
  fix x
  assume x: "x \<in> set (edb_endpoints db)"
  show "\<exists>r'\<in>set (edb_endpoints db'). en_id r' = en_id x \<and> en_tenant_id r' = en_tenant_id x
        \<and> (if en_version r' = en_version x
           then r' = x \<and> set (types_of (en_id x) db') = set (types_of (en_id x) db)
           else en_version r' = en_version x + 1 \<and> en_status x = ACTIVE)"
  proof (cases "x = old")
    case True
    then show ?thesis using assms(2,4-7) by (intro bexI [of _ r]) simp_all
  next
    case False
    then have "en_id x \<noteq> en_id old" using distinct_keys_eq [OF assms(1) x assms(3)] by blast
    then show ?thesis using False x assms(2,8) by (intro bexI [of _ x]) (simp_all add: set_types_of)
  qed
qed

text \<open>A creation leaves the other endpoints and their subscriptions alone.\<close>

definition keeps_endpoints :: "endpoint_db \<Rightarrow> endpoint_db \<Rightarrow> bool" where
  "keeps_endpoints db db' \<longleftrightarrow> set (edb_endpoints db) \<subseteq> set (edb_endpoints db')
     \<and> (\<forall>r\<in>set (edb_endpoints db). {t. (en_id r, t) \<in> set (edb_subs db')} = {t. (en_id r, t) \<in> set (edb_subs db)})"

lemma keeps_endpoints_refl [simp]: "keeps_endpoints db db"
  by (simp add: keeps_endpoints_def)

lemma keeps_raises_version: "keeps_endpoints db db' \<Longrightarrow> raises_version db db'"
  by (rule raises_version_same) (simp_all add: keeps_endpoints_def)

lemma create_keeps_endpoints:
  "keeps_endpoints db (snd (create_endpoint f env tenant req enc p db))"
proof (cases "create_endpoint f env tenant req enc p db")
  case (Pair res db')
  show ?thesis
  proof (cases res)
    case (Inl e)
    then have "db' = db" using Pair run_tx_atomic by (simp add: create_endpoint_def)
    then show ?thesis using Pair by simp
  next
    case (Inr ep)
    let ?r = "new_endpoint_row env tenant req enc p"
    obtain db1 where ins: "insert_endpoint (nv_lower env) ?r db = Inr db1"
      and subs: "insert_endpoint_subs f (nv_new_id env) (cr_event_types req) db1 = Inr db'"
      using create_endpoint_Inr Pair Inr by blast
    have db': "db' = db\<lparr>edb_endpoints := edb_endpoints db @ [?r],
        edb_subs := edb_subs db @ map (Pair (nv_new_id env)) (cr_event_types req)\<rparr>"
      using insert_endpoint_subs_Inr [OF subs] ins by (simp add: insert_endpoint_Inr)
    have "en_id r \<noteq> nv_new_id env" if "r \<in> set (edb_endpoints db)" for r
      using ins that by (force simp: insert_endpoint_Inr new_endpoint_row_def)
    then show ?thesis using Pair by (auto simp: keeps_endpoints_def db')
  qed
qed

lemma patch_raises_version:
  assumes "distinct (map en_id (edb_endpoints db))"
  shows "raises_version db (snd (patch_endpoint f env tenant i req enc p db))"
proof (cases "fst (patch_endpoint f env tenant i req enc p db)")
  case (Inl e)
  then have "snd (patch_endpoint f env tenant i req enc p db) = db"
    by (intro patch_endpoint_error) (simp add: prod_eq_iff)
  then show ?thesis by simp
next
  case (Inr x)
  let ?db' = "snd (patch_endpoint f env tenant i req enc p db)"
  have "patch_endpoint f env tenant i req enc p db = (Inr (fst x, snd x), ?db')"
    by (simp add: prod_eq_iff Inr)
  from patch_endpoint_Inr [OF this] obtain ep db1 where own: "scan_own f tenant i db = Inr ep"
    and act: "en_status (ep_row ep) = ACTIVE"
    and up: "update_endpoint (nv_lower env) (patched_row env req enc (ep_row ep)) db = Inr db1"
    and subs: "replace_subs f i (pt_event_types req) db1 = Inr ?db'" by blast
  have old: "ep_row ep \<in> set (edb_endpoints db)" "en_id (ep_row ep) = i"
    using scan_own_Inr [OF own] by simp_all
  note mem = update_endpoint_mem [OF up assms old(1), simplified]
  note new = replace_subs_Inr [OF subs]
  have "(j, t) \<in> set (edb_subs ?db') \<longleftrightarrow> (j, t) \<in> set (edb_subs db)" if "j \<noteq> en_id (ep_row ep)" for j t
    using new that old(2) by (auto simp: mem(3) split: option.splits)
  then show ?thesis
    using new mem(1)
    by (intro raises_version_step [OF assms _ old(1), of _ "patched_row env req enc (ep_row ep)"])
      (simp_all add: act)
qed

lemma delete_raises_version:
  assumes "distinct (map en_id (edb_endpoints db))"
  shows "raises_version db (snd (delete_endpoint f env tenant i db))"
proof (cases "fst (delete_endpoint f env tenant i db)")
  case (Inl e)
  then have "snd (delete_endpoint f env tenant i db) = db"
    by (intro delete_endpoint_error) (simp add: prod_eq_iff)
  then show ?thesis by simp
next
  case (Inr x)
  let ?db' = "snd (delete_endpoint f env tenant i db)"
  have "delete_endpoint f env tenant i db = (Inr (fst x, snd x), ?db')" by (simp add: prod_eq_iff Inr)
  from delete_endpoint_Inr [OF this] obtain ep where own: "scan_own f tenant i db = Inr ep"
    and cases: "if en_status (ep_row ep) = DELETED then ?db' = db \<and> fst x = ep
      else \<exists>db1. update_endpoint (nv_lower env) (deleted_row (pg_time (nv_clock env)) (ep_row ep)) db = Inr db1
         \<and> ?db' = delete_subs i db1
         \<and> fst x = \<lparr>ep_row = deleted_row (nv_clock env) (ep_row ep), ep_event_types = []\<rparr>" by blast
  have old: "ep_row ep \<in> set (edb_endpoints db)" "en_id (ep_row ep) = i"
    using scan_own_Inr [OF own] by simp_all
  show ?thesis
  proof (cases "en_status (ep_row ep)")
    case DELETED
    then show ?thesis using cases by simp
  next
    case ACTIVE
    then obtain db1 where up: "update_endpoint (nv_lower env) (deleted_row (pg_time (nv_clock env)) (ep_row ep)) db = Inr db1"
      and db': "?db' = delete_subs i db1" using cases by auto
    note mem = update_endpoint_mem [OF up assms old(1), simplified]
    show ?thesis unfolding db'
      by (rule raises_version_step [OF assms _ old(1), where r = "deleted_row (pg_time (nv_clock env)) (ep_row ep)"])
        (simp_all add: delete_subs_def mem ACTIVE old(2))
  qed
qed

lemma raises_version_policies:
  "raises_version db db' \<longleftrightarrow> raises_version (db\<lparr>edb_policies := ps\<rparr>) db'"
  by (simp add: raises_version_def types_of_def)

lemma resolve_policy_db:
  "resolve_policy f env tenant i db = (res, db1) \<Longrightarrow> \<exists>ps. db1 = db\<lparr>edb_policies := ps\<rparr>"
  using get_or_create_default_db [of f "nv_policy_id env" tenant db]
  by (cases i) (auto simp: resolve_policy_def split: sum.splits intro: exI [of _ "edb_policies db"])

lemma resolve_policy_raises:
  assumes "resolve_policy f env tenant i db = (res, db1)"
  shows "raises_version db db1" and "raises_version db1 db2 \<Longrightarrow> raises_version db db2"
    and "edb_endpoints db1 = edb_endpoints db"
proof -
  obtain ps where db1: "db1 = db\<lparr>edb_policies := ps\<rparr>" using resolve_policy_db [OF assms] by blast
  show "raises_version db db1" by (rule raises_version_same) (simp_all add: db1)
  show "raises_version db1 db2 \<Longrightarrow> raises_version db db2"
    using raises_version_policies [of db db2 ps] by (simp add: db1)
  show "edb_endpoints db1 = edb_endpoints db" by (simp add: db1)
qed

lemma service_create_keeps_endpoints:
  "keeps_endpoints db (snd (service_create f fp env sv tenant req db))"
proof -
  have "keeps_endpoints db (snd (create_endpoint f env tenant rq enc p (db\<lparr>edb_policies := ps\<rparr>)))" for rq enc p ps
    using create_keeps_endpoints [of "db\<lparr>edb_policies := ps\<rparr>"] by (simp add: keeps_endpoints_def)
  moreover have "keeps_endpoints db (db\<lparr>edb_policies := ps\<rparr>)" for ps by (simp add: keeps_endpoints_def)
  ultimately show ?thesis
    by (auto simp: service_create_def split: sum.split prod.split dest!: resolve_policy_db)
qed

lemma nstep_raises_version:
  assumes "nstep low s t" and "distinct (map en_id (edb_endpoints s))"
  shows "raises_version s t"
  using assms(1)
proof (cases rule: nstep.cases)
  case (create env f fp sv tenant req)
  then show ?thesis using service_create_keeps_endpoints by (simp add: keeps_raises_version)
next
  case (patch env f fp sv tenant i req)
  then show ?thesis using patch_raises_version assms(2)
    by (auto simp: service_patch_def resolve_policy_raises(3) split: sum.splits prod.splits option.splits
        intro: resolve_policy_raises)
next
  case (delete env f tenant i)
  then show ?thesis using delete_raises_version assms(2)
    by (auto simp: service_delete_def split: sum.splits)
next
  case (tenants ts)
  then show ?thesis by (auto intro: raises_version_same)
qed

text \<open>
  Operations that do not overlap raise the version of what they change by exactly one: after
  such an operation each endpoint is there with its tenant, and either nothing of it has
  changed, or it had not been deleted and has the next version. So versions order the states of
  an endpoint, as the projection of the delivery service assumes, and a deleted endpoint never
  changes again.
\<close>

lemma serial_changes_raise_version:
  assumes "nreach low s" and "nstep low s t" and "r \<in> set (edb_endpoints s)"
  shows "\<exists>r'\<in>set (edb_endpoints t). en_id r' = en_id r \<and> en_tenant_id r' = en_tenant_id r
     \<and> (if en_version r' = en_version r
        then r' = r \<and> set (types_of (en_id r) t) = set (types_of (en_id r) s)
        else en_version r' = en_version r + 1 \<and> en_status r = ACTIVE)"
proof -
  have "distinct (map en_id (edb_endpoints s))"
    using nreach_inv [OF assms(1)] endpoint_db_okD(1) [of low s] by (simp add: service_inv_def)
  then show ?thesis
    using nstep_raises_version [OF assms(2)] assms(3) unfolding raises_version_def by blast
qed

section \<open>Tenants\<close>

text \<open>
  A tenant can neither read, change nor delete an endpoint of another tenant: reading,
  patching and deleting it are answered like an endpoint that does not exist, and no
  endpoint or subscription changes.
\<close>

lemma endpoints_of_other_tenants:
  assumes "distinct (map en_id (edb_endpoints db))" and "r \<in> set (edb_endpoints db)"
    and "en_tenant_id r \<noteq> tenant" and "tenant \<noteq> uuid_nil"
  shows "service_get no_faults tenant (en_id r) db = Inl Endpoint_ErrNotFound
    \<and> service_delete no_faults env tenant (en_id r) db = (Inl Endpoint_ErrNotFound, db)
    \<and> (validate_patch sv req = Inr (req', enc) \<and> pt_policy_id req' = None \<longrightarrow>
         service_patch no_faults fp env sv tenant (en_id r) req db = (Inl Endpoint_ErrNotFound, db))
    \<and> edb_endpoints (snd (service_patch f fp env sv tenant (en_id r) req db)) = edb_endpoints db
    \<and> edb_subs (snd (service_patch f fp env sv tenant (en_id r) req db)) = edb_subs db"
proof -
  have find: "find_row en_id (en_id r) (edb_endpoints db') = Some r"
    if "edb_endpoints db' = edb_endpoints db" for db'
    using find_row_Some_iff [OF assms(1)] assms(2) that by simp
  have own: "\<exists>e. scan_own f tenant (en_id r) db' = Inl e" if "edb_endpoints db' = edb_endpoints db" for f db'
    using find [OF that] assms(3)
    by (cases "f EC_Scan"; cases "f EC_Subs") (auto simp: scan_own_def scan_tx_def)
  have own_nf: "scan_own no_faults tenant (en_id r) db = Inl Endpoint_ErrNotFound"
    using find [OF refl] assms(3) by (simp add: scan_own_def scan_tx_def)
  have none: "List.find (\<lambda>x. en_tenant_id x = tenant \<and> en_id x = en_id r) (edb_endpoints db) = None"
    using distinct_keys_eq [OF assms(1) _ assms(2)] assms(3) by (auto simp: find_None_iff)
  have keep: "snd (patch_endpoint f env tenant (en_id r) q enc p db') = db'"
    if eq: "edb_endpoints db' = edb_endpoints db" for f q enc p db'
  proof -
    obtain e where "scan_own f tenant (en_id r) db' = Inl e" using own [OF eq] by blast
    then show ?thesis by (simp add: patch_endpoint_def run_tx_def split: option.split)
  qed
  have t: "validate_tenant tenant = Inr ()" using assms(4) by (simp add: validate_tenant_def)
  have rp: "edb_endpoints db1 = edb_endpoints db \<and> edb_subs db1 = edb_subs db"
    if "resolve_policy fp env tenant j db = (res, db1)" for j res db1
    using resolve_policy_db [OF that] by auto
  have "edb_endpoints (snd (service_patch f fp env sv tenant (en_id r) req db)) = edb_endpoints db
    \<and> edb_subs (snd (service_patch f fp env sv tenant (en_id r) req db)) = edb_subs db"
    using rp by (auto simp: service_patch_def keep split: sum.splits prod.splits option.splits)
  moreover have "service_get no_faults tenant (en_id r) db = Inl Endpoint_ErrNotFound"
    by (simp add: service_get_def t get_endpoint_def none scan_endpoint_def)
  moreover have "service_delete no_faults env tenant (en_id r) db = (Inl Endpoint_ErrNotFound, db)"
    by (simp add: service_delete_def t delete_endpoint_def run_tx_no_fault own_nf)
  moreover have "service_patch no_faults fp env sv tenant (en_id r) req db = (Inl Endpoint_ErrNotFound, db)"
    if "validate_patch sv req = Inr (req', enc) \<and> pt_policy_id req' = None"
    using that by (simp add: service_patch_def t patch_endpoint_def run_tx_no_fault own_nf)
  ultimately show ?thesis by blast
qed

lemma endpoints_of_other_tenants_example:
  "service_get no_faults 4 7 example_endpoint_db = Inl Endpoint_ErrNotFound"
  using endpoints_of_other_tenants [of example_endpoint_db example_endpoint_row 4]
  by (simp add: example_endpoint_db_def example_endpoint_row_def)

end
