(* ===== verification/EndpointRaces.thy ===== *)
theory EndpointRaces
  imports EndpointProps
begin

text \<open>
  Changes of endpoints at the same time: \<open>Patch\<close> and \<open>Delete\<close> of
  endpoint-service/internal/endpoint/repository.go as transactions that first read the endpoint,
  without locking it, and then write (PostgreSQL's default isolation: every statement sees what
  is committed when it starts). From its UPDATE to its commit a transaction holds the row, so
  the writing part is one step; so is the reading part, because policies never change. The
  UPDATE sets columns of the row as it is then, to values computed from the row that was read.
\<close>

section \<open>Reading and writing\<close>

datatype change = Patch_Change patch_request bytes "policy option" | Delete_Change

record change_job =
  hj_faults :: "endpoint_call faults"
  hj_env :: endpoint_env
  hj_tenant :: uuid
  hj_id :: uuid
  hj_change :: change

datatype change_phase = Arrived | Planned endpoint policy | Done "(endpoint \<times> policy) result"

definition read_job :: "change_job \<Rightarrow> endpoint_db \<Rightarrow> change_phase" where
  "read_job j db = (let f = hj_faults j; tenant = hj_tenant j; i = hj_id j in
     case hj_change j of
       Patch_Change req enc p \<Rightarrow>
         (case f EC_Begin of
            Some e \<Rightarrow> Done (Inl (wrap ''begin patch endpoint: '' e))
          | None \<Rightarrow>
              (case scan_own f tenant i db of
                 Inl e \<Rightarrow> Done (Inl e)
               | Inr ep \<Rightarrow>
                   (if en_status (ep_row ep) = DELETED
                    then Done (Inl (Wrap [] Endpoint_ErrConflict '': deleted endpoint cannot be patched''))
                    else case patch_policy f tenant (en_policy_id (patched_row (hj_env j) req enc (ep_row ep))) p db of
                      Inl e \<Rightarrow> Done (Inl e) | Inr q \<Rightarrow> Planned ep q)))
     | Delete_Change \<Rightarrow>
         (case f EC_Begin of
            Some e \<Rightarrow> Done (Inl e)
          | None \<Rightarrow>
              (case scan_own f tenant i db of
                 Inl e \<Rightarrow> Done (Inl e)
               | Inr ep \<Rightarrow>
                   (case get_policy_tx f tenant (en_policy_id (ep_row ep)) db of
                      Inl e \<Rightarrow> Done (Inl e)
                    | Inr p \<Rightarrow> (if en_status (ep_row ep) = DELETED then Done (Inr (ep, p)) else Planned ep p)))))"

text \<open>The columns of the two UPDATE statements, from the row \<open>v\<close> that the code computed.\<close>

definition set_patched :: "endpoint_row \<Rightarrow> endpoint_row \<Rightarrow> endpoint_row" where
  "set_patched v x = x\<lparr>en_name := en_name v, en_url := en_url v, en_secret := en_secret v,
     en_connect_timeout_ms := en_connect_timeout_ms v, en_request_timeout_ms := en_request_timeout_ms v,
     en_policy_id := en_policy_id v, en_version := en_version v, en_updated_at := en_updated_at v\<rparr>"

definition set_deleted :: "endpoint_row \<Rightarrow> endpoint_row \<Rightarrow> endpoint_row" where
  "set_deleted v x = x\<lparr>en_status := en_status v, en_deleted_at := en_deleted_at v,
     en_version := en_version v, en_updated_at := en_updated_at v\<rparr>"

definition update_columns ::
    "(string \<Rightarrow> string) \<Rightarrow> uuid \<Rightarrow> uuid \<Rightarrow> (endpoint_row \<Rightarrow> endpoint_row) \<Rightarrow> endpoint_db \<Rightarrow> endpoint_db result" where
  "update_columns low tenant i g db =
     (case List.find (\<lambda>x. en_id x = i \<and> en_tenant_id x = tenant) (edb_endpoints db) of
        None \<Rightarrow> Inr db
      | Some x \<Rightarrow> update_endpoint low (g x) db)"

definition patch_body ::
    "change_job \<Rightarrow> patch_request \<Rightarrow> bytes \<Rightarrow> endpoint \<Rightarrow> policy \<Rightarrow> endpoint_db \<Rightarrow> ((endpoint \<times> policy) \<times> endpoint_db) result" where
  "patch_body j req enc ep q db = (let f = hj_faults j; env = hj_env j in
     guard (map_option map_db_error (f EC_Write))
       (case update_columns (nv_lower env) (hj_tenant j) (hj_id j) (set_patched (patched_row env req enc (ep_row ep))) db of
          Inl e \<Rightarrow> Inl (map_db_error e)
        | Inr db1 \<Rightarrow>
            (case replace_subs f (hj_id j) (pt_event_types req) db1 of
               Inl e \<Rightarrow> Inl e
             | Inr db2 \<Rightarrow>
                 (case scan_tx f (hj_id j) db2 of
                    Inl e \<Rightarrow> Inl e
                  | Inr ep' \<Rightarrow> Inr ((ep', q), db2)))))"

definition delete_body ::
    "change_job \<Rightarrow> endpoint \<Rightarrow> policy \<Rightarrow> endpoint_db \<Rightarrow> ((endpoint \<times> policy) \<times> endpoint_db) result" where
  "delete_body j ep p db = (let f = hj_faults j; env = hj_env j in
     guard (f EC_Write)
       (case update_columns (nv_lower env) (hj_tenant j) (hj_id j)
               (set_deleted (deleted_row (pg_time (nv_clock env)) (ep_row ep))) db of
          Inl e \<Rightarrow> Inl e
        | Inr db1 \<Rightarrow>
            guard (f EC_Delete_Subs) (guard (f EC_Commit)
              (Inr ((\<lparr>ep_row = deleted_row (nv_clock env) (ep_row ep), ep_event_types = []\<rparr>, p),
                    delete_subs (hj_id j) db1)))))"

definition write_job ::
    "change_job \<Rightarrow> endpoint \<Rightarrow> policy \<Rightarrow> endpoint_db \<Rightarrow> (endpoint \<times> policy) result \<times> endpoint_db" where
  "write_job j ep q db =
     (case hj_change j of
        Patch_Change req enc p \<Rightarrow>
          run_tx None (map_option (wrap ''commit patch endpoint: '') (hj_faults j EC_Commit)) (patch_body j req enc ep q) db
      | Delete_Change \<Rightarrow> run_tx None None (delete_body j ep q) db)"

text \<open>The undivided operation of a job.\<close>

definition whole_job :: "change_job \<Rightarrow> endpoint_db \<Rightarrow> (endpoint \<times> policy) result \<times> endpoint_db" where
  "whole_job j db =
     (case hj_change j of
        Patch_Change req enc p \<Rightarrow> patch_endpoint (hj_faults j) (hj_env j) (hj_tenant j) (hj_id j) req enc p db
      | Delete_Change \<Rightarrow> delete_endpoint (hj_faults j) (hj_env j) (hj_tenant j) (hj_id j) db)"

section \<open>Without a change in between\<close>

lemma set_patched_same: "set_patched (patched_row env req enc r) r = patched_row env req enc r"
  by (simp add: set_patched_def patched_row_def)

lemma set_deleted_same: "set_deleted (deleted_row now r) r = deleted_row now r"
  by (simp add: set_deleted_def deleted_row_def)

lemma find_identity:
  assumes "distinct (map en_id rows)" and "r \<in> set rows"
  shows "List.find (\<lambda>x. en_id x = en_id r \<and> en_tenant_id x = en_tenant_id r) rows = Some r"
  using assms by (induction rows) auto

lemma read_job_scan:
  "read_job j db = Planned ep q \<Longrightarrow> scan_own (hj_faults j) (hj_tenant j) (hj_id j) db = Inr ep"
  by (auto simp: read_job_def Let_def split: change.splits option.splits sum.splits if_splits)

text \<open>If the row is still the one that was read, writing completes the undivided operation.\<close>

lemma fresh_write_is_whole:
  assumes "distinct (map en_id (edb_endpoints db))" and "read_job j db = Planned ep q"
  shows "write_job j ep q db = whole_job j db"
proof -
  note own = read_job_scan [OF assms(2)]
  have "List.find (\<lambda>x. en_id x = hj_id j \<and> en_tenant_id x = hj_tenant j) (edb_endpoints db) = Some (ep_row ep)"
    using find_identity [OF assms(1), of "ep_row ep"] scan_own_Inr [OF own] by simp
  then have up: "update_columns low (hj_tenant j) (hj_id j) g db = update_endpoint low (g (ep_row ep)) db" for low g
    by (simp add: update_columns_def)
  show ?thesis
  proof (cases "hj_change j")
    case (Patch_Change req enc p)
    then show ?thesis using assms(2) own
      by (auto simp: write_job_def whole_job_def read_job_def patch_endpoint_def patch_body_def run_tx_def up
          set_patched_same Let_def split: option.splits sum.splits if_splits)
  next
    case Delete_Change
    then show ?thesis using assms(2) own
      by (auto simp: write_job_def whole_job_def read_job_def delete_endpoint_def delete_body_def run_tx_def up
          set_deleted_same Let_def guard_def split: option.splits sum.splits if_splits)
  qed
qed

lemma finished_read_is_whole: "read_job j db = Done r \<Longrightarrow> whole_job j db = (r, db)"
  by (auto simp: whole_job_def read_job_def patch_endpoint_def delete_endpoint_def run_tx_def Let_def guard_def
      split: change.splits option.splits sum.splits if_splits)

section \<open>Any interleaving\<close>

record change_race =
  hr_db :: endpoint_db
  hr_jobs :: "(change_job \<times> change_phase) list"

inductive change_step :: "(string \<Rightarrow> string) \<Rightarrow> change_race \<Rightarrow> change_race \<Rightarrow> bool" for low where
  arrive: "nv_lower (hj_env j) = low \<Longrightarrow>
    change_step low s (s\<lparr>hr_jobs := hr_jobs s @ [(j, Arrived)]\<rparr>)"
| read: "n < length (hr_jobs s) \<Longrightarrow> hr_jobs s ! n = (j, Arrived) \<Longrightarrow>
    change_step low s (s\<lparr>hr_jobs := (hr_jobs s)[n := (j, read_job j (hr_db s))]\<rparr>)"
| finish: "n < length (hr_jobs s) \<Longrightarrow> hr_jobs s ! n = (j, Planned ep q) \<Longrightarrow> write_job j ep q (hr_db s) = (r, db') \<Longrightarrow>
    change_step low s \<lparr>hr_db = db', hr_jobs = (hr_jobs s)[n := (j, Done r)]\<rparr>"
| create: "nv_lower env = low \<Longrightarrow>
    change_step low s (s\<lparr>hr_db := snd (service_create f fp env sv tenant req (hr_db s))\<rparr>)"
| tenants: "change_step low s (s\<lparr>hr_db := (hr_db s)\<lparr>edb_tenants := ts\<rparr>\<rparr>)"

inductive change_reach :: "(string \<Rightarrow> string) \<Rightarrow> change_race \<Rightarrow> bool" for low where
  init: "change_reach low \<lparr>hr_db = \<lparr>edb_tenants = ts, edb_policies = [], edb_endpoints = [], edb_subs = []\<rparr>, hr_jobs = []\<rparr>"
| step: "change_reach low s \<Longrightarrow> change_step low s t \<Longrightarrow> change_reach low t"

section \<open>What every interleaving keeps\<close>

text \<open>The invariant of the tables, but a subscription may belong to a deleted endpoint.\<close>

definition without_subs :: "endpoint_db \<Rightarrow> endpoint_db" where
  "without_subs db = db\<lparr>edb_subs := []\<rparr>"

definition tables_ok :: "(string \<Rightarrow> string) \<Rightarrow> endpoint_db \<Rightarrow> bool" where
  "tables_ok low db \<longleftrightarrow>
     endpoint_db_ok low (without_subs db) \<and> distinct (edb_subs db) \<and> fst ` set (edb_subs db) \<subseteq> en_id ` set (edb_endpoints db)"

lemma without_subs_simps [simp]:
  "edb_endpoints (without_subs db) = edb_endpoints db" "edb_policies (without_subs db) = edb_policies db"
  "edb_tenants (without_subs db) = edb_tenants db" "edb_subs (without_subs db) = []"
  by (simp_all add: without_subs_def)

lemma without_subs_eq [simp]: "without_subs (db\<lparr>edb_subs := ss\<rparr>) = without_subs db" "without_subs (delete_subs i db) = without_subs db"
  by (simp_all add: without_subs_def delete_subs_def)

lemma insert_without_subs:
  "insert_endpoint low r db = Inr db' \<Longrightarrow> insert_endpoint low r (without_subs db) = Inr (without_subs db') \<and> edb_subs db' = edb_subs db"
  by (auto simp: insert_endpoint_Inr check_row_None without_subs_def)

lemma update_without_subs:
  "update_endpoint low r db = Inr db' \<Longrightarrow> update_endpoint low r (without_subs db) = Inr (without_subs db') \<and> edb_subs db' = edb_subs db"
  by (auto simp: update_endpoint_Inr check_row_None without_subs_def)

lemma tables_ok_core: "tables_ok low db \<Longrightarrow> distinct (map en_id (edb_endpoints db))"
  using endpoint_db_okD(1) [of low "without_subs db"] by (simp add: tables_ok_def)

lemma tables_ok_row: "tables_ok low db \<Longrightarrow> r \<in> set (edb_endpoints db) \<Longrightarrow> row_ok (without_subs db) r"
  using endpoint_db_okD(2) [of low "without_subs db"] by (simp add: tables_ok_def)

lemma tables_ok_update:
  assumes "tables_ok low db" and "update_endpoint low r db = Inr db'" and "old \<in> set (edb_endpoints db)"
    and "en_id r = en_id old" "en_tenant_id r = en_tenant_id old" and "1 \<le> en_version r"
    and "en_status r = DELETED \<longleftrightarrow> en_deleted_at r \<noteq> None"
  shows "tables_ok low db'" and "en_id ` set (edb_endpoints db') = en_id ` set (edb_endpoints db)"
proof -
  note up = update_without_subs [OF assms(2)]
  have d: "distinct (map en_id (edb_endpoints db))" by (rule tables_ok_core [OF assms(1)])
  have set: "set (edb_endpoints db') = insert r (set (edb_endpoints db) - {old})"
    by (rule update_endpoint_mem(1) [OF assms(2) d assms(3-5)])
  then show ids: "en_id ` set (edb_endpoints db') = en_id ` set (edb_endpoints db)"
    using assms(3,4) by auto
  have "endpoint_db_ok low (without_subs db')"
    by (rule update_endpoint_ok [OF conjunct1 [OF up] _ _ assms(4,5,6,7)])
      (use assms(1,3) in \<open>simp_all add: tables_ok_def\<close>)
  then show "tables_ok low db'" using assms(1) up ids by (simp add: tables_ok_def)
qed

lemma tables_ok_delete_subs: "tables_ok low db \<Longrightarrow> tables_ok low (delete_subs i db)"
  by (auto simp: tables_ok_def) (auto simp: delete_subs_def)

lemma tables_ok_insert_subs:
  assumes "insert_endpoint_subs f i tys db = Inr db'" and "tables_ok low db" and "i \<in> en_id ` set (edb_endpoints db)"
  shows "tables_ok low db'"
proof -
  from insert_endpoint_subs_Inr [OF assms(1)] have db': "db' = db\<lparr>edb_subs := edb_subs db @ map (Pair i) tys\<rparr>"
    and d: "distinct tys" "\<forall>t\<in>set tys. (i, t) \<notin> set (edb_subs db)" by simp_all
  have "distinct (map (Pair i) tys)" using d(1) by (simp add: distinct_map inj_on_def)
  then show ?thesis using assms(2,3) d(2) by (auto simp: tables_ok_def db')
qed

lemma tables_ok_replace_subs:
  assumes "replace_subs f i types db = Inr db'" and "tables_ok low db" and "i \<in> en_id ` set (edb_endpoints db)"
  shows "tables_ok low db'"
  using assms tables_ok_insert_subs [OF _ tables_ok_delete_subs [OF assms(2)]]
  by (auto simp: replace_subs_def guard_Inr delete_subs_def split: option.splits)

lemma tables_ok_create:
  assumes "tables_ok (nv_lower env) db"
  shows "tables_ok (nv_lower env) (snd (create_endpoint f env tenant req enc p db))"
proof (cases "create_endpoint f env tenant req enc p db")
  case (Pair res db')
  show ?thesis
  proof (cases res)
    case (Inl e)
    then have "db' = db" using Pair run_tx_atomic by (simp add: create_endpoint_def)
    then show ?thesis using Pair assms by simp
  next
    case (Inr ep)
    let ?r = "new_endpoint_row env tenant req enc p"
    obtain db1 where ins: "insert_endpoint (nv_lower env) ?r db = Inr db1"
      and subs: "insert_endpoint_subs f (nv_new_id env) (cr_event_types req) db1 = Inr db'"
      using create_endpoint_Inr Pair Inr by blast
    note new = insert_without_subs [OF ins]
    have "endpoint_db_ok (nv_lower env) (without_subs db1)"
      by (rule insert_endpoint_ok [OF conjunct1 [OF new]]) (use assms in \<open>simp_all add: tables_ok_def new_endpoint_row_def\<close>)
    moreover have "edb_endpoints db1 = edb_endpoints db @ [?r]" using ins by (simp add: insert_endpoint_Inr)
    ultimately have "tables_ok (nv_lower env) db1" "nv_new_id env \<in> en_id ` set (edb_endpoints db1)"
      using assms new by (auto simp: tables_ok_def new_endpoint_row_def)
    then show ?thesis using tables_ok_insert_subs [OF subs] Pair by simp
  qed
qed

lemma tables_ok_resolve:
  assumes "tables_ok low db" and "resolve_policy f env tenant i db = (res, db')"
  shows "tables_ok low db'"
proof -
  have "endpoint_db_ok low (without_subs (db\<lparr>edb_policies := edb_policies db @ ps\<rparr>))" for ps
    using assms(1) by (auto simp: tables_ok_def endpoint_db_ok_def row_ok_def subs_ok_def list_all_iff)
  then have "tables_ok low (db\<lparr>edb_policies := edb_policies db @ ps\<rparr>)" for ps
    using assms(1) by (simp add: tables_ok_def)
  moreover have "db' = db \<or> (\<exists>ps. db' = db\<lparr>edb_policies := edb_policies db @ ps\<rparr>)"
    using assms(2) get_or_create_default_db [of f "nv_policy_id env" tenant db]
    by (cases i) (auto simp: resolve_policy_def split: sum.splits)
  ultimately show ?thesis using assms(1) by auto
qed

lemma tables_ok_service_create:
  assumes "tables_ok (nv_lower env) db"
  shows "tables_ok (nv_lower env) (snd (service_create f fp env sv tenant req db))"
  using assms tables_ok_resolve [OF assms] tables_ok_create
  by (auto simp: service_create_def split: sum.split prod.split)

text \<open>What a job has read stays true of the endpoint in this respect: it exists.\<close>

definition idents :: "endpoint_db \<Rightarrow> (uuid \<times> uuid) set" where
  "idents db = (\<lambda>r. (en_id r, en_tenant_id r)) ` set (edb_endpoints db)"

lemma idents_simps [simp]:
  "idents (db\<lparr>edb_subs := ss\<rparr>) = idents db" "idents (db\<lparr>edb_policies := ps\<rparr>) = idents db"
  "idents (db\<lparr>edb_tenants := ts\<rparr>) = idents db" "idents (delete_subs i db) = idents db"
  by (simp_all add: idents_def delete_subs_def)

definition plan_ok :: "endpoint_db \<Rightarrow> change_job \<times> change_phase \<Rightarrow> bool" where
  "plan_ok db p \<longleftrightarrow>
     (case snd p of
        Planned ep q \<Rightarrow> 1 \<le> en_version (ep_row ep) \<and> (hj_id (fst p), hj_tenant (fst p)) \<in> idents db
      | _ \<Rightarrow> True)"

lemma plan_ok_mono: "idents db \<subseteq> idents db' \<Longrightarrow> plan_ok db p \<Longrightarrow> plan_ok db' p"
  by (auto simp: plan_ok_def split: change_phase.splits)

lemma plan_ok_read:
  assumes "tables_ok low db"
  shows "plan_ok db (j, read_job j db)"
proof (cases "read_job j db")
  case (Planned ep q)
  note own = scan_own_Inr [OF read_job_scan [OF Planned]]
  then have "row_ok (without_subs db) (ep_row ep)" using tables_ok_row [OF assms] by blast
  then show ?thesis using Planned own by (force simp: plan_ok_def idents_def row_ok_def)
qed (simp_all add: plan_ok_def)

lemma update_columns_ok:
  assumes "tables_ok low db" and "update_columns low tenant i g db = Inr db'"
    and "\<And>x. en_id (g x) = en_id x" "\<And>x. en_tenant_id (g x) = en_tenant_id x" "\<And>x. 1 \<le> en_version (g x)"
    and "\<And>x. row_ok (without_subs db) x \<Longrightarrow> en_status (g x) = DELETED \<longleftrightarrow> en_deleted_at (g x) \<noteq> None"
  shows "tables_ok low db' \<and> idents db' = idents db"
proof (cases "List.find (\<lambda>x. en_id x = i \<and> en_tenant_id x = tenant) (edb_endpoints db)")
  case (Some x)
  then have up: "update_endpoint low (g x) db = Inr db'" and x: "x \<in> set (edb_endpoints db)"
    using assms(2) by (auto simp: update_columns_def dest!: find_SomeD)
  have "set (edb_endpoints db') = insert (g x) (set (edb_endpoints db) - {x})"
    by (rule update_endpoint_mem(1) [OF up tables_ok_core [OF assms(1)] x assms(3,4)])
  then have "idents db' = idents db" using x assms(3,4) unfolding idents_def by auto
  then show ?thesis
    using tables_ok_update(1) [OF assms(1) up x assms(3,4,5) assms(6)] tables_ok_row [OF assms(1) x] by blast
qed (use assms(1,2) in \<open>simp add: update_columns_def\<close>)

lemma patch_body_ok:
  assumes "tables_ok (nv_lower (hj_env j)) db" and "plan_ok db (j, Planned ep q)"
    and "patch_body j req enc ep q db = Inr (r, db')"
  shows "tables_ok (nv_lower (hj_env j)) db' \<and> idents db' = idents db"
proof -
  let ?v = "patched_row (hj_env j) req enc (ep_row ep)"
  obtain db1 where up: "update_columns (nv_lower (hj_env j)) (hj_tenant j) (hj_id j) (set_patched ?v) db = Inr db1"
    and subs: "replace_subs (hj_faults j) (hj_id j) (pt_event_types req) db1 = Inr db'"
    using assms(3) by (auto simp: patch_body_def Let_def guard_Inr split: sum.splits)
  have one: "tables_ok (nv_lower (hj_env j)) db1 \<and> idents db1 = idents db"
    by (rule update_columns_ok [OF assms(1) up])
      (use assms(2) in \<open>simp_all add: set_patched_def plan_ok_def row_ok_def\<close>)
  then have "hj_id j \<in> en_id ` set (edb_endpoints db1)" using assms(2) by (force simp: plan_ok_def idents_def)
  moreover have "idents db' = idents db1" using replace_subs_Inr [OF subs] by (simp add: idents_def)
  ultimately show ?thesis using one tables_ok_replace_subs [OF subs] by simp
qed

lemma delete_body_ok:
  assumes "tables_ok (nv_lower (hj_env j)) db" and "plan_ok db (j, Planned ep q)"
    and "delete_body j ep q db = Inr (r, db')"
  shows "tables_ok (nv_lower (hj_env j)) db' \<and> idents db' = idents db"
proof -
  let ?v = "deleted_row (pg_time (nv_clock (hj_env j))) (ep_row ep)"
  obtain db1 where up: "update_columns (nv_lower (hj_env j)) (hj_tenant j) (hj_id j) (set_deleted ?v) db = Inr db1"
    and db': "db' = delete_subs (hj_id j) db1"
    using assms(3) by (auto simp: delete_body_def Let_def guard_Inr split: sum.splits)
  have "tables_ok (nv_lower (hj_env j)) db1 \<and> idents db1 = idents db"
    by (rule update_columns_ok [OF assms(1) up]) (use assms(2) in \<open>simp_all add: set_deleted_def plan_ok_def\<close>)
  then show ?thesis using tables_ok_delete_subs by (simp add: db')
qed

lemma write_job_ok:
  assumes "tables_ok (nv_lower (hj_env j)) db" and "plan_ok db (j, Planned ep q)" and "write_job j ep q db = (r, db')"
  shows "tables_ok (nv_lower (hj_env j)) db' \<and> idents db' = idents db"
  using assms patch_body_ok [OF assms(1,2)] delete_body_ok [OF assms(1,2)]
  by (auto simp: write_job_def run_tx_def split: change.splits option.splits sum.splits)

definition change_inv :: "(string \<Rightarrow> string) \<Rightarrow> change_race \<Rightarrow> bool" where
  "change_inv low s \<longleftrightarrow> tables_ok low (hr_db s)
     \<and> list_all (\<lambda>p. nv_lower (hj_env (fst p)) = low \<and> plan_ok (hr_db s) p) (hr_jobs s)"

lemma list_all_update: "list_all P xs \<Longrightarrow> P x \<Longrightarrow> list_all P (xs[n := x])"
  using set_update_subset_insert [of xs n x] by (auto simp: list_all_iff)

lemma list_all_at: "list_all P xs \<Longrightarrow> n < length xs \<Longrightarrow> xs ! n = x \<Longrightarrow> P x"
  by (auto simp: list_all_length)

lemma service_create_idents:
  "idents db \<subseteq> idents (snd (service_create f fp env sv tenant req db))"
proof -
  have "idents d \<subseteq> idents (snd (create_endpoint f env tenant rq enc p d))" for d rq enc p
  proof (cases "create_endpoint f env tenant rq enc p d")
    case (Pair res db')
    show ?thesis
    proof (cases res)
      case (Inl e)
      then have "db' = d" using Pair run_tx_atomic by (simp add: create_endpoint_def)
      then show ?thesis using Pair by simp
    next
      case (Inr ep)
      obtain db1 where "insert_endpoint (nv_lower env) (new_endpoint_row env tenant rq enc p) d = Inr db1"
        and subs: "insert_endpoint_subs f (nv_new_id env) (cr_event_types rq) db1 = Inr db'"
        using create_endpoint_Inr Pair Inr by blast
      then show ?thesis using insert_endpoint_subs_Inr [OF subs] Pair by (auto simp: insert_endpoint_Inr idents_def)
    qed
  qed
  then show ?thesis
    by (auto simp: service_create_def split: sum.split prod.split dest!: resolve_policy_db) fastforce+
qed

lemma change_step_inv: "change_step low s t \<Longrightarrow> change_inv low s \<Longrightarrow> change_inv low t"
proof (induction rule: change_step.induct)
  case (arrive j s)
  then show ?case by (simp add: change_inv_def plan_ok_def)
next
  case (read n s j)
  then have "nv_lower (hj_env j) = low" using list_all_at [OF _ read(1,2)] by (fastforce simp: change_inv_def)
  then show ?case using read by (auto simp: change_inv_def intro!: list_all_update plan_ok_read)
next
  case (finish n s j ep q r db')
  then have j: "nv_lower (hj_env j) = low" "plan_ok (hr_db s) (j, Planned ep q)"
    using list_all_at [OF _ finish(1,2)] by (fastforce simp: change_inv_def)+
  have "tables_ok low db' \<and> idents db' = idents (hr_db s)"
    using write_job_ok [of j "hr_db s" ep q r db'] finish(3,4) j by (simp add: change_inv_def)
  then have "tables_ok low db'" and "plan_ok db' p = plan_ok (hr_db s) p" for p
    by (simp_all add: plan_ok_def split: change_phase.split)
  moreover have "plan_ok (hr_db s) (j, Done r)" by (simp add: plan_ok_def)
  ultimately show ?case using finish(4) j(1) by (simp add: change_inv_def list_all_update)
next
  case (create env s f fp sv tenant req)
  then show ?case
    using tables_ok_service_create [of env "hr_db s" f fp sv tenant req]
      plan_ok_mono [OF service_create_idents [of "hr_db s" f fp env sv tenant req]]
    by (auto simp: change_inv_def list_all_iff)
next
  case (tenants s ts)
  then show ?case
    by (auto simp: change_inv_def list_all_iff tables_ok_def endpoint_db_ok_def subs_ok_def row_ok_def without_subs_def
        intro: plan_ok_mono [of "hr_db s"])
qed

lemma change_reach_inv: "change_reach low s \<Longrightarrow> change_inv low s"
proof (induction rule: change_reach.induct)
  case (init ts)
  then show ?case
    by (simp add: change_inv_def tables_ok_def endpoint_db_ok_def names_ok_def subs_ok_def)
qed (rule change_step_inv)

section \<open>Properties\<close>

text \<open>
  However changes and creations of endpoints interleave, and whatever fails, the tables stay
  consistent in all but one respect: identifiers are unique, the names of a tenant's active
  endpoints differ, timeouts and policies are valid, an endpoint has a time of deletion exactly
  if it is deleted, and every subscription belongs to an endpoint, which may be a deleted one.
\<close>

lemma concurrent_changes_keep_tables:
  assumes "change_reach low s"
  shows "distinct (map en_id (edb_endpoints (hr_db s))) \<and> names_ok low (edb_endpoints (hr_db s))
    \<and> list_all (row_ok (without_subs (hr_db s))) (edb_endpoints (hr_db s))
    \<and> distinct (edb_subs (hr_db s)) \<and> fst ` set (edb_subs (hr_db s)) \<subseteq> en_id ` set (edb_endpoints (hr_db s))"
  using change_reach_inv [OF assms] by (simp add: change_inv_def tables_ok_def endpoint_db_ok_def)

lemma set_patched_twice: "set_patched v (set_patched w x) = set_patched v x"
  by (simp add: set_patched_def)

lemma update_columns_find:
  assumes "distinct (map en_id (edb_endpoints db))" and "x \<in> set (edb_endpoints db)" "en_id x = i" "en_tenant_id x = tenant"
    and "update_columns low tenant i g db = Inr db'" and "en_id (g x) = i" "en_tenant_id (g x) = tenant"
  shows "find_row en_id i (edb_endpoints db') = Some (g x)" and "distinct (map en_id (edb_endpoints db'))"
proof -
  have "List.find (\<lambda>y. en_id y = i \<and> en_tenant_id y = tenant) (edb_endpoints db) = Some x"
    using find_identity [OF assms(1,2)] assms(3,4) by simp
  then have up: "update_endpoint low (g x) db = Inr db'" using assms(5) by (simp add: update_columns_def)
  then have rows: "edb_endpoints db' = update_where (\<lambda>y. en_id y = i \<and> en_tenant_id y = tenant) (\<lambda>_. g x) (edb_endpoints db)"
    using assms(6,7) by (simp add: update_endpoint_Inr)
  have "map en_id (edb_endpoints db') = map en_id (edb_endpoints db)"
    unfolding rows by (rule map_update_where) (use assms(6) in simp)
  then show d: "distinct (map en_id (edb_endpoints db'))" using assms(1) by simp
  have "g x \<in> set (edb_endpoints db')" using assms(2-4) by (auto simp: rows set_update_where)
  then show "find_row en_id i (edb_endpoints db') = Some (g x)"
    using find_row_Some_iff [OF d, of i "g x"] assms(6) by simp
qed

text \<open>What a patch that planned with the row of \<open>ep\<close> does, whatever the row is by now.\<close>

lemma write_patch_result:
  assumes "hj_change j = Patch_Change req enc p" and "distinct (map en_id (edb_endpoints db))"
    and "x \<in> set (edb_endpoints db)" "en_id x = hj_id j" "en_tenant_id x = hj_tenant j"
    and "write_job j ep q db = (Inr (ep', q'), db')"
  shows "find_row en_id (hj_id j) (edb_endpoints db') = Some (set_patched (patched_row (hj_env j) req enc (ep_row ep)) x)"
    and "ep_row ep' = set_patched (patched_row (hj_env j) req enc (ep_row ep)) x"
    and "distinct (map en_id (edb_endpoints db'))"
proof -
  let ?g = "set_patched (patched_row (hj_env j) req enc (ep_row ep))"
  have "patch_body j req enc ep q db = Inr ((ep', q'), db')"
    using assms(1,6) by (simp add: write_job_def run_tx_commit)
  then obtain db1 where up: "update_columns (nv_lower (hj_env j)) (hj_tenant j) (hj_id j) ?g db = Inr db1"
    and subs: "replace_subs (hj_faults j) (hj_id j) (pt_event_types req) db1 = Inr db'"
    and scan: "scan_tx (hj_faults j) (hj_id j) db' = Inr ep'"
    by (auto simp: patch_body_def Let_def guard_Inr split: sum.splits)
  have f: "find_row en_id (hj_id j) (edb_endpoints db1) = Some (?g x)" and d: "distinct (map en_id (edb_endpoints db1))"
    using update_columns_find [OF assms(2-5) up] assms(4,5) by (simp_all add: set_patched_def)
  have "edb_endpoints db' = edb_endpoints db1" using replace_subs_Inr [OF subs] by simp
  then show "find_row en_id (hj_id j) (edb_endpoints db') = Some (?g x)" "distinct (map en_id (edb_endpoints db'))"
    using f d by simp_all
  then show "ep_row ep' = ?g x" using scan by (auto simp: scan_tx_def guard_Inr)
qed

lemma write_patch_types:
  assumes "hj_change j = Patch_Change req enc p" and "distinct (map en_id (edb_endpoints db))"
    and "x \<in> set (edb_endpoints db)" "en_id x = hj_id j" "en_tenant_id x = hj_tenant j"
    and "write_job j ep q db = (Inr (ep', q'), db')"
  shows "set (types_of (hj_id j) db') =
    (case pt_event_types req of Some tys \<Rightarrow> set tys | None \<Rightarrow> set (types_of (hj_id j) db))"
proof -
  have "patch_body j req enc ep q db = Inr ((ep', q'), db')"
    using assms(1,6) by (simp add: write_job_def run_tx_commit)
  then obtain db1 where
    up: "update_columns (nv_lower (hj_env j)) (hj_tenant j) (hj_id j) (set_patched (patched_row (hj_env j) req enc (ep_row ep))) db = Inr db1"
    and subs: "replace_subs (hj_faults j) (hj_id j) (pt_event_types req) db1 = Inr db'"
    by (auto simp: patch_body_def Let_def guard_Inr split: sum.splits)
  have "edb_subs db1 = edb_subs db"
    using up update_without_subs by (fastforce simp: update_columns_def split: option.splits)
  then show ?thesis using replace_subs_Inr [OF subs] by (auto simp: set_types_of split: option.split)
qed

text \<open>A writer that has read an old row even sets the version back.\<close>

lemma stale_write_lowers_version:
  assumes "hj_change j = Patch_Change req enc p" and "distinct (map en_id (edb_endpoints db))"
    and "x \<in> set (edb_endpoints db)" "en_id x = hj_id j" "en_tenant_id x = hj_tenant j"
    and "write_job j ep q db = (Inr (ep', q'), db')" and "en_version (ep_row ep) + 1 < en_version x"
  shows "en_version (ep_row ep') < en_version x"
  using write_patch_result(2) [OF assms(1-6)] assms(7) by (simp add: set_patched_def)

section \<open>Versions when changes overlap\<close>

lemma update_columns_rows:
  assumes "distinct (map en_id (edb_endpoints db))" and "(i, tenant) \<in> idents db"
    and "update_columns low tenant i g db = Inr db'"
    and "\<And>x. en_id (g x) = en_id x" "\<And>x. en_tenant_id (g x) = en_tenant_id x"
    and "r \<in> set (edb_endpoints db)"
  shows "edb_subs db' = edb_subs db \<and> (if en_id r = i then g r else r) \<in> set (edb_endpoints db')"
proof -
  obtain x where x: "x \<in> set (edb_endpoints db)" "en_id x = i" "en_tenant_id x = tenant"
    using assms(2) by (auto simp: idents_def)
  then have "List.find (\<lambda>y. en_id y = i \<and> en_tenant_id y = tenant) (edb_endpoints db) = Some x"
    using find_identity [OF assms(1) x(1)] by simp
  then have up: "update_endpoint low (g x) db = Inr db'" using assms(3) by (simp add: update_columns_def)
  have set: "set (edb_endpoints db') = insert (g x) (set (edb_endpoints db) - {x})"
    by (rule update_endpoint_mem(1) [OF up assms(1) x(1) assms(4,5)])
  have "r = x" if "en_id r = i" using distinct_keys_eq [OF assms(1,6) x(1)] that x(2) by simp
  then show ?thesis using set x(2) assms(6) update_without_subs [OF up] by auto
qed

definition written_as :: "endpoint_db \<Rightarrow> endpoint_db \<Rightarrow> uuid \<Rightarrow> int \<Rightarrow> endpoint_row \<Rightarrow> bool" where
  "written_as db db' i v r \<longleftrightarrow>
     (\<exists>r'\<in>set (edb_endpoints db'). en_id r' = en_id r \<and> en_tenant_id r' = en_tenant_id r
        \<and> en_created_at r' = en_created_at r \<and> (en_status r = DELETED \<longrightarrow> en_status r' = DELETED)
        \<and> (if en_id r = i then en_version r' = v
           else r' = r \<and> set (types_of (en_id r) db') = set (types_of (en_id r) db)))"

lemma write_patch_written:
  assumes "distinct (map en_id (edb_endpoints db))" and "(hj_id j, hj_tenant j) \<in> idents db"
    and "patch_body j req enc ep q db = Inr (res, db')" and "r \<in> set (edb_endpoints db)"
  shows "written_as db db' (hj_id j) (en_version (ep_row ep) + 1) r"
proof -
  let ?g = "set_patched (patched_row (hj_env j) req enc (ep_row ep))"
  obtain db1 where up: "update_columns (nv_lower (hj_env j)) (hj_tenant j) (hj_id j) ?g db = Inr db1"
    and subs: "replace_subs (hj_faults j) (hj_id j) (pt_event_types req) db1 = Inr db'"
    using assms(3) by (auto simp: patch_body_def Let_def guard_Inr split: sum.splits)
  have row: "edb_subs db1 = edb_subs db \<and> (if en_id r = hj_id j then ?g r else r) \<in> set (edb_endpoints db1)"
    by (rule update_columns_rows [OF assms(1,2) up _ _ assms(4)]) (simp_all add: set_patched_def)
  note new = replace_subs_Inr [OF subs]
  show ?thesis
  proof (cases "en_id r = hj_id j")
    case True
    then show ?thesis using row new unfolding written_as_def
      by (intro bexI [of _ "?g r"]) (simp_all add: set_patched_def patched_row_def)
  next
    case False
    then have "set (types_of (en_id r) db') = set (types_of (en_id r) db)"
      using row new by (auto simp: set_types_of split: option.splits)
    then show ?thesis using row new False unfolding written_as_def by (intro bexI [of _ r]) simp_all
  qed
qed

lemma write_delete_written:
  assumes "distinct (map en_id (edb_endpoints db))" and "(hj_id j, hj_tenant j) \<in> idents db"
    and "delete_body j ep q db = Inr (res, db')" and "r \<in> set (edb_endpoints db)"
  shows "written_as db db' (hj_id j) (en_version (ep_row ep) + 1) r"
proof -
  let ?g = "set_deleted (deleted_row (pg_time (nv_clock (hj_env j))) (ep_row ep))"
  obtain db1 where up: "update_columns (nv_lower (hj_env j)) (hj_tenant j) (hj_id j) ?g db = Inr db1"
    and db': "db' = delete_subs (hj_id j) db1"
    using assms(3) by (auto simp: delete_body_def Let_def guard_Inr split: sum.splits)
  have row: "edb_subs db1 = edb_subs db \<and> (if en_id r = hj_id j then ?g r else r) \<in> set (edb_endpoints db1)"
    by (rule update_columns_rows [OF assms(1,2) up _ _ assms(4)]) (simp_all add: set_deleted_def)
  show ?thesis
  proof (cases "en_id r = hj_id j")
    case True
    then show ?thesis using row unfolding written_as_def
      by (intro bexI [of _ "?g r"]) (simp_all add: set_deleted_def deleted_row_def db' delete_subs_def)
  next
    case False
    then have "set (types_of (en_id r) db') = set (types_of (en_id r) db)"
      using row by (auto simp: set_types_of db' delete_subs_def)
    then show ?thesis using row False unfolding written_as_def
      by (intro bexI [of _ r]) (simp_all add: db' delete_subs_def)
  qed
qed

lemma write_job_written:
  assumes "distinct (map en_id (edb_endpoints db))" and "(hj_id j, hj_tenant j) \<in> idents db"
    and "write_job j ep q db = (res, db')" and "r \<in> set (edb_endpoints db)"
  shows "db' = db \<or> written_as db db' (hj_id j) (en_version (ep_row ep) + 1) r"
proof (cases res)
  case (Inl e)
  then have "db' = db" using assms(3) run_tx_atomic by (fastforce simp: write_job_def split: change.splits)
  then show ?thesis ..
next
  case (Inr x)
  obtain a b where "x = (a, b)" by force
  with Inr show ?thesis using assms(3) write_patch_written [OF assms(1,2) _ assms(4)] write_delete_written [OF assms(1,2) _ assms(4)]
    by (auto simp: write_job_def run_tx_commit split: change.splits)
qed

text \<open>What a step leaves of an endpoint: everything, or what a job wrote that had read it.\<close>

lemma overlapping_step_version:
  assumes "change_reach low s" and "change_step low s t" and r: "r \<in> set (edb_endpoints (hr_db s))"
  shows "\<exists>r'\<in>set (edb_endpoints (hr_db t)). en_id r' = en_id r \<and> en_tenant_id r' = en_tenant_id r
     \<and> en_created_at r' = en_created_at r \<and> (en_status r = DELETED \<longrightarrow> en_status r' = DELETED)
     \<and> (r' = r \<and> set (types_of (en_id r) (hr_db t)) = set (types_of (en_id r) (hr_db s))
        \<or> (\<exists>j ep q. (j, Planned ep q) \<in> set (hr_jobs s) \<and> hj_id j = en_id r
             \<and> en_version r' = en_version (ep_row ep) + 1))"
proof -
  have inv: "change_inv low s" by (rule change_reach_inv [OF assms(1)])
  then have d: "distinct (map en_id (edb_endpoints (hr_db s)))" by (auto simp: change_inv_def intro: tables_ok_core)
  have same: ?thesis if "keeps_endpoints (hr_db s) (hr_db t)"
    using that r by (intro bexI [of _ r]) (auto simp: keeps_endpoints_def set_types_of)
  from assms(2) show ?thesis
  proof (cases rule: change_step.cases)
    case (finish n j ep q res db')
    then have mem: "(j, Planned ep q) \<in> set (hr_jobs s)" by (metis nth_mem)
    then have "(hj_id j, hj_tenant j) \<in> idents (hr_db s)"
      using inv by (auto simp: change_inv_def list_all_iff plan_ok_def)
    from write_job_written [OF d this finish(4) r] show ?thesis
    proof
      assume "db' = hr_db s"
      then show ?thesis using same finish(1) by simp
    next
      assume "written_as (hr_db s) db' (hj_id j) (en_version (ep_row ep) + 1) r"
      then obtain r' where r': "r' \<in> set (edb_endpoints (hr_db t))"
        "en_id r' = en_id r \<and> en_tenant_id r' = en_tenant_id r \<and> en_created_at r' = en_created_at r
           \<and> (en_status r = DELETED \<longrightarrow> en_status r' = DELETED)"
        "if en_id r = hj_id j then en_version r' = en_version (ep_row ep) + 1
         else r' = r \<and> set (types_of (en_id r) (hr_db t)) = set (types_of (en_id r) (hr_db s))"
        unfolding written_as_def finish(1) by auto
      then show ?thesis using mem by (intro bexI [OF _ r'(1)]) (auto split: if_splits)
    qed
  qed (use same service_create_keeps_endpoints in \<open>auto simp: keeps_endpoints_def\<close>)
qed

text \<open>
  C23. However patches, deletions and creations of endpoints overlap, and whatever calls fail: endpoint
  identifiers are unique; no two endpoints of a tenant that are not deleted have the same name;
  timeouts are between 100 ms and 2 minutes; an endpoint is deleted exactly when it has a time of
  deletion; its retry policy is one of its tenant's; and every subscription belongs to an endpoint,
  if maybe to a deleted one. If the operations do not overlap, moreover exactly the endpoints that
  are not deleted have subscriptions, with well formed event types.
\<close>

theorem endpoint_store_consistent:
  "(change_reach low s \<longrightarrow>
      distinct (map en_id (edb_endpoints (hr_db s)))
      \<and> (\<forall>r\<in>set (edb_endpoints (hr_db s)).
           100 \<le> en_connect_timeout_ms r \<and> en_connect_timeout_ms r \<le> 120000
           \<and> 100 \<le> en_request_timeout_ms r \<and> en_request_timeout_ms r \<le> 120000
           \<and> 1 \<le> en_version r
           \<and> (en_status r = DELETED \<longleftrightarrow> en_deleted_at r \<noteq> None)
           \<and> (\<exists>p\<in>set (edb_policies (hr_db s)). po_id p = en_policy_id r \<and> po_tenant_id p = en_tenant_id r)
           \<and> (\<forall>x\<in>set (edb_endpoints (hr_db s)). en_deleted_at r = None \<and> en_deleted_at x = None
                \<and> en_tenant_id x = en_tenant_id r \<and> low (en_name x) = low (en_name r) \<longrightarrow> x = r))
      \<and> distinct (edb_subs (hr_db s)) \<and> fst ` set (edb_subs (hr_db s)) \<subseteq> en_id ` set (edb_endpoints (hr_db s)))
   \<and> (nreach low db \<longrightarrow>
      (\<forall>r\<in>set (edb_endpoints db). (en_status r = ACTIVE \<longleftrightarrow> types_of (en_id r) db \<noteq> [])
         \<and> (\<forall>t\<in>set (types_of (en_id r) db). event_type_matches t)))"
proof (intro conjI impI)
  assume reach: "change_reach low s"
  note all = concurrent_changes_keep_tables [OF reach]
  then show "distinct (map en_id (edb_endpoints (hr_db s)))" "distinct (edb_subs (hr_db s))"
    "fst ` set (edb_subs (hr_db s)) \<subseteq> en_id ` set (edb_endpoints (hr_db s))" by blast+
  have "x = r" if "r \<in> set (edb_endpoints (hr_db s))" "x \<in> set (edb_endpoints (hr_db s))"
      "en_deleted_at r = None \<and> en_deleted_at x = None \<and> en_tenant_id x = en_tenant_id r
       \<and> low (en_name x) = low (en_name r)" for r x
  proof -
    have "en_id x = en_id r" using all that unfolding names_ok_def by blast
    then show ?thesis using distinct_keys_eq [OF conjunct1 [OF all] that(2,1)] by blast
  qed
  moreover have "row_ok (without_subs (hr_db s)) r" if "r \<in> set (edb_endpoints (hr_db s))" for r
    using all that by (simp add: list_all_iff)
  ultimately show "\<forall>r\<in>set (edb_endpoints (hr_db s)).
           100 \<le> en_connect_timeout_ms r \<and> en_connect_timeout_ms r \<le> 120000
           \<and> 100 \<le> en_request_timeout_ms r \<and> en_request_timeout_ms r \<le> 120000
           \<and> 1 \<le> en_version r
           \<and> (en_status r = DELETED \<longleftrightarrow> en_deleted_at r \<noteq> None)
           \<and> (\<exists>p\<in>set (edb_policies (hr_db s)). po_id p = en_policy_id r \<and> po_tenant_id p = en_tenant_id r)
           \<and> (\<forall>x\<in>set (edb_endpoints (hr_db s)). en_deleted_at r = None \<and> en_deleted_at x = None
                \<and> en_tenant_id x = en_tenant_id r \<and> low (en_name x) = low (en_name r) \<longrightarrow> x = r)"
    unfolding row_ok_def without_subs_simps by blast
next
  assume "nreach low db"
  from serial_store_consistent [OF this] show "\<forall>r\<in>set (edb_endpoints db). (en_status r = ACTIVE \<longleftrightarrow> types_of (en_id r) db \<noteq> [])
         \<and> (\<forall>t\<in>set (types_of (en_id r) db). event_type_matches t)" by blast
qed

text \<open>
  C24. However changes of endpoints overlap: every endpoint stays, with its tenant and the time of its
  creation, a deleted one stays deleted, and whatever changes an endpoint or its subscriptions gives
  it the version after the one that the change had read, so the next version if nothing was written
  in between. If the operations do not overlap, every change so raises the version by exactly one,
  and a deleted endpoint never changes again.
\<close>

theorem endpoint_changes_raise_version:
  "(change_reach low s \<and> change_step low s t \<and> r \<in> set (edb_endpoints (hr_db s)) \<longrightarrow>
      (\<exists>r'\<in>set (edb_endpoints (hr_db t)). en_id r' = en_id r \<and> en_tenant_id r' = en_tenant_id r
         \<and> en_created_at r' = en_created_at r \<and> (en_status r = DELETED \<longrightarrow> en_status r' = DELETED)
         \<and> (r' = r \<and> set (types_of (en_id r) (hr_db t)) = set (types_of (en_id r) (hr_db s))
            \<or> (\<exists>j ep q. (j, Planned ep q) \<in> set (hr_jobs s) \<and> hj_id j = en_id r
                 \<and> en_version r' = en_version (ep_row ep) + 1))))
   \<and> (nreach low db \<and> nstep low db db' \<and> r \<in> set (edb_endpoints db) \<longrightarrow>
      (\<exists>r'\<in>set (edb_endpoints db'). en_id r' = en_id r \<and> en_tenant_id r' = en_tenant_id r
         \<and> (if en_version r' = en_version r
            then r' = r \<and> set (types_of (en_id r) db') = set (types_of (en_id r) db)
            else en_version r' = en_version r + 1 \<and> en_status r = ACTIVE)))"
  using overlapping_step_version [of low s t r] serial_changes_raise_version [of low db db' r] by blast

text \<open>
  C25. The lost update: two patches of an endpoint that both read it before either writes both
  succeed, and both are answered with the same version. The row of the endpoint is then as if the
  first had never run: every column that the second does not set is back to what both had read. The
  event types are those of the second if it sets them, and otherwise those that the first has left.
\<close>

theorem concurrent_patches_lose_update:
  assumes "distinct (map en_id (edb_endpoints db))"
    and "hj_change i = Patch_Change req enc p" "hj_change j = Patch_Change req' enc' p'" and "hj_id i = hj_id j"
    and "read_job i db = Planned ep q" "read_job j db = Planned ep' q'"
    and "write_job i ep q db = (Inr (a, qa), db1)" and "write_job j ep' q' db1 = (Inr (b, qb), db2)"
  shows "en_version (ep_row a) = en_version (ep_row b)
    \<and> find_row en_id (hj_id j) (edb_endpoints db2) = Some (patched_row (hj_env j) req' enc' (ep_row ep))
    \<and> set (types_of (hj_id j) db2) =
        (case pt_event_types req' of
           Some tys \<Rightarrow> set tys
         | None \<Rightarrow> (case pt_event_types req of Some tys \<Rightarrow> set tys | None \<Rightarrow> set (types_of (hj_id j) db)))"
proof -
  note own = scan_own_Inr [OF read_job_scan [OF assms(5)]] and own' = scan_own_Inr [OF read_job_scan [OF assms(6)]]
  have same: "ep_row ep' = ep_row ep"
    using distinct_keys_eq [OF assms(1), of "ep_row ep'" "ep_row ep"] own own' assms(4) by simp
  let ?x = "patched_row (hj_env i) req enc (ep_row ep)"
  have one: "find_row en_id (hj_id i) (edb_endpoints db1) = Some ?x" "ep_row a = ?x" "distinct (map en_id (edb_endpoints db1))"
    using write_patch_result [OF assms(2,1) _ _ _ assms(7), of "ep_row ep"] own by (simp_all add: set_patched_same)
  have x: "?x \<in> set (edb_endpoints db1)" "en_id ?x = hj_id j" "en_tenant_id ?x = hj_tenant j"
    using find_row_SomeD [OF one(1)] assms(4) own own' same by simp_all
  have "set_patched (patched_row (hj_env j) req' enc' (ep_row ep)) ?x = patched_row (hj_env j) req' enc' (ep_row ep)"
    by (simp add: set_patched_def patched_row_def)
  moreover have "set (types_of (hj_id i) db1) = (case pt_event_types req of Some tys \<Rightarrow> set tys | None \<Rightarrow> set (types_of (hj_id i) db))"
    by (rule write_patch_types [OF assms(2,1) _ _ _ assms(7), of "ep_row ep"]) (use own in simp_all)
  moreover have "set (types_of (hj_id j) db2) = (case pt_event_types req' of Some tys \<Rightarrow> set tys | None \<Rightarrow> set (types_of (hj_id j) db1))"
    by (rule write_patch_types [OF assms(3) one(3) x assms(8)])
  ultimately show ?thesis
    using write_patch_result [OF assms(3) one(3) x assms(8)] same one(2) assms(4) by (simp cong: option.case_cong)
qed

definition rename_request :: patch_request where
  "rename_request = \<lparr>pt_name = Some ''m'', pt_url = None, pt_secret = None, pt_connect_timeout_ms = None,
     pt_request_timeout_ms = None, pt_policy_id = None, pt_event_types = None\<rparr>"

definition slower_request :: patch_request where
  "slower_request = rename_request\<lparr>pt_name := None, pt_request_timeout_ms := Some 20000\<rparr>"

definition patch_job :: "patch_request \<Rightarrow> change_job" where
  "patch_job req = \<lparr>hj_faults = no_faults, hj_env = example_endpoint_env, hj_tenant = 3, hj_id = 7,
     hj_change = Patch_Change req [] None\<rparr>"

text \<open>A renaming and a change of the timeout: the name is lost.\<close>

theorem concurrent_patches_lose_update_witness:
  "\<exists>ep q db1 db2. read_job (patch_job rename_request) example_endpoint_db = Planned ep q
     \<and> write_job (patch_job rename_request) ep q example_endpoint_db = (Inr (ep\<lparr>ep_row :=
          (ep_row ep)\<lparr>en_name := ''m'', en_version := 2, en_updated_at := 1000\<rparr>\<rparr>, q), db1)
     \<and> snd (write_job (patch_job slower_request) ep q db1) = db2
     \<and> map_option en_name (find_row en_id 7 (edb_endpoints db2)) = Some ''n''"
proof -
  let ?i = "patch_job rename_request" and ?j = "patch_job slower_request"
  let ?ep = "\<lparr>ep_row = example_endpoint_row, ep_event_types = [''t'']\<rparr>" and ?q = "default_retry_policy 9 3"
  let ?ep1 = "?ep\<lparr>ep_row := example_endpoint_row\<lparr>en_name := ''m'', en_version := 2, en_updated_at := 1000\<rparr>\<rparr>"
  let ?db1 = "example_endpoint_db\<lparr>edb_endpoints := [ep_row ?ep1]\<rparr>"
  let ?r2 = "example_endpoint_row\<lparr>en_request_timeout_ms := 20000, en_version := 2, en_updated_at := 1000\<rparr>"
  let ?db2 = "example_endpoint_db\<lparr>edb_endpoints := [?r2]\<rparr>"
  note defs = patch_job_def rename_request_def slower_request_def example_endpoint_db_def example_endpoint_row_def
    example_endpoint_env_def default_retry_policy_def Let_def
  have ri: "read_job ?i example_endpoint_db = Planned ?ep ?q" and rj: "read_job ?j example_endpoint_db = Planned ?ep ?q"
    by (simp_all add: read_job_def defs scan_own_def scan_tx_def find_row_def types_of_def patch_policy_def
        get_policy_tx_def patched_row_def orelse_def)
  have wi: "write_job ?i ?ep ?q example_endpoint_db = (Inr (?ep1, ?q), ?db1)"
    by (simp add: write_job_def patch_body_def update_columns_def update_endpoint_def check_row_def name_taken_def
        replace_subs_def scan_tx_def find_row_def types_of_def run_tx_def set_patched_def patched_row_def orelse_def
        update_where_def defs)
  have wj: "write_job ?j ?ep ?q ?db1 = (Inr (?ep\<lparr>ep_row := ?r2\<rparr>, ?q), ?db2)"
    by (simp add: write_job_def patch_body_def update_columns_def update_endpoint_def check_row_def name_taken_def
        replace_subs_def scan_tx_def find_row_def types_of_def run_tx_def set_patched_def patched_row_def orelse_def
        update_where_def defs)
  have "distinct (map en_id (edb_endpoints example_endpoint_db))" by (simp add: defs)
  then have "find_row en_id 7 (edb_endpoints ?db2)
      = Some (patched_row example_endpoint_env slower_request [] example_endpoint_row)"
    using concurrent_patches_lose_update [OF _ _ _ _ ri rj wi wj, of rename_request "[]" None slower_request "[]" None]
    by (simp add: patch_job_def)
  then show ?thesis using ri wi wj by (intro exI [of _ ?ep] exI [of _ ?q] exI [of _ ?db1] exI [of _ ?db2])
      (simp add: patched_row_def slower_request_def rename_request_def orelse_def example_endpoint_row_def)
qed

text \<open>A patch of the subscriptions that has read the endpoint before it is deleted, and writes after.\<close>

definition resubscribe_job :: change_job where
  "resubscribe_job = patch_job (rename_request\<lparr>pt_name := None, pt_event_types := Some [''t'']\<rparr>)"

definition delete_job :: change_job where
  "delete_job = (patch_job rename_request)\<lparr>hj_change := Delete_Change\<rparr>"

definition resubscribed_db :: endpoint_db where
  "resubscribed_db = example_endpoint_db\<lparr>edb_endpoints := [example_endpoint_row\<lparr>en_status := DELETED,
     en_deleted_at := Some (pg_time 1500), en_version := 2, en_updated_at := 1000\<rparr>]\<rparr>"

lemma resubscribed_reach:
  "\<exists>js. change_reach (\<lambda>s. s) \<lparr>hr_db = resubscribed_db, hr_jobs = js\<rparr>"
proof -
  let ?i = resubscribe_job and ?j = delete_job
  let ?ep = "\<lparr>ep_row = example_endpoint_row, ep_event_types = [''t'']\<rparr>" and ?q = "default_retry_policy 9 3"
  define st where "st db a b = \<lparr>hr_db = db, hr_jobs = [(?i, a), (?j, b)]\<rparr>" for db a b
  note defs = resubscribe_job_def delete_job_def patch_job_def rename_request_def example_endpoint_db_def example_endpoint_row_def
    example_endpoint_env_def default_retry_policy_def Let_def
  have low: "nv_lower (hj_env ?i) = (\<lambda>s. s)" "nv_lower (hj_env ?j) = (\<lambda>s. s)" by (simp_all add: defs)
  have "change_reach (\<lambda>s. s) \<lparr>hr_db = example_tenants, hr_jobs = []\<rparr>"
    using change_reach.init [of "\<lambda>s. s" "[(3, ''ACTIVE'')]"] by (simp add: example_tenants_def)
  then have "change_reach (\<lambda>s. s) \<lparr>hr_db = example_endpoint_db, hr_jobs = []\<rparr>"
    using change_reach.step [OF _ change_step.create [of example_endpoint_env "\<lambda>s. s" _ no_faults None example_service 3
        example_create_request]] example_service_create by (fastforce simp: example_endpoint_env_def)
  then have start: "change_reach (\<lambda>s. s) (st example_endpoint_db Arrived Arrived)"
    using change_reach.step [OF change_reach.step [OF _ change_step.arrive [OF low(1)]] change_step.arrive [OF low(2)]]
    by (fastforce simp: st_def)
  have ri: "read_job ?i example_endpoint_db = Planned ?ep ?q" and rj: "read_job ?j example_endpoint_db = Planned ?ep ?q"
    by (simp_all add: read_job_def defs scan_own_def scan_tx_def find_row_def types_of_def patch_policy_def
        get_policy_tx_def patched_row_def orelse_def)
  have s1: "change_reach (\<lambda>s. s) (st example_endpoint_db (Planned ?ep ?q) Arrived)"
    using change_reach.step [OF start change_step.read [of 0 _ ?i]] by (simp add: st_def ri)
  have s2: "change_reach (\<lambda>s. s) (st example_endpoint_db (Planned ?ep ?q) (Planned ?ep ?q))"
    using change_reach.step [OF s1 change_step.read [of 1 _ ?j]] by (simp add: st_def rj)
  let ?db1 = "resubscribed_db\<lparr>edb_endpoints := [deleted_row (pg_time 1500) example_endpoint_row], edb_subs := []\<rparr>"
  obtain r1 where "write_job ?j ?ep ?q example_endpoint_db = (r1, ?db1)"
    by (simp add: write_job_def delete_body_def update_columns_def update_endpoint_def check_row_def name_taken_def
        run_tx_def set_deleted_def deleted_row_def delete_subs_def resubscribed_db_def update_where_def defs)
  then have s3: "change_reach (\<lambda>s. s) (st ?db1 (Planned ?ep ?q) (Done r1))"
    using change_reach.step [OF s2 change_step.finish [of 1 _ ?j ?ep ?q]] by (simp add: st_def)
  obtain r2 where "write_job ?i ?ep ?q ?db1 = (r2, resubscribed_db)"
    by (simp add: write_job_def patch_body_def update_columns_def update_endpoint_def check_row_def name_taken_def
        replace_subs_def scan_tx_def find_row_def types_of_def run_tx_def set_patched_def patched_row_def orelse_def
        update_where_def deleted_row_def delete_subs_def resubscribed_db_def defs)
  then have "change_reach (\<lambda>s. s) (st resubscribed_db (Done r2) (Done r1))"
    using change_reach.step [OF s3 change_step.finish [of 0 _ ?i ?ep ?q]] by (simp add: st_def)
  then show ?thesis unfolding st_def by blast
qed

theorem endpoint_store_consistent_witness:
  "fst ` set (edb_subs resubscribed_db) \<subseteq> en_id ` set (edb_endpoints resubscribed_db)
   \<and> edb_subs resubscribed_db = [(7, ''t'')] \<and> map en_status (edb_endpoints resubscribed_db) = [DELETED]
   \<and> types_of 7 example_endpoint_db \<noteq> []"
proof -
  obtain js where r: "change_reach (\<lambda>s. s) \<lparr>hr_db = resubscribed_db, hr_jobs = js\<rparr>" using resubscribed_reach by blast
  have "example_endpoint_row \<in> set (edb_endpoints example_endpoint_db)" "en_status example_endpoint_row = ACTIVE"
    "en_id example_endpoint_row = 7" by (simp_all add: example_endpoint_db_def example_endpoint_row_def)
  then have "types_of 7 example_endpoint_db \<noteq> []"
    using endpoint_store_consistent [of "\<lambda>s. s" "\<lparr>hr_db = resubscribed_db, hr_jobs = js\<rparr>" example_endpoint_db]
      example_endpoint_reach by force
  moreover have "fst ` set (edb_subs resubscribed_db) \<subseteq> en_id ` set (edb_endpoints resubscribed_db)"
    using endpoint_store_consistent [of "\<lambda>s. s" "\<lparr>hr_db = resubscribed_db, hr_jobs = js\<rparr>" example_endpoint_db] r by simp
  ultimately show ?thesis by (simp add: resubscribed_db_def example_endpoint_db_def)
qed

theorem endpoint_changes_raise_version_witness:
  "(\<exists>r'\<in>set (edb_endpoints (snd (service_delete no_faults example_endpoint_env 3 7 example_endpoint_db))).
     en_id r' = 7 \<and> (en_version r' = 1 \<or> en_version r' = 2))
   \<and> (\<exists>js. \<exists>r'\<in>set (edb_endpoints (hr_db \<lparr>hr_db = resubscribed_db, hr_jobs = js @ [(delete_job, Arrived)]\<rparr>)).
        en_id r' = 7 \<and> en_status r' = DELETED)"
proof
  have "nstep (\<lambda>s. s) example_endpoint_db
      (snd (service_delete no_faults example_endpoint_env 3 7 example_endpoint_db))"
    by (rule nstep.delete) (simp add: example_endpoint_env_def)
  moreover have row: "example_endpoint_row \<in> set (edb_endpoints example_endpoint_db)" "en_id example_endpoint_row = 7"
      "en_version example_endpoint_row = 1"
    by (simp_all add: example_endpoint_db_def example_endpoint_row_def)
  ultimately obtain r' where "r' \<in> set (edb_endpoints (snd (service_delete no_faults example_endpoint_env 3 7 example_endpoint_db)))"
    "en_id r' = 7" "if en_version r' = 1 then True else en_version r' = 1 + 1"
    using endpoint_changes_raise_version [of "\<lambda>s. s" _ _ example_endpoint_row example_endpoint_db
        "snd (service_delete no_faults example_endpoint_env 3 7 example_endpoint_db)"] example_endpoint_reach by metis
  then show "\<exists>r'\<in>set (edb_endpoints (snd (service_delete no_faults example_endpoint_env 3 7 example_endpoint_db))).
     en_id r' = 7 \<and> (en_version r' = 1 \<or> en_version r' = 2)" by (intro bexI) (auto split: if_splits)
next
  obtain js where r: "change_reach (\<lambda>s. s) \<lparr>hr_db = resubscribed_db, hr_jobs = js\<rparr>" using resubscribed_reach by blast
  let ?s = "\<lparr>hr_db = resubscribed_db, hr_jobs = js\<rparr>" and ?t = "\<lparr>hr_db = resubscribed_db, hr_jobs = js @ [(delete_job, Arrived)]\<rparr>"
  have "nv_lower (hj_env delete_job) = (\<lambda>s. s)" by (simp add: delete_job_def patch_job_def example_endpoint_env_def)
  from change_step.arrive [of delete_job, OF this, of ?s] have "change_step (\<lambda>s. s) ?s ?t" by simp
  moreover obtain x where "x \<in> set (edb_endpoints (hr_db ?s))" "en_id x = 7" "en_status x = DELETED"
    by (simp add: resubscribed_db_def example_endpoint_row_def)
  ultimately have "\<exists>r'\<in>set (edb_endpoints (hr_db ?t)). en_id r' = 7 \<and> en_status r' = DELETED"
    using endpoint_changes_raise_version [of "\<lambda>s. s" ?s ?t x] r by metis
  then show "\<exists>js. \<exists>r'\<in>set (edb_endpoints (hr_db \<lparr>hr_db = resubscribed_db, hr_jobs = js @ [(delete_job, Arrived)]\<rparr>)).
        en_id r' = 7 \<and> en_status r' = DELETED" by blast
qed

end
