(* ===== verification/AuthRepo.thy ===== *)
theory AuthRepo
  imports Paging Sha256
begin

text \<open>
  auth-service/internal/model and internal/repository: the tables \<open>tenants\<close>, \<open>api_keys\<close> and
  \<open>auth_audit_log\<close> of migrations/001_init.sql and the operations on them. The
  identifiers that the database generates, \<open>now()\<close> and PostgreSQL's \<open>lower\<close> are arguments.
\<close>

section \<open>Data\<close>

datatype tenant_status = Tenant_Active | Tenant_Suspended | Tenant_Deleted

fun tenant_status_text :: "tenant_status \<Rightarrow> string" where
  "tenant_status_text Tenant_Active = ''ACTIVE''"
| "tenant_status_text Tenant_Suspended = ''SUSPENDED''"
| "tenant_status_text Tenant_Deleted = ''DELETED''"

record tenant =
  tn_id :: uuid
  tn_name :: string
  tn_status :: tenant_status
  tn_created_at :: time
  tn_updated_at :: time
  tn_deleted_at :: "time option"

datatype key_status = Key_Active | Key_Revoked

record api_key_row =
  ak_id :: uuid
  ak_tenant_id :: uuid
  ak_name :: string
  ak_prefix :: string
  ak_hash :: bytes
  ak_scopes :: "string list"
  ak_status :: key_status
  ak_created_at :: time
  ak_last_used_at :: "time option"
  ak_expires_at :: "time option"
  ak_revoked_at :: "time option"
  ak_created_by :: string

record api_key =
  key_id :: uuid
  key_tenant_id :: uuid
  key_name :: string
  key_prefix :: string
  key_scopes :: "string list"
  key_status :: key_status
  key_created_at :: time
  key_last_used_at :: "time option"
  key_expires_at :: "time option"

record audit_row =
  au_tenant_id :: uuid
  au_key_id :: "uuid option"
  au_action :: string
  au_actor :: string

record auth_db =
  adb_tenants :: "tenant list"
  adb_keys :: "api_key_row list"
  adb_audit :: "audit_row list"

record update_tenant_request =
  ut_name :: "string option"
  ut_status :: "string option"

record verify_response =
  vr_valid :: bool
  vr_tenant_id :: uuid
  vr_key_id :: uuid
  vr_scopes :: "string list"

definition invalid_response :: verify_response where
  "invalid_response = \<lparr>vr_valid = False, vr_tenant_id = uuid_nil, vr_key_id = uuid_nil, vr_scopes = []\<rparr>"

record auth_env =
  xe_new_id :: uuid
  xe_now :: time
  xe_lower :: "string \<Rightarrow> string"

section \<open>Tenants\<close>

definition tenant_name_ok :: "string \<Rightarrow> bool" where
  "tenant_name_ok name \<longleftrightarrow> name \<noteq> [] \<and> length name \<le> 255"

text \<open>The unique index on the lower-case names of the tenants that are not deleted.\<close>

definition tenant_name_taken :: "(string \<Rightarrow> string) \<Rightarrow> uuid \<Rightarrow> string \<Rightarrow> tenant list \<Rightarrow> bool" where
  "tenant_name_taken low i name ts \<longleftrightarrow>
     list_ex (\<lambda>t. tn_id t \<noteq> i \<and> tn_deleted_at t = None \<and> low (tn_name t) = low name) ts"

definition bad_text :: error where
  "bad_text = PgError ''22021'' ''invalid byte sequence for encoding UTF8''"

definition new_tenant :: "auth_env \<Rightarrow> string \<Rightarrow> tenant" where
  "new_tenant env name = \<lparr>tn_id = xe_new_id env, tn_name = name, tn_status = Tenant_Active,
     tn_created_at = xe_now env, tn_updated_at = xe_now env, tn_deleted_at = None\<rparr>"

definition insert_tenant :: "auth_env \<Rightarrow> string \<Rightarrow> auth_db \<Rightarrow> auth_db result" where
  "insert_tenant env name db =
     (if \<not> pg_text_ok name then Inl bad_text
      else if xe_new_id env \<in> tn_id ` set (adb_tenants db) then Inl (pg_unique ''tenants_pkey'')
      else if tenant_name_taken (xe_lower env) (xe_new_id env) name (adb_tenants db)
      then Inl (pg_unique ''tenants_name_active_uq'')
      else Inr (db\<lparr>adb_tenants := adb_tenants db @ [new_tenant env name]\<rparr>))"

definition create_tenant :: "error option \<Rightarrow> auth_env \<Rightarrow> string \<Rightarrow> auth_db \<Rightarrow> tenant result \<times> auth_db" where
  "create_tenant f env name db =
     (let name = trim_space name in
      if \<not> tenant_name_ok name then (Inl (Msg ''name must be 1-255 characters''), db)
      else case guard f (insert_tenant env name db) of
        Inl e \<Rightarrow>
          (Inl (if contains (to_lower (error_text e)) ''unique'' then Auth_ErrConflict
                else wrap ''create tenant: '' e), db)
      | Inr db' \<Rightarrow> (Inr (new_tenant env name), db'))"

definition get_tenant :: "error option \<Rightarrow> uuid \<Rightarrow> auth_db \<Rightarrow> tenant result" where
  "get_tenant f i db =
     (case guard f (case find_row tn_id i (adb_tenants db) of None \<Rightarrow> Inl NoRows | Some t \<Rightarrow> Inr t) of
        Inl e \<Rightarrow> Inl (if errors_is e NoRows then Auth_ErrNotFound else wrap ''get tenant: '' e)
      | Inr t \<Rightarrow> Inr t)"

datatype list_rows_call = LR_Query | LR_Scan uuid | LR_Rows

definition read_rows :: "list_rows_call faults \<Rightarrow> ('r \<Rightarrow> uuid) \<Rightarrow> 'r list \<Rightarrow> 'r list result" where
  "read_rows f row_id rs =
     (case scan_rows (\<lambda>r. f (LR_Scan (row_id r))) rs of
        Inl e \<Rightarrow> Inl e | Inr xs \<Rightarrow> guard (f LR_Rows) (Inr xs))"

definition list_tenants :: "list_rows_call faults \<Rightarrow> auth_db \<Rightarrow> tenant list result" where
  "list_tenants f db =
     guard (map_option (wrap ''list tenants: '') (f LR_Query))
       (read_rows f tn_id (rev (sort_key tn_created_at (adb_tenants db))))"

definition status_of_text :: "string \<Rightarrow> tenant_status" where
  "status_of_text s = (if s = tenant_status_text Tenant_Suspended then Tenant_Suspended else Tenant_Active)"

definition updated_tenant :: "time \<Rightarrow> string option \<Rightarrow> string option \<Rightarrow> tenant \<Rightarrow> tenant" where
  "updated_tenant now name status t =
     t\<lparr>tn_name := orelse name (tn_name t), tn_status := orelse (map_option status_of_text status) (tn_status t),
       tn_updated_at := now\<rparr>"

text \<open>The statement: \<open>NoRows\<close> if no tenant that is not deleted has the identifier.\<close>

definition update_tenant_row ::
    "auth_env \<Rightarrow> uuid \<Rightarrow> string option \<Rightarrow> string option \<Rightarrow> auth_db \<Rightarrow> (tenant \<times> auth_db) result" where
  "update_tenant_row env i name status db =
     (case List.find (\<lambda>t. tn_id t = i \<and> tn_status t \<noteq> Tenant_Deleted) (adb_tenants db) of
        None \<Rightarrow> Inl NoRows
      | Some t \<Rightarrow>
          (let t' = updated_tenant (xe_now env) name status t in
           if \<not> pg_text_ok (tn_name t') then Inl bad_text
           else if tn_deleted_at t' = None \<and> tenant_name_taken (xe_lower env) i (tn_name t') (adb_tenants db)
           then Inl (pg_unique ''tenants_name_active_uq'')
           else Inr (t', db\<lparr>adb_tenants := update_where (\<lambda>x. tn_id x = i) (\<lambda>_. t') (adb_tenants db)\<rparr>)))"

fun pg_code :: "error \<Rightarrow> string option" where
  "pg_code (PgError code m) = Some code"
| "pg_code (Wrap a e b) = pg_code e"
| "pg_code e = None"

definition update_tenant ::
    "error option \<Rightarrow> auth_env \<Rightarrow> uuid \<Rightarrow> update_tenant_request \<Rightarrow> auth_db \<Rightarrow> tenant result \<times> auth_db" where
  "update_tenant f env i req db =
     (let name = map_option trim_space (ut_name req) in
      if ut_name req = None \<and> ut_status req = None
      then (Inl (Msg ''at least one field must be provided''), db)
      else if \<not> (case name of None \<Rightarrow> True | Some n \<Rightarrow> tenant_name_ok n)
      then (Inl (Msg ''name must be 1-255 characters''), db)
      else if \<not> (case ut_status req of None \<Rightarrow> True | Some s \<Rightarrow> s = ''ACTIVE'' \<or> s = ''SUSPENDED'')
      then (Inl (Msg ''status must be ACTIVE or SUSPENDED''), db)
      else case guard f (update_tenant_row env i name (ut_status req) db) of
        Inl e \<Rightarrow>
          (Inl (if errors_is e NoRows then Auth_ErrNotFound
                else if pg_code e = Some ''23505'' then Auth_ErrConflict
                else wrap ''update tenant: '' e), db)
      | Inr (t, db') \<Rightarrow> (Inr t, db'))"

datatype delete_tenant_call = DT_Begin | DT_Update | DT_Select | DT_Keys | DT_Audit | DT_Commit

definition deleted_tenant :: "time \<Rightarrow> tenant \<Rightarrow> tenant" where
  "deleted_tenant now t =
     t\<lparr>tn_status := Tenant_Deleted, tn_deleted_at := Some (orelse (tn_deleted_at t) now), tn_updated_at := now\<rparr>"

definition delete_tenant_row :: "time \<Rightarrow> uuid \<Rightarrow> auth_db \<Rightarrow> (tenant \<times> auth_db) result" where
  "delete_tenant_row now i db =
     (case List.find (\<lambda>t. tn_id t = i \<and> tn_status t \<noteq> Tenant_Deleted) (adb_tenants db) of
        None \<Rightarrow> Inl NoRows
      | Some t \<Rightarrow>
          Inr (deleted_tenant now t, db\<lparr>adb_tenants :=
                update_where (\<lambda>x. tn_id x = i \<and> tn_status x \<noteq> Tenant_Deleted) (deleted_tenant now) (adb_tenants db)\<rparr>))"

text \<open>The row to return: the deleted one, or the one that was deleted before.\<close>

definition delete_or_select ::
    "delete_tenant_call faults \<Rightarrow> time \<Rightarrow> uuid \<Rightarrow> auth_db \<Rightarrow> (tenant \<times> auth_db) result" where
  "delete_or_select f now i db =
     (case guard (f DT_Update) (delete_tenant_row now i db) of
        Inr r \<Rightarrow> Inr r
      | Inl e \<Rightarrow>
          (if errors_is e NoRows
           then (case guard (f DT_Select)
                        (case find_row tn_id i (adb_tenants db) of None \<Rightarrow> Inl NoRows | Some t \<Rightarrow> Inr t) of
                   Inl e \<Rightarrow> Inl (if errors_is e NoRows then Auth_ErrNotFound else e)
                 | Inr t \<Rightarrow>
                     (if tn_status t \<noteq> Tenant_Deleted then Inl (Msg ''delete tenant: %!w(<nil>)'') else Inr (t, db)))
           else Inl (wrap ''delete tenant: '' e)))"

definition revoked_key :: "time \<Rightarrow> api_key_row \<Rightarrow> api_key_row" where
  "revoked_key now k = k\<lparr>ak_status := Key_Revoked, ak_revoked_at := Some (orelse (ak_revoked_at k) now)\<rparr>"

definition add_audit :: "audit_row \<Rightarrow> auth_db \<Rightarrow> auth_db" where
  "add_audit a db = db\<lparr>adb_audit := adb_audit db @ [a]\<rparr>"

definition delete_tenant ::
    "delete_tenant_call faults \<Rightarrow> auth_env \<Rightarrow> uuid \<Rightarrow> auth_db \<Rightarrow> tenant result \<times> auth_db" where
  "delete_tenant f env i db =
     run_tx (map_option (wrap ''begin delete tenant: '') (f DT_Begin))
       (map_option (wrap ''commit tenant deletion: '') (f DT_Commit))
       (\<lambda>db. case delete_or_select f (xe_now env) i db of
          Inl e \<Rightarrow> Inl e
        | Inr (t, db1) \<Rightarrow>
            guard (map_option (wrap ''revoke tenant keys: '') (f DT_Keys))
              (guard (map_option (wrap ''audit tenant deletion: '') (f DT_Audit))
                (Inr (t, add_audit \<lparr>au_tenant_id = i, au_key_id = None, au_action = ''tenant.deleted'',
                            au_actor = ''system''\<rparr>
                  (db1\<lparr>adb_keys := update_where (\<lambda>k. ak_tenant_id k = i \<and> ak_status k = Key_Active)
                        (revoked_key (xe_now env)) (adb_keys db1)\<rparr>))))) db"

section \<open>Keys\<close>

definition tenant_active :: "uuid \<Rightarrow> auth_db \<Rightarrow> bool" where
  "tenant_active i db \<longleftrightarrow> list_ex (\<lambda>t. tn_id t = i \<and> tn_status t = Tenant_Active) (adb_tenants db)"

datatype create_key_call = CK_Check | CK_Insert | CK_Audit

definition new_key_row ::
    "auth_env \<Rightarrow> uuid \<Rightarrow> string \<Rightarrow> string \<Rightarrow> string \<Rightarrow> string list \<Rightarrow> time option \<Rightarrow> string \<Rightarrow> api_key_row" where
  "new_key_row env tenant name secret prefix scopes expires actor =
     \<lparr>ak_id = xe_new_id env, ak_tenant_id = tenant, ak_name = name, ak_prefix = prefix,
      ak_hash = sha256 secret, ak_scopes = scopes, ak_status = Key_Active, ak_created_at = xe_now env,
      ak_last_used_at = None, ak_expires_at = map_option pg_time expires, ak_revoked_at = None,
      ak_created_by = actor\<rparr>"

text \<open>The row as the queries return it; \<open>CreateKey\<close> does not read the time of the last use.\<close>

definition api_key_of :: "api_key_row \<Rightarrow> api_key" where
  "api_key_of k = \<lparr>key_id = ak_id k, key_tenant_id = ak_tenant_id k, key_name = ak_name k,
     key_prefix = ak_prefix k, key_scopes = ak_scopes k, key_status = ak_status k,
     key_created_at = ak_created_at k, key_last_used_at = ak_last_used_at k, key_expires_at = ak_expires_at k\<rparr>"

definition insert_key :: "api_key_row \<Rightarrow> auth_db \<Rightarrow> auth_db result" where
  "insert_key k db =
     (if \<not> (pg_text_ok (ak_name k) \<and> pg_text_ok (ak_created_by k)) then Inl bad_text
      else if ak_id k \<in> ak_id ` set (adb_keys db) then Inl (pg_unique ''api_keys_pkey'')
      else if ak_prefix k \<in> ak_prefix ` set (adb_keys db) then Inl (pg_unique ''api_keys_key_prefix_key'')
      else if ak_tenant_id k \<notin> tn_id ` set (adb_tenants db) then Inl (pg_foreign_key ''api_keys_tenant_id_fkey'')
      else Inr (db\<lparr>adb_keys := adb_keys db @ [k]\<rparr>))"

definition audit_if :: "error option \<Rightarrow> audit_row \<Rightarrow> auth_db \<Rightarrow> auth_db" where
  "audit_if f a db = (if f = None \<and> pg_text_ok (au_actor a) then add_audit a db else db)"

definition create_key ::
    "create_key_call faults \<Rightarrow> auth_env \<Rightarrow> uuid \<Rightarrow> string \<Rightarrow> string \<Rightarrow> string \<Rightarrow> string list \<Rightarrow> time option
       \<Rightarrow> string \<Rightarrow> auth_db \<Rightarrow> api_key result \<times> auth_db" where
  "create_key f env tenant name secret prefix scopes expires actor db =
     (let name = trim_space name in
      if name = [] \<or> 120 < length name then (Inl (Msg ''key name must be 1-120 characters''), db)
      else case f CK_Check of
        Some e \<Rightarrow> (Inl (wrap ''check tenant: '' e), db)
      | None \<Rightarrow>
          (if \<not> tenant_active tenant db then (Inl Auth_ErrNotFound, db)
           else
             (let k = new_key_row env tenant name secret prefix scopes expires actor in
              case guard (f CK_Insert) (insert_key k db) of
                Inl e \<Rightarrow> (Inl (wrap ''create API key: '' e), db)
              | Inr db' \<Rightarrow>
                  (Inr (api_key_of k),
                   audit_if (f CK_Audit) \<lparr>au_tenant_id = tenant, au_key_id = Some (ak_id k),
                     au_action = ''api_key.created'', au_actor = actor\<rparr> db'))))"

definition list_keys :: "list_rows_call faults \<Rightarrow> uuid \<Rightarrow> auth_db \<Rightarrow> api_key list result" where
  "list_keys f tenant db =
     guard (f LR_Query)
       (read_rows f key_id
         (map api_key_of (rev (sort_key ak_created_at (filter (\<lambda>k. ak_tenant_id k = tenant) (adb_keys db))))))"

datatype revoke_call = RK_Update | RK_Audit

definition revoke_key ::
    "revoke_call faults \<Rightarrow> auth_env \<Rightarrow> uuid \<Rightarrow> uuid \<Rightarrow> string \<Rightarrow> auth_db \<Rightarrow> unit result \<times> auth_db" where
  "revoke_key f env tenant i actor db =
     (case f RK_Update of
        Some e \<Rightarrow> (Inl e, db)
      | None \<Rightarrow>
          (let match = (\<lambda>k. ak_tenant_id k = tenant \<and> ak_id k = i \<and> ak_status k = Key_Active) in
           if \<not> list_ex match (adb_keys db) then (Inl Auth_ErrNotFound, db)
           else (Inr (), audit_if (f RK_Audit) \<lparr>au_tenant_id = tenant, au_key_id = Some i,
                   au_action = ''api_key.revoked'', au_actor = actor\<rparr>
                 (db\<lparr>adb_keys := update_where match (revoked_key (xe_now env)) (adb_keys db)\<rparr>))))"

section \<open>Verification\<close>

definition key_prefix_text :: string where
  "key_prefix_text = ''hk_live_''"

definition live_key :: "time \<Rightarrow> auth_db \<Rightarrow> api_key_row \<Rightarrow> bool" where
  "live_key now db k \<longleftrightarrow>
     ak_status k = Key_Active \<and> tenant_active (ak_tenant_id k) db
     \<and> (case ak_expires_at k of None \<Rightarrow> True | Some t \<Rightarrow> now < t)"

datatype verify_call = VK_Query | VK_Touch

definition verify ::
    "verify_call faults \<Rightarrow> auth_env \<Rightarrow> string \<Rightarrow> auth_db \<Rightarrow> verify_response result \<times> auth_db" where
  "verify f env token db =
     (case split_once CHR ''.'' token of
        None \<Rightarrow> (Inr invalid_response, db)
      | Some (p0, p1) \<Rightarrow>
          (if \<not> has_prefix p0 key_prefix_text then (Inr invalid_response, db)
           else case (if f VK_Query = None \<and> \<not> pg_text_ok (trim_prefix p0 key_prefix_text)
                       then Some bad_text else f VK_Query) of
             Some e \<Rightarrow> (if errors_is e NoRows then (Inr invalid_response, db)
                         else (Inl (wrap ''verify key: '' e), db))
           | None \<Rightarrow>
               (case List.find (\<lambda>k. ak_prefix k = trim_prefix p0 key_prefix_text
                         \<and> ak_hash k = sha256 token \<and> live_key (xe_now env) db k) (adb_keys db) of
                  None \<Rightarrow> (Inr invalid_response, db)
                | Some k \<Rightarrow>
                    (Inr \<lparr>vr_valid = True, vr_tenant_id = ak_tenant_id k, vr_key_id = ak_id k,
                          vr_scopes = ak_scopes k\<rparr>,
                     if f VK_Touch = None
                     then db\<lparr>adb_keys := update_where (\<lambda>x. ak_id x = ak_id k)
                           (\<lambda>x. x\<lparr>ak_last_used_at := Some (xe_now env)\<rparr>) (adb_keys db)\<rparr>
                     else db))))"

end
