(* ===== verification/AuthService.thy ===== *)
theory AuthService
  imports AuthRepo
begin

text \<open>
  auth-service/internal/service/service.go: the checks of a new key, its secret, and the
  service as a system of steps together with the secrets it has handed out. The random bytes,
  the new UUID and the quoting of \<open>%q\<close> are arguments.
\<close>

section \<open>Operations\<close>

record create_key_request =
  rk_name :: string
  rk_scopes :: "string list"
  rk_expires_at :: "time option"

record create_tenant_request =
  rt_name :: string
  rt_key_name :: string

record created_key =
  ck_key :: api_key
  ck_secret :: string

record key_env =
  ke_clock :: time
  ke_random :: "bytes result"
  ke_uuid :: string
  ke_quote :: "string \<Rightarrow> string"

definition all_scopes :: "string list" where
  "all_scopes = [''events:write'', ''events:read'', ''endpoints:manage'', ''deliveries:read'', ''deliveries:replay'']"

fun check_scopes :: "(string \<Rightarrow> string) \<Rightarrow> string list \<Rightarrow> string list \<Rightarrow> unit result" where
  "check_scopes quote seen [] = Inr ()"
| "check_scopes quote seen (s # ss) =
     (if s \<notin> set all_scopes \<or> s \<in> set seen then Inl (Msg (''invalid or duplicate scope '' @ quote s))
      else check_scopes quote (s # seen) ss)"

definition key_secret :: "string \<Rightarrow> bytes \<Rightarrow> string" where
  "key_secret prefix random = key_prefix_text @ prefix @ ''.'' @ b64_encode random"

definition new_key ::
    "create_key_call faults \<Rightarrow> auth_env \<Rightarrow> key_env \<Rightarrow> uuid \<Rightarrow> create_key_request \<Rightarrow> string \<Rightarrow> auth_db
       \<Rightarrow> created_key result \<times> auth_db" where
  "new_key f env ke tenant req actor db =
     (let scopes = (if rk_scopes req = [] then all_scopes else rk_scopes req) in
      case check_scopes (ke_quote ke) [] scopes of
        Inl e \<Rightarrow> (Inl e, db)
      | Inr _ \<Rightarrow>
          (if \<not> (case rk_expires_at req of None \<Rightarrow> True | Some t \<Rightarrow> ke_clock ke < t)
           then (Inl (Msg ''expires_at must be in the future''), db)
           else case ke_random ke of
             Inl e \<Rightarrow> (Inl e, db)
           | Inr random \<Rightarrow>
               (case create_key f env tenant (rk_name req) (key_secret (ke_uuid ke) random) (ke_uuid ke) scopes
                       (rk_expires_at req) actor db of
                  (Inl e, db') \<Rightarrow> (Inl e, db')
                | (Inr k, db') \<Rightarrow> (Inr \<lparr>ck_key = k, ck_secret = key_secret (ke_uuid ke) random\<rparr>, db'))))"

text \<open>\<open>CreateTenant\<close>: the new tenant, and the new key or the error of creating it.\<close>

definition service_create_tenant ::
    "error option \<Rightarrow> create_key_call faults \<Rightarrow> auth_env \<Rightarrow> auth_env \<Rightarrow> key_env \<Rightarrow> create_tenant_request \<Rightarrow> string
       \<Rightarrow> auth_db \<Rightarrow> (tenant \<times> created_key) result \<times> auth_db" where
  "service_create_tenant f g env kenv ke req actor db =
     (case create_tenant f env (rt_name req) db of
        (Inl e, db1) \<Rightarrow> (Inl e, db1)
      | (Inr t, db1) \<Rightarrow>
          (let name = (if trim_space (rt_key_name req) = [] then ''initial'' else trim_space (rt_key_name req)) in
           case new_key g kenv ke (tn_id t) \<lparr>rk_name = name, rk_scopes = [], rk_expires_at = None\<rparr> actor db1 of
             (Inl e, db2) \<Rightarrow> (Inl e, db2)
           | (Inr k, db2) \<Rightarrow> (Inr (t, k), db2)))"

text \<open>The other methods of the service hand their arguments to the repository or to \<open>newKey\<close>.\<close>

definition service_get_tenant :: "error option \<Rightarrow> uuid \<Rightarrow> auth_db \<Rightarrow> tenant result" where
  [simp]: "service_get_tenant = get_tenant"

definition service_list_tenants :: "list_rows_call faults \<Rightarrow> auth_db \<Rightarrow> tenant list result" where
  [simp]: "service_list_tenants = list_tenants"

definition service_update_tenant ::
    "error option \<Rightarrow> auth_env \<Rightarrow> uuid \<Rightarrow> update_tenant_request \<Rightarrow> auth_db \<Rightarrow> tenant result \<times> auth_db" where
  [simp]: "service_update_tenant = update_tenant"

definition service_delete_tenant ::
    "delete_tenant_call faults \<Rightarrow> auth_env \<Rightarrow> uuid \<Rightarrow> auth_db \<Rightarrow> tenant result \<times> auth_db" where
  [simp]: "service_delete_tenant = delete_tenant"

definition service_create_key ::
    "create_key_call faults \<Rightarrow> auth_env \<Rightarrow> key_env \<Rightarrow> uuid \<Rightarrow> create_key_request \<Rightarrow> string \<Rightarrow> auth_db
       \<Rightarrow> created_key result \<times> auth_db" where
  [simp]: "service_create_key = new_key"

definition service_list_keys :: "list_rows_call faults \<Rightarrow> uuid \<Rightarrow> auth_db \<Rightarrow> api_key list result" where
  [simp]: "service_list_keys = list_keys"

definition service_revoke_key ::
    "revoke_call faults \<Rightarrow> auth_env \<Rightarrow> uuid \<Rightarrow> uuid \<Rightarrow> string \<Rightarrow> auth_db \<Rightarrow> unit result \<times> auth_db" where
  [simp]: "service_revoke_key = revoke_key"

definition service_verify ::
    "verify_call faults \<Rightarrow> auth_env \<Rightarrow> string \<Rightarrow> auth_db \<Rightarrow> verify_response result \<times> auth_db" where
  [simp]: "service_verify = verify"

section \<open>Steps and reachable states\<close>

text \<open>The secrets handed out so far, each with the key it belongs to.\<close>

record auth_sys =
  as_db :: auth_db
  as_issued :: "(string \<times> uuid) list"

definition init_auth :: auth_sys where
  "init_auth = \<lparr>as_db = \<lparr>adb_tenants = [], adb_keys = [], adb_audit = []\<rparr>, as_issued = []\<rparr>"

definition issue :: "created_key result \<Rightarrow> (string \<times> uuid) list \<Rightarrow> (string \<times> uuid) list" where
  "issue r is = (case r of Inl e \<Rightarrow> is | Inr k \<Rightarrow> is @ [(ck_secret k, key_id (ck_key k))])"

text \<open>
  Every call sees the same hash function and the same \<open>lower\<close>; a UUID has no full stop in its
  text.
\<close>

definition env_ok :: "(string \<Rightarrow> string) \<Rightarrow> auth_env \<Rightarrow> bool" where
  "env_ok low env \<longleftrightarrow> xe_lower env = low"

definition plain_uuid :: "key_env \<Rightarrow> bool" where
  "plain_uuid ke \<longleftrightarrow> CHR ''.'' \<notin> set (ke_uuid ke) \<and> pg_text_ok (ke_uuid ke)"

inductive astep :: "(string \<Rightarrow> string) \<Rightarrow> auth_sys \<Rightarrow> auth_sys \<Rightarrow> bool" for low where
  create_tenant: "env_ok low env \<Longrightarrow> env_ok low kenv \<Longrightarrow> plain_uuid ke \<Longrightarrow>
    service_create_tenant f g env kenv ke req actor (as_db s) = (r, db') \<Longrightarrow>
    astep low s \<lparr>as_db = db', as_issued = issue (map_sum id snd r) (as_issued s)\<rparr>"
| update_tenant: "env_ok low env \<Longrightarrow> update_tenant f1 env i req (as_db s) = (r, db') \<Longrightarrow>
    astep low s (s\<lparr>as_db := db'\<rparr>)"
| delete_tenant: "env_ok low env \<Longrightarrow> delete_tenant f2 env i (as_db s) = (r, db') \<Longrightarrow>
    astep low s (s\<lparr>as_db := db'\<rparr>)"
| create_key: "env_ok low env \<Longrightarrow> plain_uuid ke \<Longrightarrow> new_key g env ke i kreq actor (as_db s) = (r, db') \<Longrightarrow>
    astep low s \<lparr>as_db = db', as_issued = issue r (as_issued s)\<rparr>"
| revoke_key: "env_ok low env \<Longrightarrow> revoke_key f3 env i j actor (as_db s) = (r, db') \<Longrightarrow>
    astep low s (s\<lparr>as_db := db'\<rparr>)"
| verify: "env_ok low env \<Longrightarrow> verify f4 env token (as_db s) = (r, db') \<Longrightarrow>
    astep low s (s\<lparr>as_db := db'\<rparr>)"

inductive areach :: "(string \<Rightarrow> string) \<Rightarrow> auth_sys \<Rightarrow> bool" for low where
  init: "areach low init_auth"
| step: "areach low s \<Longrightarrow> astep low s t \<Longrightarrow> areach low t"

section \<open>The invariant\<close>

definition tenant_ok :: "tenant \<Rightarrow> bool" where
  "tenant_ok t \<longleftrightarrow> tenant_name_ok (tn_name t) \<and> (tn_status t = Tenant_Deleted \<longleftrightarrow> tn_deleted_at t \<noteq> None)"

definition tenant_names_ok :: "(string \<Rightarrow> string) \<Rightarrow> tenant list \<Rightarrow> bool" where
  "tenant_names_ok low ts \<longleftrightarrow>
     (\<forall>t\<in>set ts. \<forall>u\<in>set ts. tn_deleted_at t = None \<longrightarrow> tn_deleted_at u = None \<longrightarrow>
        low (tn_name t) = low (tn_name u) \<longrightarrow> tn_id t = tn_id u)"

definition key_ok :: "(string \<times> uuid) list \<Rightarrow> tenant list \<Rightarrow> api_key_row \<Rightarrow> bool" where
  "key_ok is ts k \<longleftrightarrow>
     (\<exists>random. (key_secret (ak_prefix k) random, ak_id k) \<in> set is \<and> ak_hash k = sha256 (key_secret (ak_prefix k) random))
     \<and> CHR ''.'' \<notin> set (ak_prefix k) \<and> pg_text_ok (ak_prefix k)
     \<and> ak_scopes k \<noteq> [] \<and> distinct (ak_scopes k) \<and> set (ak_scopes k) \<subseteq> set all_scopes
     \<and> (ak_status k = Key_Revoked \<longleftrightarrow> ak_revoked_at k \<noteq> None)
     \<and> (\<exists>t\<in>set ts. tn_id t = ak_tenant_id k \<and> (tn_status t = Tenant_Deleted \<longrightarrow> ak_status k = Key_Revoked))"

definition auth_inv :: "(string \<Rightarrow> string) \<Rightarrow> auth_sys \<Rightarrow> bool" where
  "auth_inv low s \<longleftrightarrow>
     distinct (map tn_id (adb_tenants (as_db s)))
     \<and> list_all tenant_ok (adb_tenants (as_db s))
     \<and> tenant_names_ok low (adb_tenants (as_db s))
     \<and> distinct (map ak_id (adb_keys (as_db s)))
     \<and> distinct (map ak_prefix (adb_keys (as_db s)))
     \<and> list_all (key_ok (as_issued s) (adb_tenants (as_db s))) (adb_keys (as_db s))
     \<and> map snd (as_issued s) = map ak_id (adb_keys (as_db s))"

lemma auth_inv_init: "auth_inv low init_auth"
  by (simp add: auth_inv_def init_auth_def tenant_names_ok_def)


section \<open>Every operation keeps the invariant\<close>

lemma tenant_names_insert:
  assumes "tenant_names_ok low ts" and "set ts' \<subseteq> insert t (set ts)"
    and "tn_deleted_at t = None \<Longrightarrow> \<not> tenant_name_taken low (tn_id t) (tn_name t) ts"
  shows "tenant_names_ok low ts'"
proof -
  have new: "tn_id t = tn_id u"
    if "u \<in> set ts" "tn_deleted_at t = None" "tn_deleted_at u = None" "low (tn_name t) = low (tn_name u)" for u
    using assms(3) that unfolding tenant_name_taken_def list_ex_iff by metis
  have old: "tn_id a = tn_id b"
    if "a \<in> set ts" "b \<in> set ts" "tn_deleted_at a = None" "tn_deleted_at b = None" "low (tn_name a) = low (tn_name b)"
    for a b using assms(1) that unfolding tenant_names_ok_def by blast
  show ?thesis
    unfolding tenant_names_ok_def
  proof (intro ballI impI)
    fix a b
    assume ab: "a \<in> set ts'" "b \<in> set ts'" "tn_deleted_at a = None" "tn_deleted_at b = None"
      "low (tn_name a) = low (tn_name b)"
    then consider "a = t" "b = t" | "a = t" "b \<in> set ts" | "a \<in> set ts" "b = t" | "a \<in> set ts" "b \<in> set ts"
      using assms(2) by blast
    then show "tn_id a = tn_id b"
    proof cases
      case 2
      then show ?thesis using new [of b] ab by simp
    next
      case 3
      then show ?thesis using new [of a] ab by simp
    next
      case 4
      then show ?thesis using old ab by blast
    qed simp
  qed
qed

lemma key_ok_mono:
  assumes "key_ok is ts k" and "set is \<subseteq> set is'"
    and "\<And>t. t \<in> set ts \<Longrightarrow> \<exists>u\<in>set ts'. tn_id u = tn_id t \<and> (tn_status u = Tenant_Deleted \<longrightarrow> tn_status t = Tenant_Deleted)"
  shows "key_ok is' ts' k"
proof -
  from assms(1) obtain t where "t \<in> set ts" "tn_id t = ak_tenant_id k"
    "tn_status t = Tenant_Deleted \<longrightarrow> ak_status k = Key_Revoked" by (auto simp: key_ok_def)
  then have "\<exists>u\<in>set ts'. tn_id u = ak_tenant_id k \<and> (tn_status u = Tenant_Deleted \<longrightarrow> ak_status k = Key_Revoked)"
    using assms(3) by metis
  then show ?thesis using assms(1,2) unfolding key_ok_def by blast
qed

lemma create_tenant_cases:
  assumes "create_tenant f env name db = (r, db')"
  obtains e where "r = Inl e" "db' = db"
  | "r = Inr (new_tenant env (trim_space name))" "insert_tenant env (trim_space name) db = Inr db'"
    "tenant_name_ok (trim_space name)"
proof (cases "tenant_name_ok (trim_space name)")
  case False
  then show ?thesis using assms that(1) unfolding create_tenant_def Let_def by auto
next
  case True
  show ?thesis
  proof (cases "guard f (insert_tenant env (trim_space name) db)")
    case (Inl e)
    then show ?thesis using assms True that(1) unfolding create_tenant_def Let_def by auto
  next
    case (Inr db1)
    then show ?thesis using assms True that(2) unfolding create_tenant_def Let_def by (simp add: guard_Inr)
  qed
qed

lemma create_tenant_inv:
  assumes "auth_inv low \<lparr>as_db = db, as_issued = is\<rparr>" and "env_ok low env"
    and "create_tenant f env name db = (r, db')"
  shows "auth_inv low \<lparr>as_db = db', as_issued = is\<rparr>"
  using assms(3)
proof (cases rule: create_tenant_cases)
  case (1 e)
  then show ?thesis using assms(1) by simp
next
  case 2
  let ?t = "new_tenant env (trim_space name)"
  from 2 have db': "db' = db\<lparr>adb_tenants := adb_tenants db @ [?t]\<rparr>"
    and new: "tn_id ?t \<notin> tn_id ` set (adb_tenants db)" "tenant_name_ok (trim_space name)"
    and taken: "\<not> tenant_name_taken (xe_lower env) (tn_id ?t) (tn_name ?t) (adb_tenants db)"
    by (simp_all add: insert_tenant_def new_tenant_def split: if_splits)
  have "tenant_names_ok low (adb_tenants db @ [?t])"
    by (rule tenant_names_insert [of low "adb_tenants db" _ ?t])
      (use assms(1,2) taken in \<open>auto simp: auth_inv_def env_ok_def\<close>)
  moreover have "key_ok is (adb_tenants db @ [?t]) k" if "k \<in> set (adb_keys db)" for k
    by (rule key_ok_mono [of "is" "adb_tenants db"])
      (use assms(1) that in \<open>auto simp: auth_inv_def list_all_iff\<close>)
  moreover have "tenant_ok ?t" using new(2) by (simp add: tenant_ok_def new_tenant_def)
  ultimately show ?thesis using assms(1) new(1) by (simp add: auth_inv_def db' list_all_iff)
qed

text \<open>Replacing a tenant that is not deleted.\<close>

lemma replace_tenant_inv:
  assumes "auth_inv low \<lparr>as_db = db, as_issued = is\<rparr>"
    and "t \<in> set (adb_tenants db)" "tn_id t' = tn_id t" "tenant_ok t'"
    and "tn_deleted_at t' = None \<Longrightarrow> \<not> tenant_name_taken low (tn_id t) (tn_name t') (adb_tenants db)"
    and "ts' = update_where (\<lambda>x. tn_id x = tn_id t) (\<lambda>_. t') (adb_tenants db)"
    and "ks' = update_where P g (adb_keys db)"
    and "\<And>k. k \<in> set (adb_keys db) \<Longrightarrow> key_ok is ts' (if P k then g k else k)"
    and "\<And>k. ak_id (g k) = ak_id k \<and> ak_prefix (g k) = ak_prefix k"
  shows "auth_inv low \<lparr>as_db = db\<lparr>adb_tenants := ts', adb_keys := ks'\<rparr>, as_issued = is\<rparr>"
proof -
  have ids: "map tn_id ts' = map tn_id (adb_tenants db)"
    using assms(3) by (auto simp: assms(6) update_where_def)
  have sub: "set ts' \<subseteq> insert t' (set (adb_tenants db))" by (auto simp: assms(6) set_update_where)
  have "tenant_names_ok low ts'"
    by (rule tenant_names_insert [of low "adb_tenants db" _ t'])
      (use assms(1,3,5) sub in \<open>simp_all add: auth_inv_def\<close>)
  moreover have "list_all tenant_ok ts'" using assms(1,4) sub by (auto simp: auth_inv_def list_all_iff)
  moreover have "map ak_id ks' = map ak_id (adb_keys db)" "map ak_prefix ks' = map ak_prefix (adb_keys db)"
    using assms(9) by (simp_all add: assms(7) map_update_where)
  moreover have "list_all (key_ok is ts') ks'"
    using assms(8) unfolding assms(7) set_update_where list_all_iff by blast
  ultimately show ?thesis using assms(1) ids by (simp add: auth_inv_def)
qed

lemma find_undeleted:
  assumes "List.find (\<lambda>t. tn_id t = i \<and> tn_status t \<noteq> Tenant_Deleted) ts = Some t"
  shows "t \<in> set ts" "tn_id t = i" "tn_status t \<noteq> Tenant_Deleted"
  using assms by (auto simp: find_Some_iff)

lemma status_of_text_live: "status_of_text s \<noteq> Tenant_Deleted"
  by (simp add: status_of_text_def)

lemma update_tenant_cases:
  assumes "update_tenant f env i req db = (r, db')"
  obtains e where "r = Inl e" "db' = db"
  | t where "r = Inr t" "update_tenant_row env i (map_option trim_space (ut_name req)) (ut_status req) db = Inr (t, db')"
    "case map_option trim_space (ut_name req) of None \<Rightarrow> True | Some n \<Rightarrow> tenant_name_ok n"
proof (cases "guard f (update_tenant_row env i (map_option trim_space (ut_name req)) (ut_status req) db)")
  case (Inl e)
  then show ?thesis using assms that(1) unfolding update_tenant_def Let_def
    by (auto split: if_splits)
next
  case (Inr x)
  then show ?thesis using assms that unfolding update_tenant_def Let_def
    by (cases x) (auto simp: guard_Inr split: if_splits)
qed

lemma update_tenant_inv:
  assumes "auth_inv low \<lparr>as_db = db, as_issued = is\<rparr>" and "env_ok low env"
    and "update_tenant f env i req db = (r, db')"
  shows "auth_inv low \<lparr>as_db = db', as_issued = is\<rparr>"
  using assms(3)
proof (cases rule: update_tenant_cases)
  case (1 e)
  then show ?thesis using assms(1) by simp
next
  case (2 x)
  define name where "name = map_option trim_space (ut_name req)"
  from 2 have ok: "case name of None \<Rightarrow> True | Some n \<Rightarrow> tenant_name_ok n"
    and up: "update_tenant_row env i name (ut_status req) db = Inr (x, db')"
    by (simp_all only: name_def)
  from up obtain t where find: "List.find (\<lambda>t. tn_id t = i \<and> tn_status t \<noteq> Tenant_Deleted) (adb_tenants db) = Some t"
    and x: "x = updated_tenant (xe_now env) name (ut_status req) t"
    and free: "tn_deleted_at x = None \<Longrightarrow> \<not> tenant_name_taken (xe_lower env) i (tn_name x) (adb_tenants db)"
    and db': "db' = db\<lparr>adb_tenants := update_where (\<lambda>y. tn_id y = i) (\<lambda>_. x) (adb_tenants db)\<rparr>"
    by (auto simp: update_tenant_row_def Let_def split: option.splits if_splits)
  note t = find_undeleted [OF find]
  have tok: "tenant_ok t" using assms(1) t(1) by (simp add: auth_inv_def list_all_iff)
  have live: "tn_status x \<noteq> Tenant_Deleted"
    using t(3) status_of_text_live by (simp add: x updated_tenant_def orelse_def split: option.split)
  have "tn_deleted_at x = None" using tok t(3) by (simp add: x updated_tenant_def tenant_ok_def)
  then have xok: "tenant_ok x"
    using live tok ok by (auto simp: tenant_ok_def x updated_tenant_def orelse_def split: option.splits)
  let ?ts = "update_where (\<lambda>y. tn_id y = i) (\<lambda>_. x) (adb_tenants db)"
  have xi: "tn_id x = tn_id t" by (simp add: x updated_tenant_def)
  have mono: "\<exists>v\<in>set ?ts. tn_id v = tn_id u \<and> (tn_status v = Tenant_Deleted \<longrightarrow> tn_status u = Tenant_Deleted)"
    if "u \<in> set (adb_tenants db)" for u
    using that live xi t(2) by (cases "tn_id u = i") (auto simp: set_update_where)
  have "auth_inv low \<lparr>as_db = db\<lparr>adb_tenants := ?ts, adb_keys := update_where (\<lambda>_. False) (\<lambda>k. k) (adb_keys db)\<rparr>,
      as_issued = is\<rparr>"
  proof (rule replace_tenant_inv [OF assms(1) t(1) xi xok])
    show "tn_deleted_at x = None \<Longrightarrow> \<not> tenant_name_taken low (tn_id t) (tn_name x) (adb_tenants db)"
      using free assms(2) t(2) by (simp add: env_ok_def)
    show "?ts = update_where (\<lambda>y. tn_id y = tn_id t) (\<lambda>_. x) (adb_tenants db)" by (simp add: t(2))
    show "key_ok is ?ts (if False then k else k)" if "k \<in> set (adb_keys db)" for k
      unfolding if_False by (rule key_ok_mono [OF _ subset_refl mono])
        (use assms(1) that in \<open>simp_all add: auth_inv_def list_all_iff\<close>)
  qed simp_all
  then show ?thesis by (simp add: db' update_where_def)
qed


text \<open>Changes of keys that keep what identifies them.\<close>

lemma change_keys_inv:
  assumes "auth_inv low \<lparr>as_db = db, as_issued = is\<rparr>"
    and "adb_keys db' = update_where P g (adb_keys db)" and "adb_tenants db' = adb_tenants db"
    and "\<And>k. k \<in> set (adb_keys db) \<Longrightarrow> P k \<Longrightarrow> key_ok is (adb_tenants db) k \<Longrightarrow> key_ok is (adb_tenants db) (g k)"
    and "\<And>k. ak_id (g k) = ak_id k \<and> ak_prefix (g k) = ak_prefix k"
  shows "auth_inv low \<lparr>as_db = db', as_issued = is\<rparr>"
proof -
  have "map ak_id (adb_keys db') = map ak_id (adb_keys db)" "map ak_prefix (adb_keys db') = map ak_prefix (adb_keys db)"
    using assms(5) by (simp_all add: assms(2) map_update_where)
  moreover have "key_ok is (adb_tenants db) k" if "k \<in> set (adb_keys db)" for k
    using assms(1) that by (simp add: auth_inv_def list_all_iff)
  then have "list_all (key_ok is (adb_tenants db)) (adb_keys db')"
    using assms(4) by (auto simp: assms(2) set_update_where list_all_iff)
  ultimately show ?thesis using assms(1,3) by (simp add: auth_inv_def)
qed

lemma key_ok_revoked: "key_ok is ts k \<Longrightarrow> key_ok is ts (revoked_key now k)"
  by (auto simp: key_ok_def revoked_key_def)

lemma revoked_key_simps [simp]:
  "ak_id (revoked_key now k) = ak_id k" "ak_prefix (revoked_key now k) = ak_prefix k"
  "ak_tenant_id (revoked_key now k) = ak_tenant_id k" "ak_status (revoked_key now k) = Key_Revoked"
  by (simp_all add: revoked_key_def)

lemma add_audit_simps [simp]:
  "adb_tenants (add_audit a db) = adb_tenants db" "adb_keys (add_audit a db) = adb_keys db"
  "adb_tenants (audit_if f a db) = adb_tenants db" "adb_keys (audit_if f a db) = adb_keys db"
  by (simp_all add: add_audit_def audit_if_def)

text \<open>What deleting a tenant leaves: the tenant is deleted, all its keys are revoked.\<close>

lemma delete_tenant_Inr:
  assumes "delete_tenant f env i db = (Inr t, db')" and "distinct (map tn_id (adb_tenants db))"
  shows "adb_tenants db' = update_where (\<lambda>x. tn_id x = i \<and> tn_status x \<noteq> Tenant_Deleted)
      (deleted_tenant (xe_now env)) (adb_tenants db)"
    and "adb_keys db' = update_where (\<lambda>k. ak_tenant_id k = i \<and> ak_status k = Key_Active)
      (revoked_key (xe_now env)) (adb_keys db)"
    and "\<exists>x\<in>set (adb_tenants db). tn_id x = i"
proof -
  from assms obtain db1 where del: "delete_or_select f (xe_now env) i db = Inr (t, db1)"
    and db': "db' = add_audit \<lparr>au_tenant_id = i, au_key_id = None, au_action = ''tenant.deleted'',
                            au_actor = ''system''\<rparr>
                  (db1\<lparr>adb_keys := update_where (\<lambda>k. ak_tenant_id k = i \<and> ak_status k = Key_Active)
                        (revoked_key (xe_now env)) (adb_keys db1)\<rparr>)"
    by (auto simp: delete_tenant_def run_tx_commit guard_Inr split: sum.splits)
  let ?up = "update_where (\<lambda>x. tn_id x = i \<and> tn_status x \<noteq> Tenant_Deleted) (deleted_tenant (xe_now env)) (adb_tenants db)"
  have "adb_tenants db1 = ?up \<and> adb_keys db1 = adb_keys db \<and> (\<exists>x\<in>set (adb_tenants db). tn_id x = i)"
  proof (cases "List.find (\<lambda>t. tn_id t = i \<and> tn_status t \<noteq> Tenant_Deleted) (adb_tenants db)")
    case None
    then have "?up = adb_tenants db" by (intro update_where_none) (auto simp: find_None_iff)
    moreover have "db1 = db \<and> (\<exists>x\<in>set (adb_tenants db). tn_id x = i)"
      using del None by (auto simp: delete_or_select_def delete_tenant_row_def guard_def dest: find_row_SomeD
          split: option.splits if_splits)
    ultimately show ?thesis by simp
  next
    case (Some x)
    note x = find_undeleted [OF Some]
    have "y = x" if "find_row tn_id (tn_id x) (adb_tenants db) = Some y" for y
      using find_row_SomeD [OF that] distinct_keys_eq [OF assms(2) _ x(1)] by simp
    then show ?thesis using del Some x
      by (auto simp: delete_or_select_def delete_tenant_row_def guard_def dest: find_row_SomeD
          split: option.splits if_splits)
  qed
  then show "adb_tenants db' = ?up" "\<exists>x\<in>set (adb_tenants db). tn_id x = i"
    "adb_keys db' = update_where (\<lambda>k. ak_tenant_id k = i \<and> ak_status k = Key_Active)
      (revoked_key (xe_now env)) (adb_keys db)"
    by (simp_all add: db')
qed


lemma delete_tenant_Inl: "delete_tenant f env i db = (Inl e, db') \<Longrightarrow> db' = db"
  unfolding delete_tenant_def by (drule run_tx_atomic)

lemma deleted_tenant_simps [simp]:
  "tn_id (deleted_tenant now t) = tn_id t" "tn_name (deleted_tenant now t) = tn_name t"
  "tn_status (deleted_tenant now t) = Tenant_Deleted"
  "tn_deleted_at (deleted_tenant now t) = Some (orelse (tn_deleted_at t) now)"
  by (simp_all add: deleted_tenant_def)

lemma delete_tenant_inv:
  assumes "auth_inv low \<lparr>as_db = db, as_issued = is\<rparr>"
    and "delete_tenant f env i db = (r, db')"
  shows "auth_inv low \<lparr>as_db = db', as_issued = is\<rparr>"
proof (cases r)
  case (Inl e)
  then show ?thesis using assms delete_tenant_Inl by blast
next
  case (Inr t)
  have d: "distinct (map tn_id (adb_tenants db))" using assms(1) by (simp add: auth_inv_def)
  note del = delete_tenant_Inr [OF assms(2) [unfolded Inr] d]
  let ?ts = "adb_tenants db'" and ?g = "deleted_tenant (xe_now env)"
  have ids: "map tn_id ?ts = map tn_id (adb_tenants db)" by (simp add: del(1) map_update_where)
  have ok: "list_all tenant_ok ?ts"
    using assms(1) by (auto simp: del(1) set_update_where auth_inv_def list_all_iff tenant_ok_def)
  have live: "u \<in> set (adb_tenants db)" if "u \<in> set ?ts" "tn_deleted_at u = None" for u
    using that by (auto simp: del(1) set_update_where split: if_splits)
  have names: "tenant_names_ok low ?ts"
    using assms(1) live unfolding tenant_names_ok_def auth_inv_def by (metis auth_sys.select_convs(1))
  have kids: "map ak_id (adb_keys db') = map ak_id (adb_keys db)"
    "map ak_prefix (adb_keys db') = map ak_prefix (adb_keys db)"
    by (simp_all add: del(2) map_update_where)
  have "key_ok is ?ts k'" if k': "k' \<in> set (adb_keys db')" for k'
  proof -
    from k' obtain k where k: "k \<in> set (adb_keys db)"
      and k'_def: "k' = (if ak_tenant_id k = i \<and> ak_status k = Key_Active then revoked_key (xe_now env) k else k)"
      by (auto simp: del(2) set_update_where)
    have kok: "key_ok is (adb_tenants db) k'"
      using assms(1) k key_ok_revoked by (simp add: k'_def auth_inv_def list_all_iff)
    from kok obtain u where u: "u \<in> set (adb_tenants db)" "tn_id u = ak_tenant_id k'"
      "tn_status u = Tenant_Deleted \<longrightarrow> ak_status k' = Key_Revoked" by (auto simp: key_ok_def)
    let ?u = "if tn_id u = i \<and> tn_status u \<noteq> Tenant_Deleted then ?g u else u"
    have "?u \<in> set ?ts" using u(1) by (auto simp: del(1) set_update_where)
    moreover have "tn_id ?u = ak_tenant_id k'" using u(2) by simp
    moreover have "tn_status ?u = Tenant_Deleted \<longrightarrow> ak_status k' = Key_Revoked"
      using u k'_def by (cases "ak_status k") (auto split: if_splits)
    ultimately show ?thesis using kok unfolding key_ok_def by blast
  qed
  then show ?thesis using assms(1) ids ok names kids by (simp add: auth_inv_def list_all_iff)
qed

lemma revoke_key_inv:
  assumes "auth_inv low \<lparr>as_db = db, as_issued = is\<rparr>"
    and "revoke_key f env tenant i actor db = (r, db')"
  shows "auth_inv low \<lparr>as_db = db', as_issued = is\<rparr>"
proof (cases "db' = db")
  case False
  then have "adb_keys db' = update_where (\<lambda>k. ak_tenant_id k = tenant \<and> ak_id k = i \<and> ak_status k = Key_Active)
        (revoked_key (xe_now env)) (adb_keys db)" "adb_tenants db' = adb_tenants db"
    using assms(2) by (auto simp: revoke_key_def Let_def split: option.splits if_splits)
  then show ?thesis by (rule change_keys_inv [OF assms(1)]) (simp_all add: key_ok_revoked)
qed (use assms(1) in simp)

lemma key_ok_used: "key_ok is ts (k\<lparr>ak_last_used_at := x\<rparr>) = key_ok is ts k"
  by (simp add: key_ok_def)

lemma verify_inv:
  assumes "auth_inv low \<lparr>as_db = db, as_issued = is\<rparr>" and "verify f env token db = (r, db')"
  shows "auth_inv low \<lparr>as_db = db', as_issued = is\<rparr>"
proof (cases "db' = db")
  case False
  then obtain j where "adb_keys db' = update_where (\<lambda>x. ak_id x = j)
      (\<lambda>x. x\<lparr>ak_last_used_at := Some (xe_now env)\<rparr>) (adb_keys db)" "adb_tenants db' = adb_tenants db"
    using assms(2) by (auto simp: verify_def split: option.splits if_splits prod.splits)
  then show ?thesis by (rule change_keys_inv [OF assms(1)]) (simp_all add: key_ok_used)
qed (use assms(1) in simp)

section \<open>Issuing keys\<close>

lemma check_scopes_ok:
  "check_scopes q seen ss = Inr () \<longleftrightarrow> distinct ss \<and> set ss \<subseteq> set all_scopes \<and> set ss \<inter> set seen = {}"
  by (induction ss arbitrary: seen) auto

lemma all_scopes_ok: "distinct all_scopes" "all_scopes \<noteq> []"
  by (simp_all add: all_scopes_def)

text \<open>A new key is issued exactly when its row is inserted.\<close>

lemma new_key_cases:
  assumes "new_key f env ke tenant req actor db = (r, db')"
  obtains e where "r = Inl e" "db' = db"
  | k random scopes where "r = Inr \<lparr>ck_key = api_key_of k, ck_secret = key_secret (ke_uuid ke) random\<rparr>"
    "k = new_key_row env tenant (trim_space (rk_name req)) (key_secret (ke_uuid ke) random) (ke_uuid ke) scopes
           (rk_expires_at req) actor"
    "ke_random ke = Inr random" "distinct scopes" "set scopes \<subseteq> set all_scopes" "scopes \<noteq> []"
    "scopes = (if rk_scopes req = [] then all_scopes else rk_scopes req)"
    "tenant_active tenant db" "ak_id k \<notin> ak_id ` set (adb_keys db)" "ak_prefix k \<notin> ak_prefix ` set (adb_keys db)"
    "adb_keys db' = adb_keys db @ [k]" "adb_tenants db' = adb_tenants db"
proof -
  define scopes where "scopes = (if rk_scopes req = [] then all_scopes else rk_scopes req)"
  show ?thesis
  proof (cases r)
    case (Inl e)
    then have "db' = db"
      using assms by (auto simp: new_key_def create_key_def Let_def split: sum.splits prod.splits option.splits if_splits)
    then show ?thesis using Inl that(1) by blast
  next
    case (Inr ck)
    then obtain random k where sc: "check_scopes (ke_quote ke) [] scopes = Inr ()"
      and rnd: "ke_random ke = Inr random"
      and ck: "create_key f env tenant (rk_name req) (key_secret (ke_uuid ke) random) (ke_uuid ke) scopes
           (rk_expires_at req) actor db = (Inr k, db')"
      and r: "ck = \<lparr>ck_key = k, ck_secret = key_secret (ke_uuid ke) random\<rparr>"
      using assms by (auto simp: new_key_def scopes_def Let_def split: sum.splits prod.splits option.splits if_splits)
    let ?k = "new_key_row env tenant (trim_space (rk_name req)) (key_secret (ke_uuid ke) random) (ke_uuid ke) scopes
           (rk_expires_at req) actor"
    from ck obtain db1 where ins: "insert_key ?k db = Inr db1" and k: "k = api_key_of ?k"
      and act: "tenant_active tenant db"
      and db': "adb_keys db' = adb_keys db1" "adb_tenants db' = adb_tenants db1"
      by (auto simp: create_key_def Let_def guard_Inr split: option.splits if_splits sum.splits)
    have "scopes \<noteq> []" by (simp add: scopes_def all_scopes_ok)
    with ins sc rnd k r act db' Inr show ?thesis
      by (intro that(2) [of ?k random scopes])
        (auto simp: insert_key_def check_scopes_ok scopes_def split: if_splits)
  qed
qed

lemma new_key_inv:
  assumes "auth_inv low \<lparr>as_db = db, as_issued = is\<rparr>" and "env_ok low env" and "plain_uuid ke"
    and "new_key f env ke tenant req actor db = (r, db')"
  shows "auth_inv low \<lparr>as_db = db', as_issued = issue r is\<rparr>"
  using assms(4)
proof (cases rule: new_key_cases)
  case (1 e)
  then show ?thesis using assms(1) by (simp add: issue_def)
next
  case (2 k random scopes)
  let ?is = "issue r is"
  have iss: "?is = is @ [(key_secret (ke_uuid ke) random, ak_id k)]"
    by (simp add: issue_def 2(1) api_key_of_def)
  have kf: "ak_prefix k = ke_uuid ke" "ak_hash k = sha256 (key_secret (ke_uuid ke) random)" "ak_status k = Key_Active"
    "ak_scopes k = scopes" "ak_tenant_id k = tenant" "ak_revoked_at k = None"
    using assms(2) by (simp_all add: 2(2) new_key_row_def env_ok_def)
  from 2(8) obtain t where t: "t \<in> set (adb_tenants db)" "tn_id t = tenant" "tn_status t = Tenant_Active"
    by (auto simp: tenant_active_def list_ex_iff)
  have "key_ok ?is (adb_tenants db) k"
    using assms(3) 2(4-6) t unfolding key_ok_def iss kf plain_uuid_def by (auto intro!: bexI [of _ t])
  moreover have "key_ok ?is (adb_tenants db) x" if "x \<in> set (adb_keys db)" for x
    by (rule key_ok_mono [of "is" "adb_tenants db"])
      (use assms(1) that iss in \<open>auto simp: auth_inv_def list_all_iff\<close>)
  ultimately show ?thesis using assms(1) 2(9-12) by (simp add: auth_inv_def iss list_all_iff)
qed

lemma service_create_tenant_inv:
  assumes "auth_inv low \<lparr>as_db = db, as_issued = is\<rparr>" and "env_ok low env" "env_ok low kenv"
    and "plain_uuid ke" and "service_create_tenant f g env kenv ke req actor db = (r, db')"
  shows "auth_inv low \<lparr>as_db = db', as_issued = issue (map_sum id snd r) is\<rparr>"
proof (cases "create_tenant f env (rt_name req) db")
  case (Pair rt db1)
  note inv1 = create_tenant_inv [OF assms(1,2) Pair]
  show ?thesis
  proof (cases rt)
    case (Inl e)
    then have "r = Inl e" "db' = db1" using assms(5) Pair by (simp_all add: service_create_tenant_def)
    then show ?thesis using inv1 by (simp add: issue_def)
  next
    case (Inr t)
    define nm where "nm = (if trim_space (rt_key_name req) = [] then ''initial'' else trim_space (rt_key_name req))"
    obtain rk db2 where nk: "new_key g kenv ke (tn_id t) \<lparr>rk_name = nm, rk_scopes = [], rk_expires_at = None\<rparr> actor db1
        = (rk, db2)" by (cases "new_key g kenv ke (tn_id t) \<lparr>rk_name = nm, rk_scopes = [], rk_expires_at = None\<rparr> actor db1")
    have "db' = db2 \<and> map_sum id snd r = rk"
      using assms(5) Pair Inr nk by (auto simp: service_create_tenant_def nm_def Let_def split: sum.splits)
    then show ?thesis using new_key_inv [OF inv1 assms(3,4) nk] by simp
  qed
qed

lemma astep_inv: "astep low s t \<Longrightarrow> auth_inv low s \<Longrightarrow> auth_inv low t"
proof (induction rule: astep.induct)
  case (create_tenant env kenv ke f g req actor s r db')
  then show ?case using service_create_tenant_inv [of low "as_db s" "as_issued s"] by (cases s) simp
next
  case (create_key env ke g i kreq actor s r db')
  then show ?case using new_key_inv [of low "as_db s" "as_issued s"] by (cases s) simp
next
  case (update_tenant env f1 i req s r db')
  then show ?case using update_tenant_inv [of low "as_db s" "as_issued s"] by (cases s) simp
next
  case (delete_tenant env f2 i s r db')
  then show ?case using delete_tenant_inv [of low "as_db s" "as_issued s"] by (cases s) simp
next
  case (revoke_key env f3 i j actor s r db')
  then show ?case using revoke_key_inv [of low "as_db s" "as_issued s"] by (cases s) simp
next
  case (verify env f4 token s r db')
  then show ?case using verify_inv [of low "as_db s" "as_issued s"] by (cases s) simp
qed

lemma areach_inv: "areach low s \<Longrightarrow> auth_inv low s"
proof (induction rule: areach.induct)
  case (step s t)
  then show ?case by (blast intro: astep_inv)
qed (rule auth_inv_init)

end
