(* ===== verification/AuthProps.thy ===== *)
theory AuthProps
  imports AuthService
begin

text \<open>
  What the auth service promises: consistent tables, tokens that verify exactly while their key
  is live, revocation that is final, and a tenant that stays behind when its first key cannot
  be created.
\<close>

section \<open>Consistency\<close>

text \<open>
  In every reachable state of the auth service, whatever calls fail: identifiers and key
  prefixes are unique; no two tenants that are not deleted have the same name up to case;
  exactly the deleted tenants have a deletion time; every key belongs to a tenant, and if that
  is deleted the key is revoked; exactly the revoked keys have a revocation time; the scopes of
  a key are known, different and at least one; and every key stores the hash of the one secret
  that was handed out for it.
\<close>

lemma auth_store_consistent:
  assumes "areach low s"
  defines "ts \<equiv> adb_tenants (as_db s)" and "ks \<equiv> adb_keys (as_db s)"
  shows "distinct (map tn_id ts) \<and> distinct (map ak_id ks) \<and> distinct (map ak_prefix ks)
    \<and> (\<forall>t\<in>set ts. \<forall>u\<in>set ts. tn_deleted_at t = None \<longrightarrow> tn_deleted_at u = None \<longrightarrow>
         low (tn_name t) = low (tn_name u) \<longrightarrow> t = u)
    \<and> (\<forall>t\<in>set ts. tn_name t \<noteq> [] \<and> length (tn_name t) \<le> 255 \<and> (tn_status t = Tenant_Deleted \<longleftrightarrow> tn_deleted_at t \<noteq> None))
    \<and> (\<forall>k\<in>set ks. (\<exists>t\<in>set ts. tn_id t = ak_tenant_id k \<and> (tn_status t = Tenant_Deleted \<longrightarrow> ak_status k = Key_Revoked))
         \<and> (ak_status k = Key_Revoked \<longleftrightarrow> ak_revoked_at k \<noteq> None)
         \<and> ak_scopes k \<noteq> [] \<and> distinct (ak_scopes k) \<and> set (ak_scopes k) \<subseteq> set all_scopes
         \<and> (\<exists>!i. i \<in> set (as_issued s) \<and> snd i = ak_id k)
         \<and> (\<exists>secret. (secret, ak_id k) \<in> set (as_issued s) \<and> ak_hash k = sha256 secret))"
proof -
  have inv: "auth_inv low s" by (rule areach_inv [OF assms(1)])
  have ids: "distinct (map tn_id ts)" and kids: "distinct (map ak_id ks)" "distinct (map ak_prefix ks)"
    and tok: "\<And>t. t \<in> set ts \<Longrightarrow> tenant_ok t" and names: "tenant_names_ok low ts"
    and kok: "\<And>k. k \<in> set ks \<Longrightarrow> key_ok (as_issued s) ts k"
    and iss: "map snd (as_issued s) = map ak_id ks"
    using inv by (simp_all add: auth_inv_def ts_def ks_def list_all_iff)
  have "t = u" if "t \<in> set ts" "u \<in> set ts" "tn_deleted_at t = None" "tn_deleted_at u = None"
      "low (tn_name t) = low (tn_name u)" for t u
    using names that distinct_keys_eq [OF ids that(1,2)] unfolding tenant_names_ok_def by blast
  moreover have "\<exists>!i. i \<in> set (as_issued s) \<and> snd i = ak_id k" if "k \<in> set ks" for k
  proof -
    have "distinct (map snd (as_issued s))" using kids(1) iss by simp
    moreover have "ak_id k \<in> snd ` set (as_issued s)" using that iss by (metis image_eqI list.set_map)
    ultimately show ?thesis by (metis (no_types, lifting) distinct_keys_eq imageE)
  qed
  moreover have "tn_name t \<noteq> [] \<and> length (tn_name t) \<le> 255 \<and> (tn_status t = Tenant_Deleted \<longleftrightarrow> tn_deleted_at t \<noteq> None)"
    if "t \<in> set ts" for t using tok [OF that] by (simp add: tenant_ok_def tenant_name_ok_def)
  moreover have "(\<exists>t\<in>set ts. tn_id t = ak_tenant_id k \<and> (tn_status t = Tenant_Deleted \<longrightarrow> ak_status k = Key_Revoked))
         \<and> (ak_status k = Key_Revoked \<longleftrightarrow> ak_revoked_at k \<noteq> None)
         \<and> ak_scopes k \<noteq> [] \<and> distinct (ak_scopes k) \<and> set (ak_scopes k) \<subseteq> set all_scopes
         \<and> (\<exists>secret. (secret, ak_id k) \<in> set (as_issued s) \<and> ak_hash k = sha256 secret)"
    if "k \<in> set ks" for k using kok [OF that] unfolding key_ok_def by blast
  ultimately show ?thesis using ids kids by blast
qed

section \<open>Tokens\<close>

lemma split_key_secret:
  assumes "CHR ''.'' \<notin> set prefix"
  shows "split_once CHR ''.'' (key_secret prefix random) = Some (key_prefix_text @ prefix, b64_encode random)"
  using assms split_once_append [of "CHR ''.''" "key_prefix_text @ prefix" "b64_encode random"]
  by (simp add: key_secret_def key_prefix_text_def)

definition response_of :: "api_key_row \<Rightarrow> verify_response" where
  "response_of k = \<lparr>vr_valid = True, vr_tenant_id = ak_tenant_id k, vr_key_id = ak_id k, vr_scopes = ak_scopes k\<rparr>"

text \<open>A valid answer comes from a live key with the hash of the token.\<close>

lemma verify_valid:
  assumes "fst (verify f env token db) = Inr v" and "vr_valid v"
  shows "\<exists>k\<in>set (adb_keys db). live_key (xe_now env) db k \<and> ak_hash k = sha256 token \<and> v = response_of k"
  using assms
  by (auto simp: verify_def invalid_response_def response_of_def find_Some_iff split: option.splits if_splits prod.splits)

lemma verify_live:
  assumes "auth_inv low s" and "env_ok low env"
    and "k \<in> set (adb_keys (as_db s))" "(token, ak_id k) \<in> set (as_issued s)" "live_key (xe_now env) (as_db s) k"
  shows "fst (verify no_faults env token (as_db s)) = Inr (response_of k)"
proof -
  let ?ks = "adb_keys (as_db s)"
  have kok: "key_ok (as_issued s) (adb_tenants (as_db s)) k"
    and iss: "distinct (map snd (as_issued s))" and pre: "distinct (map ak_prefix ?ks)"
    using assms(1,3) by (simp_all add: auth_inv_def list_all_iff)
  from kok obtain random where sec: "(key_secret (ak_prefix k) random, ak_id k) \<in> set (as_issued s)"
    and hash: "ak_hash k = sha256 (key_secret (ak_prefix k) random)"
    and plain: "CHR ''.'' \<notin> set (ak_prefix k)" "pg_text_ok (ak_prefix k)" by (auto simp: key_ok_def)
  have tok: "token = key_secret (ak_prefix k) random"
    using distinct_keys_eq [OF iss assms(4) sec] by simp
  let ?P = "\<lambda>x. ak_prefix x = ak_prefix k \<and> ak_hash x = sha256 token \<and> live_key (xe_now env) (as_db s) x"
  have "?P k" using assms(5) hash tok by simp
  then have "List.find ?P ?ks \<noteq> None" using assms(3) by (auto simp: find_None_iff)
  then obtain x where x: "List.find ?P ?ks = Some x" by blast
  then have "x \<in> set ?ks" "ak_prefix x = ak_prefix k" by (auto simp: find_Some_iff)
  then have "x = k" using distinct_keys_eq [OF pre _ assms(3)] by simp
  then show ?thesis
    using x plain by (simp add: verify_def tok split_key_secret response_of_def)
qed

text \<open>
  C29. In every reachable state, for a token whose hash no other issued secret has: the token is
  reported as valid exactly if it was handed out for a key that is not revoked, has not
  expired, and belongs to an active tenant, and the answer then has the tenant, the identifier
  and the scopes of that key. A positive answer is right even when calls fail.
\<close>

theorem tokens_verify_exactly:
  assumes "areach low s" and "env_ok low env"
    and "\<forall>i\<in>set (as_issued s). sha256 (fst i) = sha256 token \<longrightarrow> fst i = token"
  shows "(\<forall>k\<in>set (adb_keys (as_db s)).
            (token, ak_id k) \<in> set (as_issued s) \<longrightarrow> live_key (xe_now env) (as_db s) k \<longrightarrow>
            fst (verify no_faults env token (as_db s)) = Inr (response_of k))
    \<and> (\<forall>f v. fst (verify f env token (as_db s)) = Inr v \<longrightarrow> vr_valid v \<longrightarrow>
            (\<exists>k\<in>set (adb_keys (as_db s)). (token, ak_id k) \<in> set (as_issued s)
               \<and> live_key (xe_now env) (as_db s) k \<and> v = response_of k))"
proof (intro conjI ballI allI impI)
  have inv: "auth_inv low s" by (rule areach_inv [OF assms(1)])
  show "fst (verify no_faults env token (as_db s)) = Inr (response_of k)"
    if "k \<in> set (adb_keys (as_db s))" "(token, ak_id k) \<in> set (as_issued s)" "live_key (xe_now env) (as_db s) k" for k
    using verify_live [OF inv assms(2) that] .
  show "\<exists>k\<in>set (adb_keys (as_db s)). (token, ak_id k) \<in> set (as_issued s)
      \<and> live_key (xe_now env) (as_db s) k \<and> v = response_of k"
    if valid: "fst (verify f env token (as_db s)) = Inr v" "vr_valid v" for f v
  proof -
    from verify_valid [OF valid] obtain k where k: "k \<in> set (adb_keys (as_db s))" "live_key (xe_now env) (as_db s) k"
      "ak_hash k = sha256 token" "v = response_of k" using assms(2) by (auto simp: env_ok_def)
    from inv k(1) obtain secret where sec: "(secret, ak_id k) \<in> set (as_issued s)" "ak_hash k = sha256 secret"
      by (auto simp: auth_inv_def list_all_iff key_ok_def)
    with assms(3) k(3) have "secret = token" by fastforce
    with sec k show ?thesis by blast
  qed
qed

definition example_auth_env :: "uuid \<Rightarrow> time \<Rightarrow> auth_env" where
  "example_auth_env i now = \<lparr>xe_new_id = i, xe_now = now, xe_lower = (\<lambda>s. s)\<rparr>"

definition example_key_env :: key_env where
  "example_key_env = \<lparr>ke_clock = 1000, ke_random = Inr ''r'', ke_uuid = ''u'', ke_quote = (\<lambda>s. s)\<rparr>"

definition example_tenant :: tenant where
  "example_tenant = \<lparr>tn_id = 1, tn_name = ''n'', tn_status = Tenant_Active, tn_created_at = 1000,
     tn_updated_at = 1000, tn_deleted_at = None\<rparr>"

definition example_secret :: string where
  "example_secret = key_secret ''u'' ''r''"

definition example_key_row :: api_key_row where
  "example_key_row = \<lparr>ak_id = 2, ak_tenant_id = 1, ak_name = ''n'', ak_prefix = ''u'',
     ak_hash = sha256 example_secret, ak_scopes = all_scopes, ak_status = Key_Active, ak_created_at = 1000,
     ak_last_used_at = None, ak_expires_at = None, ak_revoked_at = None, ak_created_by = ''a''\<rparr>"

definition example_auth_db :: auth_db where
  "example_auth_db = \<lparr>adb_tenants = [example_tenant], adb_keys = [example_key_row],
     adb_audit = [\<lparr>au_tenant_id = 1, au_key_id = Some 2, au_action = ''api_key.created'', au_actor = ''a''\<rparr>]\<rparr>"

definition example_auth :: auth_sys where
  "example_auth = \<lparr>as_db = example_auth_db, as_issued = [(example_secret, 2)]\<rparr>"

lemma trim_examples: "trim_space ''n'' = ''n''"
  by (simp add: trim_space_char)

lemma text_examples: "pg_text_ok ''n''" "pg_text_ok ''a''" "pg_text_ok ''u''" "pg_text_ok ''w''"
  by (simp_all add: pg_text_ok.simps utf8_width_def Let_def)

lemma check_all_scopes: "check_scopes q [] all_scopes = Inr ()"
  by (simp add: check_scopes_ok all_scopes_ok)

lemma example_create_tenant:
  "service_create_tenant None no_faults (example_auth_env 1 1000) (example_auth_env 2 1000) example_key_env
      \<lparr>rt_name = ''n'', rt_key_name = ''n''\<rparr> ''a'' (as_db init_auth)
    = (Inr (example_tenant, \<lparr>ck_key = api_key_of example_key_row, ck_secret = example_secret\<rparr>), example_auth_db)"
  by (simp add: service_create_tenant_def create_tenant_def tenant_name_ok_def insert_tenant_def
      tenant_name_taken_def new_tenant_def new_key_def check_all_scopes create_key_def tenant_active_def
      new_key_row_def insert_key_def trim_examples text_examples example_auth_env_def example_key_env_def
      init_auth_def example_auth_db_def example_tenant_def example_key_row_def example_secret_def
      audit_if_def add_audit_def api_key_of_def Let_def)

lemma example_auth_reach: "areach (\<lambda>s. s) example_auth"
proof -
  have "astep (\<lambda>s. s) init_auth example_auth"
    using astep.create_tenant [OF _ _ _ example_create_tenant, of "\<lambda>s. s"]
    by (simp add: env_ok_def example_auth_env_def plain_uuid_def example_key_env_def text_examples issue_def
        example_auth_def init_auth_def api_key_of_def example_key_row_def)
  then show ?thesis by (rule areach.step [OF areach.init])
qed

lemma auth_store_consistent_example:
  "\<exists>secret. (secret, 2) \<in> set (as_issued example_auth) \<and> ak_hash example_key_row = sha256 secret"
  using auth_store_consistent [OF example_auth_reach]
  by (simp add: example_auth_def example_auth_db_def example_key_row_def)

lemma example_live: "live_key 1500 example_auth_db example_key_row"
  by (simp add: live_key_def example_key_row_def tenant_active_def example_auth_db_def example_tenant_def)

theorem tokens_verify_exactly_witness:
  "fst (verify no_faults (example_auth_env 9 1500) example_secret example_auth_db) = Inr (response_of example_key_row)"
proof -
  have env: "env_ok (\<lambda>s. s) (example_auth_env 9 1500)" by (simp add: env_ok_def example_auth_env_def)
  have c: "\<forall>i\<in>set (as_issued example_auth). sha256 (fst i) = sha256 example_secret \<longrightarrow> fst i = example_secret"
    by (simp add: example_auth_def)
  have m: "example_key_row \<in> set (adb_keys (as_db example_auth))"
    "(example_secret, ak_id example_key_row) \<in> set (as_issued example_auth)"
    "live_key (xe_now (example_auth_env 9 1500)) (as_db example_auth) example_key_row"
    using example_live by (simp_all add: example_auth_def example_auth_db_def example_key_row_def example_auth_env_def)
  show ?thesis using tokens_verify_exactly [OF example_auth_reach env c] m by (auto simp: example_auth_def)
qed

section \<open>Revocation\<close>

text \<open>What a step keeps: every key and tenant with its identifier, revoked keys revoked, deleted
  tenants deleted.\<close>

definition keeps_revoked :: "auth_db \<Rightarrow> auth_db \<Rightarrow> bool" where
  "keeps_revoked db db' \<longleftrightarrow>
     (\<forall>k\<in>set (adb_keys db). ak_status k = Key_Revoked \<longrightarrow>
        (\<exists>k'\<in>set (adb_keys db'). ak_id k' = ak_id k \<and> ak_status k' = Key_Revoked))
     \<and> (\<forall>t\<in>set (adb_tenants db). tn_status t = Tenant_Deleted \<longrightarrow>
        (\<exists>t'\<in>set (adb_tenants db'). tn_id t' = tn_id t \<and> tn_status t' = Tenant_Deleted))"

lemma keeps_revoked_refl: "keeps_revoked db db"
  by (auto simp: keeps_revoked_def)

lemma keeps_revoked_trans:
  assumes "keeps_revoked a b" and "keeps_revoked b c"
  shows "keeps_revoked a c"
  unfolding keeps_revoked_def
proof (intro conjI ballI impI)
  fix k assume "k \<in> set (adb_keys a)" "ak_status k = Key_Revoked"
  then obtain k1 where "k1 \<in> set (adb_keys b)" "ak_id k1 = ak_id k" "ak_status k1 = Key_Revoked"
    using assms(1) unfolding keeps_revoked_def by blast
  then show "\<exists>k'\<in>set (adb_keys c). ak_id k' = ak_id k \<and> ak_status k' = Key_Revoked"
    using assms(2) unfolding keeps_revoked_def by metis
next
  fix t assume "t \<in> set (adb_tenants a)" "tn_status t = Tenant_Deleted"
  then obtain t1 where "t1 \<in> set (adb_tenants b)" "tn_id t1 = tn_id t" "tn_status t1 = Tenant_Deleted"
    using assms(1) unfolding keeps_revoked_def by blast
  then show "\<exists>t'\<in>set (adb_tenants c). tn_id t' = tn_id t \<and> tn_status t' = Tenant_Deleted"
    using assms(2) unfolding keeps_revoked_def by metis
qed

lemma keeps_revoked_keys:
  assumes "adb_tenants db' = adb_tenants db" and "adb_keys db' = update_where P g (adb_keys db)"
    and "\<And>k. ak_id (g k) = ak_id k \<and> (ak_status k = Key_Revoked \<longrightarrow> ak_status (g k) = Key_Revoked)"
  shows "keeps_revoked db db'"
proof -
  have "\<exists>k'\<in>set (adb_keys db'). ak_id k' = ak_id k \<and> ak_status k' = Key_Revoked"
    if "k \<in> set (adb_keys db)" "ak_status k = Key_Revoked" for k
    using that assms(3) by (intro bexI [of _ "if P k then g k else k"]) (auto simp: assms(2) set_update_where)
  then show ?thesis using assms(1) by (auto simp: keeps_revoked_def)
qed

lemma keeps_revoked_append:
  "adb_tenants db' = adb_tenants db @ ts \<Longrightarrow> adb_keys db' = adb_keys db @ ks \<Longrightarrow> keeps_revoked db db'"
  by (auto simp: keeps_revoked_def)

lemma new_key_keeps: "new_key f env ke tenant req actor db = (r, db') \<Longrightarrow> keeps_revoked db db'"
  by (erule new_key_cases) (auto intro: keeps_revoked_refl keeps_revoked_append [of _ _ "[]"])

lemma create_tenant_keeps:
  assumes "create_tenant f env name db = (r, db')"
  shows "keeps_revoked db db'"
  using assms
proof (cases rule: create_tenant_cases)
  case 2
  then show ?thesis
    by (intro keeps_revoked_append [of _ _ "[new_tenant env (trim_space name)]" "[]"])
      (auto simp: insert_tenant_def split: if_splits)
qed (simp add: keeps_revoked_refl)

lemma update_tenant_keeps:
  assumes "update_tenant f env i req db = (r, db')" and "distinct (map tn_id (adb_tenants db))"
  shows "keeps_revoked db db'"
  using assms(1)
proof (cases rule: update_tenant_cases)
  case (2 x)
  from 2(2) obtain t where find: "List.find (\<lambda>t. tn_id t = i \<and> tn_status t \<noteq> Tenant_Deleted) (adb_tenants db) = Some t"
    and db': "db' = db\<lparr>adb_tenants := update_where (\<lambda>y. tn_id y = i) (\<lambda>_. x) (adb_tenants db)\<rparr>"
    by (auto simp: update_tenant_row_def Let_def split: option.splits if_splits)
  have "tn_id u \<noteq> i" if "u \<in> set (adb_tenants db)" "tn_status u = Tenant_Deleted" for u
    using that find_undeleted [OF find] distinct_keys_eq [OF assms(2) that(1)] by metis
  then show ?thesis by (auto simp: keeps_revoked_def db' set_update_where intro!: image_eqI)
qed (simp add: keeps_revoked_refl)

lemma delete_tenant_keeps:
  assumes "delete_tenant f env i db = (r, db')" and "distinct (map tn_id (adb_tenants db))"
  shows "keeps_revoked db db'"
proof (cases r)
  case (Inl e)
  then show ?thesis using assms(1) delete_tenant_Inl keeps_revoked_refl by blast
next
  case (Inr t)
  note del = delete_tenant_Inr [OF assms(1) [unfolded Inr] assms(2)]
  show ?thesis unfolding keeps_revoked_def del(1,2) set_update_where by force
qed

lemma revoke_key_keeps:
  assumes "revoke_key f env tenant i actor db = (r, db')"
  shows "keeps_revoked db db'"
proof (cases "db' = db")
  case False
  then have "adb_tenants db' = adb_tenants db"
    "adb_keys db' = update_where (\<lambda>k. ak_tenant_id k = tenant \<and> ak_id k = i \<and> ak_status k = Key_Active)
        (revoked_key (xe_now env)) (adb_keys db)"
    using assms by (auto simp: revoke_key_def Let_def split: option.splits if_splits)
  then show ?thesis by (rule keeps_revoked_keys) simp
qed (simp add: keeps_revoked_refl)

lemma verify_keeps:
  assumes "verify f env token db = (r, db')"
  shows "keeps_revoked db db'"
proof (cases "db' = db")
  case False
  then obtain j where "adb_tenants db' = adb_tenants db" "adb_keys db' = update_where (\<lambda>x. ak_id x = j)
      (\<lambda>x. x\<lparr>ak_last_used_at := Some (xe_now env)\<rparr>) (adb_keys db)"
    using assms by (auto simp: verify_def split: option.splits if_splits prod.splits)
  then show ?thesis by (rule keeps_revoked_keys) simp
qed (simp add: keeps_revoked_refl)

lemma service_create_tenant_keeps:
  assumes "service_create_tenant f g env kenv ke req actor db = (r, db')"
  shows "keeps_revoked db db'"
proof (cases "create_tenant f env (rt_name req) db")
  case (Pair rt db1)
  have "keeps_revoked db1 db'"
    using assms Pair new_key_keeps keeps_revoked_refl
    by (auto simp: service_create_tenant_def Let_def split: sum.splits prod.splits)
  then show ?thesis using create_tenant_keeps [OF Pair] keeps_revoked_trans by blast
qed

lemma astep_keeps:
  assumes "astep low s t" and "auth_inv low s"
  shows "keeps_revoked (as_db s) (as_db t)"
proof -
  have d: "distinct (map tn_id (adb_tenants (as_db s)))" using assms(2) by (simp add: auth_inv_def)
  from assms(1) show ?thesis
    by cases (simp_all add: service_create_tenant_keeps update_tenant_keeps [OF _ d] delete_tenant_keeps [OF _ d]
        new_key_keeps revoke_key_keeps verify_keeps)
qed

lemma asteps_keep:
  assumes "(astep low)\<^sup>*\<^sup>* s t" and "auth_inv low s"
  shows "keeps_revoked (as_db s) (as_db t) \<and> auth_inv low t"
  using assms(1)
proof (induction rule: rtranclp_induct)
  case base
  then show ?case using assms(2) keeps_revoked_refl by blast
next
  case (step t u)
  then show ?case using astep_keeps astep_inv keeps_revoked_trans by blast
qed

text \<open>
  C30. Revocation is final: once a key is revoked, or a tenant deleted, in a reachable state, no
  verification in any later state, whatever the token, the clock and the calls that fail, ever
  answers with that key, or with that tenant.
\<close>

theorem revocation_is_final:
  assumes "areach low s" and "(astep low)\<^sup>*\<^sup>* s t"
    and "fst (verify f env token (as_db t)) = Inr v" and "vr_valid v"
  shows "(\<forall>k\<in>set (adb_keys (as_db s)). ak_status k = Key_Revoked \<longrightarrow> vr_key_id v \<noteq> ak_id k)
    \<and> (\<forall>u\<in>set (adb_tenants (as_db s)). tn_status u = Tenant_Deleted \<longrightarrow> vr_tenant_id v \<noteq> tn_id u)"
proof -
  from asteps_keep [OF assms(2) areach_inv [OF assms(1)]]
  have keep: "keeps_revoked (as_db s) (as_db t)" and inv: "auth_inv low t" by simp_all
  have ids: "distinct (map ak_id (adb_keys (as_db t)))" "distinct (map tn_id (adb_tenants (as_db t)))"
    using inv by (simp_all add: auth_inv_def)
  from verify_valid [OF assms(3,4)] obtain x where x: "x \<in> set (adb_keys (as_db t))"
    "live_key (xe_now env) (as_db t) x" "v = response_of x" by blast
  have "vr_key_id v \<noteq> ak_id k" if "k \<in> set (adb_keys (as_db s))" "ak_status k = Key_Revoked" for k
  proof -
    from keep that obtain k' where k': "k' \<in> set (adb_keys (as_db t))" "ak_id k' = ak_id k" "ak_status k' = Key_Revoked"
      unfolding keeps_revoked_def by blast
    then have "x \<noteq> k'" using x(2) by (auto simp: live_key_def)
    then show ?thesis using distinct_keys_eq [OF ids(1) x(1) k'(1)] k'(2) x(3) by (auto simp: response_of_def)
  qed
  moreover have "vr_tenant_id v \<noteq> tn_id u" if "u \<in> set (adb_tenants (as_db s))" "tn_status u = Tenant_Deleted" for u
  proof -
    from keep that obtain u' where u': "u' \<in> set (adb_tenants (as_db t))" "tn_id u' = tn_id u" "tn_status u' = Tenant_Deleted"
      unfolding keeps_revoked_def by blast
    from x(2) obtain y where "y \<in> set (adb_tenants (as_db t))" "tn_id y = ak_tenant_id x" "tn_status y = Tenant_Active"
      by (auto simp: live_key_def tenant_active_def list_ex_iff)
    then show ?thesis using distinct_keys_eq [OF ids(2) _ u'(1), of y] u' x(3) by (auto simp: response_of_def)
  qed
  ultimately show ?thesis by blast
qed

definition example_second_row :: api_key_row where
  "example_second_row = example_key_row\<lparr>ak_id := 3, ak_prefix := ''w'', ak_hash := sha256 (key_secret ''w'' ''r'')\<rparr>"

definition example_two_db :: auth_db where
  "example_two_db = add_audit \<lparr>au_tenant_id = 1, au_key_id = Some 3, au_action = ''api_key.created'', au_actor = ''a''\<rparr>
     (example_auth_db\<lparr>adb_keys := [example_key_row, example_second_row]\<rparr>)"

definition example_revoked_db :: auth_db where
  "example_revoked_db = add_audit \<lparr>au_tenant_id = 1, au_key_id = Some 2, au_action = ''api_key.revoked'', au_actor = ''a''\<rparr>
     (example_two_db\<lparr>adb_keys := [revoked_key 1200 example_key_row, example_second_row]\<rparr>)"

lemma example_new_key:
  "new_key no_faults (example_auth_env 3 1000) (example_key_env\<lparr>ke_uuid := ''w''\<rparr>) 1
      \<lparr>rk_name = ''n'', rk_scopes = [], rk_expires_at = None\<rparr> ''a'' example_auth_db
    = (Inr \<lparr>ck_key = api_key_of example_second_row, ck_secret = key_secret ''w'' ''r''\<rparr>, example_two_db)"
  by (simp add: new_key_def check_all_scopes create_key_def tenant_active_def new_key_row_def insert_key_def
      trim_examples text_examples example_auth_env_def example_key_env_def example_auth_db_def example_two_db_def
      example_tenant_def example_key_row_def example_second_row_def audit_if_def add_audit_def api_key_of_def Let_def)

lemma example_revoke:
  "revoke_key no_faults (example_auth_env 9 1200) 1 2 ''a'' example_two_db = (Inr (), example_revoked_db)"
  by (simp add: revoke_key_def example_two_db_def example_revoked_db_def example_auth_db_def example_key_row_def
      example_second_row_def example_auth_env_def audit_if_def add_audit_def text_examples Let_def)

lemma example_revoked_reach:
  "areach (\<lambda>s. s)
     \<lparr>as_db = example_revoked_db, as_issued = [(example_secret, 2), (key_secret ''w'' ''r'', 3)]\<rparr>"
proof -
  let ?two = "\<lparr>as_db = example_two_db, as_issued = [(example_secret, 2), (key_secret ''w'' ''r'', 3)]\<rparr>"
  have e: "env_ok (\<lambda>s. s) (example_auth_env i t)" for i t by (simp add: env_ok_def example_auth_env_def)
  have u: "plain_uuid (example_key_env\<lparr>ke_uuid := ''w''\<rparr>)" by (simp add: plain_uuid_def text_examples)
  have "astep (\<lambda>s. s) example_auth ?two"
    using astep.create_key [OF e u, of no_faults 3 1000 1 _ "''a''" example_auth, unfolded example_auth_def auth_sys.simps,
        OF example_new_key]
    by (simp add: example_auth_def issue_def api_key_of_def example_second_row_def)
  then have two: "areach (\<lambda>s. s) ?two" by (rule areach.step [OF example_auth_reach])
  have "astep (\<lambda>s. s) ?two (?two\<lparr>as_db := example_revoked_db\<rparr>)"
    by (rule astep.revoke_key [OF e, of no_faults 9 1200 1 2 "''a''" ?two "Inr ()"]) (simp add: example_revoke)
  then have "areach (\<lambda>s. s) (?two\<lparr>as_db := example_revoked_db\<rparr>)" by (rule areach.step [OF two])
  then show ?thesis by simp
qed

lemma example_second_verifies:
  "fst (verify no_faults (example_auth_env 9 1500) (key_secret ''w'' ''r'') example_revoked_db)
     = Inr (response_of example_second_row)"
proof -
  have e: "env_ok (\<lambda>s. s) (example_auth_env 9 1500)" by (simp add: env_ok_def example_auth_env_def)
  show ?thesis
    using verify_live [OF areach_inv [OF example_revoked_reach] e, of example_second_row "key_secret ''w'' ''r''"]
    by (simp add: example_revoked_db_def example_two_db_def example_auth_db_def example_second_row_def live_key_def
        tenant_active_def example_key_row_def example_tenant_def add_audit_def)
qed

theorem revocation_is_final_witness:
  "fst (verify no_faults (example_auth_env 9 1500) (key_secret ''w'' ''r'') example_revoked_db)
     = Inr (response_of example_second_row)
   \<and> vr_key_id (response_of example_second_row) \<noteq> ak_id (revoked_key 1200 example_key_row)"
proof -
  let ?s = "\<lparr>as_db = example_revoked_db, as_issued = [(example_secret, 2), (key_secret ''w'' ''r'', 3)]\<rparr>"
  have v: "fst (verify no_faults (example_auth_env 9 1500) (key_secret ''w'' ''r'') (as_db ?s))
     = Inr (response_of example_second_row)" by (simp add: example_second_verifies)
  have m: "revoked_key 1200 example_key_row \<in> set (adb_keys (as_db ?s))"
    by (simp add: example_revoked_db_def add_audit_def)
  have "vr_valid (response_of example_second_row)" by (simp add: response_of_def)
  from revocation_is_final [OF example_revoked_reach rtranclp.rtrancl_refl v this] m v show ?thesis by auto
qed

section \<open>Creating a tenant is not atomic\<close>

text \<open>
  \<open>CreateTenant\<close> inserts the tenant before it checks the name of the first key: if that name
  is longer than 120 bytes, the call returns an error although the tenant has been created,
  without any key; and the same request again fails with a conflict, so that the caller has
  neither a key nor a way to get the tenant by this call.
\<close>

lemma create_tenant_leaves_tenant:
  assumes "create_tenant None env (rt_name req) db = (Inr t, db1)"
    and "120 < length (trim_space (rt_key_name req))"
    and "xe_lower env2 = xe_lower env"
  shows "\<exists>e. service_create_tenant None g env kenv ke req actor db = (Inl e, db1)
    \<and> t \<in> set (adb_tenants db1) \<and> adb_keys db1 = adb_keys db
    \<and> service_create_tenant None g2 env2 kenv2 ke2 req actor2 db1 = (Inl Auth_ErrConflict, db1)"
  using assms(1)
proof (cases rule: create_tenant_cases)
  case 2
  let ?name = "trim_space (rt_name req)" and ?kn = "trim_space (rt_key_name req)"
  from 2 have t: "t = new_tenant env ?name" and db1: "db1 = db\<lparr>adb_tenants := adb_tenants db @ [t]\<rparr>"
    and utf: "pg_text_ok ?name"
    by (auto simp: insert_tenant_def split: if_splits)
  have kn: "?kn \<noteq> []" using assms(2) by auto
  have "\<exists>e. new_key g kenv ke (tn_id t) \<lparr>rk_name = ?kn, rk_scopes = [], rk_expires_at = None\<rparr> actor db1 = (Inl e, db1)"
    using assms(2) by (simp add: new_key_def check_scopes_ok all_scopes_ok create_key_def trim_space_idem Let_def
        split: sum.split)
  then have first: "\<exists>e. service_create_tenant None g env kenv ke req actor db = (Inl e, db1)"
    using assms(1) kn by (auto simp: service_create_tenant_def Let_def)
  have "tn_id t \<noteq> xe_new_id env2 \<Longrightarrow> tenant_name_taken (xe_lower env2) (xe_new_id env2) ?name (adb_tenants db1)"
    by (simp add: tenant_name_taken_def db1 t new_tenant_def assms(3))
  then have "\<exists>ix. insert_tenant env2 ?name db1 = Inl (pg_unique ix)"
    using utf by (auto simp: insert_tenant_def db1)
  then obtain ix where ins: "insert_tenant env2 ?name db1 = Inl (pg_unique ix)" by blast
  have "contains (to_lower (error_text (pg_unique ix))) ''unique''"
    by (simp add: pg_unique_def has_prefix_def)
  then have "create_tenant None env2 (rt_name req) db1 = (Inl Auth_ErrConflict, db1)"
    using 2(3) ins by (simp add: create_tenant_def Let_def)
  then have "service_create_tenant None g2 env2 kenv2 ke2 req actor2 db1 = (Inl Auth_ErrConflict, db1)"
    by (simp add: service_create_tenant_def)
  then show ?thesis using first by (simp add: db1)
qed simp

lemma trim_space_xs: "trim_space (CHR ''x'' # replicate n CHR ''x'') = CHR ''x'' # replicate n CHR ''x''"
proof -
  let ?s = "CHR ''x'' # replicate n CHR ''x''"
  have st: "strip es ?s = ?s" if "\<And>e. e \<in> set es \<Longrightarrow> e \<noteq> [] \<Longrightarrow> hd e \<noteq> CHR ''x''" for es
    using that by (intro strip_fixed) (fastforce simp: has_prefix_ex neq_Nil_conv)
  have "strip space_encodings ?s = ?s"
    by (rule st) (auto simp: space_encodings_def char_of_def)
  moreover have "strip (map rev space_encodings) ?s = ?s"
    by (rule st) (auto simp: space_encodings_def char_of_def)
  moreover have "rev ?s = ?s" by (simp add: replicate_append_same)
  ultimately show ?thesis by (simp only: trim_space_def)
qed

lemma create_tenant_leaves_tenant_example:
  "\<exists>e. service_create_tenant None no_faults (example_auth_env 1 1000) (example_auth_env 2 1000) example_key_env
       \<lparr>rt_name = ''n'', rt_key_name = CHR ''x'' # replicate 120 CHR ''x''\<rparr> ''a'' (as_db init_auth)
     = (Inl e, (as_db init_auth)\<lparr>adb_tenants := [example_tenant]\<rparr>)"
proof -
  let ?req = "\<lparr>rt_name = ''n'', rt_key_name = CHR ''x'' # replicate 120 CHR ''x''\<rparr>"
  have c: "create_tenant None (example_auth_env 1 1000) (rt_name ?req) (as_db init_auth)
      = (Inr example_tenant, (as_db init_auth)\<lparr>adb_tenants := [example_tenant]\<rparr>)"
    by (simp add: create_tenant_def tenant_name_ok_def insert_tenant_def tenant_name_taken_def new_tenant_def
        trim_examples text_examples example_auth_env_def init_auth_def example_tenant_def Let_def)
  have l: "120 < length (trim_space (rt_key_name ?req))" by (simp add: trim_space_xs)
  have low: "xe_lower (example_auth_env 5 2000) = xe_lower (example_auth_env 1 1000)"
    by (simp add: example_auth_env_def)
  show ?thesis using create_tenant_leaves_tenant [OF c l low] by blast
qed

end
