(* ===== verification/Http.thy ===== *)
theory Http
  imports GoStrings
begin

text \<open>
  Requests and answers of the services' HTTP handlers. A request has what the handlers look at:
  the header \<open>X-Tenant-ID\<close>, the path and its value \<open>id\<close>, and the first value of each query
  parameter (empty if absent). An answer has a status and a body: an error text, a value that
  is then written as JSON, or nothing.
\<close>

datatype 'b http_body = Error_Body string | Value_Body 'b | Empty_Body

type_synonym 'b http_response = "int \<times> 'b http_body"

definition write_json :: "int \<Rightarrow> 'b \<Rightarrow> 'b http_response" where
  "write_json status v = (status, Value_Body v)"

definition write_error :: "int \<Rightarrow> string \<Rightarrow> 'b http_response" where
  "write_error status msg = (status, Error_Body msg)"

lemmas write_defs = write_json_def write_error_def

record http_request =
  hq_tenant :: string
  hq_path :: string
  hq_id :: string
  hq_query :: "string \<Rightarrow> string"

text \<open>\<open>uuid.Parse\<close> is an argument of the handlers; \<open>None\<close> is its error.\<close>

definition tenant_of :: "(string \<Rightarrow> uuid option) \<Rightarrow> 'a http_request_scheme \<Rightarrow> uuid option" where
  "tenant_of read_id rq = read_id (hq_tenant rq)"

definition path_rest :: "string \<Rightarrow> 'a http_request_scheme \<Rightarrow> string" where
  "path_rest p rq = trim_prefix (hq_path rq) p"

end
