(* ===== verification/AuthHttp.thy ===== *)
theory AuthHttp
  imports AuthProps Http
begin

text \<open>
  auth-service/internal/httpapi/handler.go: the routes, the two tokens that guard them, and the
  handlers with the status of every branch. The result of decoding the body (at most one
  megabyte, no unknown fields), the path values and \<open>uuid.Parse\<close> are arguments; logging and the
  time limit of three seconds are left out (a call that runs into it is a call that fails).
\<close>

datatype auth_value =
    Health_Value string
  | Tenant_Value tenant
  | Tenants_Value "tenant list"
  | Created_Tenant_Value tenant created_key
  | Created_Key_Value created_key
  | Keys_Value "api_key list"
  | Verify_Value verify_response

type_synonym auth_response = "auth_value http_response"

record auth_handler =
  ah_bootstrap :: string
  ah_internal_token :: string

record auth_request =
  rq_authorization :: string
  rq_internal_token :: string
  rq_actor :: string
  rq_tenant_id :: string
  rq_key_id :: string
  rq_verify :: "string option"
  rq_create_tenant :: "create_tenant_request option"
  rq_update_tenant :: "update_tenant_request option"
  rq_create_key :: "create_key_request option"

text \<open>What one request takes from outside.\<close>

record auth_call =
  ac_env :: auth_env
  ac_key_row :: auth_env
  ac_key :: key_env
  ac_read_id :: "string \<Rightarrow> uuid option"
  ac_tenant_fault :: "error option"
  ac_create_key :: "create_key_call faults"
  ac_delete :: "delete_tenant_call faults"
  ac_list :: "list_rows_call faults"
  ac_revoke :: "revoke_call faults"
  ac_verify :: "verify_call faults"

definition constant_equal :: "string \<Rightarrow> string \<Rightarrow> bool" where
  "constant_equal a b \<longleftrightarrow> a = b"

section \<open>Handlers\<close>

definition handle_verify :: "auth_handler \<Rightarrow> auth_call \<Rightarrow> auth_request \<Rightarrow> auth_db \<Rightarrow> auth_response \<times> auth_db" where
  "handle_verify h c rq db =
     (if ah_internal_token h = [] \<or> \<not> constant_equal (rq_internal_token rq) (ah_internal_token h)
      then (write_error 401 ''unauthorized'', db)
      else if rq_verify rq = None \<or> rq_verify rq = Some [] then (write_error 400 ''invalid request'', db)
      else case service_verify (ac_verify c) (ac_env c) (the (rq_verify rq)) db of
        (Inl e, db') \<Rightarrow> (write_error 500 ''internal error'', db')
      | (Inr v, db') \<Rightarrow> (write_json 200 (Verify_Value v), db'))"

definition handle_create_tenant :: "auth_call \<Rightarrow> auth_request \<Rightarrow> auth_db \<Rightarrow> auth_response \<times> auth_db" where
  "handle_create_tenant c rq db =
     (case rq_create_tenant rq of
        None \<Rightarrow> (write_error 400 ''invalid JSON'', db)
      | Some req \<Rightarrow>
          (case service_create_tenant (ac_tenant_fault c) (ac_create_key c) (ac_env c) (ac_key_row c) (ac_key c)
                  req (rq_actor rq) db of
             (Inl e, db') \<Rightarrow>
               (write_error (if errors_is e Auth_ErrConflict then 409 else 400) (error_text e), db')
           | (Inr (t, k), db') \<Rightarrow> (write_json 201 (Created_Tenant_Value t k), db')))"

definition handle_list_tenants :: "auth_call \<Rightarrow> auth_db \<Rightarrow> auth_response" where
  "handle_list_tenants c db =
     (case service_list_tenants (ac_list c) db of
        Inl e \<Rightarrow> write_error 500 ''internal error''
      | Inr ts \<Rightarrow> write_json 200 (Tenants_Value ts))"

definition handle_get_tenant :: "auth_call \<Rightarrow> auth_request \<Rightarrow> auth_db \<Rightarrow> auth_response" where
  "handle_get_tenant c rq db =
     (case ac_read_id c (rq_tenant_id rq) of
        None \<Rightarrow> write_error 400 ''invalid tenantID''
      | Some i \<Rightarrow>
          (case service_get_tenant (ac_tenant_fault c) i db of
             Inl e \<Rightarrow>
               (if errors_is e Auth_ErrNotFound then write_error 404 ''tenant not found''
                else write_error 500 ''internal error'')
           | Inr t \<Rightarrow> write_json 200 (Tenant_Value t)))"

definition handle_update_tenant :: "auth_call \<Rightarrow> auth_request \<Rightarrow> auth_db \<Rightarrow> auth_response \<times> auth_db" where
  "handle_update_tenant c rq db =
     (case ac_read_id c (rq_tenant_id rq) of
        None \<Rightarrow> (write_error 400 ''invalid tenantID'', db)
      | Some i \<Rightarrow>
          (case rq_update_tenant rq of
             None \<Rightarrow> (write_error 400 ''invalid JSON'', db)
           | Some req \<Rightarrow>
               (case service_update_tenant (ac_tenant_fault c) (ac_env c) i req db of
                  (Inl e, db') \<Rightarrow>
                    (if errors_is e Auth_ErrNotFound then write_error 404 ''tenant not found''
                     else if errors_is e Auth_ErrConflict then write_error 409 ''tenant name already exists''
                     else write_error 400 (error_text e), db')
                | (Inr t, db') \<Rightarrow> (write_json 200 (Tenant_Value t), db'))))"

definition handle_delete_tenant :: "auth_call \<Rightarrow> auth_request \<Rightarrow> auth_db \<Rightarrow> auth_response \<times> auth_db" where
  "handle_delete_tenant c rq db =
     (case ac_read_id c (rq_tenant_id rq) of
        None \<Rightarrow> (write_error 400 ''invalid tenantID'', db)
      | Some i \<Rightarrow>
          (case service_delete_tenant (ac_delete c) (ac_env c) i db of
             (Inl e, db') \<Rightarrow>
               (if errors_is e Auth_ErrNotFound then write_error 404 ''tenant not found''
                else write_error 500 ''internal error'', db')
           | (Inr t, db') \<Rightarrow> (write_json 200 (Tenant_Value t), db')))"

definition handle_create_key :: "auth_call \<Rightarrow> auth_request \<Rightarrow> auth_db \<Rightarrow> auth_response \<times> auth_db" where
  "handle_create_key c rq db =
     (case ac_read_id c (rq_tenant_id rq) of
        None \<Rightarrow> (write_error 400 ''invalid tenantID'', db)
      | Some i \<Rightarrow>
          (case rq_create_key rq of
             None \<Rightarrow> (write_error 400 ''invalid JSON'', db)
           | Some req \<Rightarrow>
               (case service_create_key (ac_create_key c) (ac_key_row c) (ac_key c) i req (rq_actor rq) db of
                  (Inl e, db') \<Rightarrow>
                    (write_error (if errors_is e Auth_ErrNotFound then 404 else 400) (error_text e), db')
                | (Inr k, db') \<Rightarrow> (write_json 201 (Created_Key_Value k), db'))))"

definition handle_list_keys :: "auth_call \<Rightarrow> auth_request \<Rightarrow> auth_db \<Rightarrow> auth_response" where
  "handle_list_keys c rq db =
     (case ac_read_id c (rq_tenant_id rq) of
        None \<Rightarrow> write_error 400 ''invalid tenantID''
      | Some i \<Rightarrow>
          (case service_list_keys (ac_list c) i db of
             Inl e \<Rightarrow> write_error 500 ''internal error''
           | Inr ks \<Rightarrow> write_json 200 (Keys_Value ks)))"

definition handle_revoke_key :: "auth_call \<Rightarrow> auth_request \<Rightarrow> auth_db \<Rightarrow> auth_response \<times> auth_db" where
  "handle_revoke_key c rq db =
     (case (ac_read_id c (rq_tenant_id rq), ac_read_id c (rq_key_id rq)) of
        (Some t, Some k) \<Rightarrow>
          (case service_revoke_key (ac_revoke c) (ac_env c) t k (rq_actor rq) db of
             (Inl e, db') \<Rightarrow>
               (if errors_is e Auth_ErrNotFound then write_error 404 ''key not found''
                else write_error 500 ''internal error'', db')
           | (Inr _, db') \<Rightarrow> ((204, Empty_Body), db'))
      | _ \<Rightarrow> (write_error 400 ''invalid ID'', db))"

section \<open>Routes\<close>

datatype auth_route =
    GET_health
  | POST_verify
  | POST_tenants
  | GET_tenants
  | GET_tenant
  | PATCH_tenant
  | DELETE_tenant
  | POST_keys
  | GET_keys
  | DELETE_key

definition admin ::
    "auth_handler \<Rightarrow> auth_request \<Rightarrow> auth_response \<times> auth_db \<Rightarrow> auth_db \<Rightarrow> auth_response \<times> auth_db" where
  "admin h rq nxt db =
     (if ah_bootstrap h = [] \<or> \<not> constant_equal (trim_prefix (rq_authorization rq) ''Bearer '') (ah_bootstrap h)
      then (write_error 401 ''unauthorized'', db) else nxt)"

fun auth_serve ::
    "auth_handler \<Rightarrow> auth_call \<Rightarrow> auth_route \<Rightarrow> auth_request \<Rightarrow> auth_db \<Rightarrow> auth_response \<times> auth_db" where
  "auth_serve h c GET_health rq db = (write_json 200 (Health_Value ''ok''), db)"
| "auth_serve h c POST_verify rq db = handle_verify h c rq db"
| "auth_serve h c POST_tenants rq db = admin h rq (handle_create_tenant c rq db) db"
| "auth_serve h c GET_tenants rq db = admin h rq (handle_list_tenants c db, db) db"
| "auth_serve h c GET_tenant rq db = admin h rq (handle_get_tenant c rq db, db) db"
| "auth_serve h c PATCH_tenant rq db = admin h rq (handle_update_tenant c rq db) db"
| "auth_serve h c DELETE_tenant rq db = admin h rq (handle_delete_tenant c rq db) db"
| "auth_serve h c POST_keys rq db = admin h rq (handle_create_key c rq db) db"
| "auth_serve h c GET_keys rq db = admin h rq (handle_list_keys c rq db, db) db"
| "auth_serve h c DELETE_key rq db = admin h rq (handle_revoke_key c rq db) db"

section \<open>What the tokens guard\<close>

definition authorized :: "auth_handler \<Rightarrow> auth_route \<Rightarrow> auth_request \<Rightarrow> bool" where
  "authorized h route rq \<longleftrightarrow>
     (case route of
        GET_health \<Rightarrow> True
      | POST_verify \<Rightarrow> ah_internal_token h \<noteq> [] \<and> rq_internal_token rq = ah_internal_token h
      | _ \<Rightarrow> ah_bootstrap h \<noteq> [] \<and>
          (rq_authorization rq = ah_bootstrap h \<or> rq_authorization rq = ''Bearer '' @ ah_bootstrap h))"

lemma trim_prefix_cases: "trim_prefix s p = t \<Longrightarrow> s = t \<or> s = p @ t"
  by (auto simp: trim_prefix_def has_prefix_ex split: if_splits)

lemma admin_denied:
  assumes "\<not> (ah_bootstrap h \<noteq> [] \<and>
      (rq_authorization rq = ah_bootstrap h \<or> rq_authorization rq = ''Bearer '' @ ah_bootstrap h))"
  shows "admin h rq nxt db = (write_error 401 ''unauthorized'', db)"
  using assms trim_prefix_cases [of "rq_authorization rq" "''Bearer ''" "ah_bootstrap h"]
  by (auto simp: admin_def constant_equal_def)

text \<open>
  C31. Every route but the health check is guarded: without the configured token (the internal
  token for the verification, the bootstrap token for the administration), or when no token is
  configured, the answer is 401 with no data, and the tables are untouched.
\<close>

theorem auth_routes_guarded:
  assumes "\<not> authorized h route rq"
  shows "auth_serve h c route rq db = (write_error 401 ''unauthorized'', db)"
proof (cases route)
  case POST_verify
  then show ?thesis using assms by (auto simp: authorized_def handle_verify_def constant_equal_def)
qed (use assms in \<open>simp_all add: authorized_def admin_denied\<close>)

definition example_handler :: auth_handler where
  "example_handler = \<lparr>ah_bootstrap = ''boot'', ah_internal_token = ''int''\<rparr>"

definition example_auth_call :: auth_call where
  "example_auth_call = \<lparr>ac_env = example_auth_env 9 1500, ac_key_row = example_auth_env 8 1500,
     ac_key = example_key_env, ac_read_id = (\<lambda>s. Some 1), ac_tenant_fault = None, ac_create_key = no_faults,
     ac_delete = no_faults, ac_list = no_faults, ac_revoke = no_faults, ac_verify = no_faults\<rparr>"

definition example_auth_request :: auth_request where
  "example_auth_request = \<lparr>rq_authorization = ''Bearer wrong'', rq_internal_token = ''int'', rq_actor = ''a'',
     rq_tenant_id = ''1'', rq_key_id = ''2'', rq_verify = Some example_secret, rq_create_tenant = None,
     rq_update_tenant = None, rq_create_key = None\<rparr>"

theorem auth_routes_guarded_witness:
  "auth_serve example_handler example_auth_call DELETE_tenant example_auth_request example_auth_db
     = (write_error 401 ''unauthorized'', example_auth_db)"
proof -
  have "\<not> authorized example_handler DELETE_tenant example_auth_request"
    by (simp add: authorized_def example_handler_def example_auth_request_def)
  then show ?thesis by (rule auth_routes_guarded)
qed

end
