(* ===== verification/DeliveryQueries.thy ===== *)
theory DeliveryQueries
  imports DeliverySystem Paging
begin

text \<open>
  The lists of the delivery service: \<open>List\<close> and \<open>ListAttempts\<close> of
  delivery-service/internal/delivery/repository.go and the methods \<open>List\<close>, \<open>ListDLQ\<close> and
  \<open>ListAttempts\<close> of service.go. Following the cursors gives every delivery of the filter once,
  newest first, and every attempt of a delivery once, in order.
\<close>

section \<open>Deliveries\<close>

record list_filter =
  lf_limit :: int
  lf_cursor :: string
  lf_status :: string
  lf_endpoint_id :: "uuid option"
  lf_event_id :: "uuid option"

type_synonym delivery_page = "delivery list \<times> string"

definition status_filter :: "bool \<Rightarrow> string \<Rightarrow> string result" where
  "status_filter dlq_only s =
     (let status = to_upper (trim_space s) in
      if dlq_only then
        (if status \<noteq> [] \<and> status \<noteq> status_text DLQ then Inl (Msg ''invalid DLQ status filter'')
         else Inr (status_text DLQ))
      else if status \<noteq> [] \<and> status \<noteq> status_text PENDING \<and> status \<noteq> status_text IN_PROGRESS
        \<and> status \<noteq> status_text RETRYING \<and> status \<noteq> status_text DELIVERED \<and> status \<noteq> status_text FAILED
        \<and> status \<noteq> status_text DLQ \<and> status \<noteq> status_text CANCELLED
      then Inl (Msg ''invalid delivery status filter'')
      else Inr status)"

definition d_keyset :: "delivery \<Rightarrow> keyset" where
  "d_keyset d = Keyset (d_created_at d) (d_id d)"

definition list_where :: "uuid \<Rightarrow> string \<Rightarrow> list_filter \<Rightarrow> delivery \<Rightarrow> bool" where
  "list_where tenant status flt d \<longleftrightarrow>
     d_tenant_id d = tenant \<and> (status \<noteq> [] \<longrightarrow> status_text (d_status d) = status)
     \<and> (case lf_endpoint_id flt of None \<Rightarrow> True | Some i \<Rightarrow> d_endpoint_id d = i)
     \<and> (case lf_event_id flt of None \<Rightarrow> True | Some i \<Rightarrow> d_event_id d = i)"

text \<open>What the query selects; the other fields of the struct keep Go's zero values.\<close>

definition zero_snapshot :: endpoint_snapshot where
  "zero_snapshot = \<lparr>es_event_type = [], es_url = [], es_secret = [], es_connect_timeout_ms = 0,
     es_request_timeout_ms = 0, es_retry_policy = \<lparr>rp_max_attempts = 0, rp_backoff_type = [],
       rp_initial_delay_ms = 0, rp_max_delay_ms = 0, rp_jitter_percent = 0\<rparr>\<rparr>"

definition list_row :: "delivery \<Rightarrow> delivery" where
  "list_row d = d\<lparr>d_last_error_message := None, d_lease_owner := None, d_lease_expires_at := None,
     d_snapshot := zero_snapshot, d_payload := []\<rparr>"

lemma list_row_simps [simp]:
  "d_id (list_row d) = d_id d" "d_created_at (list_row d) = d_created_at d"
  "d_tenant_id (list_row d) = d_tenant_id d" "d_status (list_row d) = d_status d"
  by (simp_all add: list_row_def)

definition delivery_cursor :: "(uuid \<Rightarrow> string) \<Rightarrow> delivery \<Rightarrow> string" where
  "delivery_cursor show_id d = format_cursor show_id (d_created_at d) (d_id d)"

datatype list_call = LD_Query | LD_Scan uuid | LD_Rows

text \<open>The package's functions on UUIDs are the arguments \<open>show_id\<close> and \<open>read_id\<close>.\<close>

definition list_deliveries ::
    "list_call faults \<Rightarrow> (uuid \<Rightarrow> string) \<Rightarrow> (string \<Rightarrow> uuid option) \<Rightarrow> uuid \<Rightarrow> list_filter \<Rightarrow> bool
       \<Rightarrow> delivery_db \<Rightarrow> delivery_page result" where
  "list_deliveries f show_id read_id tenant flt dlq_only db =
     (let limit = nat (page_limit (lf_limit flt)) in
      case status_filter dlq_only (lf_status flt) of
        Inl e \<Rightarrow> Inl e
      | Inr status \<Rightarrow>
          (case parse_cursor read_id (lf_cursor flt) of
             None \<Rightarrow> Inl (Msg ''invalid cursor'')
           | Some (t, i) \<Rightarrow>
               guard (map_option (wrap ''list deliveries: '') (f LD_Query))
                 (case scan_rows (\<lambda>d. map_option (wrap ''scan delivery: '') (f (LD_Scan (d_id d))))
                    (map list_row (take (limit + 1) (newest_first d_keyset
                       (filter (\<lambda>d. list_where tenant status flt d \<and> before_cursor t i (d_keyset d))
                          (db_deliveries db))))) of
                    Inl e \<Rightarrow> Inl e
                  | Inr items \<Rightarrow> guard (f LD_Rows) (Inr (cut_page limit (delivery_cursor show_id) items)))))"

definition service_list ::
    "list_call faults \<Rightarrow> (uuid \<Rightarrow> string) \<Rightarrow> (string \<Rightarrow> uuid option) \<Rightarrow> uuid \<Rightarrow> list_filter
       \<Rightarrow> delivery_db \<Rightarrow> delivery_page result" where
  "service_list f show_id read_id tenant flt db =
     (if tenant = uuid_nil then Inl (Msg ''invalid tenant id'')
      else list_deliveries f show_id read_id tenant flt False db)"

definition service_list_dlq ::
    "list_call faults \<Rightarrow> (uuid \<Rightarrow> string) \<Rightarrow> (string \<Rightarrow> uuid option) \<Rightarrow> uuid \<Rightarrow> list_filter
       \<Rightarrow> delivery_db \<Rightarrow> delivery_page result" where
  "service_list_dlq f show_id read_id tenant flt db =
     (if tenant = uuid_nil then Inl (Msg ''invalid tenant id'')
      else list_deliveries f show_id read_id tenant flt True db)"

section \<open>Attempts\<close>

record attempt_view =
  av_number :: int
  av_status :: result_status
  av_http_status :: "int option"
  av_latency_ms :: "int option"
  av_error_code :: "string option"
  av_started_at :: time
  av_completed_at :: time

type_synonym attempt_page = "attempt_view list \<times> string"

definition attempt_view_of :: "attempt_row \<Rightarrow> attempt_view" where
  "attempt_view_of a = \<lparr>av_number = at_number a, av_status = at_status a, av_http_status = at_http_status a,
     av_latency_ms = Some (at_latency_ms a), av_error_code = at_error_code a,
     av_started_at = at_started_at a, av_completed_at = at_completed_at a\<rparr>"

definition attempt_cursor :: "attempt_view \<Rightarrow> string" where
  "attempt_cursor a = b64_encode (format_int (av_number a))"

definition parse_attempt_cursor :: "string \<Rightarrow> int option" where
  "parse_attempt_cursor cursor =
     (if cursor = [] then Some 0
      else case b64_decode cursor of
        None \<Rightarrow> None
      | Some decoded \<Rightarrow>
          (case atoi decoded of None \<Rightarrow> None | Some n \<Rightarrow> if n < 0 then None else Some n))"

definition delivery_exists :: "uuid \<Rightarrow> uuid \<Rightarrow> delivery_db \<Rightarrow> bool" where
  "delivery_exists tenant did db \<longleftrightarrow>
     list_ex (\<lambda>d. d_id d = did \<and> d_tenant_id d = tenant) (db_deliveries db)"

text \<open>The join with the delivery of the tenant.\<close>

definition attempts_of :: "uuid \<Rightarrow> uuid \<Rightarrow> delivery_db \<Rightarrow> attempt_row list" where
  "attempts_of tenant did db =
     (if delivery_exists tenant did db
      then filter (\<lambda>a. at_delivery_id a = did) (db_attempts db) else [])"

datatype attempts_call = LA_Query | LA_Scan int | LA_Rows | LA_Exists

text \<open>The column is a 32 bit integer: the driver refuses a larger parameter.\<close>

definition list_attempts ::
    "attempts_call faults \<Rightarrow> uuid \<Rightarrow> uuid \<Rightarrow> int \<Rightarrow> string \<Rightarrow> delivery_db \<Rightarrow> attempt_page result" where
  "list_attempts f tenant did limit cursor db =
     (let limit = nat (page_limit limit) in
      case parse_attempt_cursor cursor of
        None \<Rightarrow> Inl (Msg ''invalid cursor'')
      | Some after \<Rightarrow>
          (if max_int4 < after
           then Inl (wrap ''list attempts: '' (Msg ''value is greater than maximum value for int4''))
           else
           guard (map_option (wrap ''list attempts: '') (f LA_Query))
             (case scan_rows (\<lambda>a. f (LA_Scan (av_number a)))
                (map attempt_view_of (take (limit + 1)
                   (sort_key at_number (filter (\<lambda>a. after < at_number a) (attempts_of tenant did db))))) of
                Inl e \<Rightarrow> Inl e
              | Inr items \<Rightarrow>
                  guard (f LA_Rows)
                    (let page = cut_page limit attempt_cursor items in
                     if fst page = []
                     then guard (f LA_Exists)
                       (if delivery_exists tenant did db then Inr page else Inl Delivery_ErrNotFound)
                     else Inr page))))"

definition service_list_attempts ::
    "attempts_call faults \<Rightarrow> uuid \<Rightarrow> uuid \<Rightarrow> int \<Rightarrow> string \<Rightarrow> delivery_db \<Rightarrow> attempt_page result" where
  "service_list_attempts f tenant did limit cursor db =
     (if tenant = uuid_nil then Inl (Msg ''invalid tenant id'')
      else list_attempts f tenant did limit cursor db)"

section \<open>The lists as paged lists\<close>

text \<open>Creation times that a cursor can carry: microseconds, in the years 1 to 9999.\<close>

definition cursor_times :: "delivery list \<Rightarrow> bool" where
  "cursor_times ds \<longleftrightarrow> (\<forall>d\<in>set ds. time_in_range (d_created_at d) \<and> pg_time (d_created_at d) = d_created_at d)"

definition listed :: "uuid \<Rightarrow> string \<Rightarrow> list_filter \<Rightarrow> delivery_db \<Rightarrow> delivery list" where
  "listed tenant status flt db =
     newest_first d_keyset (filter (list_where tenant status flt) (db_deliveries db))"

lemma distinct_d_keyset: "distinct (map d_id ds) \<Longrightarrow> distinct (map d_keyset (filter P ds))"
  by (induction ds) (auto simp: d_keyset_def)

lemma list_deliveries_page:
  assumes "status_filter dlq_only (lf_status flt) = Inr status"
    and "parse_cursor read_id (lf_cursor flt) = Some (t, i)"
  shows "list_deliveries no_faults show_id read_id tenant flt dlq_only db =
     Inr (cut_page (nat (page_limit (lf_limit flt))) (delivery_cursor show_id)
       (take (nat (page_limit (lf_limit flt)) + 1)
         (map list_row (filter (\<lambda>d. before_cursor t i (d_keyset d)) (listed tenant status flt db)))))"
  using assms by (simp add: list_deliveries_def listed_def filter_newest_first take_map Let_def conj_commute)

lemma list_where_cursor [simp]: "list_where tenant status (flt\<lparr>lf_cursor := c\<rparr>) = list_where tenant status flt"
  by (simp add: list_where_def fun_eq_iff)

lemma listed_cursor [simp]: "listed tenant status (flt\<lparr>lf_cursor := c\<rparr>) = listed tenant status flt"
  by (simp add: listed_def fun_eq_iff)

lemma listed_after:
  assumes "distinct (map d_id (db_deliveries db))" and "listed tenant status flt db = xs @ d # ys"
    and "pg_time (d_created_at d) = d_created_at d" and "d_created_at d \<noteq> 0"
  shows "filter (\<lambda>x. before_cursor (d_created_at d) (d_id d) (d_keyset x)) (listed tenant status flt db) = ys"
proof -
  have "(\<lambda>x. before_cursor (d_created_at d) (d_id d) (d_keyset x)) = (\<lambda>x. d_keyset x < d_keyset d)"
    using assms(3,4) by (simp add: before_cursor_def d_keyset_def [of d] fun_eq_iff)
  then show ?thesis
    using newest_first_after [OF distinct_d_keyset [OF assms(1)] assms(2) [unfolded listed_def]]
    by (simp add: listed_def filter_newest_first)
qed

interpretation deliveries: paged_list
  "\<lambda>db :: delivery_db. distinct (map d_id (db_deliveries db)) \<and> cursor_times (db_deliveries db)
      \<and> uuid_codec show_id read_id \<and> status_filter dlq_only (lf_status flt) = Inr status"
  "\<lambda>db c. list_deliveries no_faults show_id read_id tenant (flt\<lparr>lf_cursor := c\<rparr>) dlq_only db"
  "\<lambda>db. map list_row (listed tenant status flt db)"
  "delivery_cursor show_id"
  "nat (page_limit (lf_limit flt))"
  for show_id read_id tenant flt dlq_only status
proof unfold_locales
  show "0 < nat (page_limit (lf_limit flt))" using page_limit_bounds [of "lf_limit flt"] by simp
next
  fix db :: delivery_db
  assume "distinct (map d_id (db_deliveries db)) \<and> cursor_times (db_deliveries db)
      \<and> uuid_codec show_id read_id \<and> status_filter dlq_only (lf_status flt) = Inr status"
  then show "list_deliveries no_faults show_id read_id tenant (flt\<lparr>lf_cursor := []\<rparr>) dlq_only db
    = Inr (cut_page (nat (page_limit (lf_limit flt))) (delivery_cursor show_id)
        (take (nat (page_limit (lf_limit flt)) + 1) (map list_row (listed tenant status flt db))))"
    by (subst list_deliveries_page [where t = 0 and i = uuid_nil and status = status])
      (simp_all add: parse_cursor_def before_cursor_def)
next
  fix db :: delivery_db and xs r ys
  assume good: "distinct (map d_id (db_deliveries db)) \<and> cursor_times (db_deliveries db)
      \<and> uuid_codec show_id read_id \<and> status_filter dlq_only (lf_status flt) = Inr status"
    and all: "map list_row (listed tenant status flt db) = xs @ r # ys"
  from all obtain xs' d ys' where l: "listed tenant status flt db = xs' @ d # ys'"
    and r: "r = list_row d" "map list_row ys' = ys"
    by (auto simp: map_eq_append_conv map_eq_Cons_conv)
  have "d \<in> set (db_deliveries db)"
    using arg_cong [OF l, of set] by (auto simp: listed_def)
  then have t: "time_in_range (d_created_at d)" "pg_time (d_created_at d) = d_created_at d"
    using good by (auto simp: cursor_times_def)
  then have nz: "d_created_at d \<noteq> 0" by (simp add: time_in_range_def)
  have "parse_cursor read_id (delivery_cursor show_id r) = Some (d_created_at d, d_id d)"
    using good t parse_format_cursor by (simp add: delivery_cursor_def r)
  then show "list_deliveries no_faults show_id read_id tenant (flt\<lparr>lf_cursor := delivery_cursor show_id r\<rparr>) dlq_only db
    = Inr (cut_page (nat (page_limit (lf_limit flt))) (delivery_cursor show_id)
        (take (nat (page_limit (lf_limit flt)) + 1) ys))"
    using good listed_after [OF _ l t(2) nz] r(2)
    by (subst list_deliveries_page [where t = "d_created_at d" and i = "d_id d" and status = status]) simp_all
qed (simp add: delivery_cursor_def)

section \<open>The attempts as a paged list\<close>

definition attempt_rows :: "uuid \<Rightarrow> uuid \<Rightarrow> delivery_db \<Rightarrow> attempt_row list" where
  "attempt_rows tenant did db = sort_key at_number (attempts_of tenant did db)"

lemma attempts_of_inv:
  assumes "db_inv db"
  shows "distinct (map at_number (attempts_of tenant did db))"
    and "a \<in> set (attempts_of tenant did db) \<Longrightarrow> 1 \<le> at_number a \<and> at_number a \<le> max_int4"
proof -
  have keys: "distinct (map attempt_key (db_attempts db))"
    using assms by (simp add: db_inv_def worker_inv_def tokens_def)
  have "distinct (map at_number (filter (\<lambda>a. at_delivery_id a = did) as))"
    if "distinct (map attempt_key as)" for as
    using that by (induction as) (auto simp: attempt_key_def image_iff)
  from this [OF keys] show "distinct (map at_number (attempts_of tenant did db))"
    by (simp add: attempts_of_def)
  assume "a \<in> set (attempts_of tenant did db)"
  then have "a \<in> set (db_attempts db)" by (auto simp: attempts_of_def split: if_splits)
  then have "token_ok (db_deliveries db) (attempt_key a)"
    using assms by (simp add: db_inv_def worker_inv_def tokens_def list_all_iff)
  then obtain d where "d \<in> set (db_deliveries db)" "1 \<le> at_number a" "at_number a \<le> d_attempt_count d"
    by (auto simp: token_ok_def attempt_key_def)
  moreover from this have "d_attempt_count d \<le> max_int4"
    using worker_inv_ok [of "[]" db d] assms by (simp add: db_inv_def delivery_ok_def)
  ultimately show "1 \<le> at_number a \<and> at_number a \<le> max_int4" by simp
qed

lemma parse_attempt_cursor_of:
  assumes "0 \<le> av_number a" and "av_number a \<le> max_int4"
  shows "parse_attempt_cursor (attempt_cursor a) = Some (av_number a)"
proof -
  have "format_int (av_number a) \<noteq> []" by (simp add: format_int_def)
  then have "attempt_cursor a \<noteq> []" by (simp add: attempt_cursor_def b64_encode_nonempty)
  moreover have "atoi (format_int (av_number a)) = Some (av_number a)"
    using assms by (intro atoi_format_int) (simp_all add: max_int4_def)
  ultimately show ?thesis using assms by (simp add: parse_attempt_cursor_def attempt_cursor_def)
qed

lemma list_attempts_page:
  assumes "parse_attempt_cursor cursor = Some after" and "after \<le> max_int4"
    and "delivery_exists tenant did db"
  shows "list_attempts no_faults tenant did limit cursor db =
     Inr (cut_page (nat (page_limit limit)) attempt_cursor (take (nat (page_limit limit) + 1)
       (map attempt_view_of (filter (\<lambda>a. after < at_number a) (attempt_rows tenant did db)))))"
  using assms by (simp add: list_attempts_def attempt_rows_def filter_sort take_map Let_def)

interpretation attempts: paged_list
  "\<lambda>db :: delivery_db. db_inv db \<and> delivery_exists tenant did db"
  "\<lambda>db c. list_attempts no_faults tenant did limit c db"
  "\<lambda>db. map attempt_view_of (attempt_rows tenant did db)"
  attempt_cursor
  "nat (page_limit limit)"
  for tenant did limit
proof unfold_locales
  show "0 < nat (page_limit limit)" using page_limit_bounds [of limit] by simp
next
  fix db :: delivery_db
  assume good: "db_inv db \<and> delivery_exists tenant did db"
  have "filter (\<lambda>a. 0 < at_number a) (attempt_rows tenant did db) = attempt_rows tenant did db"
    using good attempts_of_inv(2) by (fastforce simp: attempt_rows_def filter_id_conv)
  then show "list_attempts no_faults tenant did limit [] db
    = Inr (cut_page (nat (page_limit limit)) attempt_cursor
        (take (nat (page_limit limit) + 1) (map attempt_view_of (attempt_rows tenant did db))))"
    using good by (subst list_attempts_page [where after = 0])
      (simp_all add: parse_attempt_cursor_def max_int4_def)
next
  fix db :: delivery_db and xs r ys
  assume good: "db_inv db \<and> delivery_exists tenant did db"
    and all: "map attempt_view_of (attempt_rows tenant did db) = xs @ r # ys"
  from all obtain xs' a ys' where l: "attempt_rows tenant did db = xs' @ a # ys'"
    and r: "r = attempt_view_of a" "map attempt_view_of ys' = ys"
    by (auto simp: map_eq_append_conv map_eq_Cons_conv)
  have "a \<in> set (attempts_of tenant did db)"
    using arg_cong [OF l, of set] by (auto simp: attempt_rows_def)
  then have n: "1 \<le> at_number a" "at_number a \<le> max_int4" using good attempts_of_inv(2) by blast+
  then have c: "parse_attempt_cursor (attempt_cursor r) = Some (at_number a)"
    using parse_attempt_cursor_of [of r] by (simp add: r attempt_view_of_def)
  have "filter (\<lambda>x. at_number a < at_number x) (attempt_rows tenant did db) = ys'"
    using sorted_after [OF attempts_of_inv(1) l [unfolded attempt_rows_def]] good
    by (simp add: attempt_rows_def filter_sort)
  then show "list_attempts no_faults tenant did limit (attempt_cursor r) db
    = Inr (cut_page (nat (page_limit limit)) attempt_cursor (take (nat (page_limit limit) + 1) ys))"
    using good r(2) by (subst list_attempts_page [OF c n(2)]) simp_all
qed (simp add: attempt_cursor_def b64_encode_nonempty format_int_def)

end
