(* ===== verification/DeliveryQueryProps.thy ===== *)
theory DeliveryQueryProps
  imports DeliveryQueries DeliveryOutcome
begin

text \<open>
  What the lists of the delivery service promise: cursors are read back, the pages of a walk
  make up the whole list, and no list shows another tenant's rows.
\<close>

section \<open>Pages of deliveries\<close>

text \<open>
  The cursor of a delivery (base64 without padding of its creation time in RFC 3339 with
  nanoseconds, a vertical bar and its identifier) is read back as exactly that time and
  identifier, for every time from the year 1 to 9999 and whatever the identifier.
\<close>

lemma delivery_cursor_round_trip:
  assumes "uuid_codec show_id read_id" and "time_in_range (d_created_at d)"
  shows "delivery_cursor show_id d \<noteq> []
    \<and> parse_cursor read_id (delivery_cursor show_id d) = Some (d_created_at d, d_id d)"
  using parse_format_cursor [OF assms] by (simp add: delivery_cursor_def)

lemma delivery_cursor_round_trip_example:
  "parse_cursor read_decimal (delivery_cursor show_decimal example_delivery) = Some (1000, 11)"
proof -
  have "time_in_range (d_created_at example_delivery)"
    by (simp add: time_in_range_def example_delivery_def new_delivery_def)
  from delivery_cursor_round_trip [OF decimal_codec this]
  show ?thesis by (simp add: example_delivery_def new_delivery_def)
qed

text \<open>The rows of a complete walk.\<close>

lemma listed_all:
  fixes tenant :: uuid and status :: string and flt :: list_filter
  assumes "distinct (map d_id (db_deliveries db))"
  defines "rows \<equiv> map list_row (listed tenant status flt db)"
  shows "set rows = list_row ` {d \<in> set (db_deliveries db). list_where tenant status flt d}"
    and "sorted_wrt (\<lambda>a b. d_keyset b < d_keyset a) rows"
    and "length rows \<le> length (db_deliveries db)"
proof -
  show "set rows = list_row ` {d \<in> set (db_deliveries db). list_where tenant status flt d}"
    by (auto simp: rows_def listed_def)
  have "sorted_wrt (\<lambda>a b. d_keyset b < d_keyset a) (listed tenant status flt db)"
    unfolding listed_def by (rule newest_first_sorted [OF distinct_d_keyset [OF assms(1)]])
  then show "sorted_wrt (\<lambda>a b. d_keyset b < d_keyset a) rows"
    by (simp add: rows_def sorted_wrt_map d_keyset_def)
  show "length rows \<le> length (db_deliveries db)" by (simp add: rows_def listed_def newest_first_def)
qed

text \<open>
  C26. In every reachable state, following the cursors of \<open>List\<close> (or of \<open>ListDLQ\<close>) from the
  first page ends, after at most one page more than there are deliveries, and the pages
  together hold exactly the deliveries of the tenant that pass the status, endpoint and event
  filters, each once, strictly ordered by creation time and identifier, newest first, whatever
  the limit asked for. The creation times must be ones a cursor can carry.
\<close>

theorem delivery_pages_complete:
  assumes "dreach ix s" and "cursor_times (db_deliveries (sys_db s))" and "uuid_codec show_id read_id"
    and "status_filter dlq_only (lf_status flt) = Inr status" and "tenant \<noteq> uuid_nil"
  shows "\<exists>rows. walk (\<lambda>c. (if dlq_only then service_list_dlq else service_list)
              no_faults show_id read_id tenant (flt\<lparr>lf_cursor := c\<rparr>) (sys_db s))
            (Suc (length (db_deliveries (sys_db s)))) [] = Some rows
        \<and> set rows = list_row ` {d \<in> set (db_deliveries (sys_db s)). list_where tenant status flt d}
        \<and> sorted_wrt (\<lambda>a b. d_keyset b < d_keyset a) rows"
proof -
  let ?db = "sys_db s"
  have ids: "distinct (map d_id (db_deliveries ?db))"
    using dreach_inv [OF assms(1)] worker_inv_ids by (auto simp: dsys_inv_def)
  have fetch: "(\<lambda>c. (if dlq_only then service_list_dlq else service_list) no_faults show_id read_id tenant
      (flt\<lparr>lf_cursor := c\<rparr>) ?db)
    = (\<lambda>c. list_deliveries no_faults show_id read_id tenant (flt\<lparr>lf_cursor := c\<rparr>) dlq_only ?db)"
    using assms(5) by (auto simp: service_list_def service_list_dlq_def)
  have "length (map list_row (listed tenant status flt ?db))
      \<le> Suc (length (db_deliveries ?db)) * nat (page_limit (lf_limit flt))"
    using listed_all(3) [OF ids, of tenant status flt] deliveries.size [of flt]
    by (metis le_SucI le_trans mult.commute mult_le_mono1 nat_mult_1 Suc_leI One_nat_def)
  then have "walk (\<lambda>c. list_deliveries no_faults show_id read_id tenant (flt\<lparr>lf_cursor := c\<rparr>) dlq_only ?db)
      (Suc (length (db_deliveries ?db))) [] = Some (map list_row (listed tenant status flt ?db))"
    using deliveries.walk_all [where s = ?db] ids assms(2-4) by blast
  then show ?thesis unfolding fetch using listed_all(1,2) [OF ids] by blast
qed

definition example_filter :: list_filter where
  "example_filter = \<lparr>lf_limit = 0, lf_cursor = [], lf_status = [], lf_endpoint_id = None, lf_event_id = None\<rparr>"

theorem delivery_pages_complete_witness:
  "\<exists>rows. walk (\<lambda>c. service_list no_faults show_decimal read_decimal 3
        (example_filter\<lparr>lf_cursor := c\<rparr>) (empty_delivery_db\<lparr>db_deliveries := [example_delivery]\<rparr>)) 2 []
      = Some rows \<and> set rows = {list_row example_delivery}"
proof -
  let ?s = "init_dsys\<lparr>sys_db := empty_delivery_db\<lparr>db_deliveries := [example_delivery]\<rparr>\<rparr>"
  have t: "d_tenant_id example_delivery = 3"
    by (simp add: example_delivery_def example_event_def)
  have c: "cursor_times (db_deliveries (sys_db ?s))"
    by (simp add: cursor_times_def time_in_range_def example_delivery_def new_delivery_def pg_time_def)
  have st: "status_filter False (lf_status example_filter) = Inr []"
    by (simp add: status_filter_def example_filter_def)
  have n: "(3 :: uuid) \<noteq> uuid_nil" by simp
  let ?db = "empty_delivery_db\<lparr>db_deliveries := [example_delivery]\<rparr>"
  have db: "sys_db ?s = ?db" and len: "Suc (length (db_deliveries ?db)) = 2" by (simp_all add: init_dsys_def)
  from delivery_pages_complete [OF example_reach c decimal_codec st n, unfolded db len if_False]
  obtain rows where "walk (\<lambda>c. service_list no_faults show_decimal read_decimal 3
        (example_filter\<lparr>lf_cursor := c\<rparr>) ?db) 2 [] = Some rows"
    and "set rows = list_row ` {d \<in> set (db_deliveries ?db). list_where 3 [] example_filter d}" by blast
  moreover have "list_where 3 [] example_filter example_delivery"
    by (simp add: list_where_def t example_filter_def)
  ultimately show ?thesis by (intro exI [of _ rows]) auto
qed

section \<open>Pages of attempts\<close>

text \<open>
  In every reachable state, following the cursors of \<open>ListAttempts\<close> for a delivery of the
  tenant ends, after at most one page more than there are attempts, and gives exactly the
  recorded attempts of the delivery, ordered by their numbers, each number once, whatever the
  limit asked for.
\<close>

lemma attempt_pages_complete:
  assumes "dreach ix s" and "delivery_exists tenant did (sys_db s)" and "tenant \<noteq> uuid_nil"
  shows "\<exists>rows. walk (\<lambda>c. service_list_attempts no_faults tenant did limit c (sys_db s))
            (Suc (length (db_attempts (sys_db s)))) [] = Some rows
        \<and> set rows = attempt_view_of ` {a \<in> set (db_attempts (sys_db s)). at_delivery_id a = did}
        \<and> sorted_wrt (\<lambda>a b. av_number a < av_number b) rows"
proof -
  let ?db = "sys_db s" and ?rows = "map attempt_view_of (attempt_rows tenant did (sys_db s))"
  have inv: "db_inv ?db" using dreach_inv [OF assms(1)] worker_inv_db_inv by (auto simp: dsys_inv_def)
  have fetch: "(\<lambda>c. service_list_attempts no_faults tenant did limit c ?db)
      = (\<lambda>c. list_attempts no_faults tenant did limit c ?db)"
    using assms(3) by (simp add: service_list_attempts_def)
  have "length ?rows \<le> length (db_attempts ?db)" by (simp add: attempt_rows_def attempts_of_def)
  then have "length ?rows \<le> Suc (length (db_attempts ?db)) * nat (page_limit limit)"
    using attempts.size [of limit]
    by (metis le_SucI le_trans mult.commute mult_le_mono1 nat_mult_1 Suc_leI One_nat_def)
  then have "walk (\<lambda>c. list_attempts no_faults tenant did limit c ?db)
      (Suc (length (db_attempts ?db))) [] = Some ?rows"
    using attempts.walk_all [where s = ?db] inv assms(2) by blast
  moreover have "set ?rows = attempt_view_of ` {a \<in> set (db_attempts ?db). at_delivery_id a = did}"
    using assms(2) by (auto simp: attempt_rows_def attempts_of_def)
  moreover have "sorted_wrt (\<lambda>a b. av_number a < av_number b) ?rows"
    using sort_key_strict [OF attempts_of_inv(1) [OF inv]]
    by (simp add: attempt_rows_def sorted_wrt_map attempt_view_of_def)
  ultimately show ?thesis unfolding fetch by blast
qed

lemma attempt_pages_complete_example:
  "\<exists>db' rows. walk (\<lambda>c. service_list_attempts no_faults 3 11 1 c db') 2 [] = Some rows
      \<and> av_number ` set rows = {1}"
proof -
  obtain db' where d: "deliver no_faults example_deliver_env example_copy example_claimed_db
      = (Inr (), db')" using example_deliver by blast
  have r: "dreach Total_Index \<lparr>sys_db = db', sys_copies = []\<rparr>"
    using dreach.step [OF example_claimed_reach, OF dstep.work [where xs = "[]" and ys = "[]"
      and g = no_faults and env = example_deliver_env and c = "claimed_copy 5000 example_delivery"]]
      d by (simp add: example_copy_def)
  have s: "dv_decrypt example_deliver_env (es_secret (d_snapshot example_copy)) = Inr ''s''"
    by (simp add: example_copy_secret example_deliver_env_def)
  note rows = deliver_result [OF s refl d]
  have att: "\<exists>a. db_attempts db' = [a] \<and> at_delivery_id a = 11 \<and> at_number a = 1"
    by (simp add: rows(1) example_claimed_db_def example_db_def empty_delivery_db_def attempt_of_def
        example_copy_def example_delivery_def)
  have ex: "delivery_exists 3 11 db'"
    by (simp add: delivery_exists_def rows(2) example_claimed_db_def update_where_def lease_row_def
        transition_row_def example_delivery_def new_delivery_def example_event_def)
  obtain a where a: "db_attempts db' = [a]" "at_delivery_id a = 11" "at_number a = 1" using att by blast
  have db: "sys_db \<lparr>sys_db = db', sys_copies = []\<rparr> = db'" and len: "Suc (length (db_attempts db')) = 2"
    by (simp_all add: a)
  have n: "(3 :: uuid) \<noteq> uuid_nil" by simp
  from attempt_pages_complete [OF r _ n, unfolded db len, OF ex, of 1]
  obtain rows where "walk (\<lambda>c. service_list_attempts no_faults 3 11 1 c db') 2 [] = Some rows"
    and "set rows = attempt_view_of ` {x \<in> set [a]. at_delivery_id x = 11}" unfolding a(1) by blast
  moreover have "{x \<in> set [a]. at_delivery_id x = 11} = {a}" using a by auto
  ultimately show ?thesis using a(3)
    by (intro exI [of _ db'] exI [of _ rows]) (simp add: attempt_view_of_def)
qed

section \<open>Tenants\<close>

lemma cut_page_rows:
  assumes "1 \<le> n" and "n \<le> 100" and "length rs \<le> nat n + 1"
  shows "set (fst (cut_page (nat n) c rs)) \<subseteq> set rs" and "length (fst (cut_page (nat n) c rs)) \<le> 100"
  using assms by (auto simp: cut_page_def dest: in_set_takeD)

lemma list_deliveries_rows:
  assumes "list_deliveries f show_id read_id tenant flt dlq_only db = Inr (items, nxt)"
  shows "length items \<le> 100
    \<and> list_all (\<lambda>d. d_tenant_id d = tenant \<and> (if dlq_only then d_status d = DLQ else True)) items"
proof -
  let ?n = "page_limit (lf_limit flt)"
  from assms obtain status t i rows where st: "status_filter dlq_only (lf_status flt) = Inr status"
    and scan: "scan_rows (\<lambda>d. map_option (wrap ''scan delivery: '') (f (LD_Scan (d_id d))))
        (map list_row (take (nat ?n + 1) (newest_first d_keyset
           (filter (\<lambda>d. list_where tenant status flt d \<and> before_cursor t i (d_keyset d))
              (db_deliveries db))))) = Inr rows"
    and page: "cut_page (nat ?n) (delivery_cursor show_id) rows = (items, nxt)"
    by (auto simp: list_deliveries_def Let_def guard_Inr split: sum.splits option.splits prod.splits)
  note rows = scan_rows_Inr [OF scan]
  note cut = cut_page_rows [OF page_limit_bounds, of rows "lf_limit flt" "delivery_cursor show_id", unfolded page fst_conv]
  have "length rows \<le> nat ?n + 1" by (simp add: rows)
  note cut = cut [OF this]
  have "d_tenant_id d = tenant \<and> (if dlq_only then d_status d = DLQ else True)" if "d \<in> set items" for d
  proof -
    have "d \<in> set rows" using that cut(1) by blast
    then obtain x where "d = list_row x" "list_where tenant status flt x"
      unfolding rows by (auto dest!: in_set_takeD)
    moreover have "dlq_only \<Longrightarrow> status = ''DLQ''"
      using st by (auto simp: status_filter_def Let_def split: if_splits)
    ultimately show ?thesis by (cases "d_status x") (auto simp: list_where_def)
  qed
  then show ?thesis using cut(2) by (simp add: list_all_iff)
qed

lemma list_attempts_rows:
  assumes "list_attempts g tenant did limit cursor db = Inr (items, nxt)"
  shows "length items \<le> 100 \<and> delivery_exists tenant did db"
proof -
  let ?n = "page_limit limit"
  from assms obtain after rows where
    scan: "scan_rows (\<lambda>a. g (LA_Scan (av_number a))) (map attempt_view_of (take (nat ?n + 1)
       (sort_key at_number (filter (\<lambda>a. after < at_number a) (attempts_of tenant did db))))) = Inr rows"
    and page: "cut_page (nat ?n) attempt_cursor rows = (items, nxt)"
    and ex: "items = [] \<Longrightarrow> delivery_exists tenant did db"
    by (auto simp: list_attempts_def Let_def guard_Inr split: sum.splits option.splits prod.splits if_splits)
  note rows = scan_rows_Inr [OF scan]
  note cut = cut_page_rows [OF page_limit_bounds, of rows limit attempt_cursor, unfolded page fst_conv]
  have "length rows \<le> nat ?n + 1" by (simp add: rows)
  note cut = cut [OF this]
  have "delivery_exists tenant did db"
  proof (cases items)
    case (Cons a as)
    then have "a \<in> set rows" using cut(1) by auto
    then have "attempts_of tenant did db \<noteq> []" unfolding rows by (auto dest!: in_set_takeD)
    then show ?thesis by (simp add: attempts_of_def split: if_splits)
  qed (use ex in simp)
  then show ?thesis using cut(2) by simp
qed

text \<open>
  Whatever calls fail and whatever the cursor, the filters and the limit: a page of
  \<open>List\<close> or \<open>ListDLQ\<close> holds at most 100 deliveries, all of the tenant that asks, and the page
  of \<open>ListDLQ\<close> only dead ones; a page of \<open>ListAttempts\<close> holds at most 100 attempts, and it is
  an error when the delivery is not one of the tenant.
\<close>

lemma lists_keep_to_tenant:
  "(case (if dlq_only then service_list_dlq else service_list) f show_id read_id tenant flt db of
      Inl e \<Rightarrow> True
    | Inr (items, nxt) \<Rightarrow> length items \<le> 100
        \<and> list_all (\<lambda>d. d_tenant_id d = tenant \<and> (if dlq_only then d_status d = DLQ else True)) items)
   \<and> (case service_list_attempts g tenant did limit cursor db of
      Inl e \<Rightarrow> True
    | Inr (items, nxt) \<Rightarrow> length items \<le> 100 \<and> delivery_exists tenant did db)"
proof (rule conjI)
  show "case (if dlq_only then service_list_dlq else service_list) f show_id read_id tenant flt db of
      Inl e \<Rightarrow> True
    | Inr (items, nxt) \<Rightarrow> length items \<le> 100
        \<and> list_all (\<lambda>d. d_tenant_id d = tenant \<and> (if dlq_only then d_status d = DLQ else True)) items"
    using list_deliveries_rows [of f show_id read_id tenant flt dlq_only db]
    by (auto simp: service_list_def service_list_dlq_def split: sum.split)
  show "case service_list_attempts g tenant did limit cursor db of
      Inl e \<Rightarrow> True
    | Inr (items, nxt) \<Rightarrow> length items \<le> 100 \<and> delivery_exists tenant did db"
    using list_attempts_rows [of g tenant did limit cursor db]
    by (auto simp: service_list_attempts_def split: sum.split)
qed

end
