(* ===== verification/DeliveryHttp.thy ===== *)
theory DeliveryHttp
  imports DeliveryQueryProps Http
begin

text \<open>
  delivery-service/internal/httpapi/handler.go and the routes of cmd/server/main.go: the
  handlers with the status of every branch. \<open>uuid.Parse\<close>, the text of a UUID and the text of
  \<open>strconv\<close>'s error are arguments.
\<close>

section \<open>What the answers show\<close>

record delivery_view =
  vw_id :: uuid
  vw_event_id :: uuid
  vw_endpoint_id :: uuid
  vw_status :: delivery_status
  vw_attempt_count :: int
  vw_next_attempt_at :: time
  vw_last_attempt_at :: "time option"
  vw_last_status_code :: "int option"
  vw_last_error_code :: "string option"
  vw_replay_of :: "uuid option"
  vw_created_at :: time
  vw_updated_at :: time
  vw_completed_at :: "time option"

definition delivery_view_of :: "delivery \<Rightarrow> delivery_view" where
  "delivery_view_of d =
     \<lparr>vw_id = d_id d, vw_event_id = d_event_id d, vw_endpoint_id = d_endpoint_id d, vw_status = d_status d,
      vw_attempt_count = d_attempt_count d, vw_next_attempt_at = d_next_attempt_at d,
      vw_last_attempt_at = d_last_attempt_at d, vw_last_status_code = d_last_status_code d,
      vw_last_error_code = d_last_error_code d, vw_replay_of = d_replay_of d, vw_created_at = d_created_at d,
      vw_updated_at = d_updated_at d, vw_completed_at = d_completed_at d\<rparr>"

datatype delivery_value =
    Health_Ok
  | Delivery_Value delivery_view "string option"
  | Page_Value "delivery_view list" string
  | Attempts_Value "attempt_view list" string
  | Queued_Value uuid

definition page_response :: "delivery_page \<Rightarrow> delivery_value" where
  "page_response page = Page_Value (map delivery_view_of (fst page)) (snd page)"

record delivery_http_env =
  dh_read_id :: "string \<Rightarrow> uuid option"
  dh_show_id :: "uuid \<Rightarrow> string"
  dh_atoi_error :: "string \<Rightarrow> string"
  dh_get :: "get_call faults"
  dh_list :: "list_call faults"
  dh_attempts :: "attempts_call faults"
  dh_replay_get :: "get_call faults"
  dh_replay :: "error option"
  dh_index :: event_endpoint_index
  dh_now :: time
  dh_new_id :: uuid

section \<open>Handlers\<close>

definition handle_get_delivery ::
    "delivery_http_env \<Rightarrow> http_request \<Rightarrow> delivery_db \<Rightarrow> delivery_value http_response" where
  "handle_get_delivery h rq db =
     (case tenant_of (dh_read_id h) rq of
        None \<Rightarrow> write_error 401 ''invalid tenant''
      | Some tenant \<Rightarrow>
          (case dh_read_id h (path_rest ''/v1/deliveries/'' rq) of
             None \<Rightarrow> write_error 400 ''invalid delivery ID''
           | Some i \<Rightarrow>
               (case service_get_delivery (dh_get h) tenant i db of
                  Inl e \<Rightarrow>
                    (if errors_is e Delivery_ErrNotFound then write_error 404 ''delivery not found''
                     else write_error 500 ''failed to get delivery'')
                | Inr d \<Rightarrow> write_json 200 (Delivery_Value (delivery_view_of d) (d_last_error_message d)))))"

text \<open>\<open>parseListFilter\<close>: a limit that is no number from 1 to 100 is 50.\<close>

definition parse_list_filter :: "(string \<Rightarrow> uuid option) \<Rightarrow> http_request \<Rightarrow> list_filter result" where
  "parse_list_filter read_id rq =
     (let limit = (case atoi (hq_query rq ''limit'') of
                     None \<Rightarrow> 50 | Some n \<Rightarrow> if n < 1 \<or> 100 < n then 50 else n);
          endpoint = hq_query rq ''endpoint_id''; event = hq_query rq ''event_id'' in
      if endpoint \<noteq> [] \<and> read_id endpoint = None then Inl (Msg ''invalid endpoint_id'')
      else if event \<noteq> [] \<and> read_id event = None then Inl (Msg ''invalid event_id'')
      else Inr \<lparr>lf_limit = limit, lf_cursor = hq_query rq ''cursor'', lf_status = hq_query rq ''status'',
                lf_endpoint_id = (if endpoint = [] then None else read_id endpoint),
                lf_event_id = (if event = [] then None else read_id event)\<rparr>)"

definition handle_list ::
    "(list_call faults \<Rightarrow> (uuid \<Rightarrow> string) \<Rightarrow> (string \<Rightarrow> uuid option) \<Rightarrow> uuid \<Rightarrow> list_filter \<Rightarrow> delivery_db
        \<Rightarrow> delivery_page result)
       \<Rightarrow> delivery_http_env \<Rightarrow> http_request \<Rightarrow> delivery_db \<Rightarrow> delivery_value http_response" where
  "handle_list list h rq db =
     (case tenant_of (dh_read_id h) rq of
        None \<Rightarrow> write_error 401 ''invalid tenant''
      | Some tenant \<Rightarrow>
          (case parse_list_filter (dh_read_id h) rq of
             Inl e \<Rightarrow> write_error 400 (error_text e)
           | Inr flt \<Rightarrow>
               (case list (dh_list h) (dh_show_id h) (dh_read_id h) tenant flt db of
                  Inl e \<Rightarrow> write_error 400 (error_text e)
                | Inr page \<Rightarrow> write_json 200 (page_response page))))"

definition handle_list_deliveries ::
    "delivery_http_env \<Rightarrow> http_request \<Rightarrow> delivery_db \<Rightarrow> delivery_value http_response" where
  "handle_list_deliveries = handle_list service_list"

definition handle_list_dlq ::
    "delivery_http_env \<Rightarrow> http_request \<Rightarrow> delivery_db \<Rightarrow> delivery_value http_response" where
  "handle_list_dlq = handle_list service_list_dlq"

text \<open>The limit is read before the error of reading it is looked at: without a limit the request
  fails.\<close>

definition handle_list_attempts ::
    "delivery_http_env \<Rightarrow> http_request \<Rightarrow> delivery_db \<Rightarrow> delivery_value http_response" where
  "handle_list_attempts h rq db =
     (case tenant_of (dh_read_id h) rq of
        None \<Rightarrow> write_error 401 ''invalid tenant''
      | Some tenant \<Rightarrow>
          (case dh_read_id h (hq_id rq) of
             None \<Rightarrow> write_error 400 ''invalid delivery ID''
           | Some i \<Rightarrow>
               (let raw = hq_query rq ''limit'' in
                case atoi raw of
                  None \<Rightarrow> write_error 400 (dh_atoi_error h raw)
                | Some n \<Rightarrow>
                    (case service_list_attempts (dh_attempts h) tenant i (if n < 1 \<or> 100 < n then 50 else n)
                            (hq_query rq ''cursor'') db of
                       Inl e \<Rightarrow>
                         (if errors_is e Delivery_ErrNotFound then write_error 404 ''delivery not found''
                          else write_error 400 (error_text e))
                     | Inr page \<Rightarrow> write_json 200 (Attempts_Value (fst page) (snd page))))))"

definition handle_replay ::
    "delivery_http_env \<Rightarrow> http_request \<Rightarrow> delivery_db \<Rightarrow> delivery_value http_response \<times> delivery_db" where
  "handle_replay h rq db =
     (case tenant_of (dh_read_id h) rq of
        None \<Rightarrow> (write_error 401 ''invalid tenant'', db)
      | Some tenant \<Rightarrow>
          (case dh_read_id h (path_rest ''/v1/deliveries/'' rq) of
             None \<Rightarrow> (write_error 400 ''invalid delivery ID'', db)
           | Some i \<Rightarrow>
               (case replay (dh_replay_get h) (dh_replay h) (dh_index h) (dh_now h) (dh_new_id h) tenant i db of
                  (Inl e, db') \<Rightarrow>
                    (if errors_is e Delivery_ErrNotFound then write_error 404 ''delivery not found''
                     else write_error 409 (error_text e), db')
                | (Inr j, db') \<Rightarrow> (write_json 202 (Queued_Value j), db'))))"

section \<open>Routes\<close>

datatype delivery_route = Get_Health | List_Deliveries | Get_Delivery | List_Attempts | Replay_Delivery | List_DLQ

fun delivery_serve ::
    "delivery_http_env \<Rightarrow> delivery_route \<Rightarrow> http_request \<Rightarrow> delivery_db
       \<Rightarrow> delivery_value http_response \<times> delivery_db" where
  "delivery_serve h Get_Health rq db = (write_json 200 Health_Ok, db)"
| "delivery_serve h List_Deliveries rq db = (handle_list_deliveries h rq db, db)"
| "delivery_serve h Get_Delivery rq db = (handle_get_delivery h rq db, db)"
| "delivery_serve h List_Attempts rq db = (handle_list_attempts h rq db, db)"
| "delivery_serve h Replay_Delivery rq db = handle_replay h rq db"
| "delivery_serve h List_DLQ rq db = (handle_list_dlq h rq db, db)"

section \<open>Tenants\<close>

text \<open>What a body may show to a tenant.\<close>

definition shows_delivery_of :: "uuid \<Rightarrow> delivery_db \<Rightarrow> delivery_view \<Rightarrow> bool" where
  "shows_delivery_of tenant db v \<longleftrightarrow>
     (\<exists>d\<in>set (db_deliveries db). d_tenant_id d = tenant \<and> v = delivery_view_of d)"

definition body_of_tenant :: "uuid \<Rightarrow> delivery_db \<Rightarrow> delivery_value \<Rightarrow> bool" where
  "body_of_tenant tenant db b \<longleftrightarrow>
     (case b of
        Delivery_Value v m \<Rightarrow> shows_delivery_of tenant db v
      | Page_Value vs c \<Rightarrow> length vs \<le> 100 \<and> list_all (shows_delivery_of tenant db) vs
      | Attempts_Value as c \<Rightarrow>
          length as \<le> 100
          \<and> list_all (\<lambda>a. list_ex (\<lambda>r. a = attempt_view_of r
                \<and> list_ex (\<lambda>d. d_tenant_id d = tenant \<and> d_id d = at_delivery_id r) (db_deliveries db)) (db_attempts db)) as
      | _ \<Rightarrow> True)"

lemma delivery_view_list_row: "delivery_view_of (list_row d) = delivery_view_of d"
  by (simp add: delivery_view_of_def list_row_def)

lemma list_deliveries_views:
  assumes "list_deliveries f show_id read_id tenant flt dlq_only db = Inr (items, nxt)" and "d \<in> set items"
  shows "shows_delivery_of tenant db (delivery_view_of d)"
proof -
  from assms(1) obtain status t i rows where
    scan: "scan_rows (\<lambda>d. map_option (wrap ''scan delivery: '') (f (LD_Scan (d_id d))))
        (map list_row (take (nat (page_limit (lf_limit flt)) + 1) (newest_first d_keyset
           (filter (\<lambda>d. list_where tenant status flt d \<and> before_cursor t i (d_keyset d))
              (db_deliveries db))))) = Inr rows"
    and page: "cut_page (nat (page_limit (lf_limit flt))) (delivery_cursor show_id) rows = (items, nxt)"
    by (auto simp: list_deliveries_def Let_def guard_Inr split: sum.splits option.splits prod.splits)
  have "d \<in> set rows" using page assms(2) by (auto simp: cut_page_def dest: in_set_takeD split: if_splits)
  then obtain x where "x \<in> set (db_deliveries db)" "d = list_row x" "list_where tenant status flt x"
    unfolding scan_rows_Inr [OF scan] by (auto dest!: in_set_takeD)
  then show ?thesis by (auto simp: shows_delivery_of_def delivery_view_list_row list_where_def)
qed

lemma list_attempts_views:
  assumes "list_attempts g tenant did limit cursor db = Inr (items, nxt)" and "a \<in> set items"
  shows "\<exists>r\<in>set (db_attempts db). a = attempt_view_of r
    \<and> (\<exists>d\<in>set (db_deliveries db). d_tenant_id d = tenant \<and> d_id d = at_delivery_id r)"
proof -
  from assms(1) obtain after rows where
    scan: "scan_rows (\<lambda>a. g (LA_Scan (av_number a))) (map attempt_view_of (take (nat (page_limit limit) + 1)
       (sort_key at_number (filter (\<lambda>a. after < at_number a) (attempts_of tenant did db))))) = Inr rows"
    and page: "cut_page (nat (page_limit limit)) attempt_cursor rows = (items, nxt)"
    by (auto simp: list_attempts_def Let_def guard_Inr split: sum.splits option.splits prod.splits if_splits)
  have "a \<in> set rows" using page assms(2) by (auto simp: cut_page_def dest: in_set_takeD split: if_splits)
  then obtain r where "r \<in> set (attempts_of tenant did db)" "a = attempt_view_of r"
    unfolding scan_rows_Inr [OF scan] by (auto dest!: in_set_takeD)
  then show ?thesis by (auto simp: attempts_of_def delivery_exists_def list_ex_iff split: if_splits)
qed

section \<open>No route leaves the tenant\<close>

lemma handle_list_body:
  assumes "tenant_of (dh_read_id h) rq = Some tenant"
    and "\<And>f s r t flt db. (\<exists>e. lst f s r t flt db = Inl e) \<or> lst f s r t flt db = list_deliveries f s r t flt dlq db"
  shows "case snd (handle_list lst h rq db) of Value_Body b \<Rightarrow> body_of_tenant tenant db b | _ \<Rightarrow> True"
proof (cases "parse_list_filter (dh_read_id h) rq")
  case (Inr flt)
  show ?thesis
  proof (cases "lst (dh_list h) (dh_show_id h) (dh_read_id h) tenant flt db")
    case (Inr page)
    moreover obtain items nxt where p: "page = (items, nxt)" by fastforce
    ultimately have l: "list_deliveries (dh_list h) (dh_show_id h) (dh_read_id h) tenant flt dlq db = Inr (items, nxt)"
      using assms(2) [of "dh_list h" "dh_show_id h" "dh_read_id h" tenant flt db] by auto
    show ?thesis
      using \<open>parse_list_filter _ _ = _\<close> Inr assms(1) p list_deliveries_rows [OF l] list_deliveries_views [OF l]
      by (simp add: handle_list_def write_defs page_response_def body_of_tenant_def list_all_iff)
  qed (use Inr assms(1) in \<open>simp add: handle_list_def write_defs\<close>)
qed (use assms(1) in \<open>simp add: handle_list_def write_defs\<close>)

lemma handle_attempts_body:
  assumes "tenant_of (dh_read_id h) rq = Some tenant"
  shows "case snd (handle_list_attempts h rq db) of Value_Body b \<Rightarrow> body_of_tenant tenant db b | _ \<Rightarrow> True"
proof (cases "dh_read_id h (hq_id rq)")
  case (Some i)
  show ?thesis
  proof (cases "atoi (hq_query rq ''limit'')")
    case (Some n)
    define m where "m = (if n < 1 \<or> 100 < n then 50 else n)"
    show ?thesis
    proof (cases "service_list_attempts (dh_attempts h) tenant i m (hq_query rq ''cursor'') db")
      case (Inr page)
      obtain items nxt where p: "page = (items, nxt)" by fastforce
      have l: "list_attempts (dh_attempts h) tenant i m (hq_query rq ''cursor'') db = Inr (items, nxt)"
        using Inr p by (simp add: service_list_attempts_def split: if_splits)
      show ?thesis
        using \<open>dh_read_id h _ = _\<close> Some Inr assms p list_attempts_rows [OF l] list_attempts_views [OF l]
        by (auto simp: handle_list_attempts_def m_def [symmetric] write_defs body_of_tenant_def list_all_iff list_ex_iff)
    qed (use \<open>dh_read_id h _ = _\<close> Some assms in \<open>auto simp: handle_list_attempts_def m_def [symmetric] write_defs Let_def\<close>)
  qed (use Some assms in \<open>simp add: handle_list_attempts_def write_defs\<close>)
qed (use assms in \<open>simp add: handle_list_attempts_def write_defs\<close>)

lemma get_delivery_row:
  assumes "get_delivery f tenant did db = Inr d"
  shows "d \<in> set (db_deliveries db)" and "d_tenant_id d = tenant"
  using assms by (auto simp: get_delivery_def guard_Inr find_Some_iff split: option.splits)

lemma handle_get_body:
  assumes "tenant_of (dh_read_id h) rq = Some tenant"
  shows "case snd (handle_get_delivery h rq db) of Value_Body b \<Rightarrow> body_of_tenant tenant db b | _ \<Rightarrow> True"
  using assms by (auto simp: handle_get_delivery_def write_defs body_of_tenant_def shows_delivery_of_def
      dest: get_delivery_row split: option.split sum.split)

text \<open>A replay adds one row, a copy of a failed or dead delivery of the tenant.\<close>

definition replayed_from :: "uuid \<Rightarrow> delivery_db \<Rightarrow> delivery_db \<Rightarrow> bool" where
  "replayed_from tenant db db' \<longleftrightarrow>
     list_ex (\<lambda>d. d_tenant_id d = tenant \<and> (d_status d = FAILED \<or> d_status d = DLQ)
        \<and> list_ex (\<lambda>x. d_replay_of x = Some (d_id d) \<and> d_tenant_id x = tenant
              \<and> db' = add_delivery x db) (db_deliveries db')) (db_deliveries db)"

lemma handle_replay_effect:
  assumes "tenant_of (dh_read_id h) rq = Some tenant"
  shows "(case snd (fst (handle_replay h rq db)) of Value_Body b \<Rightarrow> body_of_tenant tenant db b | _ \<Rightarrow> True)
    \<and> (snd (handle_replay h rq db) = db \<or> replayed_from tenant db (snd (handle_replay h rq db)))"
proof (cases "dh_read_id h (path_rest ''/v1/deliveries/'' rq)")
  case (Some i)
  obtain r db' where rp: "replay (dh_replay_get h) (dh_replay h) (dh_index h) (dh_now h) (dh_new_id h) tenant i db = (r, db')"
    by fastforce
  have "db' = db \<or> replayed_from tenant db db'"
  proof (cases "db' = db")
    case False
    then obtain d where get: "get_delivery (dh_replay_get h) tenant i db = Inr d"
        and st: "d_status d = FAILED \<or> d_status d = DLQ"
        and cr: "create_replay (dh_replay h) (dh_index h) (dh_now h) (dh_new_id h) d db = (r, db')"
      using rp by (auto simp: replay_def split: sum.splits if_splits)
    note d = get_delivery_row [OF get]
    have add: "db' = add_delivery (replay_row (dh_now h) (dh_new_id h) d) db"
      using cr False by (auto simp: create_replay_def insert_delivery_def guard_Inr split: sum.splits if_splits)
    have "replayed_from tenant db db'" unfolding replayed_from_def list_ex_iff
      by (rule bexI [OF _ d(1)]) (use add d(2) st in \<open>auto simp: add_delivery_def list_ex_iff\<close>)
    then show ?thesis by simp
  qed simp
  then show ?thesis using assms Some rp
    by (auto simp: handle_replay_def write_defs body_of_tenant_def split: sum.split)
qed (use assms in \<open>simp add: handle_replay_def write_defs\<close>)

lemma delivery_serve_no_tenant:
  assumes "tenant_of (dh_read_id h) rq = None" and "route \<noteq> Get_Health"
  shows "delivery_serve h route rq db = (write_error 401 ''invalid tenant'', db)"
  using assms by (cases route) (simp_all add: handle_get_delivery_def handle_list_deliveries_def handle_list_dlq_def
      handle_list_def handle_list_attempts_def handle_replay_def)

lemma delivery_serve_tenant:
  assumes "tenant_of (dh_read_id h) rq = Some tenant"
  shows "(case snd (fst (delivery_serve h route rq db)) of Value_Body b \<Rightarrow> body_of_tenant tenant db b | _ \<Rightarrow> True)
    \<and> (snd (delivery_serve h route rq db) = db
       \<or> route = Replay_Delivery \<and> replayed_from tenant db (snd (delivery_serve h route rq db)))"
proof -
  have list: "case snd (handle_list_deliveries h rq db) of Value_Body b \<Rightarrow> body_of_tenant tenant db b | _ \<Rightarrow> True"
    "case snd (handle_list_dlq h rq db) of Value_Body b \<Rightarrow> body_of_tenant tenant db b | _ \<Rightarrow> True"
    unfolding handle_list_deliveries_def handle_list_dlq_def
    by (rule handle_list_body [OF assms, where dlq = False]; simp add: service_list_def)
      (rule handle_list_body [OF assms, where dlq = True]; simp add: service_list_dlq_def)
  show ?thesis
  proof (cases route)
    case Replay_Delivery
    then show ?thesis using handle_replay_effect [OF assms, of db] by (simp add: split_def)
  qed (use list handle_get_body [OF assms, of db] handle_attempts_body [OF assms, of db] in
      \<open>simp_all add: write_defs body_of_tenant_def\<close>)
qed

text \<open>
  C36. Every route of the delivery service, whatever the request and whatever fails: without a
  tenant in the header the answer is 401 and nothing changes. With one, a body with data shows
  deliveries and attempts of that tenant only, at most 100 of them, and the tables either stay
  as they are or gain one row, the replay of a failed or dead delivery of that tenant.
\<close>

theorem delivery_api_keeps_to_tenant:
  "case delivery_serve h route rq db of (resp, db') \<Rightarrow>
     (case tenant_of (dh_read_id h) rq of
        None \<Rightarrow> (if route = Get_Health then True else resp = write_error 401 ''invalid tenant'') \<and> db' = db
      | Some tenant \<Rightarrow>
          (case snd resp of Value_Body b \<Rightarrow> body_of_tenant tenant db b | _ \<Rightarrow> True)
          \<and> (if db' = db then True else route = Replay_Delivery \<and> replayed_from tenant db db'))"
proof (cases "tenant_of (dh_read_id h) rq")
  case None
  then show ?thesis using delivery_serve_no_tenant [OF None] by (cases "route = Get_Health") auto
next
  case (Some tenant)
  then show ?thesis using delivery_serve_tenant [OF Some, where route = route and db = db] by (auto simp: split_def)
qed

section \<open>Two routes that do not do what they are for\<close>

text \<open>The path of a replay ends in \<open>/replay\<close>, and the handler takes the identifier from the rest
  of the path after \<open>/v1/deliveries/\<close>: no identifier is read, and no delivery is ever replayed.\<close>

lemma replay_route_bad_request:
  assumes "hq_path rq = ''/v1/deliveries/'' @ p @ ''/replay''" and "dh_read_id h (p @ ''/replay'') = None"
    and "tenant_of (dh_read_id h) rq = Some tenant"
  shows "delivery_serve h Replay_Delivery rq db = (write_error 400 ''invalid delivery ID'', db)"
proof -
  have "path_rest ''/v1/deliveries/'' rq = p @ ''/replay''" unfolding path_rest_def assms(1) by (rule trim_prefix_append)
  then show ?thesis using assms(2,3) by (simp add: handle_replay_def)
qed

text \<open>A list of attempts without a limit is refused with the error of reading the empty text.\<close>

lemma attempts_without_limit:
  assumes "hq_query rq ''limit'' = []" and "dh_read_id h (hq_id rq) = Some i"
    and "tenant_of (dh_read_id h) rq = Some tenant"
  shows "delivery_serve h List_Attempts rq db = (write_error 400 (dh_atoi_error h []), db)"
  using assms by (simp add: handle_list_attempts_def atoi_def)

end
