(* ===== verification/EventHttp.thy ===== *)
theory EventHttp
  imports EventSystem Http
begin

text \<open>
  event-service/internal/httpapi/handler.go: publishing an event and reading it, with the status
  of every branch. The decoded body is part of the request (\<open>None\<close> if it is no JSON of the
  expected form); \<open>uuid.Parse\<close> is an argument.
\<close>

record event_request = http_request +
  hq_idempotency_key :: string  \<comment> \<open>the header \<open>Idempotency-Key\<close>\<close>
  hq_event :: "publish_request option"

datatype event_value = Accepted_Value uuid | Event_Value event

record event_http_env =
  eh_read_id :: "string \<Rightarrow> uuid option"
  eh_create :: "create_event_call faults"
  eh_env :: event_env
  eh_get :: "error option"

section \<open>Handlers\<close>

definition with_header_key :: "event_request \<Rightarrow> publish_request \<Rightarrow> publish_request" where
  "with_header_key rq req =
     (if pq_idempotency_key req = [] then req\<lparr>pq_idempotency_key := hq_idempotency_key rq\<rparr> else req)"

definition handle_publish_event ::
    "event_http_env \<Rightarrow> event_request \<Rightarrow> event_db \<Rightarrow> event_value http_response \<times> event_db" where
  "handle_publish_event h rq db =
     (case tenant_of (eh_read_id h) rq of
        None \<Rightarrow> (write_error 401 ''invalid tenant'', db)
      | Some tenant \<Rightarrow>
          (case hq_event rq of
             None \<Rightarrow> (write_error 400 ''invalid JSON'', db)
           | Some req \<Rightarrow>
               (case publish (create_event (eh_create h) (eh_env h)) tenant (with_header_key rq req) db of
                  (Inl e, db') \<Rightarrow>
                    (if errors_is e Event_ErrInvalidRequest then write_error 400 (error_text e)
                     else write_error 500 ''failed to publish event'', db')
                | (Inr e, db') \<Rightarrow> (write_json 202 (Accepted_Value (ev_id e)), db'))))"

text \<open>Every error of reading an event is answered with 404.\<close>

definition handle_get_event ::
    "event_http_env \<Rightarrow> event_request \<Rightarrow> event_db \<Rightarrow> event_value http_response" where
  "handle_get_event h rq db =
     (case tenant_of (eh_read_id h) rq of
        None \<Rightarrow> write_error 401 ''invalid tenant''
      | Some tenant \<Rightarrow>
          (case eh_read_id h (path_rest ''/v1/events/'' rq) of
             None \<Rightarrow> write_error 400 ''invalid event ID''
           | Some i \<Rightarrow>
               (case get_by_id (eh_get h) tenant i db of
                  Inl e \<Rightarrow> write_error 404 ''event not found''
                | Inr e \<Rightarrow> write_json 200 (Event_Value e))))"

datatype event_route = Publish_Event | Get_Event

fun event_serve ::
    "event_http_env \<Rightarrow> event_route \<Rightarrow> event_request \<Rightarrow> event_db \<Rightarrow> event_value http_response \<times> event_db" where
  "event_serve h Publish_Event rq db = handle_publish_event h rq db"
| "event_serve h Get_Event rq db = (handle_get_event h rq db, db)"

section \<open>What publishing promises\<close>

lemma event_serve_publish:
  assumes "event_serve h Publish_Event rq db = (resp, db')" and "tenant_of (eh_read_id h) rq = Some t"
  shows "(\<exists>req e. hq_event rq = Some req \<and> resp = write_json 202 (Accepted_Value (ev_id e))
        \<and> publish (create_event (eh_create h) (eh_env h)) t (with_header_key rq req) db = (Inr e, db'))
     \<or> (\<exists>m. resp = write_error 400 m \<or> resp = write_error 500 m) \<and> db' = db"
proof (cases "hq_event rq")
  case (Some req)
  obtain r db1 where p: "publish (create_event (eh_create h) (eh_env h)) t (with_header_key rq req) db = (r, db1)"
    by fastforce
  have "db1 = db" if "r = Inl e" for e
    using p that create_event_error by (auto simp: publish_eq split: if_splits)
  then show ?thesis using assms Some p by (cases r) (auto simp: handle_publish_event_def split: if_splits)
qed (use assms in \<open>auto simp: handle_publish_event_def\<close>)

text \<open>An event that was accepted under a key is the one the key leads to.\<close>

lemma accepted_event_found:
  assumes "event_db_ok db" and "publish (create_event f env) t req db = (Inr e, db')"
  shows "event_db_ok db'" and "\<exists>e'. get_by_id None t (ev_id e) db' = Inr e' \<and> ev_id e' = ev_id e \<and> ev_tenant_id e' = t"
proof -
  let ?w = "(f, env)"
  have acc: "accepted_events db' (t, pq_idempotency_key req) = Some (ev_id e)"
    using event_store.publish_accepted [of db ?w t req e db'] assms by simp
  show ok: "event_db_ok db'"
    using event_store.publish_keeps_ok [of db ?w t req] assms by simp
  obtain e' where g: "get_by_id None t (ev_id e) db' = Inr e'" using event_store.get_known [OF ok acc] by blast
  moreover have "ev_id e' = ev_id e \<and> ev_tenant_id e' = t" using event_store.get_own [OF g] .
  ultimately show "\<exists>e'. get_by_id None t (ev_id e) db' = Inr e' \<and> ev_id e' = ev_id e \<and> ev_tenant_id e' = t" by blast
qed

lemma other_tenant_blind:
  assumes "event_db_ok db" and "get_by_id None t i db = Inr e" and "u \<noteq> t"
  shows "\<exists>err. get_by_id f u i db = Inl err"
proof -
  have "distinct (map er_id (evs_events db))" using assms(1) by (simp add: event_db_ok_def)
  moreover obtain r where "r \<in> set (evs_events db)" "er_id r = i" "er_tenant_id r = t"
    using assms(2) by (auto simp: get_by_id_def select_event_def guard_Inr dest!: find_SomeD split: option.splits)
  ultimately have "List.find (\<lambda>r. er_id r = i \<and> er_tenant_id r = u) (evs_events db) = None"
    using assms(3) by (auto simp: find_None_iff dest: distinct_keys_eq)
  then show ?thesis by (cases f) (simp_all add: get_by_id_def select_event_def)
qed

text \<open>
  C37. A published event is served: when \<open>POST /v1/events\<close> answers 202 with an identifier, then
  in the tables it leaves, \<open>GET /v1/events/\<close> with the text of that identifier answers 200 to the
  same tenant, with an event of that identifier and tenant, and 404 to every other tenant. Under
  an idempotency key the tenant has not used, the event has the type, the source and the data
  of the request. Under a known key nothing is stored, whatever the request says: the identifier
  is that of the event stored for the key before, and it is that event that is served. When the
  answer is anything else, nothing was stored.
\<close>

theorem event_api_serves_accepted:
  assumes "event_db_ok db" and "event_serve h Publish_Event rq db = (resp, db')"
    and "tenant_of (eh_read_id h) rq = Some t" and "hq_event rq = Some req"
    and "tenant_of (eh_read_id g) rg = Some u" and "eh_get g = None"
    and "hq_path rg = ''/v1/events/'' @ s" and "eh_read_id g s = Some i"
  shows "(if fst resp = 202 then \<exists>j. snd resp = Value_Body (Accepted_Value j)
            \<and> (i = j \<longrightarrow> (\<exists>e'. event_serve g Get_Event rg db'
                  = (if u = t then write_json 200 (Event_Value e') else write_error 404 ''event not found'', db')
              \<and> ev_id e' = i \<and> ev_tenant_id e' = t
              \<and> (case find_key t (pq_idempotency_key (with_header_key rq req)) db of
                   None \<Rightarrow> ev_type e' = pq_type req \<and> ev_source e' = pq_source req
                     \<and> ev_payload e' = ee_jsonb (eh_env h) (pq_data req)
                 | Some k \<Rightarrow> db' = db \<and> i = id_event_id k \<and> get_by_id None t i db = Inr e')))
          else db' = db)"
proof (cases "fst resp = 202")
  case False
  then show ?thesis using event_serve_publish [OF assms(2,3)] by (auto simp: write_defs)
next
  case True
  let ?req = "with_header_key rq req"
  obtain e where resp: "resp = write_json 202 (Accepted_Value (ev_id e))"
    and p: "publish (create_event (eh_create h) (eh_env h)) t ?req db = (Inr e, db')"
    using event_serve_publish [OF assms(2,3)] True assms(4) by (auto simp: write_defs)
  have path: "path_rest ''/v1/events/'' rg = s" unfolding path_rest_def assms(7) by (rule trim_prefix_append)
  obtain e' where e': "get_by_id None t (ev_id e) db' = Inr e'" "ev_id e' = ev_id e" "ev_tenant_id e' = t"
    using accepted_event_found(2) [OF assms(1) p] by blast
  have serve: "event_serve g Get_Event rg db'
      = (if u = t then write_json 200 (Event_Value e') else write_error 404 ''event not found'', db')" if "i = ev_id e"
    using e'(1) other_tenant_blind [OF accepted_event_found(1) [OF assms(1) p] e'(1), of u None] that
    by (auto simp: handle_get_event_def assms(5,6,8) path)
  have c: "create_event (eh_create h) (eh_env h) ?req t db = (Inr e, db')"
    using p by (simp add: publish_eq split: if_splits)
  have content: "case find_key t (pq_idempotency_key ?req) db of
      None \<Rightarrow> ev_type e' = pq_type req \<and> ev_source e' = pq_source req
        \<and> ev_payload e' = ee_jsonb (eh_env h) (pq_data req)
    | Some k \<Rightarrow> db' = db \<and> ev_id e = id_event_id k \<and> get_by_id None t (ev_id e) db = Inr e'"
  proof (cases "find_key t (pq_idempotency_key ?req) db")
    case None
    have "insert_event (eh_create h) (eh_env h) ?req t db = Inr (e, db')" by (rule create_event_new [OF None c])
    then have "e = new_event (eh_env h) ?req t" by (simp add: insert_event_result)
    then show ?thesis using published_event_readable [OF c None, of t] e'(1) None
      by (auto simp: new_event_def with_header_key_def)
  next
    case (Some k)
    show ?thesis using create_event_known [OF c Some] e'(1) Some by simp
  qed
  show ?thesis unfolding if_P [OF True]
  proof (intro exI [of _ "ev_id e"] exI [of _ e'] conjI impI)
    show "snd resp = Value_Body (Accepted_Value (ev_id e))" by (simp add: resp write_json_def)
  qed (use serve content e' in \<open>simp_all split: option.splits\<close>)
qed

definition example_read_id :: "string \<Rightarrow> uuid option" where
  "example_read_id s = map_of [(''3'', 3), (''4'', 4), (''5'', 5)] s"

definition example_event_handler :: event_http_env where
  "example_event_handler = \<lparr>eh_read_id = example_read_id, eh_create = no_faults, eh_env = example_event_env,
     eh_get = None\<rparr>"

definition example_event_request :: event_request where
  "example_event_request = \<lparr>hq_tenant = ''3'', hq_path = ''/v1/events/5'', hq_id = ''5'', hq_query = (\<lambda>_. []),
     hq_idempotency_key = ''k'', hq_event = Some example_publish\<rparr>"

theorem event_api_serves_accepted_witness:
  "\<exists>e. event_serve example_event_handler Get_Event example_event_request example_event_db
         = (write_json 200 (Event_Value e), example_event_db) \<and> ev_payload e = ''{}''"
proof -
  note defs = example_event_handler_def example_event_request_def example_read_id_def tenant_of_def
  have run: "event_serve example_event_handler Publish_Event example_event_request empty_event_db
      = (write_json 202 (Accepted_Value 5), example_event_db)"
    using example_publish_run
    by (simp add: defs handle_publish_event_def with_header_key_def example_publish_def new_event_def
        example_event_env_def)
  have t: "tenant_of (eh_read_id example_event_handler) example_event_request = Some 3"
    and b: "hq_event example_event_request = Some example_publish"
    and g: "eh_get example_event_handler = None"
    and s: "hq_path example_event_request = ''/v1/events/'' @ ''5''" "eh_read_id example_event_handler ''5'' = Some 5"
    by (simp_all add: defs)
  from event_api_serves_accepted [OF event_db_ok_empty run t b t g s]
  show ?thesis
    by (auto simp: write_json_def find_key_def empty_event_db_def example_publish_def example_event_handler_def
        example_event_env_def)
qed

end
