(* ===== verification/EndpointQueries.thy ===== *)
theory EndpointQueries
  imports EndpointProps Paging
begin

text \<open>
  The list of endpoints: \<open>List\<close> of endpoint-service/internal/endpoint/repository.go with its
  helpers \<open>nullableTime\<close> and \<open>nullableUUID\<close>, and of service.go, as another paged list.
\<close>

record endpoint_filter =
  ef_limit :: int
  ef_cursor :: string
  ef_status :: string

fun endpoint_status_text :: "endpoint_status \<Rightarrow> string" where
  "endpoint_status_text ACTIVE = ''ACTIVE''"
| "endpoint_status_text DELETED = ''DELETED''"

definition endpoint_status_filter :: "string \<Rightarrow> string result" where
  "endpoint_status_filter s =
     (let status = to_upper (trim_space s);
          status = (if status = [] then endpoint_status_text ACTIVE else status)
      in if status \<noteq> endpoint_status_text ACTIVE \<and> status \<noteq> endpoint_status_text DELETED \<and> status \<noteq> ''ALL''
         then Inl (Wrap [] Endpoint_ErrInvalid '': status must be ACTIVE, DELETED or ALL'') else Inr status)"

definition en_keyset :: "endpoint_row \<Rightarrow> keyset" where
  "en_keyset r = Keyset (en_created_at r) (en_id r)"

definition nullable_time :: "time \<Rightarrow> time option" where
  "nullable_time t = (if t = 0 then None else Some t)"

definition nullable_uuid :: "uuid \<Rightarrow> uuid option" where
  "nullable_uuid i = (if i = uuid_nil then None else Some i)"

text \<open>
  \<open>$3 IS NULL OR (created_at, endpoint_id) < ($3, $4)\<close>: with a null identifier the comparison of
  rows is true only if the times decide it.
\<close>

definition below_params :: "time option \<Rightarrow> uuid option \<Rightarrow> keyset \<Rightarrow> bool" where
  "below_params t i k =
     (case t of
        None \<Rightarrow> True
      | Some t \<Rightarrow>
          (case i of
             None \<Rightarrow> ks_time k < pg_time t
           | Some i \<Rightarrow> k < Keyset (pg_time t) i))"

lemma below_params_cursor: "below_params (nullable_time t) (nullable_uuid i) = before_cursor t i"
  by (simp add: below_params_def nullable_time_def nullable_uuid_def before_cursor_def less_keyset_def fun_eq_iff)

definition endpoint_where :: "uuid \<Rightarrow> string \<Rightarrow> endpoint_row \<Rightarrow> bool" where
  "endpoint_where tenant status r \<longleftrightarrow>
     en_tenant_id r = tenant \<and> (status = ''ALL'' \<or> endpoint_status_text (en_status r) = status)"

definition listed_endpoint :: "endpoint_db \<Rightarrow> endpoint_row \<Rightarrow> endpoint" where
  "listed_endpoint db r = \<lparr>ep_row = r, ep_event_types = types_of (en_id r) db\<rparr>"

definition endpoint_cursor :: "(uuid \<Rightarrow> string) \<Rightarrow> endpoint \<Rightarrow> string" where
  "endpoint_cursor show_id e = format_cursor show_id (en_created_at (ep_row e)) (en_id (ep_row e))"

datatype endpoints_call = LE_Query | LE_Scan uuid | LE_Rows

definition list_endpoints ::
    "endpoints_call faults \<Rightarrow> (uuid \<Rightarrow> string) \<Rightarrow> (string \<Rightarrow> uuid option) \<Rightarrow> uuid \<Rightarrow> endpoint_filter
       \<Rightarrow> endpoint_db \<Rightarrow> (endpoint list \<times> string) result" where
  "list_endpoints f show_id read_id tenant flt db =
     (let limit = nat (page_limit (ef_limit flt)) in
      case endpoint_status_filter (ef_status flt) of
        Inl e \<Rightarrow> Inl e
      | Inr status \<Rightarrow>
          (case parse_cursor read_id (ef_cursor flt) of
             None \<Rightarrow> Inl (Wrap [] Endpoint_ErrInvalid '': invalid cursor'')
           | Some (t, i) \<Rightarrow>
               guard (map_option (wrap ''list endpoints: '') (f LE_Query))
                 (case scan_rows (\<lambda>e. map_option (wrap ''scan endpoint: '') (f (LE_Scan (en_id (ep_row e)))))
                    (map (listed_endpoint db) (take (limit + 1) (newest_first en_keyset
                       (filter (\<lambda>r. endpoint_where tenant status r
                                  \<and> below_params (nullable_time t) (nullable_uuid i) (en_keyset r))
                          (edb_endpoints db))))) of
                    Inl e \<Rightarrow> Inl e
                  | Inr items \<Rightarrow> guard (f LE_Rows) (Inr (cut_page limit (endpoint_cursor show_id) items)))))"

definition service_list_endpoints ::
    "endpoints_call faults \<Rightarrow> (uuid \<Rightarrow> string) \<Rightarrow> (string \<Rightarrow> uuid option) \<Rightarrow> uuid \<Rightarrow> endpoint_filter
       \<Rightarrow> endpoint_db \<Rightarrow> (endpoint list \<times> string) result" where
  "service_list_endpoints f show_id read_id tenant flt db =
     (case validate_tenant tenant of
        Inl e \<Rightarrow> Inl e
      | Inr _ \<Rightarrow> list_endpoints f show_id read_id tenant flt db)"

section \<open>A paged list\<close>

definition endpoint_times :: "endpoint_row list \<Rightarrow> bool" where
  "endpoint_times rs \<longleftrightarrow>
     (\<forall>r\<in>set rs. time_in_range (en_created_at r) \<and> pg_time (en_created_at r) = en_created_at r)"

definition listed_rows :: "uuid \<Rightarrow> string \<Rightarrow> endpoint_db \<Rightarrow> endpoint_row list" where
  "listed_rows tenant status db = newest_first en_keyset (filter (endpoint_where tenant status) (edb_endpoints db))"

lemma distinct_en_keyset: "distinct (map en_id rs) \<Longrightarrow> distinct (map en_keyset (filter P rs))"
  by (induction rs) (auto simp: en_keyset_def)

lemma list_endpoints_page:
  assumes "endpoint_status_filter (ef_status flt) = Inr status"
    and "parse_cursor read_id (ef_cursor flt) = Some (t, i)"
  shows "list_endpoints no_faults show_id read_id tenant flt db =
     Inr (cut_page (nat (page_limit (ef_limit flt))) (endpoint_cursor show_id)
       (take (nat (page_limit (ef_limit flt)) + 1)
         (map (listed_endpoint db) (filter (\<lambda>r. before_cursor t i (en_keyset r)) (listed_rows tenant status db)))))"
  using assms
  by (simp add: list_endpoints_def listed_rows_def below_params_cursor filter_newest_first take_map Let_def conj_commute)

lemma listed_rows_after:
  assumes "distinct (map en_id (edb_endpoints db))" and "listed_rows tenant status db = xs @ r # ys"
    and "pg_time (en_created_at r) = en_created_at r" and "en_created_at r \<noteq> 0"
  shows "filter (\<lambda>x. before_cursor (en_created_at r) (en_id r) (en_keyset x)) (listed_rows tenant status db) = ys"
proof -
  have "(\<lambda>x. before_cursor (en_created_at r) (en_id r) (en_keyset x)) = (\<lambda>x. en_keyset x < en_keyset r)"
    using assms(3,4) by (simp add: before_cursor_def en_keyset_def [of r] fun_eq_iff)
  then show ?thesis
    using newest_first_after [OF distinct_en_keyset [OF assms(1)] assms(2) [unfolded listed_rows_def]]
    by (simp add: listed_rows_def filter_newest_first)
qed

interpretation endpoints: paged_list
  "\<lambda>db :: endpoint_db. distinct (map en_id (edb_endpoints db)) \<and> endpoint_times (edb_endpoints db)
      \<and> uuid_codec show_id read_id \<and> endpoint_status_filter (ef_status flt) = Inr status"
  "\<lambda>db c. list_endpoints no_faults show_id read_id tenant (flt\<lparr>ef_cursor := c\<rparr>) db"
  "\<lambda>db. map (listed_endpoint db) (listed_rows tenant status db)"
  "endpoint_cursor show_id"
  "nat (page_limit (ef_limit flt))"
  for show_id read_id tenant flt status
proof unfold_locales
  show "0 < nat (page_limit (ef_limit flt))" using page_limit_bounds [of "ef_limit flt"] by simp
next
  fix db :: endpoint_db
  assume "distinct (map en_id (edb_endpoints db)) \<and> endpoint_times (edb_endpoints db)
      \<and> uuid_codec show_id read_id \<and> endpoint_status_filter (ef_status flt) = Inr status"
  then show "list_endpoints no_faults show_id read_id tenant (flt\<lparr>ef_cursor := []\<rparr>) db
    = Inr (cut_page (nat (page_limit (ef_limit flt))) (endpoint_cursor show_id)
        (take (nat (page_limit (ef_limit flt)) + 1) (map (listed_endpoint db) (listed_rows tenant status db))))"
    by (subst list_endpoints_page [where t = 0 and i = uuid_nil and status = status])
      (simp_all add: parse_cursor_def before_cursor_def)
next
  fix db :: endpoint_db and xs e ys
  assume good: "distinct (map en_id (edb_endpoints db)) \<and> endpoint_times (edb_endpoints db)
      \<and> uuid_codec show_id read_id \<and> endpoint_status_filter (ef_status flt) = Inr status"
    and all: "map (listed_endpoint db) (listed_rows tenant status db) = xs @ e # ys"
  from all obtain xs' r ys' where l: "listed_rows tenant status db = xs' @ r # ys'"
    and e: "e = listed_endpoint db r" "map (listed_endpoint db) ys' = ys"
    by (auto simp: map_eq_append_conv map_eq_Cons_conv)
  have "r \<in> set (edb_endpoints db)" using arg_cong [OF l, of set] by (auto simp: listed_rows_def)
  then have t: "time_in_range (en_created_at r)" "pg_time (en_created_at r) = en_created_at r"
    using good by (auto simp: endpoint_times_def)
  then have nz: "en_created_at r \<noteq> 0" by (simp add: time_in_range_def)
  have "parse_cursor read_id (endpoint_cursor show_id e) = Some (en_created_at r, en_id r)"
    using good t parse_format_cursor by (simp add: endpoint_cursor_def e listed_endpoint_def)
  then show "list_endpoints no_faults show_id read_id tenant (flt\<lparr>ef_cursor := endpoint_cursor show_id e\<rparr>) db
    = Inr (cut_page (nat (page_limit (ef_limit flt))) (endpoint_cursor show_id)
        (take (nat (page_limit (ef_limit flt)) + 1) ys))"
    using good listed_rows_after [OF _ l t(2) nz] e(2)
    by (subst list_endpoints_page [where t = "en_created_at r" and i = "en_id r" and status = status]) simp_all
qed (simp add: endpoint_cursor_def)

text \<open>
  In every reachable state of the endpoint service, following the cursors of \<open>List\<close> ends,
  after at most one page more than there are endpoints, and gives exactly the endpoints of the
  tenant with the asked status (active ones by default, every one for ALL), each once with its
  event types, newest first. The creation times must be ones a cursor can carry.
\<close>

lemma endpoint_pages_complete:
  assumes "nreach low db" and "endpoint_times (edb_endpoints db)" and "uuid_codec show_id read_id"
    and "endpoint_status_filter (ef_status flt) = Inr status" and "tenant \<noteq> uuid_nil"
  shows "\<exists>rows. walk (\<lambda>c. service_list_endpoints no_faults show_id read_id tenant (flt\<lparr>ef_cursor := c\<rparr>) db)
            (Suc (length (edb_endpoints db))) [] = Some rows
        \<and> set rows = listed_endpoint db ` {r \<in> set (edb_endpoints db). endpoint_where tenant status r}
        \<and> sorted_wrt (\<lambda>a b. en_keyset (ep_row b) < en_keyset (ep_row a)) rows"
proof -
  let ?rows = "map (listed_endpoint db) (listed_rows tenant status db)"
  have ids: "distinct (map en_id (edb_endpoints db))"
    using nreach_inv [OF assms(1)] endpoint_db_okD(1) by (auto simp: service_inv_def)
  have fetch: "(\<lambda>c. service_list_endpoints no_faults show_id read_id tenant (flt\<lparr>ef_cursor := c\<rparr>) db)
      = (\<lambda>c. list_endpoints no_faults show_id read_id tenant (flt\<lparr>ef_cursor := c\<rparr>) db)"
    using assms(5) by (simp add: service_list_endpoints_def validate_tenant_def)
  have "length ?rows \<le> length (edb_endpoints db)" by (simp add: listed_rows_def newest_first_def)
  then have "length ?rows \<le> Suc (length (edb_endpoints db)) * nat (page_limit (ef_limit flt))"
    using endpoints.size [of flt]
    by (metis le_SucI le_trans mult.commute mult_le_mono1 nat_mult_1 Suc_leI One_nat_def)
  then have "walk (\<lambda>c. list_endpoints no_faults show_id read_id tenant (flt\<lparr>ef_cursor := c\<rparr>) db)
      (Suc (length (edb_endpoints db))) [] = Some ?rows"
    using endpoints.walk_all [where s = db] ids assms(2-4) by blast
  moreover have "set ?rows = listed_endpoint db ` {r \<in> set (edb_endpoints db). endpoint_where tenant status r}"
    by (auto simp: listed_rows_def)
  moreover have "sorted_wrt (\<lambda>a b. en_keyset (ep_row b) < en_keyset (ep_row a)) ?rows"
    using newest_first_sorted [OF distinct_en_keyset [OF ids]]
    by (simp add: listed_rows_def sorted_wrt_map listed_endpoint_def)
  ultimately show ?thesis unfolding fetch by blast
qed

definition example_endpoint_filter :: endpoint_filter where
  "example_endpoint_filter = \<lparr>ef_limit = 1, ef_cursor = [], ef_status = []\<rparr>"

lemma endpoint_pages_complete_example:
  "\<exists>rows. walk (\<lambda>c. service_list_endpoints no_faults show_decimal read_decimal 3
        (example_endpoint_filter\<lparr>ef_cursor := c\<rparr>) example_endpoint_db) 2 [] = Some rows
      \<and> set rows = {listed_endpoint example_endpoint_db example_endpoint_row}"
proof -
  have t: "endpoint_times (edb_endpoints example_endpoint_db)"
    by (simp add: endpoint_times_def time_in_range_def pg_time_def example_endpoint_db_def example_endpoint_row_def)
  have st: "endpoint_status_filter (ef_status example_endpoint_filter) = Inr ''ACTIVE''"
    by (simp add: endpoint_status_filter_def example_endpoint_filter_def Let_def)
  have n: "(3 :: uuid) \<noteq> uuid_nil" by simp
  have rows: "edb_endpoints example_endpoint_db = [example_endpoint_row]"
    and len: "Suc (length [example_endpoint_row]) = 2" by (simp_all add: example_endpoint_db_def)
  from endpoint_pages_complete [OF example_endpoint_reach t decimal_codec st n, unfolded rows len]
  obtain rows where "walk (\<lambda>c. service_list_endpoints no_faults show_decimal read_decimal 3
        (example_endpoint_filter\<lparr>ef_cursor := c\<rparr>) example_endpoint_db) 2 [] = Some rows"
    and "set rows = listed_endpoint example_endpoint_db `
       {r \<in> set [example_endpoint_row]. endpoint_where 3 ''ACTIVE'' r}" by blast
  moreover have "endpoint_where 3 ''ACTIVE'' example_endpoint_row"
    by (simp add: endpoint_where_def example_endpoint_row_def)
  ultimately show ?thesis by (intro exI [of _ rows]) auto
qed

end
