(* ===== verification/EndpointHttp.thy ===== *)
theory EndpointHttp
  imports EndpointQueries EndpointProps Http
begin

text \<open>
  endpoint-service/internal/httpapi (endpoint_handler.go, handler_util.go) and
  \<open>Endpoint.PublicView\<close>: the handlers with the status of every branch. The outcome of reading
  the body (of at most one megabyte, without unknown fields) is part of the request, and
  \<open>uuid.Parse\<close> is an argument.
\<close>

section \<open>What the answers show\<close>

record endpoint_view =
  pv_endpoint_id :: uuid
  pv_tenant_id :: uuid
  pv_name :: string
  pv_url :: string
  pv_status :: endpoint_status
  pv_connect_timeout_ms :: int
  pv_request_timeout_ms :: int
  pv_policy_id :: uuid
  pv_version :: int
  pv_event_types :: "string list"
  pv_has_secret :: bool
  pv_created_at :: time
  pv_updated_at :: time
  pv_deleted_at :: "time option"

definition public_view :: "endpoint \<Rightarrow> endpoint_view" where
  "public_view e = (let r = ep_row e in
     \<lparr>pv_endpoint_id = en_id r, pv_tenant_id = en_tenant_id r, pv_name = en_name r, pv_url = en_url r,
      pv_status = en_status r, pv_connect_timeout_ms = en_connect_timeout_ms r,
      pv_request_timeout_ms = en_request_timeout_ms r, pv_policy_id = en_policy_id r,
      pv_version = en_version r, pv_event_types = ep_event_types e, pv_has_secret = (en_secret r \<noteq> []),
      pv_created_at = en_created_at r, pv_updated_at = en_updated_at r, pv_deleted_at = en_deleted_at r\<rparr>)"

datatype endpoint_value =
    Endpoint_Value endpoint_view
  | Endpoint_Policy_Value endpoint_view policy
  | Subscriptions_Value "(uuid \<times> string) list"
  | Endpoints_Value "endpoint_view list" string

type_synonym endpoint_response = "endpoint_value http_response"

section \<open>Requests\<close>

datatype 'a body_read = No_Body | Bad_Body | More_Than_One | Body 'a

definition decode_json :: "'a body_read \<Rightarrow> 'b http_response + 'a" where
  "decode_json b =
     (case b of
        No_Body \<Rightarrow> Inl (write_error 400 ''request body is required'')
      | Bad_Body \<Rightarrow> Inl (write_error 400 ''invalid JSON body'')
      | More_Than_One \<Rightarrow> Inl (write_error 400 ''request body must contain a single JSON object'')
      | Body v \<Rightarrow> Inr v)"

record endpoint_request = http_request +
  hq_event_type :: string  \<comment> \<open>the path value \<open>event_type\<close>\<close>
  hq_create :: "create_request body_read"
  hq_patch :: "patch_request body_read"

record endpoint_http_env =
  nh_read_id :: "string \<Rightarrow> uuid option"
  nh_show_id :: "uuid \<Rightarrow> string"
  nh_env :: endpoint_env
  nh_service :: service_env
  nh_call :: "endpoint_call faults"
  nh_policy :: "error option"
  nh_list :: "endpoints_call faults"

definition endpoint_tenant :: "(string \<Rightarrow> uuid option) \<Rightarrow> endpoint_request \<Rightarrow> uuid option" where
  "endpoint_tenant read_id rq = read_id (trim_space (hq_tenant rq))"

definition write_endpoint_error :: "error \<Rightarrow> endpoint_response" where
  "write_endpoint_error e =
     (if errors_is e Endpoint_ErrNotFound then write_error 404 ''endpoint not found''
      else if errors_is e Endpoint_ErrConflict then write_error 409 (error_text e)
      else if errors_is e Endpoint_ErrInvalid then write_error 400 (error_text e)
      else write_error 500 ''internal server error'')"

section \<open>Handlers\<close>

definition handle_create ::
    "endpoint_http_env \<Rightarrow> endpoint_request \<Rightarrow> endpoint_db \<Rightarrow> endpoint_response \<times> endpoint_db" where
  "handle_create h rq db =
     (case endpoint_tenant (nh_read_id h) rq of
        None \<Rightarrow> (write_error 401 ''invalid tenant'', db)
      | Some tenant \<Rightarrow>
          (case decode_json (hq_create rq) of
             Inl resp \<Rightarrow> (resp, db)
           | Inr req \<Rightarrow>
               (case service_create (nh_call h) (nh_policy h) (nh_env h) (nh_service h) tenant req db of
                  (Inl e, db') \<Rightarrow> (write_endpoint_error e, db')
                | (Inr ep, db') \<Rightarrow> (write_json 201 (Endpoint_Value (public_view ep)), db'))))"

definition handle_get_endpoint ::
    "endpoint_http_env \<Rightarrow> endpoint_request \<Rightarrow> endpoint_db \<Rightarrow> endpoint_response" where
  "handle_get_endpoint h rq db =
     (case endpoint_tenant (nh_read_id h) rq of
        None \<Rightarrow> write_error 401 ''invalid tenant''
      | Some tenant \<Rightarrow>
          (case nh_read_id h (hq_id rq) of
             None \<Rightarrow> write_error 400 ''invalid endpoint ID''
           | Some i \<Rightarrow>
               (case service_get (nh_call h) tenant i db of
                  Inl e \<Rightarrow>
                    (if errors_is e Endpoint_ErrNotFound then write_error 404 ''endpoint not found''
                     else write_error 500 ''failed to get endpoint'')
                | Inr (ep, p) \<Rightarrow> write_json 200 (Endpoint_Policy_Value (public_view ep) p))))"

definition handle_patch ::
    "endpoint_http_env \<Rightarrow> endpoint_request \<Rightarrow> endpoint_db \<Rightarrow> endpoint_response \<times> endpoint_db" where
  "handle_patch h rq db =
     (case endpoint_tenant (nh_read_id h) rq of
        None \<Rightarrow> (write_error 401 ''invalid tenant'', db)
      | Some tenant \<Rightarrow>
          (case nh_read_id h (hq_id rq) of
             None \<Rightarrow> (write_error 400 ''invalid endpoint ID'', db)
           | Some i \<Rightarrow>
               (case decode_json (hq_patch rq) of
                  Inl resp \<Rightarrow> (resp, db)
                | Inr req \<Rightarrow>
                    (case service_patch (nh_call h) (nh_policy h) (nh_env h) (nh_service h) tenant i req db of
                       (Inl e, db') \<Rightarrow> (write_endpoint_error e, db')
                     | (Inr (ep, p), db') \<Rightarrow>
                         (write_json 200 (Endpoint_Policy_Value (public_view ep) p), db')))))"

definition handle_delete ::
    "endpoint_http_env \<Rightarrow> endpoint_request \<Rightarrow> endpoint_db \<Rightarrow> endpoint_response \<times> endpoint_db" where
  "handle_delete h rq db =
     (case endpoint_tenant (nh_read_id h) rq of
        None \<Rightarrow> (write_error 401 ''invalid tenant'', db)
      | Some tenant \<Rightarrow>
          (case nh_read_id h (hq_id rq) of
             None \<Rightarrow> (write_error 400 ''invalid endpoint ID'', db)
           | Some i \<Rightarrow>
               (case service_delete (nh_call h) (nh_env h) tenant i db of
                  (Inl e, db') \<Rightarrow> (write_endpoint_error e, db')
                | (Inr _, db') \<Rightarrow> ((204, Empty_Body), db'))))"

text \<open>\<open>decodePath\<close> returns its argument.\<close>

definition handle_subscriptions ::
    "endpoint_http_env \<Rightarrow> endpoint_request \<Rightarrow> endpoint_db \<Rightarrow> endpoint_response" where
  "handle_subscriptions h rq db =
     (case endpoint_tenant (nh_read_id h) rq of
        None \<Rightarrow> write_error 401 ''invalid tenant''
      | Some tenant \<Rightarrow>
          (case service_subscriptions (nh_call h) (nh_service h) tenant (hq_event_type rq) db of
             Inl e \<Rightarrow> write_endpoint_error e
           | Inr eps \<Rightarrow>
               write_json 200 (Subscriptions_Value (map (\<lambda>e. (en_id (ep_row e), en_url (ep_row e))) eps))))"

definition read_limit :: "string \<Rightarrow> int option" where
  "read_limit raw =
     (if raw = [] then Some 50
      else case atoi raw of None \<Rightarrow> None | Some n \<Rightarrow> if n < 1 \<or> 100 < n then None else Some n)"

definition handle_list_endpoints ::
    "endpoint_http_env \<Rightarrow> endpoint_request \<Rightarrow> endpoint_db \<Rightarrow> endpoint_response" where
  "handle_list_endpoints h rq db =
     (case endpoint_tenant (nh_read_id h) rq of
        None \<Rightarrow> write_error 401 ''invalid tenant''
      | Some tenant \<Rightarrow>
          (case read_limit (hq_query rq ''limit'') of
             None \<Rightarrow> write_error 400 ''limit must be between 1 and 100''
           | Some n \<Rightarrow>
               (case service_list_endpoints (nh_list h) (nh_show_id h) (nh_read_id h) tenant
                       \<lparr>ef_limit = n, ef_cursor = hq_query rq ''cursor'', ef_status = hq_query rq ''status''\<rparr> db of
                  Inl e \<Rightarrow> write_endpoint_error e
                | Inr (items, nxt) \<Rightarrow> write_json 200 (Endpoints_Value (map public_view items) nxt))))"

section \<open>Routes\<close>

datatype endpoint_route = Create | List_All | Get | Patch | Delete | Get_Subscriptions

fun endpoint_serve ::
    "endpoint_http_env \<Rightarrow> endpoint_route \<Rightarrow> endpoint_request \<Rightarrow> endpoint_db
       \<Rightarrow> endpoint_response \<times> endpoint_db" where
  "endpoint_serve h Create rq db = handle_create h rq db"
| "endpoint_serve h List_All rq db = (handle_list_endpoints h rq db, db)"
| "endpoint_serve h Get rq db = (handle_get_endpoint h rq db, db)"
| "endpoint_serve h Patch rq db = handle_patch h rq db"
| "endpoint_serve h Delete rq db = handle_delete h rq db"
| "endpoint_serve h Get_Subscriptions rq db = (handle_subscriptions h rq db, db)"

section \<open>Tenants\<close>

definition shows_endpoint_of :: "uuid \<Rightarrow> endpoint_db \<Rightarrow> endpoint_view \<Rightarrow> bool" where
  "shows_endpoint_of tenant db v \<longleftrightarrow>
     list_ex (\<lambda>r. en_tenant_id r = tenant \<and> v = public_view (listed_endpoint db r)) (edb_endpoints db)"

text \<open>What a body may show to a tenant: endpoints of the tenant as they are stored.\<close>

definition endpoint_body_of :: "uuid \<Rightarrow> endpoint_db \<Rightarrow> endpoint_value \<Rightarrow> bool" where
  "endpoint_body_of tenant db b \<longleftrightarrow>
     (case b of
        Endpoint_Value v \<Rightarrow> shows_endpoint_of tenant db v
      | Endpoint_Policy_Value v p \<Rightarrow> shows_endpoint_of tenant db v
      | Subscriptions_Value es \<Rightarrow>
          list_all (\<lambda>(i, url). list_ex (\<lambda>r. en_tenant_id r = tenant \<and> en_id r = i \<and> en_url r = url) (edb_endpoints db)) es
      | Endpoints_Value vs c \<Rightarrow> length vs \<le> 100 \<and> list_all (shows_endpoint_of tenant db) vs)"

text \<open>What the other tenants have: their endpoints, and the subscriptions of these.\<close>

definition foreign_endpoints :: "uuid \<Rightarrow> endpoint_db \<Rightarrow> endpoint_row list" where
  "foreign_endpoints tenant db = filter (\<lambda>r. en_tenant_id r \<noteq> tenant) (edb_endpoints db)"

definition foreign_subs :: "uuid \<Rightarrow> endpoint_db \<Rightarrow> (uuid \<times> string) set" where
  "foreign_subs tenant db = {s \<in> set (edb_subs db). fst s \<in> en_id ` set (foreign_endpoints tenant db)}"

definition same_foreign :: "uuid \<Rightarrow> endpoint_db \<Rightarrow> endpoint_db \<Rightarrow> bool" where
  "same_foreign tenant db db' \<longleftrightarrow>
     foreign_endpoints tenant db' = foreign_endpoints tenant db \<and> foreign_subs tenant db' = foreign_subs tenant db"

lemma same_foreign_refl [simp]: "same_foreign tenant db db"
  by (simp add: same_foreign_def)

lemma same_foreign_policies [simp]: "same_foreign tenant db (db\<lparr>edb_policies := ps\<rparr>)"
  by (simp add: same_foreign_def foreign_endpoints_def foreign_subs_def)

lemma same_foreign_trans: "same_foreign t a b \<Longrightarrow> same_foreign t b c \<Longrightarrow> same_foreign t a c"
  by (simp add: same_foreign_def)

lemma filter_update_where:
  "(\<And>x. P x \<Longrightarrow> \<not> Q x) \<Longrightarrow> (\<And>x. P x \<Longrightarrow> \<not> Q (f x)) \<Longrightarrow> filter Q (update_where P f xs) = filter Q xs"
  by (induction xs) (auto simp: update_where_def)

text \<open>An identifier of the tenant is not one of the others.\<close>

lemma own_not_foreign:
  assumes "distinct (map en_id (edb_endpoints db))" and "r \<in> set (edb_endpoints db)" "en_tenant_id r = tenant"
  shows "en_id r \<notin> en_id ` set (foreign_endpoints tenant db)"
  using assms distinct_keys_eq [OF assms(1)] by (fastforce simp: foreign_endpoints_def)

lemma same_foreign_change:
  assumes "foreign_endpoints tenant db' = foreign_endpoints tenant db"
    and "i \<notin> en_id ` set (foreign_endpoints tenant db)"
    and "\<And>j t. j \<noteq> i \<Longrightarrow> (j, t) \<in> set (edb_subs db') \<longleftrightarrow> (j, t) \<in> set (edb_subs db)"
  shows "same_foreign tenant db db'"
proof -
  have "s \<in> foreign_subs tenant db' \<longleftrightarrow> s \<in> foreign_subs tenant db" for s
    using assms by (cases s; cases "fst s = i") (auto simp: foreign_subs_def)
  then show ?thesis using assms(1) by (auto simp: same_foreign_def)
qed

lemma update_foreign:
  assumes "update_endpoint low r db = Inr db'" and "en_tenant_id r = tenant"
  shows "foreign_endpoints tenant db' = foreign_endpoints tenant db" and "edb_subs db' = edb_subs db"
proof -
  have db': "db' = db\<lparr>edb_endpoints :=
      update_where (\<lambda>x. en_id x = en_id r \<and> en_tenant_id x = en_tenant_id r) (\<lambda>_. r) (edb_endpoints db)\<rparr>"
    using assms(1) by (simp add: update_endpoint_Inr)
  show "foreign_endpoints tenant db' = foreign_endpoints tenant db"
    unfolding foreign_endpoints_def db' by (simp, intro filter_update_where) (use assms(2) in auto)
  show "edb_subs db' = edb_subs db" by (simp add: db')
qed

lemma shows_listed:
  "r \<in> set (edb_endpoints db) \<Longrightarrow> en_tenant_id r = tenant \<Longrightarrow>
     shows_endpoint_of tenant db (public_view (listed_endpoint db r))"
  by (auto simp: shows_endpoint_of_def list_ex_iff)

lemma shows_scanned:
  assumes "scan_tx f i db = Inr ep" and "en_tenant_id (ep_row ep) = tenant"
  shows "shows_endpoint_of tenant db (public_view ep)"
proof -
  have "ep = listed_endpoint db (ep_row ep)"
    using scan_tx_Inr [OF assms(1)] by (simp add: listed_endpoint_def)
  then show ?thesis using shows_listed [of "ep_row ep" db tenant] scan_tx_Inr [OF assms(1)] assms(2) by simp
qed

lemma create_endpoint_tenant:
  assumes "create_endpoint f env tenant req enc p db = (res, db')"
  shows "same_foreign tenant db db'"
    and "res = Inr ep \<Longrightarrow> shows_endpoint_of tenant db' (public_view ep)"
proof -
  have "same_foreign tenant db db' \<and> (\<forall>ep. res = Inr ep \<longrightarrow> shows_endpoint_of tenant db' (public_view ep))"
  proof (cases res)
    case (Inl e)
    then have "db' = db" using assms run_tx_atomic by (simp add: create_endpoint_def)
    then show ?thesis using Inl by simp
  next
    case (Inr ep)
    let ?r = "new_endpoint_row env tenant req enc p" and ?i = "nv_new_id env"
    obtain db1 where ins: "insert_endpoint (nv_lower env) ?r db = Inr db1"
      and subs: "insert_endpoint_subs f ?i (cr_event_types req) db1 = Inr db'"
      and scan: "scan_tx f ?i db' = Inr ep"
      using create_endpoint_Inr assms Inr by blast
    have r: "en_id ?r = ?i" "en_tenant_id ?r = tenant" by (simp_all add: new_endpoint_row_def)
    have db': "db' = db\<lparr>edb_endpoints := edb_endpoints db @ [?r],
        edb_subs := edb_subs db @ map (Pair ?i) (cr_event_types req)\<rparr>"
      using insert_endpoint_subs_Inr [OF subs] ins by (simp add: insert_endpoint_Inr)
    have new: "?i \<notin> en_id ` set (edb_endpoints db)" using ins r by (simp add: insert_endpoint_Inr)
    have "same_foreign tenant db db'"
      by (rule same_foreign_change [where i = ?i]) (use new r in \<open>auto simp: db' foreign_endpoints_def\<close>)
    moreover have "ep_row ep = ?r" using create_endpoint_row assms Inr by blast
    then have "shows_endpoint_of tenant db' (public_view ep)"
      using shows_scanned [OF scan] r by simp
    ultimately show ?thesis using Inr by simp
  qed
  then show "same_foreign tenant db db'" and "res = Inr ep \<Longrightarrow> shows_endpoint_of tenant db' (public_view ep)"
    by simp_all
qed

lemma patch_endpoint_tenant:
  assumes "patch_endpoint f env tenant i req enc p db = (res, db')" and "distinct (map en_id (edb_endpoints db))"
  shows "same_foreign tenant db db'"
    and "res = Inr (ep, q) \<Longrightarrow> shows_endpoint_of tenant db' (public_view ep)"
proof -
  have "same_foreign tenant db db' \<and> (\<forall>ep q. res = Inr (ep, q) \<longrightarrow> shows_endpoint_of tenant db' (public_view ep))"
  proof (cases res)
    case (Inl e)
    then have "db' = db" using assms(1) patch_endpoint_error by blast
    then show ?thesis using Inl by simp
  next
    case (Inr x)
    then have run: "patch_endpoint f env tenant i req enc p db = (Inr (fst x, snd x), db')" using assms(1) by simp
    from patch_endpoint_Inr [OF run] obtain ep db1 where own: "scan_own f tenant i db = Inr ep"
      and up: "update_endpoint (nv_lower env) (patched_row env req enc (ep_row ep)) db = Inr db1"
      and subs: "replace_subs f i (pt_event_types req) db1 = Inr db'" and scan: "scan_tx f i db' = Inr (fst x)" by blast
    let ?r = "patched_row env req enc (ep_row ep)"
    have old: "ep_row ep \<in> set (edb_endpoints db)" "en_id (ep_row ep) = i" "en_tenant_id (ep_row ep) = tenant"
      using scan_own_Inr [OF own] by simp_all
    have t: "en_tenant_id ?r = tenant" by (simp add: old(3))
    note up1 = update_foreign [OF up t] and new = replace_subs_Inr [OF subs]
    note mem = update_endpoint_mem(1) [OF up assms(2) old(1), simplified]
    have "same_foreign tenant db db'"
    proof (rule same_foreign_change [where i = i])
      show "foreign_endpoints tenant db' = foreign_endpoints tenant db"
        using up1(1) new by (simp add: foreign_endpoints_def)
      show "i \<notin> en_id ` set (foreign_endpoints tenant db)" using own_not_foreign [OF assms(2) old(1,3)] old(2) by simp
      show "(j, t) \<in> set (edb_subs db') \<longleftrightarrow> (j, t) \<in> set (edb_subs db)" if "j \<noteq> i" for j t
        using new that by (auto simp: up1(2) split: option.splits)
    qed
    moreover have "ep_row (fst x) = ?r"
    proof -
      have "ep_row (fst x) \<in> insert ?r (set (edb_endpoints db) - {ep_row ep})" "en_id (ep_row (fst x)) = i"
        using scan_tx_Inr [OF scan] new mem by auto
      then show ?thesis using distinct_keys_eq [OF assms(2) _ old(1), of "ep_row (fst x)"] old(2) by auto
    qed
    then have "shows_endpoint_of tenant db' (public_view (fst x))"
      using shows_scanned [OF scan] t by simp
    ultimately show ?thesis using Inr by auto
  qed
  then show "same_foreign tenant db db'" and "res = Inr (ep, q) \<Longrightarrow> shows_endpoint_of tenant db' (public_view ep)"
    by simp_all
qed

lemma delete_endpoint_tenant:
  assumes "delete_endpoint f env tenant i db = (res, db')" and "distinct (map en_id (edb_endpoints db))"
  shows "same_foreign tenant db db'"
proof (cases res)
  case (Inl e)
  then have "db' = db" using assms(1) delete_endpoint_error by blast
  then show ?thesis by simp
next
  case (Inr x)
  then have run: "delete_endpoint f env tenant i db = (Inr (fst x, snd x), db')" using assms(1) by simp
  from delete_endpoint_Inr [OF run] obtain ep where own: "scan_own f tenant i db = Inr ep"
    and cases: "db' = db \<or> (\<exists>db1. update_endpoint (nv_lower env) (deleted_row (pg_time (nv_clock env)) (ep_row ep)) db = Inr db1
       \<and> db' = delete_subs i db1)" by (auto split: if_splits)
  have old: "ep_row ep \<in> set (edb_endpoints db)" "en_id (ep_row ep) = i" "en_tenant_id (ep_row ep) = tenant"
    using scan_own_Inr [OF own] by simp_all
  from cases show ?thesis
  proof
    assume "\<exists>db1. update_endpoint (nv_lower env) (deleted_row (pg_time (nv_clock env)) (ep_row ep)) db = Inr db1
       \<and> db' = delete_subs i db1"
    then obtain db1 where up: "update_endpoint (nv_lower env) (deleted_row (pg_time (nv_clock env)) (ep_row ep)) db = Inr db1"
      and db': "db' = delete_subs i db1" by blast
    have t: "en_tenant_id (deleted_row (pg_time (nv_clock env)) (ep_row ep)) = tenant" by (simp add: old(3))
    show ?thesis
    proof (rule same_foreign_change [where i = i])
      show "foreign_endpoints tenant db' = foreign_endpoints tenant db"
        using update_foreign(1) [OF up t] by (simp add: foreign_endpoints_def db' delete_subs_def)
      show "i \<notin> en_id ` set (foreign_endpoints tenant db)" using own_not_foreign [OF assms(2) old(1,3)] old(2) by simp
      show "(j, t) \<in> set (edb_subs db') \<longleftrightarrow> (j, t) \<in> set (edb_subs db)" if "j \<noteq> i" for j t
        using that update_foreign(2) [OF up t] by (simp add: db' delete_subs_def)
    qed
  qed simp
qed

lemma service_create_tenant_only:
  assumes "service_create f fp env sv tenant req db = (res, db')"
  shows "same_foreign tenant db db'"
    and "res = Inr ep \<Longrightarrow> shows_endpoint_of tenant db' (public_view ep)"
  using assms by (auto simp: service_create_def split: sum.splits prod.splits
      dest!: resolve_policy_db dest: create_endpoint_tenant(2)
      intro: same_foreign_trans [OF same_foreign_policies create_endpoint_tenant(1)])

lemma service_patch_tenant_only:
  assumes "service_patch f fp env sv tenant i req db = (res, db')" and "distinct (map en_id (edb_endpoints db))"
  shows "same_foreign tenant db db'"
    and "res = Inr (ep, q) \<Longrightarrow> shows_endpoint_of tenant db' (public_view ep)"
proof -
  have pol: "distinct (map en_id (edb_endpoints (db\<lparr>edb_policies := ps\<rparr>)))" for ps using assms(2) by simp
  show "same_foreign tenant db db'"
    using assms by (auto simp: service_patch_def split: sum.splits prod.splits option.splits dest!: resolve_policy_db
        intro: patch_endpoint_tenant(1) same_foreign_trans [OF same_foreign_policies patch_endpoint_tenant(1) [OF _ pol]])
  show "res = Inr (ep, q) \<Longrightarrow> shows_endpoint_of tenant db' (public_view ep)"
    using assms by (auto simp: service_patch_def split: sum.splits prod.splits option.splits dest!: resolve_policy_db
        dest: patch_endpoint_tenant(2) patch_endpoint_tenant(2) [OF _ pol])
qed

lemma get_endpoint_shows:
  assumes "get_endpoint f tenant i db = Inr (ep, p)"
  shows "shows_endpoint_of tenant db (public_view ep)"
proof -
  obtain r where "List.find (\<lambda>r. en_tenant_id r = tenant \<and> en_id r = i) (edb_endpoints db) = Some r"
    and "ep = \<lparr>ep_row = r, ep_event_types = types_of (en_id r) db\<rparr>"
    using assms by (auto simp: get_endpoint_def guard_Inr split: option.splits sum.splits)
  then show ?thesis using shows_listed [of r db tenant] by (auto simp: find_Some_iff listed_endpoint_def)
qed

lemma list_endpoints_views:
  assumes "list_endpoints f show_id read_id tenant flt db = Inr (items, nxt)"
  shows "length items \<le> 100 \<and> list_all (\<lambda>e. shows_endpoint_of tenant db (public_view e)) items"
proof -
  let ?n = "page_limit (ef_limit flt)"
  from assms obtain status t i rows where
    scan: "scan_rows (\<lambda>e. map_option (wrap ''scan endpoint: '') (f (LE_Scan (en_id (ep_row e)))))
                    (map (listed_endpoint db) (take (nat ?n + 1) (newest_first en_keyset
                       (filter (\<lambda>r. endpoint_where tenant status r
                                  \<and> below_params (nullable_time t) (nullable_uuid i) (en_keyset r))
                          (edb_endpoints db))))) = Inr rows"
    and page: "cut_page (nat ?n) (endpoint_cursor show_id) rows = (items, nxt)"
    by (auto simp: list_endpoints_def Let_def guard_Inr split: sum.splits option.splits prod.splits)
  note rows = scan_rows_Inr [OF scan]
  have cut: "set items \<subseteq> set rows"
    using page by (auto simp: cut_page_def dest: in_set_takeD split: if_splits)
  have "length items \<le> 100"
    using page page_limit_bounds [of "ef_limit flt"] by (auto simp: cut_page_def split: if_splits)
  moreover have "shows_endpoint_of tenant db (public_view e)" if "e \<in> set items" for e
  proof -
    have "e \<in> set rows" using cut that by blast
    then obtain r where "r \<in> set (edb_endpoints db)" "e = listed_endpoint db r" "en_tenant_id r = tenant"
      unfolding rows by (auto simp: endpoint_where_def dest!: in_set_takeD)
    then show ?thesis using shows_listed by simp
  qed
  ultimately show ?thesis by (simp add: list_all_iff)
qed

lemma decode_json_no_value: "decode_json b = Inl resp \<Longrightarrow> \<exists>m. resp = write_error 400 m"
  by (auto simp: decode_json_def split: body_read.splits)

lemma endpoint_error_no_value: "\<exists>st m. write_endpoint_error e = write_error st m"
  by (auto simp: write_endpoint_error_def)

lemma endpoint_error_body [simp]: "snd (write_endpoint_error e) \<noteq> Value_Body b"
  using endpoint_error_no_value [of e] by (auto simp: write_error_def)

definition tenant_only :: "uuid \<Rightarrow> endpoint_db \<Rightarrow> endpoint_response \<times> endpoint_db \<Rightarrow> bool" where
  "tenant_only tenant db r \<longleftrightarrow> same_foreign tenant db (snd r)
     \<and> (case snd (fst r) of Value_Body b \<Rightarrow> endpoint_body_of tenant (snd r) b | _ \<Rightarrow> True)"

lemma tenant_only_error [simp]:
  "tenant_only tenant db (write_error st m, db') \<longleftrightarrow> same_foreign tenant db db'"
  "tenant_only tenant db (write_endpoint_error e, db') \<longleftrightarrow> same_foreign tenant db db'"
  "tenant_only tenant db ((st, Empty_Body), db') \<longleftrightarrow> same_foreign tenant db db'"
  using endpoint_error_no_value [of e] by (auto simp: tenant_only_def write_error_def)

lemma tenant_only_value [simp]:
  "tenant_only tenant db (write_json st b, db') \<longleftrightarrow> same_foreign tenant db db' \<and> endpoint_body_of tenant db' b"
  by (simp add: tenant_only_def write_json_def)

lemma create_tenant_only:
  assumes "endpoint_tenant (nh_read_id h) rq = Some tenant"
  shows "tenant_only tenant db (handle_create h rq db)"
  using assms by (auto simp: handle_create_def endpoint_body_of_def split: sum.split prod.split
      dest: service_create_tenant_only decode_json_no_value)

lemma patch_tenant_only:
  assumes "endpoint_tenant (nh_read_id h) rq = Some tenant" and "distinct (map en_id (edb_endpoints db))"
  shows "tenant_only tenant db (handle_patch h rq db)"
  using assms(1) by (auto simp: handle_patch_def endpoint_body_of_def split: sum.split prod.split option.split
      dest: service_patch_tenant_only [OF _ assms(2)] decode_json_no_value)

lemma delete_tenant_only:
  assumes "endpoint_tenant (nh_read_id h) rq = Some tenant" and "distinct (map en_id (edb_endpoints db))"
  shows "tenant_only tenant db (handle_delete h rq db)"
  using assms(1) by (auto simp: handle_delete_def service_delete_def split: sum.split prod.split option.split
      dest: delete_endpoint_tenant [OF _ assms(2)])

lemma get_tenant_only:
  assumes "endpoint_tenant (nh_read_id h) rq = Some tenant"
  shows "tenant_only tenant db (handle_get_endpoint h rq db, db)"
  using assms by (auto simp: handle_get_endpoint_def service_get_def endpoint_body_of_def
      split: sum.split prod.split option.split dest: get_endpoint_shows)

lemma subscriptions_tenant_only:
  assumes "endpoint_tenant (nh_read_id h) rq = Some tenant"
  shows "tenant_only tenant db (handle_subscriptions h rq db, db)"
  using assms by (auto simp: handle_subscriptions_def service_subscriptions_def get_subscriptions_def guard_Inr
      endpoint_body_of_def list_all_iff list_ex_iff split: sum.split)

lemma list_tenant_only:
  assumes "endpoint_tenant (nh_read_id h) rq = Some tenant"
  shows "tenant_only tenant db (handle_list_endpoints h rq db, db)"
  using assms by (auto simp: handle_list_endpoints_def service_list_endpoints_def endpoint_body_of_def list_all_iff
      split: sum.split option.split prod.split dest: list_endpoints_views)

lemma endpoint_serve_tenant:
  assumes "endpoint_tenant (nh_read_id h) rq = Some tenant" and "distinct (map en_id (edb_endpoints db))"
  shows "tenant_only tenant db (endpoint_serve h route rq db)"
  using assms by (cases route) (simp_all add: create_tenant_only patch_tenant_only delete_tenant_only get_tenant_only
      subscriptions_tenant_only list_tenant_only)

text \<open>
  C38. Every route of the endpoint service, in every reachable state, whatever the request and
  whatever fails: without a tenant in the header the answer is 401 and nothing changes. With
  one, the endpoints and subscriptions of all other tenants stay as they are, and what the body
  shows are endpoints of the tenant as they are stored after the request, at most 100 of them.
\<close>

theorem endpoint_api_keeps_to_tenant:
  assumes "nreach low db"
  shows "case endpoint_tenant (nh_read_id h) rq of
      None \<Rightarrow> endpoint_serve h route rq db = (write_error 401 ''invalid tenant'', db)
    | Some tenant \<Rightarrow> tenant_only tenant db (endpoint_serve h route rq db)"
proof (cases "endpoint_tenant (nh_read_id h) rq")
  case None
  then show ?thesis
    by (cases route) (simp_all add: handle_create_def handle_get_endpoint_def handle_patch_def handle_delete_def
        handle_subscriptions_def handle_list_endpoints_def)
next
  case (Some tenant)
  have d: "distinct (map en_id (edb_endpoints db))"
    using nreach_inv [OF assms] endpoint_db_okD(1) [of low db] by (simp add: service_inv_def)
  show ?thesis using Some endpoint_serve_tenant [OF Some d] by simp
qed

text \<open>No route has a path value \<open>event_type\<close>: the list of subscriptions is always refused.\<close>

lemma subscriptions_route_bad_request:
  assumes "hq_event_type rq = []" and "endpoint_tenant (nh_read_id h) rq = Some tenant"
  shows "\<exists>m. endpoint_serve h Get_Subscriptions rq db = (write_error 400 m, db)"
proof -
  have "strip es [] = []" for es
    by (subst strip.simps) (auto simp: has_prefix_def find_Some_iff split: option.split)
  then obtain e where "event_types (sv_quote (nh_service h)) [[]] = Inl e"
    by (simp add: event_types_def trim_space_def Let_def)
  then show ?thesis using assms
    by (auto simp: handle_subscriptions_def service_subscriptions_def validate_tenant_def write_endpoint_error_def
        invalid_def)
qed

definition example_endpoint_handler :: endpoint_http_env where
  "example_endpoint_handler = \<lparr>nh_read_id = map_of [(''4'', 4), (''7'', 7)], nh_show_id = (\<lambda>_. ''7''),
     nh_env = example_endpoint_env, nh_service = example_service, nh_call = no_faults, nh_policy = None,
     nh_list = no_faults\<rparr>"

definition example_endpoint_request :: endpoint_request where
  "example_endpoint_request = \<lparr>hq_tenant = ''4'', hq_path = ''/v1/endpoints/7'', hq_id = ''7'', hq_query = (\<lambda>_. []),
     hq_event_type = [], hq_create = No_Body, hq_patch = No_Body\<rparr>"

theorem endpoint_api_keeps_to_tenant_witness:
  "foreign_endpoints 4 (snd (endpoint_serve example_endpoint_handler Delete example_endpoint_request example_endpoint_db))
     = [example_endpoint_row]"
proof -
  have "trim_space ''4'' = ''4''"
    by (simp add: trim_space_char)
  then have t: "endpoint_tenant (nh_read_id example_endpoint_handler) example_endpoint_request = Some 4"
    by (simp add: endpoint_tenant_def example_endpoint_handler_def example_endpoint_request_def)
  from endpoint_api_keeps_to_tenant [OF example_endpoint_reach, where h = example_endpoint_handler
      and rq = example_endpoint_request and route = Delete, unfolded t]
  show ?thesis
    by (simp add: tenant_only_def same_foreign_def) (simp add: foreign_endpoints_def example_endpoint_db_def
        example_endpoint_row_def)
qed

end
