(* ===== verification/ApiAnswers.thy ===== *)
theory ApiAnswers
  imports AuthHttp DeliveryHttp EventHttp EndpointHttp
begin

text \<open>
  The answers of the four services as types: each route has one status of success, the statuses
  of its errors, and the kind of value that it answers with, which is about the thing that the
  request names. An error has an error text, a success its value or, for 204, nothing.
\<close>

section \<open>Answers of a type\<close>

definition answer_typed :: "int \<Rightarrow> int list \<Rightarrow> ('b \<Rightarrow> bool) \<Rightarrow> 'b Http.http_response \<Rightarrow> bool" where
  "answer_typed ok errs P resp \<longleftrightarrow>
     (case snd resp of
        Error_Body m \<Rightarrow> fst resp \<in> set errs
      | Value_Body v \<Rightarrow> fst resp = ok \<and> ok \<noteq> 204 \<and> P v
      | Empty_Body \<Rightarrow> fst resp = ok \<and> ok = 204)"

lemma answer_typed_simps [simp]:
  "answer_typed ok errs P (write_error st m) \<longleftrightarrow> st \<in> set errs"
  "answer_typed ok errs P (write_json st v) \<longleftrightarrow> st = ok \<and> ok \<noteq> 204 \<and> P v"
  "answer_typed ok errs P (st, Empty_Body) \<longleftrightarrow> st = ok \<and> ok = 204"
  by (simp_all add: answer_typed_def write_defs)

lemma answer_typed_and:
  "answer_typed ok errs P resp \<Longrightarrow> (case snd resp of Value_Body v \<Rightarrow> Q v | _ \<Rightarrow> True) \<Longrightarrow>
     answer_typed ok errs (\<lambda>v. P v \<and> Q v) resp"
  by (auto simp: answer_typed_def split: http_body.splits)

section \<open>Auth service\<close>

fun auth_ok :: "auth_route \<Rightarrow> int" where
  "auth_ok POST_tenants = 201"
| "auth_ok POST_keys = 201"
| "auth_ok DELETE_key = 204"
| "auth_ok _ = 200"

fun auth_errors :: "auth_route \<Rightarrow> int list" where
  "auth_errors GET_health = []"
| "auth_errors POST_verify = [400, 401, 500]"
| "auth_errors POST_tenants = [400, 401, 409]"
| "auth_errors GET_tenants = [401, 500]"
| "auth_errors GET_tenant = [400, 401, 404, 500]"
| "auth_errors PATCH_tenant = [400, 401, 404, 409]"
| "auth_errors DELETE_tenant = [400, 401, 404, 500]"
| "auth_errors POST_keys = [400, 401, 404]"
| "auth_errors GET_keys = [400, 401, 500]"
| "auth_errors DELETE_key = [400, 401, 404, 500]"

text \<open>The value of a route. \<open>i\<close> is the tenant that the path names.\<close>

fun auth_value_of :: "auth_route \<Rightarrow> uuid option \<Rightarrow> auth_value \<Rightarrow> bool" where
  "auth_value_of GET_health i (Health_Value s) \<longleftrightarrow> s = ''ok''"
| "auth_value_of POST_verify i (Verify_Value v) \<longleftrightarrow> vr_valid v \<or> v = invalid_response"
| "auth_value_of POST_tenants i (Created_Tenant_Value t k) \<longleftrightarrow>
     tn_status t = Tenant_Active \<and> key_tenant_id (ck_key k) = tn_id t \<and> key_scopes (ck_key k) = all_scopes"
| "auth_value_of GET_tenants i (Tenants_Value ts) \<longleftrightarrow> True"
| "auth_value_of GET_tenant i (Tenant_Value t) \<longleftrightarrow> i = Some (tn_id t)"
| "auth_value_of PATCH_tenant i (Tenant_Value t) \<longleftrightarrow> i = Some (tn_id t) \<and> tn_status t \<noteq> Tenant_Deleted"
| "auth_value_of DELETE_tenant i (Tenant_Value t) \<longleftrightarrow> i = Some (tn_id t) \<and> tn_status t = Tenant_Deleted"
| "auth_value_of POST_keys i (Created_Key_Value k) \<longleftrightarrow>
     i = Some (key_tenant_id (ck_key k)) \<and> key_status (ck_key k) = Key_Active \<and> key_scopes (ck_key k) \<noteq> []"
| "auth_value_of GET_keys i (Keys_Value ks) \<longleftrightarrow> list_all (\<lambda>k. i = Some (key_tenant_id k)) ks"
| "auth_value_of _ i _ \<longleftrightarrow> False"

lemma create_key_api:
  "create_key f env tenant name secret prefix scopes expires actor db = (Inr k, db') \<Longrightarrow>
     key_tenant_id k = tenant \<and> key_status k = Key_Active \<and> key_scopes k = scopes"
  by (auto simp: create_key_def Let_def api_key_of_def new_key_row_def split: if_splits option.splits sum.splits)

lemma new_key_api:
  "new_key f env ke tenant req actor db = (Inr k, db') \<Longrightarrow>
     key_tenant_id (ck_key k) = tenant \<and> key_status (ck_key k) = Key_Active
     \<and> key_scopes (ck_key k) = (if rk_scopes req = [] then all_scopes else rk_scopes req)"
  by (auto simp: new_key_def Let_def split: if_splits option.splits sum.splits prod.splits dest!: create_key_api)

lemma get_tenant_id: "get_tenant f i db = Inr t \<Longrightarrow> tn_id t = i"
  by (auto simp: get_tenant_def guard_Inr find_row_def split: sum.splits option.splits if_splits dest: find_SomeD)

lemma create_tenant_active: "create_tenant f env name db = (Inr t, db') \<Longrightarrow> tn_status t = Tenant_Active"
  by (auto simp: create_tenant_def Let_def new_tenant_def split: if_splits sum.splits)

lemma update_tenant_id:
  "update_tenant f env i req db = (Inr t, db') \<Longrightarrow> tn_id t = i \<and> tn_status t \<noteq> Tenant_Deleted"
  by (auto simp: update_tenant_def update_tenant_row_def Let_def guard_Inr updated_tenant_def orelse_def status_of_text_live
      split: if_splits option.splits sum.splits prod.splits dest!: find_SomeD)

lemma list_keys_tenant: "list_keys f i db = Inr ks \<Longrightarrow> k \<in> set ks \<Longrightarrow> key_tenant_id k = i"
  by (auto simp: list_keys_def read_rows_def guard_Inr api_key_of_def split: sum.splits dest!: scan_rows_Inr)

lemma delete_or_select_id:
  "delete_or_select f now i db = Inr (t, db') \<Longrightarrow> tn_id t = i \<and> tn_status t = Tenant_Deleted"
  by (auto simp: delete_or_select_def delete_tenant_row_def guard_Inr deleted_tenant_def find_row_def
      split: if_splits option.splits sum.splits dest!: find_SomeD)

lemma delete_tenant_id: "delete_tenant f env i db = (Inr t, db') \<Longrightarrow> tn_id t = i \<and> tn_status t = Tenant_Deleted"
  by (auto simp: delete_tenant_def run_tx_def guard_Inr split: sum.splits prod.splits option.splits
      dest!: delete_or_select_id)


lemma auth_answers_typed:
  "answer_typed (auth_ok route) (auth_errors route)
     (auth_value_of route (ac_read_id c (rq_tenant_id rq))) (fst (auth_serve h c route rq db))"
proof (cases route)
  case POST_verify
  then show ?thesis by (auto simp: handle_verify_def verify_def split: sum.splits prod.splits option.splits if_splits)
next
  case POST_tenants
  then show ?thesis
    by (auto simp: admin_def handle_create_tenant_def service_create_tenant_def Let_def
        split: sum.splits prod.splits option.splits dest!: create_tenant_active new_key_api)
next
  case GET_keys
  then show ?thesis
    by (auto simp: admin_def handle_list_keys_def list_all_iff split: sum.splits option.splits dest!: list_keys_tenant)
next
  case PATCH_tenant
  then show ?thesis
    by (auto simp: admin_def handle_update_tenant_def split: sum.splits prod.splits option.splits dest!: update_tenant_id)
next
  case DELETE_tenant
  then show ?thesis
    by (auto simp: admin_def handle_delete_tenant_def split: sum.splits prod.splits option.splits dest!: delete_tenant_id)
next
  case POST_keys
  then show ?thesis
    by (auto simp: admin_def handle_create_key_def all_scopes_ok(2) [symmetric] split: sum.splits prod.splits option.splits if_splits dest!: new_key_api)
next
  case GET_tenant
  then show ?thesis
    by (auto simp: admin_def handle_get_tenant_def split: sum.splits option.splits dest!: get_tenant_id)
next
  case DELETE_key
  then show ?thesis
    by (auto simp: admin_def handle_revoke_key_def split: sum.splits prod.splits option.splits)
qed (auto simp: admin_def handle_list_tenants_def split: sum.splits)

section \<open>Delivery service\<close>

fun delivery_ok :: "delivery_route \<Rightarrow> int" where
  "delivery_ok Replay_Delivery = 202"
| "delivery_ok _ = 200"

fun delivery_errors :: "delivery_route \<Rightarrow> int list" where
  "delivery_errors Get_Health = []"
| "delivery_errors List_Deliveries = [400, 401]"
| "delivery_errors Get_Delivery = [400, 401, 404, 500]"
| "delivery_errors List_Attempts = [400, 401, 404]"
| "delivery_errors Replay_Delivery = [400, 401, 404, 409]"
| "delivery_errors List_DLQ = [400, 401]"

fun delivery_value_of :: "delivery_http_env \<Rightarrow> delivery_route \<Rightarrow> Http.http_request \<Rightarrow> delivery_value \<Rightarrow> bool" where
  "delivery_value_of h Get_Health rq Health_Ok \<longleftrightarrow> True"
| "delivery_value_of h List_Deliveries rq (Page_Value vs c) \<longleftrightarrow> length vs \<le> 100"
| "delivery_value_of h Get_Delivery rq (Delivery_Value v m) \<longleftrightarrow>
     dh_read_id h (path_rest ''/v1/deliveries/'' rq) = Some (vw_id v)"
| "delivery_value_of h List_Attempts rq (Attempts_Value as c) \<longleftrightarrow> length as \<le> 100"
| "delivery_value_of h Replay_Delivery rq (Queued_Value i) \<longleftrightarrow> i = dh_new_id h"
| "delivery_value_of h List_DLQ rq (Page_Value vs c) \<longleftrightarrow> length vs \<le> 100 \<and> list_all (\<lambda>v. vw_status v = DLQ) vs"
| "delivery_value_of h _ rq _ \<longleftrightarrow> False"

lemma get_delivery_id: "get_delivery f tenant i db = Inr d \<Longrightarrow> d_id d = i"
  by (auto simp: get_delivery_def guard_Inr split: option.splits dest!: find_SomeD)

lemma replay_id: "replay f g ix now i tenant did db = (Inr j, db') \<Longrightarrow> j = i"
  by (auto simp: replay_def create_replay_def split: sum.splits if_splits)

lemma list_answer_typed:
  assumes "\<And>f s r t flt db. (\<exists>e. lst f s r t flt db = Inl e) \<or> lst f s r t flt db = list_deliveries f s r t flt dlq db"
    and "\<And>flt t items nxt. list_deliveries (dh_list h) (dh_show_id h) (dh_read_id h) t flt dlq db = Inr (items, nxt) \<Longrightarrow>
       P (page_response (items, nxt))"
  shows "answer_typed 200 [400, 401] P (handle_list lst h rq db)"
proof -
  have "P (page_response page)" if "lst (dh_list h) (dh_show_id h) (dh_read_id h) t flt db = Inr page" for t flt page
    using that assms(1) [of "dh_list h" "dh_show_id h" "dh_read_id h" t flt db] assms(2) by (cases page) auto
  then show ?thesis by (auto simp: handle_list_def split: option.split sum.split)
qed

lemma delivery_answers_typed:
  "answer_typed (delivery_ok route) (delivery_errors route) (delivery_value_of h route rq)
     (fst (delivery_serve h route rq db))"
proof (cases route)
  case List_Deliveries
  have "length vs \<le> 100"
    if "list_deliveries (dh_list h) (dh_show_id h) (dh_read_id h) t flt False db = Inr (vs, c)" for t flt vs c
    using list_deliveries_rows [OF that] by simp
  then show ?thesis using List_Deliveries
    by (auto simp: handle_list_deliveries_def page_response_def service_list_def intro!: list_answer_typed [where dlq = False])
next
  case List_DLQ
  have "length vs \<le> 100 \<and> (\<forall>d\<in>set vs. d_status d = DLQ)"
    if "list_deliveries (dh_list h) (dh_show_id h) (dh_read_id h) t flt True db = Inr (vs, c)" for t flt vs c
    using list_deliveries_rows [OF that] by (simp add: list_all_iff)
  then show ?thesis using List_DLQ
    by (auto simp: handle_list_dlq_def page_response_def service_list_dlq_def list_all_iff delivery_view_of_def
        intro!: list_answer_typed [where dlq = True])
next
  case List_Attempts
  have "length vs \<le> 100" if "service_list_attempts (dh_attempts h) t i n cu db = Inr (vs, c)" for t i n cu vs c
    using that list_attempts_rows [of "dh_attempts h" t i n cu db vs c] by (auto simp: service_list_attempts_def split: if_splits)
  then show ?thesis using List_Attempts
    by (auto simp: handle_list_attempts_def Let_def split: option.split sum.split if_split)
next
  case Get_Delivery
  then show ?thesis
    by (auto simp: handle_get_delivery_def delivery_view_of_def split: option.split sum.split dest: get_delivery_id)
next
  case Replay_Delivery
  then show ?thesis
    by (auto simp: handle_replay_def split: option.split sum.split prod.split dest: replay_id)
qed simp

text \<open>The values are of the tenant in the header: rows of its deliveries and their attempts.\<close>

definition delivery_value_for :: "delivery_http_env \<Rightarrow> delivery_route \<Rightarrow> Http.http_request \<Rightarrow> delivery_db \<Rightarrow> delivery_value \<Rightarrow> bool" where
  "delivery_value_for h route rq db v \<longleftrightarrow>
     (case tenant_of (dh_read_id h) rq of None \<Rightarrow> route = Get_Health | Some tenant \<Rightarrow> body_of_tenant tenant db v)"

lemma delivery_answers_for:
  "answer_typed (delivery_ok route) (delivery_errors route)
     (\<lambda>v. delivery_value_of h route rq v \<and> delivery_value_for h route rq db v) (fst (delivery_serve h route rq db))"
proof (rule answer_typed_and [OF delivery_answers_typed])
  show "case snd (fst (delivery_serve h route rq db)) of Value_Body v \<Rightarrow> delivery_value_for h route rq db v | _ \<Rightarrow> True"
  proof (cases "tenant_of (dh_read_id h) rq")
    case None
    then show ?thesis using delivery_serve_no_tenant [OF None, of route db]
      by (cases "route = Get_Health") (simp_all add: delivery_value_for_def write_defs)
  next
    case (Some tenant)
    then show ?thesis using delivery_serve_tenant [OF Some, where route = route and db = db]
      by (auto simp: delivery_value_for_def split: http_body.splits)
  qed
qed

section \<open>Event service\<close>

fun event_value_of :: "event_http_env \<Rightarrow> event_route \<Rightarrow> event_request \<Rightarrow> event_value \<Rightarrow> bool" where
  "event_value_of h Publish_Event rq (Accepted_Value i) \<longleftrightarrow> True"
| "event_value_of h Get_Event rq (Event_Value e) \<longleftrightarrow>
     eh_read_id h (path_rest ''/v1/events/'' rq) = Some (ev_id e) \<and> tenant_of (eh_read_id h) rq = Some (ev_tenant_id e)"
| "event_value_of h _ rq _ \<longleftrightarrow> False"

definition event_ok :: "event_route \<Rightarrow> int" where
  "event_ok route = (if route = Publish_Event then 202 else 200)"

definition event_errors :: "event_route \<Rightarrow> int list" where
  "event_errors route = (if route = Publish_Event then [400, 401, 500] else [400, 401, 404])"

lemma event_answers_typed:
  "answer_typed (event_ok route) (event_errors route) (event_value_of h route rq) (fst (event_serve h route rq db))"
proof (cases route)
  case Publish_Event
  then show ?thesis
    by (auto simp: event_ok_def event_errors_def handle_publish_event_def split: option.split sum.split prod.split)
next
  case Get_Event
  have "ev_id e = i \<and> ev_tenant_id e = t" if "get_by_id f t i db = Inr e" for f t i e
    using that by (auto simp: get_by_id_def select_event_def guard_Inr event_of_row_def split: option.splits dest!: find_SomeD)
  then show ?thesis using Get_Event
    by (auto simp: event_ok_def event_errors_def handle_get_event_def split: option.split sum.split)
qed

section \<open>Endpoint service\<close>

fun endpoint_ok :: "endpoint_route \<Rightarrow> int" where
  "endpoint_ok Create = 201"
| "endpoint_ok Delete = 204"
| "endpoint_ok _ = 200"

fun endpoint_errors :: "endpoint_route \<Rightarrow> int list" where
  "endpoint_errors Get = [400, 401, 404, 500]"
| "endpoint_errors _ = [400, 401, 404, 409, 500]"

fun endpoint_value_of :: "endpoint_http_env \<Rightarrow> endpoint_route \<Rightarrow> endpoint_request \<Rightarrow> endpoint_value \<Rightarrow> bool" where
  "endpoint_value_of h Create rq (Endpoint_Value v) \<longleftrightarrow>
     endpoint_tenant (nh_read_id h) rq = Some (pv_tenant_id v) \<and> pv_endpoint_id v = nv_new_id (nh_env h)
     \<and> pv_version v = 1 \<and> pv_status v = ACTIVE"
| "endpoint_value_of h List_All rq (Endpoints_Value vs c) \<longleftrightarrow> length vs \<le> 100"
| "endpoint_value_of h Get rq (Endpoint_Policy_Value v p) \<longleftrightarrow> nh_read_id h (hq_id rq) = Some (pv_endpoint_id v)"
| "endpoint_value_of h Patch rq (Endpoint_Policy_Value v p) \<longleftrightarrow> nh_read_id h (hq_id rq) = Some (pv_endpoint_id v)"
| "endpoint_value_of h Get_Subscriptions rq (Subscriptions_Value es) \<longleftrightarrow> True"
| "endpoint_value_of h _ rq _ \<longleftrightarrow> False"

lemma endpoint_error_typed [simp]:
  "answer_typed ok errs P (write_endpoint_error e) \<longleftrightarrow>
     (if errors_is e Endpoint_ErrNotFound then 404 \<in> set errs
      else if errors_is e Endpoint_ErrConflict then 409 \<in> set errs
      else if errors_is e Endpoint_ErrInvalid then 400 \<in> set errs else 500 \<in> set errs)"
  by (simp add: write_endpoint_error_def)

lemma service_create_row:
  assumes "service_create f fp env sv tenant req db = (Inr ep, db')"
  shows "en_tenant_id (ep_row ep) = tenant \<and> en_id (ep_row ep) = nv_new_id env \<and> en_version (ep_row ep) = 1
    \<and> en_status (ep_row ep) = ACTIVE"
  using assms by (auto simp: service_create_def new_endpoint_row_def split: sum.splits prod.splits dest!: create_endpoint_row)

lemma patch_endpoint_id: "patch_endpoint f env tenant i req enc p db = (Inr (ep, q), db') \<Longrightarrow> en_id (ep_row ep) = i"
  using scan_tx_Inr by (auto dest!: patch_endpoint_Inr)

lemma service_patch_id: "service_patch f fp env sv tenant i req db = (Inr (ep, q), db') \<Longrightarrow> en_id (ep_row ep) = i"
  by (auto simp: service_patch_def split: sum.splits prod.splits option.splits dest: patch_endpoint_id)

lemma get_endpoint_id: "get_endpoint f tenant i db = Inr (ep, p) \<Longrightarrow> en_id (ep_row ep) = i"
  by (auto simp: get_endpoint_def guard_Inr split: option.splits sum.splits dest!: find_SomeD)

lemma list_endpoints_short: "list_endpoints f show_id read_id tenant flt db = Inr (items, nxt) \<Longrightarrow> length items \<le> 100"
  using list_endpoints_views by blast

lemma endpoint_answers_typed:
  "answer_typed (endpoint_ok route) (endpoint_errors route) (endpoint_value_of h route rq)
     (fst (endpoint_serve h route rq db))"
proof (cases route)
  case Create
  then show ?thesis
    by (auto simp: handle_create_def public_view_def Let_def split: option.split sum.split prod.split
        dest: service_create_row decode_json_no_value)
next
  case List_All
  then show ?thesis
    by (auto simp: handle_list_endpoints_def service_list_endpoints_def split: option.split sum.split prod.split
        dest: list_endpoints_short)
next
  case Get
  then show ?thesis
    by (auto simp: handle_get_endpoint_def service_get_def public_view_def Let_def split: option.split sum.split prod.split
        dest: get_endpoint_id)
next
  case Patch
  then show ?thesis
    by (auto simp: handle_patch_def public_view_def Let_def split: option.split sum.split prod.split
        dest: service_patch_id decode_json_no_value)
next
  case Delete
  then show ?thesis by (auto simp: handle_delete_def split: option.split sum.split prod.split)
next
  case Get_Subscriptions
  then show ?thesis by (auto simp: handle_subscriptions_def split: option.split sum.split)
qed

text \<open>
  The values are of the tenant in the header: its endpoints as they are stored after the request
  (if identifiers are unique, as the table's key makes them).
\<close>

definition endpoint_value_for ::
    "endpoint_http_env \<Rightarrow> endpoint_request \<Rightarrow> endpoint_db \<Rightarrow> endpoint_db \<Rightarrow> endpoint_value \<Rightarrow> bool" where
  "endpoint_value_for h rq db db' v \<longleftrightarrow>
     (case endpoint_tenant (nh_read_id h) rq of
        None \<Rightarrow> False
      | Some tenant \<Rightarrow> if distinct (map en_id (edb_endpoints db)) then endpoint_body_of tenant db' v else True)"

lemma endpoint_answers_for:
  "answer_typed (endpoint_ok route) (endpoint_errors route)
     (\<lambda>v. endpoint_value_of h route rq v \<and> endpoint_value_for h rq db (snd (endpoint_serve h route rq db)) v)
     (fst (endpoint_serve h route rq db))"
proof (rule answer_typed_and [OF endpoint_answers_typed])
  show "case snd (fst (endpoint_serve h route rq db)) of
      Value_Body v \<Rightarrow> endpoint_value_for h rq db (snd (endpoint_serve h route rq db)) v | _ \<Rightarrow> True"
  proof (cases "endpoint_tenant (nh_read_id h) rq")
    case None
    then show ?thesis
      by (cases route) (simp_all add: handle_create_def handle_get_endpoint_def handle_patch_def handle_delete_def
          handle_subscriptions_def handle_list_endpoints_def write_defs)
  next
    case (Some tenant)
    then show ?thesis using endpoint_serve_tenant [OF Some, of db route]
      by (auto simp: endpoint_value_for_def tenant_only_def split: http_body.splits)
  qed
qed

section \<open>All services\<close>

text \<open>
  C32. On every route of the four services, whatever the request, the tables and the failing calls:
  an error carries an error text under one of the statuses of the route; a success has the one
  status of success of the route and a value of its kind, about the thing that the request
  names (the tenant, key, delivery, event or endpoint of the path, at most 100 rows of a list,
  dead deliveries only in the dead letter queue, a new key with its scopes), or no body for 204.
  What the delivery service shows are rows of the tenant in the header, what the endpoint service
  shows are its endpoints and subscriptions as they are stored after the request.
\<close>

theorem answers_are_typed:
  "answer_typed (auth_ok ar) (auth_errors ar) (auth_value_of ar (ac_read_id ac (rq_tenant_id arq)))
     (fst (auth_serve ah ac ar arq adb))
   \<and> answer_typed (delivery_ok dr) (delivery_errors dr)
       (\<lambda>v. delivery_value_of dh dr drq v \<and> delivery_value_for dh dr drq ddb v) (fst (delivery_serve dh dr drq ddb))
   \<and> answer_typed (event_ok er) (event_errors er) (event_value_of eh er erq) (fst (event_serve eh er erq edb))
   \<and> answer_typed (endpoint_ok nr) (endpoint_errors nr)
       (\<lambda>v. endpoint_value_of nh nr nrq v \<and> endpoint_value_for nh nrq ndb (snd (endpoint_serve nh nr nrq ndb)) v)
       (fst (endpoint_serve nh nr nrq ndb))"
  by (intro conjI auth_answers_typed delivery_answers_for event_answers_typed endpoint_answers_for)

section \<open>Refused requests\<close>

definition after_error :: "bool \<Rightarrow> 'b Http.http_response \<Rightarrow> bool" where
  "after_error unchanged resp \<longleftrightarrow> (case snd resp of Error_Body m \<Rightarrow> unchanged | _ \<Rightarrow> True)"

lemma after_error_simps [simp]:
  "after_error u (write_error st m) \<longleftrightarrow> u" "after_error u (write_json st v)" "after_error u (st, Empty_Body)"
  "after_error True resp"
  by (simp_all add: after_error_def write_defs split: http_body.split)

lemma after_endpoint_error [simp]: "after_error u (write_endpoint_error e) \<longleftrightarrow> u"
  using endpoint_error_no_value [of e] by auto

text \<open>What \<open>CreateTenant\<close> may leave behind: a new tenant, when creating its key fails.\<close>

definition one_tenant_more :: "auth_db \<Rightarrow> auth_db \<Rightarrow> bool" where
  "one_tenant_more db db' \<longleftrightarrow>
     adb_keys db' = adb_keys db \<and> adb_audit db' = adb_audit db
     \<and> adb_tenants db' \<noteq> [] \<and> butlast (adb_tenants db') = adb_tenants db"

lemma create_key_error:
  "create_key f env tenant name secret prefix scopes expires actor db = (Inl e, db') \<Longrightarrow> db' = db"
  by (auto simp: create_key_def Let_def split: if_splits option.splits sum.splits)

lemma new_key_error: "new_key f env ke tenant req actor db = (Inl e, db') \<Longrightarrow> db' = db"
  by (auto simp: new_key_def Let_def split: if_splits option.splits sum.splits prod.splits dest!: create_key_error)

lemma create_tenant_result:
  "create_tenant f env name db = (r, db') \<Longrightarrow> (case r of Inl e \<Rightarrow> db' = db | Inr t \<Rightarrow> one_tenant_more db db')"
  by (auto simp: create_tenant_def insert_tenant_def one_tenant_more_def guard_Inr Let_def split: if_splits sum.splits)

lemma service_create_tenant_error:
  "service_create_tenant f g env kenv ke req actor db = (Inl e, db') \<Longrightarrow> db' = db \<or> one_tenant_more db db'"
  by (auto simp: service_create_tenant_def Let_def split: sum.splits prod.splits dest!: create_tenant_result new_key_error)

lemma auth_error_unchanged:
  assumes "auth_serve h c route rq db = (resp, db')"
  shows "after_error (db' = db \<or> route = POST_tenants \<and> one_tenant_more db db') resp"
proof (cases route)
  case POST_verify
  then show ?thesis using assms
    by (auto simp: handle_verify_def verify_def split: sum.splits prod.splits option.splits if_splits)
next
  case POST_tenants
  then show ?thesis using assms
    by (auto simp: admin_def handle_create_tenant_def split: sum.splits prod.splits option.splits if_splits
        dest!: service_create_tenant_error)
next
  case PATCH_tenant
  then show ?thesis using assms
    by (auto simp: admin_def handle_update_tenant_def update_tenant_def Let_def
        split: sum.splits prod.splits option.splits if_splits)
next
  case DELETE_tenant
  then show ?thesis using assms
    by (auto simp: admin_def handle_delete_tenant_def split: sum.splits prod.splits option.splits if_splits
        dest!: delete_tenant_Inl)
next
  case POST_keys
  then show ?thesis using assms
    by (auto simp: admin_def handle_create_key_def split: sum.splits prod.splits option.splits if_splits dest!: new_key_error)
next
  case DELETE_key
  then show ?thesis using assms
    by (auto simp: admin_def handle_revoke_key_def revoke_key_def Let_def
        split: sum.splits prod.splits option.splits if_splits)
qed (use assms in \<open>auto simp: admin_def split: if_splits\<close>)

lemma create_replay_error: "create_replay f ix now i d db = (Inl e, db') \<Longrightarrow> db' = db"
  by (auto simp: create_replay_def split: sum.splits)

lemma replay_error: "replay f g ix now i tenant did db = (Inl e, db') \<Longrightarrow> db' = db"
  by (auto simp: replay_def split: sum.splits if_splits dest!: create_replay_error)

lemma delivery_error_unchanged:
  assumes "delivery_serve h route rq db = (resp, db')"
  shows "after_error (db' = db) resp"
proof (cases route)
  case Replay_Delivery
  then show ?thesis using assms
    by (auto simp: handle_replay_def split: option.splits sum.splits prod.splits if_splits dest!: replay_error)
qed (use assms in auto)

lemma event_error_unchanged:
  assumes "event_serve h route rq db = (resp, db')"
  shows "after_error (db' = db) resp"
proof (cases route)
  case Publish_Event
  then show ?thesis
  proof (cases "tenant_of (eh_read_id h) rq")
    case (Some t)
    then show ?thesis using event_serve_publish [of h rq db resp db'] assms Publish_Event by auto
  qed (use assms in \<open>auto simp: handle_publish_event_def\<close>)
qed (use assms in auto)

text \<open>What \<open>Create\<close> may leave behind: the default policy of a tenant that had none.\<close>

definition one_policy_more :: "uuid \<Rightarrow> uuid \<Rightarrow> endpoint_db \<Rightarrow> endpoint_db \<Rightarrow> bool" where
  "one_policy_more new_id tenant db db' \<longleftrightarrow>
     list_all (\<lambda>p. \<not> (po_tenant_id p = tenant \<and> po_name p = ''default'')) (edb_policies db)
     \<and> db' = db\<lparr>edb_policies := edb_policies db @ [default_retry_policy new_id tenant]\<rparr>"

lemma get_or_create_default_more:
  "snd (get_or_create_default f new_id tenant db) = db \<or> one_policy_more new_id tenant db (snd (get_or_create_default f new_id tenant db))"
  by (auto simp: get_or_create_default_def one_policy_more_def list_all_iff find_None_iff split: option.split)

lemma resolve_policy_more:
  "resolve_policy f env tenant i db = (res, db') \<Longrightarrow> db' = db \<or> i = None \<and> one_policy_more (nv_policy_id env) tenant db db'"
  using get_or_create_default_more [of f "nv_policy_id env" tenant db]
  by (cases i) (auto simp: resolve_policy_def split: sum.splits)

lemma create_endpoint_error: "create_endpoint f env tenant req enc p db = (Inl e, db') \<Longrightarrow> db' = db"
  unfolding create_endpoint_def by (rule run_tx_atomic)

lemma service_create_error:
  "service_create f fp env sv tenant req db = (Inl e, db') \<Longrightarrow> db' = db \<or> one_policy_more (nv_policy_id env) tenant db db'"
  by (auto simp: service_create_def split: sum.splits prod.splits dest!: resolve_policy_more create_endpoint_error)

lemma service_patch_error: "service_patch f fp env sv tenant i req db = (Inl e, db') \<Longrightarrow> db' = db"
  by (auto simp: service_patch_def split: sum.splits prod.splits option.splits
      dest!: resolve_policy_more patch_endpoint_error)

lemma service_delete_error: "service_delete f env tenant i db = (Inl e, db') \<Longrightarrow> db' = db"
  by (auto simp: service_delete_def split: sum.splits dest: delete_endpoint_error)

lemma endpoint_error_unchanged:
  assumes "endpoint_serve h route rq db = (resp, db')"
  shows "after_error (db' = db
       \<or> route = Create \<and> (case endpoint_tenant (nh_read_id h) rq of
            None \<Rightarrow> False | Some tenant \<Rightarrow> one_policy_more (nv_policy_id (nh_env h)) tenant db db')) resp"
proof (cases route)
  case Create
  then show ?thesis using assms
    by (auto simp: handle_create_def split: option.splits sum.splits prod.splits
        dest: service_create_error decode_json_no_value)
next
  case Patch
  then show ?thesis using assms
    by (auto simp: handle_patch_def split: option.splits sum.splits prod.splits
        dest: service_patch_error decode_json_no_value)
next
  case Delete
  then show ?thesis using assms
    by (auto simp: handle_delete_def split: option.splits sum.splits prod.splits dest!: service_delete_error)
qed (use assms in auto)

text \<open>
  C33. A request that is answered with an error has changed nothing, on every route of the four
  services and at whatever call it failed, with two exceptions: creating a tenant may leave the
  tenant behind without a key, and creating an endpoint may leave behind the default retry policy
  of a tenant that had none, and nothing else.
\<close>

theorem errors_change_nothing:
  "after_error (snd (auth_serve ah ac ar arq adb) = adb
       \<or> ar = POST_tenants \<and> one_tenant_more adb (snd (auth_serve ah ac ar arq adb)))
     (fst (auth_serve ah ac ar arq adb))
   \<and> after_error (snd (delivery_serve dh dr drq ddb) = ddb) (fst (delivery_serve dh dr drq ddb))
   \<and> after_error (snd (event_serve eh er erq edb) = edb) (fst (event_serve eh er erq edb))
   \<and> after_error (snd (endpoint_serve nh nr nrq ndb) = ndb
       \<or> nr = Create \<and> (case endpoint_tenant (nh_read_id nh) nrq of
            None \<Rightarrow> False
          | Some tenant \<Rightarrow> one_policy_more (nv_policy_id (nh_env nh)) tenant ndb (snd (endpoint_serve nh nr nrq ndb))))
       (fst (endpoint_serve nh nr nrq ndb))"
  using auth_error_unchanged delivery_error_unchanged event_error_unchanged endpoint_error_unchanged
  by (metis prod.collapse)

end
