(* ===== verification/EndpointMessages.thy ===== *)
theory EndpointMessages
  imports Intake EndpointRepo Base64 GoTime
begin

text \<open>
  The message about an endpoint on its way between two services: \<open>EndpointChanged\<close> of
  endpoint-service/internal/endpoint/events.go as encoding/json writes it, and
  \<open>EndpointChanged\<close> of delivery-service/internal/endpoint/model.go as encoding/json reads it in
  \<open>kafka.DecodeEnvelope\<close>, down to the bytes. The texts of UUIDs are parameters. Strings are valid
  UTF-8, as the columns of PostgreSQL are (encoding/json would replace other bytes).
\<close>

section \<open>Writing\<close>

text \<open>A slice is \<open>None\<close> if it is nil.\<close>

record changed_message =
  cm_message_id :: string
  cm_event_name :: string
  cm_schema_version :: int
  cm_tenant_id :: uuid
  cm_endpoint_id :: uuid
  cm_name :: string
  cm_url :: string
  cm_secret :: "bytes option"
  cm_status :: string
  cm_connect_timeout_ms :: int
  cm_request_timeout_ms :: int
  cm_retry_policy :: policy
  cm_version :: int
  cm_updated_at :: time
  cm_event_types :: "string list option"

definition json_int :: "int \<Rightarrow> json" where
  "json_int n = JNum (format_int n)"

definition policy_json :: "(uuid \<Rightarrow> string) \<Rightarrow> policy \<Rightarrow> json" where
  "policy_json ut p =
     JObj [(''retry_policy_id'', JStr (ut (po_id p))), (''tenant_id'', JStr (ut (po_tenant_id p))),
           (''name'', JStr (po_name p)), (''max_attempts'', json_int (po_max_attempts p)),
           (''backoff_type'', JStr (po_backoff_type p)), (''initial_delay_ms'', json_int (po_initial_delay p)),
           (''max_delay_ms'', json_int (po_max_delay p)), (''jitter_percent'', json_int (po_jitter_percent p))]"

definition changed_json :: "(uuid \<Rightarrow> string) \<Rightarrow> changed_message \<Rightarrow> json" where
  "changed_json ut m =
     JObj [(''message_id'', JStr (cm_message_id m)), (''event_name'', JStr (cm_event_name m)),
           (''schema_version'', json_int (cm_schema_version m)), (''tenant_id'', JStr (ut (cm_tenant_id m))),
           (''endpoint_id'', JStr (ut (cm_endpoint_id m))), (''name'', JStr (cm_name m)),
           (''url'', JStr (cm_url m)),
           (''secret_encrypted'', case cm_secret m of None \<Rightarrow> JNull | Some b \<Rightarrow> JStr (std_encode b)),
           (''status'', JStr (cm_status m)), (''connect_timeout_ms'', json_int (cm_connect_timeout_ms m)),
           (''request_timeout_ms'', json_int (cm_request_timeout_ms m)),
           (''retry_policy'', policy_json ut (cm_retry_policy m)), (''version'', json_int (cm_version m)),
           (''updated_at'', JStr (format_rfc3339_nano (cm_updated_at m))),
           (''event_types'', case cm_event_types m of None \<Rightarrow> JNull | Some ts \<Rightarrow> JArr (map JStr ts))]"

section \<open>Reading\<close>

fun set_int :: "string \<Rightarrow> (int \<Rightarrow> 's) \<Rightarrow> 's \<Rightarrow> json \<Rightarrow> 's result" where
  "set_int field upd s (JNum x) =
     (case atoi x of None \<Rightarrow> Inl (type_error field) | Some n \<Rightarrow> Inr (upd n))"
| "set_int field upd s JNull = Inr s"
| "set_int field upd s v = Inl (type_error field)"

text \<open>A byte slice: the standard base64 text, or an array of numbers; \<open>null\<close> makes it nil. A
  \<open>null\<close> in an array leaves the element that was there.\<close>

fun byte_items :: "bytes \<Rightarrow> json list \<Rightarrow> bytes option" where
  "byte_items old [] = Some []"
| "byte_items old (JNum x # vs) =
     (case atoi x of
        None \<Rightarrow> None
      | Some n \<Rightarrow>
          if n < 0 \<or> 255 < n then None else map_option (Cons (char_of (nat n))) (byte_items (tl old) vs))"
| "byte_items old (JNull # vs) =
     map_option (Cons (case old of [] \<Rightarrow> char_of (0 :: nat) | c # _ \<Rightarrow> c)) (byte_items (tl old) vs)"
| "byte_items old (v # vs) = None"

fun set_bytes :: "string \<Rightarrow> bytes option \<Rightarrow> (bytes option \<Rightarrow> 's) \<Rightarrow> json \<Rightarrow> 's result" where
  "set_bytes field old upd (JStr x) =
     (case std_decode x of None \<Rightarrow> Inl (type_error field) | Some b \<Rightarrow> Inr (upd (Some b)))"
| "set_bytes field old upd JNull = Inr (upd None)"
| "set_bytes field old upd (JArr vs) =
     (case byte_items (orelse old []) vs of None \<Rightarrow> Inl (type_error field) | Some b \<Rightarrow> Inr (upd (Some b)))"
| "set_bytes field old upd v = Inl (type_error field)"

fun string_items :: "string list \<Rightarrow> json list \<Rightarrow> string list option" where
  "string_items old [] = Some []"
| "string_items old (JStr x # vs) = map_option (Cons x) (string_items (tl old) vs)"
| "string_items old (JNull # vs) =
     map_option (Cons (case old of [] \<Rightarrow> [] | x # _ \<Rightarrow> x)) (string_items (tl old) vs)"
| "string_items old (v # vs) = None"

fun set_strings :: "string \<Rightarrow> string list \<Rightarrow> (string list \<Rightarrow> 's) \<Rightarrow> json \<Rightarrow> 's result" where
  "set_strings field old upd JNull = Inr (upd [])"
| "set_strings field old upd (JArr vs) =
     (case string_items old vs of None \<Rightarrow> Inl (type_error field) | Some xs \<Rightarrow> Inr (upd xs))"
| "set_strings field old upd v = Inl (type_error field)"

definition retry_policy_key :: "string \<Rightarrow> json \<Rightarrow> retry_policy \<Rightarrow> retry_policy result" where
  "retry_policy_key k v p =
     (if same_key k ''max_attempts'' then set_int k (\<lambda>n. p\<lparr>rp_max_attempts := n\<rparr>) p v
      else if same_key k ''backoff_type'' then set_string k (\<lambda>x. p\<lparr>rp_backoff_type := x\<rparr>) p v
      else if same_key k ''initial_delay_ms'' then set_int k (\<lambda>n. p\<lparr>rp_initial_delay_ms := n\<rparr>) p v
      else if same_key k ''max_delay_ms'' then set_int k (\<lambda>n. p\<lparr>rp_max_delay_ms := n\<rparr>) p v
      else if same_key k ''jitter_percent'' then set_int k (\<lambda>n. p\<lparr>rp_jitter_percent := n\<rparr>) p v
      else Inr p)"

definition endpoint_changed_key ::
    "json_env \<Rightarrow> string \<Rightarrow> json \<Rightarrow> endpoint_changed \<Rightarrow> endpoint_changed result" where
  "endpoint_changed_key jn k v e =
     (if same_key k ''message_id'' then set_string k (\<lambda>x. e\<lparr>ec_message_id := x\<rparr>) e v
      else if same_key k ''tenant_id'' then set_text (jn_parse_uuid jn) k (\<lambda>x. e\<lparr>ec_tenant_id := x\<rparr>) e v
      else if same_key k ''endpoint_id'' then set_text (jn_parse_uuid jn) k (\<lambda>x. e\<lparr>ec_endpoint_id := x\<rparr>) e v
      else if same_key k ''name'' then set_string k (\<lambda>x. e\<lparr>ec_name := x\<rparr>) e v
      else if same_key k ''url'' then set_string k (\<lambda>x. e\<lparr>ec_url := x\<rparr>) e v
      else if same_key k ''secret_encrypted'' then set_bytes k (ec_secret e) (\<lambda>b. e\<lparr>ec_secret := b\<rparr>) v
      else if same_key k ''status'' then set_string k (\<lambda>x. e\<lparr>ec_status := x\<rparr>) e v
      else if same_key k ''connect_timeout_ms'' then set_int k (\<lambda>n. e\<lparr>ec_connect_timeout_ms := n\<rparr>) e v
      else if same_key k ''request_timeout_ms'' then set_int k (\<lambda>n. e\<lparr>ec_request_timeout_ms := n\<rparr>) e v
      else if same_key k ''retry_policy''
      then (case decode_struct retry_policy_key v (ec_retry_policy e) of
              Inl err \<Rightarrow> Inl err | Inr p \<Rightarrow> Inr (e\<lparr>ec_retry_policy := p\<rparr>))
      else if same_key k ''version'' then set_int k (\<lambda>n. e\<lparr>ec_version := n\<rparr>) e v
      else if same_key k ''updated_at'' then set_text parse_rfc3339_nano k (\<lambda>t. e\<lparr>ec_updated_at := t\<rparr>) e v
      else if same_key k ''event_types'' then set_strings k (ec_event_types e) (\<lambda>xs. e\<lparr>ec_event_types := xs\<rparr>) v
      else Inr e)"

text \<open>The zero value: nil identifiers, and the zero time, which is the origin of the model's times.\<close>

definition zero_endpoint_changed :: endpoint_changed where
  "zero_endpoint_changed = \<lparr>ec_message_id = [], ec_tenant_id = uuid_nil, ec_endpoint_id = uuid_nil,
     ec_name = [], ec_url = [], ec_secret = None, ec_status = [], ec_connect_timeout_ms = 0,
     ec_request_timeout_ms = 0,
     ec_retry_policy = \<lparr>rp_max_attempts = 0, rp_backoff_type = [], rp_initial_delay_ms = 0,
       rp_max_delay_ms = 0, rp_jitter_percent = 0\<rparr>,
     ec_version = 0, ec_updated_at = 0, ec_event_types = []\<rparr>"

definition decode_endpoint_changed :: "json_env \<Rightarrow> message \<Rightarrow> endpoint_changed result" where
  "decode_endpoint_changed jn = decode_envelope (endpoint_changed_key jn) zero_endpoint_changed"

section \<open>What is written is read\<close>

definition policy_of :: "policy \<Rightarrow> retry_policy" where
  "policy_of p = \<lparr>rp_max_attempts = po_max_attempts p, rp_backoff_type = po_backoff_type p,
     rp_initial_delay_ms = po_initial_delay p, rp_max_delay_ms = po_max_delay p,
     rp_jitter_percent = po_jitter_percent p\<rparr>"

definition received :: "changed_message \<Rightarrow> endpoint_changed" where
  "received m = \<lparr>ec_message_id = cm_message_id m, ec_tenant_id = cm_tenant_id m,
     ec_endpoint_id = cm_endpoint_id m, ec_name = cm_name m, ec_url = cm_url m, ec_secret = cm_secret m,
     ec_status = cm_status m, ec_connect_timeout_ms = cm_connect_timeout_ms m,
     ec_request_timeout_ms = cm_request_timeout_ms m, ec_retry_policy = policy_of (cm_retry_policy m),
     ec_version = cm_version m, ec_updated_at = cm_updated_at m, ec_event_types = orelse (cm_event_types m) []\<rparr>"

definition int64 :: "int \<Rightarrow> bool" where
  "int64 n \<longleftrightarrow> - (2 ^ 63) \<le> n \<and> n < 2 ^ 63"

definition message_ok :: "changed_message \<Rightarrow> bool" where
  "message_ok m \<longleftrightarrow>
     list_all int64 [cm_connect_timeout_ms m, cm_request_timeout_ms m, cm_version m,
       po_max_attempts (cm_retry_policy m), po_initial_delay (cm_retry_policy m),
       po_max_delay (cm_retry_policy m), po_jitter_percent (cm_retry_policy m)]
     \<and> list_all pg_text_ok [cm_message_id m, cm_event_name m, cm_name m, cm_url m, cm_status m,
       po_name (cm_retry_policy m), po_backoff_type (cm_retry_policy m)]
     \<and> list_all pg_text_ok (orelse (cm_event_types m) [])
     \<and> 0 \<le> cm_updated_at m \<and> cm_updated_at m < 315537897600000000000"

text \<open>What google/uuid promises of \<open>String\<close> and \<open>Parse\<close>.\<close>

definition uuid_texts :: "json_env \<Rightarrow> (uuid \<Rightarrow> string) \<Rightarrow> bool" where
  "uuid_texts jn ut \<longleftrightarrow> (\<forall>i. jn_parse_uuid jn (ut i) = Some i \<and> pg_text_ok (ut i))"

lemma set_json_int [simp]: "int64 n \<Longrightarrow> set_int k upd s (json_int n) = Inr (upd n)"
  by (simp add: json_int_def int64_def atoi_format_int)

lemma string_items_strings [simp]: "string_items old (map JStr xs) = Some xs"
  by (induction xs arbitrary: old) simp_all

lemma policy_round_trip:
  assumes "list_all int64 [po_max_attempts p, po_initial_delay p, po_max_delay p, po_jitter_percent p]"
  shows "decode_struct retry_policy_key (policy_json ut p) p0 = Inr (policy_of p)"
  using assms by (simp add: policy_json_def retry_policy_key_def same_key_def field_upper policy_of_def del: fold_name.simps)

lemma changed_round_trip:
  assumes "\<And>i. jn_parse_uuid jn (ut i) = Some i" and "message_ok m"
  shows "decode_struct (endpoint_changed_key jn) (changed_json ut m) zero_endpoint_changed = Inr (received m)"
proof -
  have pol: "decode_struct retry_policy_key (policy_json ut (cm_retry_policy m)) p0 = Inr (policy_of (cm_retry_policy m))" for p0
    using assms(2) by (intro policy_round_trip) (simp add: message_ok_def)
  have secret: "set_bytes k old upd (case cm_secret m of None \<Rightarrow> JNull | Some b \<Rightarrow> JStr (std_encode b)) = Inr (upd (cm_secret m))"
    for k old and upd :: "bytes option \<Rightarrow> endpoint_changed"
    by (simp split: option.split)
  have types: "set_strings k old upd (case cm_event_types m of None \<Rightarrow> JNull | Some ts \<Rightarrow> JArr (map JStr ts))
      = Inr (upd (orelse (cm_event_types m) []))" for k old and upd :: "string list \<Rightarrow> endpoint_changed"
    by (simp add: orelse_def split: option.split)
  have time: "parse_rfc3339_nano (format_rfc3339_nano (cm_updated_at m)) = Some (cm_updated_at m)"
    using assms(2) by (intro parse_format_time) (simp_all add: message_ok_def)
  show ?thesis using assms
    by (simp add: changed_json_def endpoint_changed_key_def same_key_def pol secret types time message_ok_def
        zero_endpoint_changed_def received_def field_upper del: fold_name.simps)
qed

text \<open>The bytes of the message are read as the value that was written.\<close>

lemma ascii_std_encode: "ascii (std_encode b)"
proof -
  have "0 < (of_char (std_char v) :: nat) \<and> (of_char (std_char v) :: nat) < 128" if "v \<in> set (b64_digits b)" for v
    using b64_digits_less [OF that] by (auto simp: std_char_def of_char_b64)
  then have "ascii (map std_char (b64_digits b))" by (simp add: ascii_def list_all_iff)
  moreover have "ascii (replicate k CHR ''='')" for k by (induction k) simp_all
  ultimately show ?thesis by (simp add: std_encode_def std_pad_def)
qed

lemma ascii_format_time: "ascii (format_rfc3339_nano t)"
proof -
  have "list_all is_digit (rev (dropWhile P (rev (pad_digits k n))))" for P k n
    using pad_digits_digits [of k n] by (auto simp: list_all_iff dest: set_dropWhileD)
  then have "ascii (format_fraction n)" for n by (simp add: format_fraction_def ascii_digits)
  moreover have "ascii (format_year y)" for y
    by (simp add: format_year_def ascii_digits show_nat_digits)
  ultimately show ?thesis by (simp add: format_rfc3339_nano_def Let_def ascii_digits)
qed

lemma changed_json_ok:
  assumes "uuid_texts jn ut" and "message_ok m"
  shows "json_ok (changed_json ut m) max_nesting"
  using assms
  by (auto simp: changed_json_def policy_json_def json_int_def message_ok_def uuid_texts_def max_nesting_def
      pg_text_ok_ascii ascii_std_encode ascii_format_time list_all_iff orelse_def split: option.split)

lemma changed_decoded:
  assumes "uuid_texts jn ut" and "message_ok m" and "mk_value msg = json_text (changed_json ut m)"
  shows "decode_endpoint_changed jn msg = Inr (received m)"
  using changed_round_trip [OF _ assms(2), of jn ut] json_unmarshal_text [OF changed_json_ok [OF assms(1,2)]] assms(1,3)
  by (simp add: decode_endpoint_changed_def decode_envelope_def uuid_texts_def)

text \<open>
  C39. What the endpoint service writes about an endpoint, the delivery service reads: for every
  value of the writer's struct, decoding its JSON gives the reader's struct with the same field
  values (identifiers, the secret byte by byte, the retry policy, the version and the time to
  the nanosecond), so handling the bytes of the message is exactly the update of the
  projection with them.
\<close>

theorem endpoint_message_round_trip:
  assumes "uuid_texts jn ut" and "message_ok m" and "mk_value msg = json_text (changed_json ut m)"
  shows "decode_endpoint_changed jn msg = Inr (received m)
    \<and> handle_endpoint_message (decode_endpoint_changed jn) f msg db = upsert f (received m) db"
  using changed_decoded [OF assms] by (simp add: handle_endpoint_message_def received_def)

section \<open>The message about subscriptions\<close>

text \<open>
  \<open>SubscriptionChanged\<close> of events.go. The service is started with one topic for both kinds of
  messages, so the delivery service would read these as messages about endpoints. They have no
  secret, so their handling fails.
\<close>

record subscription_message =
  sm_message_id :: string
  sm_event_name :: string
  sm_schema_version :: int
  sm_tenant_id :: uuid
  sm_endpoint_id :: uuid
  sm_url :: string
  sm_status :: string
  sm_version :: int
  sm_updated_at :: time
  sm_event_types :: "string list option"

definition subscription_json :: "(uuid \<Rightarrow> string) \<Rightarrow> subscription_message \<Rightarrow> json" where
  "subscription_json ut m =
     JObj [(''message_id'', JStr (sm_message_id m)), (''event_name'', JStr (sm_event_name m)),
           (''schema_version'', json_int (sm_schema_version m)), (''tenant_id'', JStr (ut (sm_tenant_id m))),
           (''endpoint_id'', JStr (ut (sm_endpoint_id m))), (''url'', JStr (sm_url m)),
           (''status'', JStr (sm_status m)), (''version'', json_int (sm_version m)),
           (''updated_at'', JStr (format_rfc3339_nano (sm_updated_at m))),
           (''event_types'', case sm_event_types m of None \<Rightarrow> JNull | Some ts \<Rightarrow> JArr (map JStr ts))]"

definition subscription_ok :: "subscription_message \<Rightarrow> bool" where
  "subscription_ok m \<longleftrightarrow>
     int64 (sm_version m) \<and> 0 \<le> sm_updated_at m \<and> sm_updated_at m < 315537897600000000000
     \<and> list_all pg_text_ok [sm_message_id m, sm_event_name m, sm_url m, sm_status m]
     \<and> list_all pg_text_ok (orelse (sm_event_types m) [])"

lemma subscription_read:
  assumes "uuid_texts jn ut" and "subscription_ok m"
  shows "\<exists>e. decode_struct (endpoint_changed_key jn) (subscription_json ut m) zero_endpoint_changed = Inr e
    \<and> ec_secret e = None"
proof -
  have types: "set_strings k old upd (case sm_event_types m of None \<Rightarrow> JNull | Some ts \<Rightarrow> JArr (map JStr ts))
      = Inr (upd (orelse (sm_event_types m) []))" for k old and upd :: "string list \<Rightarrow> endpoint_changed"
    by (simp add: orelse_def split: option.split)
  have time: "parse_rfc3339_nano (format_rfc3339_nano (sm_updated_at m)) = Some (sm_updated_at m)"
    using assms(2) by (intro parse_format_time) (simp_all add: subscription_ok_def)
  show ?thesis using assms
    by (simp add: subscription_json_def endpoint_changed_key_def same_key_def types time subscription_ok_def
        uuid_texts_def zero_endpoint_changed_def field_upper del: fold_name.simps)
qed

lemma subscription_message_refused:
  assumes "uuid_texts jn ut" and "subscription_ok m" and "mk_value msg = json_text (subscription_json ut m)"
  shows "handle_endpoint_message (decode_endpoint_changed jn) no_faults msg db
    = (Inl (wrap ''upsert endpoint: '' (pg_not_null ''secret_encrypted'')), db)"
proof -
  have "json_ok (subscription_json ut m) max_nesting"
    using assms(1,2)
    by (auto simp: subscription_json_def json_int_def subscription_ok_def uuid_texts_def max_nesting_def
        pg_text_ok_ascii ascii_format_time list_all_iff orelse_def split: option.split)
  then obtain e where "decode_endpoint_changed jn msg = Inr e" "ec_secret e = None"
    using subscription_read [OF assms(1,2)] json_unmarshal_text assms(3)
    by (auto simp: decode_endpoint_changed_def decode_envelope_def)
  then show ?thesis by (simp add: handle_endpoint_message_def upsert_def run_tx_no_fault)
qed

end
