(* ===== verification/Requests.thy ===== *)
theory Requests
  imports AuthHttp EventHttp EndpointHttp EndpointMessages
begin

text \<open>
  From the bytes of a request to what its handler gets: \<open>decode\<close> of auth-service/internal/httpapi,
  \<open>decodeJSON\<close> of endpoint-service/internal/httpapi and the decoder of \<open>PublishEvent\<close>, with the
  struct tags of the request types. Auth and endpoint service refuse unknown fields and read at
  most one megabyte, and the endpoint service wants one value only; the event service does
  neither. \<open>uuid.Parse\<close> is a parameter.
\<close>

section \<open>Reading a body\<close>

text \<open>Behind \<open>MaxBytesReader\<close>: a longer body breaks off with an error instead of ending.\<close>

definition read_limited :: "nat \<Rightarrow> bytes \<Rightarrow> stream_read" where
  "read_limited limit body =
     (case json_read (take limit body) of
        Read_EOF \<Rightarrow> if limit < length body then Read_Error else Read_EOF
      | r \<Rightarrow> r)"

definition max_body :: nat where
  "max_body = 1048576"

definition auth_decode ::
    "(string \<Rightarrow> json \<Rightarrow> 's \<Rightarrow> 's result) \<Rightarrow> 's \<Rightarrow> bytes \<Rightarrow> 's option" where
  "auth_decode step zero body =
     (case read_limited max_body body of
        Read_Value v rest \<Rightarrow> (case decode_struct step v zero of Inl e \<Rightarrow> None | Inr s \<Rightarrow> Some s)
      | _ \<Rightarrow> None)"

definition endpoint_decode ::
    "(string \<Rightarrow> json \<Rightarrow> 's \<Rightarrow> 's result) \<Rightarrow> 's \<Rightarrow> bytes \<Rightarrow> 's body_read" where
  "endpoint_decode step zero body =
     (case read_limited max_body body of
        Read_EOF \<Rightarrow> No_Body
      | Read_Error \<Rightarrow> Bad_Body
      | Read_Value v rest \<Rightarrow>
          (case decode_struct step v zero of
             Inl e \<Rightarrow> Bad_Body
           | Inr s \<Rightarrow>
               (if length body \<le> max_body \<and> json_read rest = Read_EOF then Body s else More_Than_One)))"

definition event_decode ::
    "(string \<Rightarrow> json \<Rightarrow> 's \<Rightarrow> 's result) \<Rightarrow> 's \<Rightarrow> bytes \<Rightarrow> 's option" where
  "event_decode step zero body =
     (case json_read body of
        Read_Value v rest \<Rightarrow> (case decode_struct step v zero of Inl e \<Rightarrow> None | Inr s \<Rightarrow> Some s)
      | _ \<Rightarrow> None)"

section \<open>The fields\<close>

definition unknown_field :: "string \<Rightarrow> 's result" where
  "unknown_field k = Inl (Msg (''json: unknown field '' @ k))"

text \<open>A pointer: \<open>null\<close> makes it nil.\<close>

definition set_pointer :: "(json \<Rightarrow> 'a result) \<Rightarrow> ('a option \<Rightarrow> 's) \<Rightarrow> json \<Rightarrow> 's result" where
  "set_pointer dec upd v =
     (case v of
        JNull \<Rightarrow> Inr (upd None)
      | _ \<Rightarrow> (case dec v of Inl e \<Rightarrow> Inl e | Inr a \<Rightarrow> Inr (upd (Some a))))"

definition read_string :: "string \<Rightarrow> json \<Rightarrow> string result" where
  "read_string k = set_string k id []"

definition create_tenant_key :: "string \<Rightarrow> json \<Rightarrow> create_tenant_request \<Rightarrow> create_tenant_request result" where
  "create_tenant_key k v r =
     (if same_key k ''name'' then set_string k (\<lambda>x. r\<lparr>rt_name := x\<rparr>) r v
      else if same_key k ''key_name'' then set_string k (\<lambda>x. r\<lparr>rt_key_name := x\<rparr>) r v
      else unknown_field k)"

definition create_key_key :: "string \<Rightarrow> json \<Rightarrow> create_key_request \<Rightarrow> create_key_request result" where
  "create_key_key k v r =
     (if same_key k ''name'' then set_string k (\<lambda>x. r\<lparr>rk_name := x\<rparr>) r v
      else if same_key k ''scopes'' then set_strings k (rk_scopes r) (\<lambda>xs. r\<lparr>rk_scopes := xs\<rparr>) v
      else if same_key k ''expires_at''
      then set_pointer (set_text parse_rfc3339_nano k id 0) (\<lambda>t. r\<lparr>rk_expires_at := t\<rparr>) v
      else unknown_field k)"

definition update_tenant_key :: "string \<Rightarrow> json \<Rightarrow> update_tenant_request \<Rightarrow> update_tenant_request result" where
  "update_tenant_key k v r =
     (if same_key k ''name'' then set_pointer (read_string k) (\<lambda>x. r\<lparr>ut_name := x\<rparr>) v
      else if same_key k ''status'' then set_pointer (read_string k) (\<lambda>x. r\<lparr>ut_status := x\<rparr>) v
      else unknown_field k)"

definition verify_key :: "string \<Rightarrow> json \<Rightarrow> string \<Rightarrow> string result" where
  "verify_key k v r = (if same_key k ''api_key'' then set_string k id r v else unknown_field k)"

definition create_request_key ::
    "(string \<Rightarrow> uuid option) \<Rightarrow> string \<Rightarrow> json \<Rightarrow> create_request \<Rightarrow> create_request result" where
  "create_request_key read_id k v r =
     (if same_key k ''name'' then set_string k (\<lambda>x. r\<lparr>cr_name := x\<rparr>) r v
      else if same_key k ''url'' then set_string k (\<lambda>x. r\<lparr>cr_url := x\<rparr>) r v
      else if same_key k ''secret'' then set_string k (\<lambda>x. r\<lparr>cr_secret := x\<rparr>) r v
      else if same_key k ''connect_timeout_ms'' then set_int k (\<lambda>n. r\<lparr>cr_connect_timeout_ms := n\<rparr>) r v
      else if same_key k ''request_timeout_ms'' then set_int k (\<lambda>n. r\<lparr>cr_request_timeout_ms := n\<rparr>) r v
      else if same_key k ''retry_policy_id''
      then set_pointer (set_text read_id k id uuid_nil) (\<lambda>i. r\<lparr>cr_policy_id := i\<rparr>) v
      else if same_key k ''event_types'' then set_strings k (cr_event_types r) (\<lambda>xs. r\<lparr>cr_event_types := xs\<rparr>) v
      else unknown_field k)"

definition patch_request_key ::
    "(string \<Rightarrow> uuid option) \<Rightarrow> string \<Rightarrow> json \<Rightarrow> patch_request \<Rightarrow> patch_request result" where
  "patch_request_key read_id k v r =
     (if same_key k ''name'' then set_pointer (read_string k) (\<lambda>x. r\<lparr>pt_name := x\<rparr>) v
      else if same_key k ''url'' then set_pointer (read_string k) (\<lambda>x. r\<lparr>pt_url := x\<rparr>) v
      else if same_key k ''secret'' then set_pointer (read_string k) (\<lambda>x. r\<lparr>pt_secret := x\<rparr>) v
      else if same_key k ''connect_timeout_ms''
      then set_pointer (set_int k id 0) (\<lambda>n. r\<lparr>pt_connect_timeout_ms := n\<rparr>) v
      else if same_key k ''request_timeout_ms''
      then set_pointer (set_int k id 0) (\<lambda>n. r\<lparr>pt_request_timeout_ms := n\<rparr>) v
      else if same_key k ''retry_policy_id''
      then set_pointer (set_text read_id k id uuid_nil) (\<lambda>i. r\<lparr>pt_policy_id := i\<rparr>) v
      else if same_key k ''event_types''
      then set_pointer (set_strings k (orelse (pt_event_types r) []) id) (\<lambda>xs. r\<lparr>pt_event_types := xs\<rparr>) v
      else unknown_field k)"

text \<open>\<open>json.RawMessage\<close> takes the text of the value, also of \<open>null\<close>; here without the spaces around
  its parts and with the escapes of \<open>json_text\<close>, between which the JSONB columns it is stored in make
  no difference. Unknown fields are skipped.\<close>

definition publish_request_key ::
    "string \<Rightarrow> json \<Rightarrow> publish_request \<Rightarrow> publish_request result" where
  "publish_request_key k v r =
     (if same_key k ''type'' then set_string k (\<lambda>x. r\<lparr>pq_type := x\<rparr>) r v
      else if same_key k ''idempotency_key'' then set_string k (\<lambda>x. r\<lparr>pq_idempotency_key := x\<rparr>) r v
      else if same_key k ''data'' then Inr (r\<lparr>pq_data := json_text v\<rparr>)
      else if same_key k ''occurred_at''
      then set_pointer (set_text parse_rfc3339_nano k id 0) (\<lambda>t. r\<lparr>pq_occurred_at := t\<rparr>) v
      else if same_key k ''source'' then set_pointer (read_string k) (\<lambda>x. r\<lparr>pq_source := x\<rparr>) v
      else if same_key k ''metadata'' then Inr (r\<lparr>pq_metadata := json_text v\<rparr>)
      else Inr r)"

section \<open>Requests with their bodies\<close>

definition zero_create_request :: create_request where
  "zero_create_request = \<lparr>cr_name = [], cr_url = [], cr_secret = [], cr_connect_timeout_ms = 0,
     cr_request_timeout_ms = 0, cr_policy_id = None, cr_event_types = []\<rparr>"

definition zero_patch_request :: patch_request where
  "zero_patch_request = \<lparr>pt_name = None, pt_url = None, pt_secret = None, pt_connect_timeout_ms = None,
     pt_request_timeout_ms = None, pt_policy_id = None, pt_event_types = None\<rparr>"

definition zero_publish_request :: publish_request where
  "zero_publish_request = \<lparr>pq_type = [], pq_idempotency_key = [], pq_data = [], pq_occurred_at = None,
     pq_source = None, pq_metadata = []\<rparr>"

text \<open>What the handlers get from a body. The other parts of the request are taken as they are; a
  handler uses the decoding for its own type only.\<close>

definition auth_request_of :: "bytes \<Rightarrow> auth_request \<Rightarrow> auth_request" where
  "auth_request_of body rq =
     rq\<lparr>rq_verify := auth_decode verify_key [] body,
       rq_create_tenant := auth_decode create_tenant_key \<lparr>rt_name = [], rt_key_name = []\<rparr> body,
       rq_update_tenant := auth_decode update_tenant_key \<lparr>ut_name = None, ut_status = None\<rparr> body,
       rq_create_key := auth_decode create_key_key \<lparr>rk_name = [], rk_scopes = [], rk_expires_at = None\<rparr> body\<rparr>"

definition endpoint_request_of ::
    "(string \<Rightarrow> uuid option) \<Rightarrow> bytes \<Rightarrow> endpoint_request \<Rightarrow> endpoint_request" where
  "endpoint_request_of read_id body rq =
     rq\<lparr>hq_create := endpoint_decode (create_request_key read_id) zero_create_request body,
       hq_patch := endpoint_decode (patch_request_key read_id) zero_patch_request body\<rparr>"

definition event_request_of ::
    "bytes \<Rightarrow> event_request \<Rightarrow> event_request" where
  "event_request_of body rq =
     rq\<lparr>hq_event := event_decode publish_request_key zero_publish_request body\<rparr>"

section \<open>Which bodies are accepted\<close>

definition only_fields :: "string list \<Rightarrow> json \<Rightarrow> bool" where
  "only_fields fs v \<longleftrightarrow>
     (case v of
        JObj kvs \<Rightarrow> list_all (\<lambda>kv. list_ex (same_key (fst kv)) fs) kvs
      | JNull \<Rightarrow> True
      | _ \<Rightarrow> False)"

lemma decode_only_fields:
  assumes "decode_struct step v s = Inr s'"
    and "\<And>k v s s'. step k v s = Inr s' \<Longrightarrow> list_ex (same_key k) fs"
  shows "only_fields fs v"
proof (cases v)
  case (JObj kvs)
  have "list_all (\<lambda>kv. list_ex (same_key (fst kv)) fs) kvs" if "decode_keys step kvs s = Inr s'" for kvs s
    using that by (induction kvs arbitrary: s) (auto split: sum.splits dest: assms(2))
  then show ?thesis using assms(1) JObj by (simp add: only_fields_def)
qed (use assms(1) in \<open>auto simp: only_fields_def\<close>)

text \<open>The field names of the request types.\<close>

fun auth_fields :: "auth_route \<Rightarrow> string list option" where
  "auth_fields POST_verify = Some [''api_key'']"
| "auth_fields POST_tenants = Some [''name'', ''key_name'']"
| "auth_fields PATCH_tenant = Some [''name'', ''status'']"
| "auth_fields POST_keys = Some [''name'', ''scopes'', ''expires_at'']"
| "auth_fields _ = None"

definition endpoint_fields :: "string list" where
  "endpoint_fields = [''name'', ''url'', ''secret'', ''connect_timeout_ms'', ''request_timeout_ms'',
     ''retry_policy_id'', ''event_types'']"

lemmas request_keys = create_tenant_key_def create_key_key_def update_tenant_key_def verify_key_def
  create_request_key_def patch_request_key_def unknown_field_def

text \<open>A body that starts with one value of these fields, within the limit.\<close>

definition strict_body :: "string list \<Rightarrow> bytes \<Rightarrow> bool" where
  "strict_body fs body \<longleftrightarrow>
     (case json_read (take max_body body) of Read_Value v rest \<Rightarrow> only_fields fs v | _ \<Rightarrow> False)"

definition single_body :: "bytes \<Rightarrow> bool" where
  "single_body body \<longleftrightarrow>
     length body \<le> max_body \<and> (case json_read body of Read_Value v rest \<Rightarrow> json_read rest = Read_EOF | _ \<Rightarrow> False)"

lemma auth_decode_strict:
  assumes "auth_decode step zero body = Some s"
    and "\<And>k v s s'. step k v s = Inr s' \<Longrightarrow> list_ex (same_key k) fs"
  shows "strict_body fs body"
  using assms(1) decode_only_fields [OF _ assms(2)]
  by (auto simp: auth_decode_def read_limited_def strict_body_def split: stream_read.splits sum.splits if_splits)

lemma endpoint_decode_strict:
  assumes "endpoint_decode step zero body = Body s"
    and "\<And>k v s s'. step k v s = Inr s' \<Longrightarrow> list_ex (same_key k) fs"
  shows "strict_body fs body \<and> single_body body"
  using assms(1) decode_only_fields [OF _ assms(2)]
  by (auto simp: endpoint_decode_def read_limited_def strict_body_def single_body_def
      split: stream_read.splits sum.splits if_splits)

text \<open>An answer that is no error needs a body of this kind.\<close>

definition needs :: "bool \<Rightarrow> 'b Http.http_response \<Rightarrow> bool" where
  "needs P resp \<longleftrightarrow> (case snd resp of Error_Body m \<Rightarrow> True | _ \<Rightarrow> P)"

lemma needs_simps [simp]:
  "needs P (write_error st m)" "needs P (write_json st v) \<longleftrightarrow> P" "needs P (st, Empty_Body) \<longleftrightarrow> P"
  "needs P (write_endpoint_error e)"
  "write_error st m = (a, b) \<Longrightarrow> needs P (a, b)"
  by (auto simp: needs_def write_defs write_endpoint_error_def)

lemma needs_True [simp]: "needs True resp"
  by (simp add: needs_def split: http_body.split)

lemma auth_body_needed:
  "needs (case auth_fields route of None \<Rightarrow> True | Some fs \<Rightarrow> strict_body fs body)
     (fst (auth_serve h c route (auth_request_of body rq) db))"
proof -
  have "strict_body [''api_key''] body" if "auth_decode verify_key z body = Some r" for r z
    by (rule auth_decode_strict [OF that]) (auto simp: request_keys split: if_splits)
  moreover have "strict_body [''name'', ''key_name''] body"
    if "auth_decode create_tenant_key z body = Some r" for r z
    by (rule auth_decode_strict [OF that]) (auto simp: request_keys split: if_splits)
  moreover have "strict_body [''name'', ''status''] body"
    if "auth_decode update_tenant_key z body = Some r" for r z
    by (rule auth_decode_strict [OF that]) (auto simp: request_keys split: if_splits)
  moreover have "strict_body [''name'', ''scopes'', ''expires_at''] body"
    if "auth_decode create_key_key z body = Some r" for r z
    by (rule auth_decode_strict [OF that]) (auto simp: request_keys split: if_splits)
  ultimately show ?thesis
    by (cases route) (auto simp: auth_request_of_def admin_def handle_verify_def handle_create_tenant_def
        handle_update_tenant_def handle_create_key_def split: option.split sum.split prod.split)
qed

lemma endpoint_body_needed:
  "needs (if route = Create \<or> route = Patch then strict_body endpoint_fields body \<and> single_body body else True)
     (fst (endpoint_serve h route (endpoint_request_of read_id body rq) db))"
proof -
  have c: "strict_body endpoint_fields body \<and> single_body body"
    if "endpoint_decode (create_request_key i) z body = Body r" for r z i
    by (rule endpoint_decode_strict [OF that]) (auto simp: request_keys endpoint_fields_def split: if_splits)
  have p: "strict_body endpoint_fields body \<and> single_body body"
    if "endpoint_decode (patch_request_key i) z body = Body r" for r z i
    by (rule endpoint_decode_strict [OF that]) (auto simp: request_keys endpoint_fields_def split: if_splits)
  consider "route = Create" | "route = Patch" | "route \<noteq> Create \<and> route \<noteq> Patch" by blast
  then show ?thesis
  proof cases
    case 1
    then show ?thesis using c by (auto simp: endpoint_request_of_def handle_create_def decode_json_def
          split: option.split sum.split prod.split body_read.split)
  next
    case 2
    then show ?thesis using p by (auto simp: endpoint_request_of_def handle_patch_def decode_json_def
          split: option.split sum.split prod.split body_read.split)
  next
    case 3
    then show ?thesis by simp
  qed
qed

text \<open>The event service reads the first value only, and skips fields that it does not know.\<close>

lemma event_decode_first_value:
  assumes "json_read body = Read_Value v rest" and "json_read body' = Read_Value v rest'"
  shows "event_decode step zero body' = event_decode step zero body"
  using assms by (simp add: event_decode_def)

lemma publish_request_unknown:
  assumes "\<not> list_ex (same_key k) [''type'', ''idempotency_key'', ''data'', ''occurred_at'', ''source'', ''metadata'']"
  shows "decode_keys publish_request_key ((k, v) # kvs) r = decode_keys publish_request_key kvs r"
  using assms by (simp add: publish_request_key_def)

section \<open>What a body means\<close>

text \<open>A request as its JSON, and what the service reads.\<close>

definition create_request_json :: "(uuid \<Rightarrow> string) \<Rightarrow> create_request \<Rightarrow> json" where
  "create_request_json ut r =
     JObj ([(''name'', JStr (cr_name r)), (''url'', JStr (cr_url r)), (''secret'', JStr (cr_secret r)),
            (''connect_timeout_ms'', json_int (cr_connect_timeout_ms r)),
            (''request_timeout_ms'', json_int (cr_request_timeout_ms r))]
        @ (case cr_policy_id r of None \<Rightarrow> [] | Some i \<Rightarrow> [(''retry_policy_id'', JStr (ut i))])
        @ [(''event_types'', JArr (map JStr (cr_event_types r)))])"

definition pointer_field :: "string \<Rightarrow> ('a \<Rightarrow> json) \<Rightarrow> 'a option \<Rightarrow> (string \<times> json) list" where
  "pointer_field k enc v = (case v of None \<Rightarrow> [] | Some x \<Rightarrow> [(k, enc x)])"

definition patch_request_json :: "(uuid \<Rightarrow> string) \<Rightarrow> patch_request \<Rightarrow> json" where
  "patch_request_json ut r =
     JObj (pointer_field ''name'' JStr (pt_name r) @ pointer_field ''url'' JStr (pt_url r)
        @ pointer_field ''secret'' JStr (pt_secret r)
        @ pointer_field ''connect_timeout_ms'' json_int (pt_connect_timeout_ms r)
        @ pointer_field ''request_timeout_ms'' json_int (pt_request_timeout_ms r)
        @ pointer_field ''retry_policy_id'' (\<lambda>i. JStr (ut i)) (pt_policy_id r)
        @ pointer_field ''event_types'' (\<lambda>ts. JArr (map JStr ts)) (pt_event_types r))"

definition ints_ok :: "int option list \<Rightarrow> bool" where
  "ints_ok xs \<longleftrightarrow> list_all (\<lambda>x. case x of None \<Rightarrow> True | Some n \<Rightarrow> int64 n) xs"

lemma set_pointer_simps [simp]:
  "set_pointer dec upd (JStr x) = (case dec (JStr x) of Inl e \<Rightarrow> Inl e | Inr a \<Rightarrow> Inr (upd (Some a)))"
  "set_pointer dec upd (JArr vs) = (case dec (JArr vs) of Inl e \<Rightarrow> Inl e | Inr a \<Rightarrow> Inr (upd (Some a)))"
  "set_pointer dec upd (json_int n) = (case dec (json_int n) of Inl e \<Rightarrow> Inl e | Inr a \<Rightarrow> Inr (upd (Some a)))"
  "set_pointer dec upd JNull = Inr (upd None)"
  by (simp_all add: set_pointer_def json_int_def)

lemma decode_keys_append:
  "decode_keys step (xs @ ys) s = (case decode_keys step xs s of Inl e \<Rightarrow> Inl e | Inr s' \<Rightarrow> decode_keys step ys s')"
  by (induction xs arbitrary: s) (auto split: sum.split)

lemma create_request_read:
  assumes "\<And>i. read_id (ut i) = Some i" and "int64 (cr_connect_timeout_ms r)" "int64 (cr_request_timeout_ms r)"
  shows "decode_struct (create_request_key read_id) (create_request_json ut r) zero_create_request = Inr r"
  using assms
  by (simp add: create_request_json_def create_request_key_def same_key_def zero_create_request_def decode_keys_append
      field_upper del: fold_name.simps split: option.split)

lemma patch_fields [simp]:
  "pt_name s = None \<Longrightarrow>
     decode_keys (patch_request_key rid) (pointer_field ''name'' JStr name) s = Inr (s\<lparr>pt_name := name\<rparr>)"
  "pt_url s = None \<Longrightarrow>
     decode_keys (patch_request_key rid) (pointer_field ''url'' JStr url) s = Inr (s\<lparr>pt_url := url\<rparr>)"
  "pt_secret s = None \<Longrightarrow>
     decode_keys (patch_request_key rid) (pointer_field ''secret'' JStr secret) s = Inr (s\<lparr>pt_secret := secret\<rparr>)"
  "pt_connect_timeout_ms s = None \<Longrightarrow> ints_ok [n] \<Longrightarrow>
     decode_keys (patch_request_key rid) (pointer_field ''connect_timeout_ms'' json_int n) s
       = Inr (s\<lparr>pt_connect_timeout_ms := n\<rparr>)"
  "pt_request_timeout_ms s = None \<Longrightarrow> ints_ok [n] \<Longrightarrow>
     decode_keys (patch_request_key rid) (pointer_field ''request_timeout_ms'' json_int n) s
       = Inr (s\<lparr>pt_request_timeout_ms := n\<rparr>)"
  "pt_event_types s = None \<Longrightarrow>
     decode_keys (patch_request_key rid) (pointer_field ''event_types'' (\<lambda>ts. JArr (map JStr ts)) ts) s
       = Inr (s\<lparr>pt_event_types := ts\<rparr>)"
  by (cases s; simp add: pointer_field_def patch_request_key_def same_key_def read_string_def ints_ok_def
      field_upper del: fold_name.simps split: option.splits)+

lemma patch_policy_field [simp]:
  "pt_policy_id s = None \<Longrightarrow> (\<And>i. rid (ut i) = Some i) \<Longrightarrow>
     decode_keys (patch_request_key rid) (pointer_field ''retry_policy_id'' (\<lambda>i. JStr (ut i)) p) s
       = Inr (s\<lparr>pt_policy_id := p\<rparr>)"
  by (cases s; simp add: pointer_field_def patch_request_key_def same_key_def field_upper
      del: fold_name.simps split: option.splits)

lemma patch_request_read:
  assumes "\<And>i. read_id (ut i) = Some i" and "ints_ok [pt_connect_timeout_ms r]" "ints_ok [pt_request_timeout_ms r]"
  shows "decode_struct (patch_request_key read_id) (patch_request_json ut r) zero_patch_request = Inr r"
  using assms by (simp add: patch_request_json_def decode_keys_append zero_patch_request_def)


text \<open>A request that a client writes with encoding/json is what the handler gets.\<close>

definition create_text_ok :: "create_request \<Rightarrow> bool" where
  "create_text_ok r \<longleftrightarrow> pg_text_ok (cr_name r) \<and> pg_text_ok (cr_url r) \<and> pg_text_ok (cr_secret r)
     \<and> list_all pg_text_ok (cr_event_types r)"

lemma create_json_ok:
  assumes "\<And>i. pg_text_ok (ut i)" and "create_text_ok r"
  shows "json_ok (create_request_json ut r) max_nesting"
  using assms
  by (auto simp: create_request_json_def create_text_ok_def json_int_def max_nesting_def pg_text_ok_ascii list_all_iff
      split: option.splits)

lemma create_body_read:
  assumes "\<And>i. read_id (ut i) = Some i \<and> pg_text_ok (ut i)" and "create_text_ok r"
    and "int64 (cr_connect_timeout_ms r)" "int64 (cr_request_timeout_ms r)"
    and "body = json_text (create_request_json ut r)" "length body \<le> max_body"
  shows "hq_create (endpoint_request_of read_id body rq) = Body r"
proof -
  have "json_read body = Read_Value (create_request_json ut r) []"
    using json_read_text [OF create_json_ok, of ut r "[]"] assms(1,2,5) by (simp add: stops_def)
  then show ?thesis using assms(6) create_request_read [of read_id ut r] assms(1,3,4)
    by (simp add: endpoint_request_of_def endpoint_decode_def read_limited_def json_read_end)
qed

section \<open>Property\<close>

text \<open>
  C35. Only well-formed bodies get through: on every route of the auth and the endpoint service
  that reads a body, an answer that is no error was given to a body whose first megabyte starts
  with a JSON object (or \<open>null\<close>) that has the fields of the request type only, their names
  compared as \<open>encoding/json\<close> folds them; in the endpoint service the body is moreover no longer
  than that and holds nothing after the object.
\<close>

theorem accepted_bodies_are_strict:
  "needs (case auth_fields ar of None \<Rightarrow> True | Some fs \<Rightarrow> strict_body fs abody)
     (fst (auth_serve ah ac ar (auth_request_of abody arq) adb))
   \<and> needs (if nr = Create \<or> nr = Patch then strict_body endpoint_fields nbody \<and> single_body nbody else True)
     (fst (endpoint_serve nh nr (endpoint_request_of read_id nbody nrq) ndb))"
  by (intro conjI auth_body_needed endpoint_body_needed)

text \<open>An object of a field that the type does not have, for instance, is no such body.\<close>

lemma unknown_field_example:
  "\<not> strict_body endpoint_fields (json_text (JObj [(''nam'', JStr ''x'')]))"
proof -
  have "json_ok (JObj [(''nam'', JStr ''x'')]) max_nesting" by (simp add: max_nesting_def pg_text_ok_ascii)
  from json_read_text [OF this, of "[]"]
  have "json_read (json_text (JObj [(''nam'', JStr ''x'')])) = Read_Value (JObj [(''nam'', JStr ''x'')]) []"
    by (simp add: stops_def)
  moreover have "length (json_text (JObj [(''nam'', JStr ''x'')])) \<le> max_body"
    by (simp add: max_body_def member_text_def string_text_def string_body.simps escape_char_def)
  ultimately show ?thesis
    by (simp add: strict_body_def only_fields_def endpoint_fields_def same_key_def fold_ascii_def
        del: json_text.simps json_text_JObj)
qed

text \<open>The body \<open>null\<close> changes an endpoint: the request of no field, which raises the version.\<close>

lemma null_patch: "hq_patch (endpoint_request_of read_id (json_text JNull) rq) = Body zero_patch_request"
proof -
  have "json_read (json_text JNull) = Read_Value JNull []" using json_read_text [of JNull "[]"] by (simp add: stops_def)
  then show ?thesis
    by (simp add: endpoint_request_of_def endpoint_decode_def read_limited_def max_body_def json_read_end)
qed

end
