(* ===== verification/WebhookTransport.thy ===== *)
theory WebhookTransport
  imports Webhook
begin

text \<open>
  \<open>NewClient\<close> of delivery-service/internal/webhook/client.go, and what the standard library's
  \<open>Client.Do\<close> makes of its options: the limit on the wait for the response headers, the deadline
  of the request, and the redirects, which the client follows because nothing forbids it. The
  network is an argument: what comes back for a request, and after what time. The URL of a
  redirect relative to that of the request is an argument too (\<open>None\<close> if it cannot be parsed).
\<close>

section \<open>NewClient\<close>

record transport =
  tr_max_idle_conns :: int
  tr_max_idle_conns_per_host :: int
  tr_idle_conn_timeout :: duration
  tr_tls_handshake_timeout :: duration
  tr_response_header_timeout :: duration
  tr_expect_continue_timeout :: duration

definition new_client :: transport where
  "new_client = \<lparr>tr_max_idle_conns = 100, tr_max_idle_conns_per_host = 20, tr_idle_conn_timeout = seconds 90,
     tr_tls_handshake_timeout = seconds 5, tr_response_header_timeout = seconds 10,
     tr_expect_continue_timeout = seconds 1\<rparr>"

section \<open>One exchange\<close>

datatype exchange =
    Broken string duration  \<comment> \<open>the connection fails after this time\<close>
  | Answer duration string http_response  \<comment> \<open>the headers come after this time; the header \<open>Location\<close>\<close>

definition round_trip ::
    "transport \<Rightarrow> (http_request \<Rightarrow> exchange) \<Rightarrow> duration \<Rightarrow> http_request \<Rightarrow> (string \<times> bool) + duration \<times> string \<times> http_response" where
  "round_trip tr net left rq =
     (case net rq of
        Broken e t \<Rightarrow> (if left \<le> t then Inl (''context deadline exceeded'', True) else Inl (e, False))
      | Answer t loc resp \<Rightarrow>
          (if left \<le> t \<and> left \<le> tr_response_header_timeout tr then Inl (''context deadline exceeded'', True)
           else if tr_response_header_timeout tr \<le> t
           then Inl (''net/http: timeout awaiting response headers'', False)
           else Inr (t, loc, resp)))"

section \<open>Redirects\<close>

text \<open>The next request: 301, 302 and 303 make a GET without body of it, 307 and 308 repeat it. Its
  headers are kept (the library adds \<open>Referer\<close>, and may drop the headers about the body).\<close>

definition redirected :: "http_request \<Rightarrow> int \<Rightarrow> string \<Rightarrow> http_request \<Rightarrow> http_request option" where
  "redirected first status url rq =
     (if status = 301 \<or> status = 302 \<or> status = 303
      then Some (rq\<lparr>hq_method := (if hq_method rq = ''HEAD'' then ''HEAD'' else ''GET''), hq_url := url, hq_body := []\<rparr>)
      else if status = 307 \<or> status = 308 then Some (rq\<lparr>hq_url := url, hq_body := hq_body first\<rparr>)
      else None)"

text \<open>\<open>Client.Do\<close> with the requests that may still follow, and the requests that it sends.\<close>

fun follow ::
    "transport \<Rightarrow> (http_request \<Rightarrow> exchange) \<Rightarrow> (string \<Rightarrow> string \<Rightarrow> string option) \<Rightarrow> http_request
       \<Rightarrow> nat \<Rightarrow> duration \<Rightarrow> http_request \<Rightarrow> http_request list \<times> http_outcome" where
  "follow tr net resolve first n left rq =
     (case round_trip tr net left rq of
        Inl (e, deadline) \<Rightarrow> ([rq], Do_Error e deadline)
      | Inr (t, loc, resp) \<Rightarrow>
          (case redirected first (hr_status resp) [] rq of
             None \<Rightarrow> ([rq], Response resp)
           | Some _ \<Rightarrow>
               (if loc = [] then ([rq], Response resp)
                else case resolve (hq_url rq) loc of
                  None \<Rightarrow> ([rq], Do_Error ''failed to parse Location header'' False)
                | Some url \<Rightarrow>
                    (case n of
                       0 \<Rightarrow> ([rq], Do_Error ''stopped after 10 redirects'' False)
                     | Suc m \<Rightarrow>
                         (case follow tr net resolve first m (left - t) (the (redirected first (hr_status resp) url rq)) of
                            (rqs, out) \<Rightarrow> (rq # rqs, out))))))"

declare follow.simps [simp del]

definition client_do ::
    "(http_request \<Rightarrow> exchange) \<Rightarrow> (string \<Rightarrow> string \<Rightarrow> string option) \<Rightarrow> http_request \<Rightarrow> http_request list \<times> http_outcome" where
  "client_do net resolve rq = follow new_client net resolve rq 9 (hq_timeout rq) rq"

definition client_env ::
    "(http_request \<Rightarrow> exchange) \<Rightarrow> (string \<Rightarrow> string \<Rightarrow> string option) \<Rightarrow> http_env \<Rightarrow> http_env" where
  "client_env net resolve env = env\<lparr>env_do := \<lambda>rq. snd (client_do net resolve rq)\<rparr>"

section \<open>What this means for a delivery\<close>

lemma redirected_keeps:
  "redirected first st url rq = Some rq' \<Longrightarrow> hq_headers rq' = hq_headers rq \<and> hq_url rq' = url \<and> hq_timeout rq' = hq_timeout rq"
  by (auto simp: redirected_def split: if_splits)

text \<open>A delivery sends at most ten requests.\<close>

lemma follow_bound: "length (fst (follow tr net resolve first n left rq)) \<le> Suc n"
proof (induction n arbitrary: left rq)
  case 0
  then show ?case by (simp add: follow.simps split: sum.split option.split prod.split)
next
  case (Suc m)
  then show ?case by (subst follow.simps) (auto split: sum.split option.split prod.split, metis fst_conv)
qed

lemma client_do_bound: "length (fst (client_do net resolve rq)) \<le> 10"
  using follow_bound [of new_client net resolve rq 9] by (simp add: client_do_def)

lemma outgoing_client [simp]: "outgoing (env\<lparr>env_do := d\<rparr>) req = outgoing env req"
  by (simp add: outgoing_def)

lemma send_client:
  "env_request_error env (wr_url req) = None \<Longrightarrow> client_do net resolve (outgoing env req) = (rqs, Response resp) \<Longrightarrow>
     read_body resp = Inr body \<Longrightarrow> send (client_env net resolve env) req = response_result env resp body"
  by (simp add: send_def client_env_def response_result_def)

text \<open>
  C12. An endpoint that answers with 301, 302 or 303 is not sent the event where it points to: the
  client follows with a GET that has no body, and when that is answered with a success, the
  delivery is reported as successful although no request with the event was accepted.
\<close>

theorem redirected_delivery_counts_as_success:
  assumes "env_request_error env (wr_url req) = None"
    and "net (outgoing env req) = Answer t loc resp" "hr_status resp = 301 \<or> hr_status resp = 302 \<or> hr_status resp = 303"
    and "loc \<noteq> []" "resolve (wr_url req) loc = Some url"
    and "t < seconds 10" "t < send_timeout (wr_request_timeout_ms req)"
    and "net ((outgoing env req)\<lparr>hq_method := ''GET'', hq_url := url, hq_body := []\<rparr>) = Answer t' loc' resp'"
    and "200 \<le> hr_status resp'" "hr_status resp' < 300" "hr_body_error resp' = None"
    and "t' < seconds 10" "t + t' < send_timeout (wr_request_timeout_ms req)"
  shows "ar_status (send (client_env net resolve env) req) = Success
    \<and> map (\<lambda>rq. (hq_method rq, hq_url rq, hq_body rq)) (fst (client_do net resolve (outgoing env req)))
        = [(''POST'', wr_url req, wr_body req), (''GET'', url, [])]"
proof -
  let ?rq = "outgoing env req" and ?get = "(outgoing env req)\<lparr>hq_method := ''GET'', hq_url := url, hq_body := []\<rparr>"
  have rq: "hq_method ?rq = ''POST''" "hq_url ?rq = wr_url req" "hq_body ?rq = wr_body req"
    "hq_timeout ?rq = send_timeout (wr_request_timeout_ms req)" by (simp_all add: outgoing_def Let_def)
  have r1: "round_trip new_client net (hq_timeout ?rq) ?rq = Inr (t, loc, resp)"
    using assms(2,6,7) by (simp add: round_trip_def new_client_def rq)
  have r2: "round_trip new_client net (hq_timeout ?rq - t) ?get = Inr (t', loc', resp')"
    using assms(8,12,13) by (simp add: round_trip_def new_client_def rq)
  have next1: "redirected ?rq (hr_status resp) u ?rq = Some (?rq\<lparr>hq_method := ''GET'', hq_url := u, hq_body := []\<rparr>)" for u
    using assms(3) by (auto simp: redirected_def rq)
  have next2: "redirected ?rq (hr_status resp') u ?get = None" for u
    using assms(9,10) by (simp add: redirected_def)
  have last: "follow new_client net resolve ?rq 8 (hq_timeout ?rq - t) ?get = ([?get], Response resp')"
    by (subst follow.simps) (simp add: r2 next2)
  have nine: "(9 :: nat) = Suc 8" by simp
  have do: "client_do net resolve ?rq = ([?rq, ?get], Response resp')"
    unfolding client_do_def nine
    by (subst follow.simps) (simp add: r1 next1 assms(4,5) rq(2) last)
  obtain body where body: "read_body resp' = Inr body" using assms(11)
    by (cases "max_response_body \<le> length (hr_body resp')") (simp_all add: read_body_def)
  have "ar_status (send (client_env net resolve env) req) = classify (hr_status resp')"
    using send_client [OF assms(1) do body] by (simp add: response_result_def Let_def)
  then show ?thesis using assms(9,10) do by (simp add: classify_def rq)
qed

text \<open>The client gives up after ten seconds without response headers, whatever the endpoint's
  request timeout is; the attempt is then not recorded as a timeout.\<close>

lemma slow_headers_fail:
  assumes "env_request_error env (wr_url req) = None" and "net (outgoing env req) = Answer t loc resp"
    and "seconds 10 \<le> t" and "seconds 10 < send_timeout (wr_request_timeout_ms req)"
  shows "ar_status (send (client_env net resolve env) req) = Retryable_Failure
    \<and> ar_error_code (send (client_env net resolve env) req) = Some ''HTTP_ERROR''"
proof -
  have "client_do net resolve (outgoing env req)
      = ([outgoing env req], Do_Error ''net/http: timeout awaiting response headers'' False)"
    unfolding client_do_def
    by (subst follow.simps) (use assms(2-4) in \<open>simp add: round_trip_def new_client_def outgoing_def Let_def\<close>)
  then show ?thesis using assms(1)
    by (simp add: send_def client_env_def failure_def)
qed

section \<open>An example\<close>

definition found_answer :: "int \<Rightarrow> http_response" where
  "found_answer status = \<lparr>hr_status = status, hr_headers = [], hr_body = [], hr_body_error = None\<rparr>"

definition redirecting_net :: "http_request \<Rightarrow> exchange" where
  "redirecting_net rq = (if hq_method rq = ''POST'' then Answer 5 ''/moved'' (found_answer 302) else Answer 7 [] (found_answer 200))"

theorem redirected_delivery_counts_as_success_witness:
  "ar_status (send (client_env redirecting_net (\<lambda>u l. Some (u @ l)) example_env) example_request) = Success"
  using redirected_delivery_counts_as_success [of example_env example_request redirecting_net 5 "''/moved''" "found_answer 302"
      "\<lambda>u l. Some (u @ l)" "''https://a/moved''" 7 "[]" "found_answer 200"]
  by (simp add: example_env_def example_request_def redirecting_net_def found_answer_def outgoing_def Let_def send_timeout_def)

end
