(* ===== verification/AesGcm.thy ===== *)
theory AesGcm
  imports GoStrings "HOL-Library.Word"
begin

text \<open>
  \<open>crypto/aes\<close> and \<open>cipher.NewGCM\<close> of the standard library, with which the two services seal
  the secrets of endpoints: the block cipher of FIPS 197 for keys of 16, 24 and 32 bytes, and the
  mode of NIST SP 800-38D with nonces of 12 bytes, tags of 16 bytes and no additional data. It is
  proved that with a key and a nonce exactly the sealed texts open, and to what was sealed.
\<close>

unbundle bit_operations_syntax

type_synonym byte = "8 word"
type_synonym block = "byte list"  \<comment> \<open>of sixteen bytes\<close>

section \<open>The block cipher\<close>

definition sbox_table :: "byte list" where
  "sbox_table = [
     0x63, 0x7c, 0x77, 0x7b, 0xf2, 0x6b, 0x6f, 0xc5, 0x30, 0x01, 0x67, 0x2b, 0xfe, 0xd7, 0xab, 0x76,
     0xca, 0x82, 0xc9, 0x7d, 0xfa, 0x59, 0x47, 0xf0, 0xad, 0xd4, 0xa2, 0xaf, 0x9c, 0xa4, 0x72, 0xc0,
     0xb7, 0xfd, 0x93, 0x26, 0x36, 0x3f, 0xf7, 0xcc, 0x34, 0xa5, 0xe5, 0xf1, 0x71, 0xd8, 0x31, 0x15,
     0x04, 0xc7, 0x23, 0xc3, 0x18, 0x96, 0x05, 0x9a, 0x07, 0x12, 0x80, 0xe2, 0xeb, 0x27, 0xb2, 0x75,
     0x09, 0x83, 0x2c, 0x1a, 0x1b, 0x6e, 0x5a, 0xa0, 0x52, 0x3b, 0xd6, 0xb3, 0x29, 0xe3, 0x2f, 0x84,
     0x53, 0xd1, 0x00, 0xed, 0x20, 0xfc, 0xb1, 0x5b, 0x6a, 0xcb, 0xbe, 0x39, 0x4a, 0x4c, 0x58, 0xcf,
     0xd0, 0xef, 0xaa, 0xfb, 0x43, 0x4d, 0x33, 0x85, 0x45, 0xf9, 0x02, 0x7f, 0x50, 0x3c, 0x9f, 0xa8,
     0x51, 0xa3, 0x40, 0x8f, 0x92, 0x9d, 0x38, 0xf5, 0xbc, 0xb6, 0xda, 0x21, 0x10, 0xff, 0xf3, 0xd2,
     0xcd, 0x0c, 0x13, 0xec, 0x5f, 0x97, 0x44, 0x17, 0xc4, 0xa7, 0x7e, 0x3d, 0x64, 0x5d, 0x19, 0x73,
     0x60, 0x81, 0x4f, 0xdc, 0x22, 0x2a, 0x90, 0x88, 0x46, 0xee, 0xb8, 0x14, 0xde, 0x5e, 0x0b, 0xdb,
     0xe0, 0x32, 0x3a, 0x0a, 0x49, 0x06, 0x24, 0x5c, 0xc2, 0xd3, 0xac, 0x62, 0x91, 0x95, 0xe4, 0x79,
     0xe7, 0xc8, 0x37, 0x6d, 0x8d, 0xd5, 0x4e, 0xa9, 0x6c, 0x56, 0xf4, 0xea, 0x65, 0x7a, 0xae, 0x08,
     0xba, 0x78, 0x25, 0x2e, 0x1c, 0xa6, 0xb4, 0xc6, 0xe8, 0xdd, 0x74, 0x1f, 0x4b, 0xbd, 0x8b, 0x8a,
     0x70, 0x3e, 0xb5, 0x66, 0x48, 0x03, 0xf6, 0x0e, 0x61, 0x35, 0x57, 0xb9, 0x86, 0xc1, 0x1d, 0x9e,
     0xe1, 0xf8, 0x98, 0x11, 0x69, 0xd9, 0x8e, 0x94, 0x9b, 0x1e, 0x87, 0xe9, 0xce, 0x55, 0x28, 0xdf,
     0x8c, 0xa1, 0x89, 0x0d, 0xbf, 0xe6, 0x42, 0x68, 0x41, 0x99, 0x2d, 0x0f, 0xb0, 0x54, 0xbb, 0x16]"

definition sbox :: "byte \<Rightarrow> byte" where
  "sbox b = sbox_table ! unat b"

definition xtime :: "byte \<Rightarrow> byte" where
  "xtime b = (if bit b 7 then push_bit 1 b XOR 0x1b else push_bit 1 b)"

text \<open>The state is kept by columns, as the bytes come.\<close>

definition sub_bytes :: "block \<Rightarrow> block" where
  "sub_bytes s = map sbox s"

definition shift_rows :: "block \<Rightarrow> block" where
  "shift_rows s = map ((!) s) [0, 5, 10, 15, 4, 9, 14, 3, 8, 13, 2, 7, 12, 1, 6, 11]"

fun mix_columns :: "block \<Rightarrow> block" where
  "mix_columns (a # b # c # d # s) =
     [xtime a XOR (xtime b XOR b) XOR c XOR d, a XOR xtime b XOR (xtime c XOR c) XOR d,
      a XOR b XOR xtime c XOR (xtime d XOR d), (xtime a XOR a) XOR b XOR c XOR xtime d] @ mix_columns s"
| "mix_columns s = s"

definition add_round_key :: "block \<Rightarrow> block \<Rightarrow> block" where
  "add_round_key k s = map (\<lambda>i. s ! i XOR k ! i) [0..<16]"

text \<open>The key schedule: words of four bytes, of which the first \<open>nk\<close> are the key; \<open>ws\<close> are the
  last \<open>nk\<close> words so far.\<close>

definition next_key_word :: "nat \<Rightarrow> nat \<Rightarrow> byte \<Rightarrow> byte list list \<Rightarrow> byte list" where
  "next_key_word nk i rcon ws = (let prev = last ws in
     map2 (XOR) (hd ws)
       (if i mod nk = 0 then map2 (XOR) (map sbox (tl prev @ [hd prev])) [rcon, 0, 0, 0]
        else if 6 < nk \<and> i mod nk = 4 then map sbox prev else prev))"

fun expand_key :: "nat \<Rightarrow> nat \<Rightarrow> nat \<Rightarrow> byte \<Rightarrow> byte list list \<Rightarrow> byte list list" where
  "expand_key 0 nk i rcon ws = []"
| "expand_key (Suc n) nk i rcon ws =
     (let w = next_key_word nk i rcon ws in
      w # expand_key n nk (Suc i) (if i mod nk = 0 then xtime rcon else rcon) (tl ws @ [w]))"

fun chunks_of :: "nat \<Rightarrow> nat \<Rightarrow> 'a list \<Rightarrow> 'a list list" where
  "chunks_of 0 n xs = []"
| "chunks_of (Suc m) n xs = take n xs # chunks_of m n (drop n xs)"

definition round_keys :: "byte list \<Rightarrow> block list" where
  "round_keys key = (let nk = length key div 4; ws = chunks_of nk 4 key; rounds = nk + 6 in
     chunks_of (rounds + 1) 16 (concat (ws @ expand_key (4 * (rounds + 1) - nk) nk nk 1 ws)))"

fun aes_rounds :: "block list \<Rightarrow> block \<Rightarrow> block" where
  "aes_rounds [] s = s"
| "aes_rounds [k] s = add_round_key k (shift_rows (sub_bytes s))"
| "aes_rounds (k # ks) s = aes_rounds ks (add_round_key k (mix_columns (shift_rows (sub_bytes s))))"

definition aes_encrypt :: "byte list \<Rightarrow> block \<Rightarrow> block" where
  "aes_encrypt key s = (let ks = round_keys key in aes_rounds (tl ks) (add_round_key (hd ks) s))"

section \<open>Counter mode and the tag\<close>

definition bytes_of_num :: "nat \<Rightarrow> nat \<Rightarrow> byte list" where
  "bytes_of_num n x = map (\<lambda>i. of_nat (x div 256 ^ i)) (rev [0..<n])"

definition num_of_bytes :: "byte list \<Rightarrow> nat" where
  "num_of_bytes bs = foldl (\<lambda>n b. 256 * n + unat b) 0 bs"

definition counter_block :: "byte list \<Rightarrow> nat \<Rightarrow> block" where
  "counter_block nonce i = nonce @ bytes_of_num 4 i"

text \<open>The key stream for \<open>n\<close> bytes; the counter 1 is kept for the tag.\<close>

definition key_stream :: "byte list \<Rightarrow> byte list \<Rightarrow> nat \<Rightarrow> byte list" where
  "key_stream key nonce n =
     concat (map (\<lambda>i. aes_encrypt key (counter_block nonce (i + 2))) [0..<(n + 15) div 16])"

definition xor_stream :: "byte list \<Rightarrow> byte list \<Rightarrow> byte list" where
  "xor_stream ks xs = map2 (XOR) xs ks"

text \<open>Multiplication in the field of \<open>2 ^ 128\<close> elements: bit 0 of a block is its leftmost.\<close>

fun gf_mult :: "nat \<Rightarrow> 128 word \<Rightarrow> 128 word \<Rightarrow> 128 word \<Rightarrow> 128 word" where
  "gf_mult 0 x v z = z"
| "gf_mult (Suc n) x v z =
     gf_mult n x (if bit v 0 then drop_bit 1 v XOR 0xe1000000000000000000000000000000 else drop_bit 1 v)
       (if bit x n then z XOR v else z)"

fun ghash :: "128 word \<Rightarrow> 128 word \<Rightarrow> block list \<Rightarrow> 128 word" where
  "ghash h y [] = y"
| "ghash h y (b # bs) = ghash h (gf_mult 128 (y XOR of_nat (num_of_bytes b)) h 0) bs"

definition pad_blocks :: "byte list \<Rightarrow> block list" where
  "pad_blocks c = chunks_of ((length c + 15) div 16) 16 (c @ replicate (15 - (length c + 15) mod 16) 0)"

definition gcm_tag :: "byte list \<Rightarrow> byte list \<Rightarrow> byte list \<Rightarrow> byte list" where
  "gcm_tag key nonce c =
     (let h = of_nat (num_of_bytes (aes_encrypt key (replicate 16 0)));
          s = ghash h 0 (pad_blocks c @ [bytes_of_num 8 0 @ bytes_of_num 8 (8 * length c)]) in
      map2 (XOR) (bytes_of_num 16 (unat s)) (aes_encrypt key (counter_block nonce 1)))"

definition gcm_seal :: "byte list \<Rightarrow> byte list \<Rightarrow> byte list \<Rightarrow> byte list" where
  "gcm_seal key nonce x =
     (let c = xor_stream (key_stream key nonce (length x)) x in c @ gcm_tag key nonce c)"

definition gcm_open :: "byte list \<Rightarrow> byte list \<Rightarrow> byte list \<Rightarrow> byte list option" where
  "gcm_open key nonce s =
     (if length s < 16 then None
      else let c = take (length s - 16) s in
           if drop (length s - 16) s = gcm_tag key nonce c
           then Some (xor_stream (key_stream key nonce (length c)) c) else None)"

text \<open>On the bytes of the model.\<close>

definition byte_of :: "char \<Rightarrow> byte" where
  "byte_of c = of_nat (of_char c)"

definition char_of_byte :: "byte \<Rightarrow> char" where
  "char_of_byte b = char_of (unat b)"

definition gcm_seal_text :: "bytes \<Rightarrow> bytes \<Rightarrow> bytes \<Rightarrow> bytes" where
  "gcm_seal_text key nonce x = map char_of_byte (gcm_seal (map byte_of key) (map byte_of nonce) (map byte_of x))"

definition gcm_open_text :: "bytes \<Rightarrow> bytes \<Rightarrow> bytes \<Rightarrow> bytes option" where
  "gcm_open_text key nonce s =
     map_option (map char_of_byte) (gcm_open (map byte_of key) (map byte_of nonce) (map byte_of s))"

section \<open>What is sealed opens, and nothing else\<close>

lemma length_add_round_key [simp]: "length (add_round_key k s) = 16"
  by (simp add: add_round_key_def)

lemma length_aes_rounds: "length s = 16 \<Longrightarrow> length (aes_rounds ks s) = 16"
  by (induction ks s rule: aes_rounds.induct) simp_all

lemma length_aes_encrypt [simp]: "length (aes_encrypt key s) = 16"
  by (simp add: aes_encrypt_def Let_def length_aes_rounds)

lemma length_gcm_tag [simp]: "length (gcm_tag key nonce c) = 16"
  by (simp add: gcm_tag_def Let_def bytes_of_num_def)

lemma length_key_stream: "n \<le> length (key_stream key nonce n)"
  by (simp add: key_stream_def length_concat o_def sum_list_triv)

lemma length_xor_stream: "length xs \<le> length ks \<Longrightarrow> length (xor_stream ks xs) = length xs"
  by (simp add: xor_stream_def)

lemma xor_stream_twice: "length xs \<le> length ks \<Longrightarrow> xor_stream ks (xor_stream ks xs) = xs"
  by (auto simp: xor_stream_def list_eq_iff_nth_eq xor.assoc)

lemma gcm_open_iff: "gcm_open key nonce s = Some x \<longleftrightarrow> s = gcm_seal key nonce x"
proof
  assume o: "gcm_open key nonce s = Some x"
  define c where "c = take (length s - 16) s"
  let ?ks = "key_stream key nonce (length c)"
  from o have tag: "drop (length s - 16) s = gcm_tag key nonce c" and x: "x = xor_stream ?ks c"
    by (auto simp: gcm_open_def Let_def c_def [symmetric] split: if_splits)
  have "length x = length c" and "xor_stream ?ks x = c"
    using length_key_stream by (simp_all add: x length_xor_stream xor_stream_twice)
  then have "gcm_seal key nonce x = c @ gcm_tag key nonce c" by (simp add: gcm_seal_def Let_def)
  also have "\<dots> = s" by (metis append_take_drop_id c_def tag)
  finally show "s = gcm_seal key nonce x" by simp
next
  assume s: "s = gcm_seal key nonce x"
  let ?c = "xor_stream (key_stream key nonce (length x)) x"
  have c: "length ?c = length x" and "xor_stream (key_stream key nonce (length x)) ?c = x"
    using length_key_stream by (simp_all add: length_xor_stream xor_stream_twice)
  moreover have "s = ?c @ gcm_tag key nonce ?c" by (simp add: s gcm_seal_def Let_def)
  ultimately show "gcm_open key nonce s = Some x" by (simp add: gcm_open_def)
qed

lemma byte_of_char_of_byte [simp]: "byte_of (char_of_byte b) = b"
proof -
  have "unat b < 256" using unsigned_less [of b, where ?'a = nat] by simp
  then show ?thesis by (simp add: byte_of_def char_of_byte_def)
qed

lemma char_of_byte_of [simp]: "char_of_byte (byte_of c) = c"
  using nat_of_char_less_256 [of c] by (simp add: byte_of_def char_of_byte_def unat_of_nat)

lemma gcm_open_text_iff: "gcm_open_text key nonce s = Some x \<longleftrightarrow> s = gcm_seal_text key nonce x"
proof -
  have inj: "map byte_of s = ys \<longleftrightarrow> s = map char_of_byte ys" for ys by (auto simp: o_def map_idI)
  have "gcm_open_text key nonce s = Some x
      \<longleftrightarrow> gcm_open (map byte_of key) (map byte_of nonce) (map byte_of s) = Some (map byte_of x)"
    by (auto simp: gcm_open_text_def o_def map_idI)
  then show ?thesis by (simp add: gcm_open_iff inj gcm_seal_text_def)
qed

end
