(* ===== verification/Secrets.thy ===== *)
theory Secrets
  imports AesGcm
begin

text \<open>
  The ciphers of the two services that keep endpoint secrets:
  endpoint-service/internal/secrets (\<open>NewFromHex\<close>, \<open>Encrypt\<close>), delivery-service/internal/secrets
  (\<open>New\<close>, \<open>Decrypt\<close>), and how delivery-service/cmd/server/main.go reads the key. The source of
  randomness is an argument; a cipher is its key, since the rest of it is fixed.
\<close>

section \<open>Hexadecimal keys\<close>

definition hex_value :: "char \<Rightarrow> nat option" where
  "hex_value c =
     (let n = of_char c in
      if 48 \<le> n \<and> n \<le> 57 then Some (n - 48) else if 97 \<le> n \<and> n \<le> 102 then Some (n - 87)
      else if 65 \<le> n \<and> n \<le> 70 then Some (n - 55) else None)"

text \<open>\<open>hex.DecodeString\<close>; \<open>quote\<close> is the verb \<open>%#U\<close>.\<close>

definition hex_invalid :: "(char \<Rightarrow> string) \<Rightarrow> char \<Rightarrow> error" where
  "hex_invalid quote c = Msg (''encoding/hex: invalid byte: '' @ quote c)"

fun hex_decode :: "(char \<Rightarrow> string) \<Rightarrow> string \<Rightarrow> bytes result" where
  "hex_decode quote [] = Inr []"
| "hex_decode quote [c] =
     (if hex_value c = None then Inl (hex_invalid quote c) else Inl (Msg ''encoding/hex: odd length hex string''))"
| "hex_decode quote (c # d # s) =
     (case hex_value c of
        None \<Rightarrow> Inl (hex_invalid quote c)
      | Some h \<Rightarrow>
          (case hex_value d of
             None \<Rightarrow> Inl (hex_invalid quote d)
           | Some l \<Rightarrow>
               (case hex_decode quote s of Inl e \<Rightarrow> Inl e | Inr bs \<Rightarrow> Inr (char_of (16 * h + l) # bs))))"

lemma hex_value_digit [simp]: "d < 16 \<Longrightarrow> hex_value (hex_digit d) = Some d"
  by (auto simp: hex_value_def hex_digit_def Let_def)

lemma hex_decode_encode [simp]: "hex_decode quote (hex_encode bs) = Inr bs"
proof (induction bs)
  case (Cons b bs)
  have b: "(of_char b :: nat) div 16 < 16" "(of_char b :: nat) mod 16 < 16"
    using nat_of_char_less_256 [of b] by (simp_all add: div_less_iff_less_mult)
  have "char_of (16 * (of_char b div 16) + of_char b mod 16 :: nat) = b" by (simp add: mult_div_mod_eq)
  then show ?case using Cons b by simp
qed simp

section \<open>The ciphers\<close>

text \<open>\<open>cipher.NewGCM\<close> gives nonces of twelve bytes.\<close>

definition nonce_size :: nat where
  "nonce_size = 12"

definition new_from_hex :: "(char \<Rightarrow> string) \<Rightarrow> string \<Rightarrow> bytes result" where
  "new_from_hex quote hex =
     (case hex_decode quote hex of
        Inl e \<Rightarrow> Inl (wrap ''decode encryption key: '' e)
      | Inr key \<Rightarrow>
          (if length key \<noteq> 32 then Inl (Msg ''encryption key must be 32 bytes'') else Inr key))"

definition new_cipher :: "bytes \<Rightarrow> bytes result" where
  "new_cipher key =
     (if length key = 16 \<or> length key = 24 \<or> length key = 32 then Inr key
      else Inl (wrap ''create AES cipher: ''
             (Msg (''crypto/aes: invalid key size '' @ format_int (int (length key))))))"

text \<open>What the delivery service makes of the text of its key before it starts.\<close>

definition decryption_key :: "(char \<Rightarrow> string) \<Rightarrow> string \<Rightarrow> bytes option" where
  "decryption_key quote hex =
     (case hex_decode quote hex of
        Inl e \<Rightarrow> None
      | Inr key \<Rightarrow>
          (if length key \<noteq> 16 \<and> length key \<noteq> 24 \<and> length key \<noteq> 32 then None else Some key))"

definition encrypt_secret :: "(nat \<Rightarrow> bytes result) \<Rightarrow> bytes \<Rightarrow> bytes \<Rightarrow> bytes result" where
  "encrypt_secret random key plain =
     (case random nonce_size of
        Inl e \<Rightarrow> Inl (wrap ''generate nonce: '' e)
      | Inr nonce \<Rightarrow> Inr (nonce @ gcm_seal_text key nonce plain))"

definition decrypt_secret :: "bytes \<Rightarrow> bytes \<Rightarrow> bytes result" where
  "decrypt_secret key c =
     (if length c < nonce_size then Inl (Msg ''ciphertext too short'')
      else case gcm_open_text key (take nonce_size c) (drop nonce_size c) of
        None \<Rightarrow> Inl (Msg ''cipher: message authentication failed'')
      | Some x \<Rightarrow> Inr x)"

text \<open>The delivery service's own \<open>Encrypt\<close>, which nothing calls.\<close>

definition delivery_encrypt :: "(nat \<Rightarrow> bytes result) \<Rightarrow> bytes \<Rightarrow> bytes \<Rightarrow> bytes result" where
  "delivery_encrypt random key plain =
     (case random nonce_size of
        Inl e \<Rightarrow> Inl e
      | Inr nonce \<Rightarrow> Inr (nonce @ gcm_seal_text key nonce plain))"

section \<open>What is sealed opens\<close>

text \<open>The random source gives as many bytes as it is asked for.\<close>

definition random_ok :: "(nat \<Rightarrow> bytes result) \<Rightarrow> bool" where
  "random_ok random \<longleftrightarrow> (\<forall>n bs. random n = Inr bs \<longrightarrow> length bs = n)"

lemma decrypt_secret_Inr:
  "decrypt_secret key c = Inr x \<longleftrightarrow> (\<exists>nonce. length nonce = nonce_size \<and> c = nonce @ gcm_seal_text key nonce x)"
proof
  assume d: "decrypt_secret key c = Inr x"
  then have len: "length (take nonce_size c) = nonce_size"
    and "gcm_open_text key (take nonce_size c) (drop nonce_size c) = Some x"
    by (auto simp: decrypt_secret_def split: if_splits option.splits)
  then have "c = take nonce_size c @ gcm_seal_text key (take nonce_size c) x"
    unfolding gcm_open_text_iff by (metis append_take_drop_id)
  then show "\<exists>nonce. length nonce = nonce_size \<and> c = nonce @ gcm_seal_text key nonce x" using len by blast
next
  assume "\<exists>nonce. length nonce = nonce_size \<and> c = nonce @ gcm_seal_text key nonce x"
  then obtain nonce where n: "length nonce = nonce_size" and c: "c = nonce @ gcm_seal_text key nonce x" by blast
  have "gcm_open_text key nonce (gcm_seal_text key nonce x) = Some x" by (simp add: gcm_open_text_iff)
  then show "decrypt_secret key c = Inr x" using n by (simp add: decrypt_secret_def c)
qed

lemma decrypt_encrypt:
  assumes "random_ok random" and "encrypt_secret random key plain = Inr c"
  shows "decrypt_secret key c = Inr plain"
  unfolding decrypt_secret_Inr
  using assms by (auto simp: encrypt_secret_def random_ok_def split: sum.splits)

text \<open>Both services read the same key from the same text.\<close>

lemma same_key_from_hex:
  assumes "new_from_hex quote hex = Inr key"
  shows "decryption_key quote hex = Some key" and "new_cipher key = Inr key"
  using assms by (auto simp: new_from_hex_def decryption_key_def new_cipher_def split: sum.splits if_splits)

definition zero_nonce :: "nat \<Rightarrow> bytes result" where
  "zero_nonce n = Inr (replicate n (char_of (0 :: nat)))"

lemma zero_nonce_ok: "random_ok zero_nonce"
  by (auto simp: random_ok_def zero_nonce_def)

end
