(* ===== verification/SecretPath.thy ===== *)
theory SecretPath
  imports EndpointMessages Secrets EndpointProps DeliveryLifecycle Paging
begin

text \<open>
  The secret of an endpoint at its two ends: the endpoint service encrypts it when an endpoint is
  created or patched and stores the ciphertext in the row; the delivery service decrypts the
  ciphertext of a delivery's snapshot to sign the request. Nothing is said about how the
  ciphertext gets from the row to the snapshot: the code that would write the endpoint messages
  is commented out.
\<close>

text \<open>The result of a creation is the row that is stored, with the secret encrypted.\<close>

lemma created_secret:
  assumes "service_create f fp env sv tenant req db = (Inr ep, db')"
  shows "ep_row ep \<in> set (edb_endpoints db')" and "sv_encrypt sv (cr_secret req) = Inr (en_secret (ep_row ep))"
proof -
  obtain req' p db1 enc where v: "validate_create sv req = Inr req'" and enc: "sv_encrypt sv (cr_secret req') = Inr enc"
    and cr: "create_endpoint f env tenant req' enc p db1 = (Inr ep, db')"
    using assms by (auto simp: service_create_def split: sum.splits prod.splits)
  have "cr_secret req' = cr_secret req"
    using v by (auto simp: validate_create_def Let_def check_Inr normalize_create_def split: sum.splits)
  moreover have "en_secret (ep_row ep) = enc"
    unfolding create_endpoint_row [OF cr] by (simp add: new_endpoint_row_def)
  ultimately show "sv_encrypt sv (cr_secret req) = Inr (en_secret (ep_row ep))" using enc by simp
  show "ep_row ep \<in> set (edb_endpoints db')"
    using create_endpoint_Inr [OF cr] by (auto dest: scan_tx_Inr)
qed

text \<open>The result of a patch is the row that is stored: the patched one of the row found.\<close>

lemma patch_endpoint_row:
  assumes "patch_endpoint f env tenant i req enc p db = (Inr (ep', q), db')" and "distinct (map en_id (edb_endpoints db))"
  shows "\<exists>r\<in>set (edb_endpoints db). en_id r = i \<and> ep_row ep' = patched_row env req enc r"
    and "ep_row ep' \<in> set (edb_endpoints db')"
proof -
  from patch_endpoint_Inr [OF assms(1)] obtain ep db1 where own: "scan_own f tenant i db = Inr ep"
    and up: "update_endpoint (nv_lower env) (patched_row env req enc (ep_row ep)) db = Inr db1"
    and subs: "replace_subs f i (pt_event_types req) db1 = Inr db'" and scan: "scan_tx f i db' = Inr ep'" by blast
  have old: "ep_row ep \<in> set (edb_endpoints db)" "en_id (ep_row ep) = i" using scan_own_Inr [OF own] by simp_all
  have rows: "set (edb_endpoints db') = insert (patched_row env req enc (ep_row ep)) (set (edb_endpoints db) - {ep_row ep})"
    using update_endpoint_mem(1) [OF up assms(2) old(1)] replace_subs_Inr [OF subs] by simp
  have "ep_row ep' \<in> set (edb_endpoints db')" and i: "en_id (ep_row ep') = i" using scan_tx_Inr [OF scan] by simp_all
  then show "ep_row ep' \<in> set (edb_endpoints db')" by simp
  have "ep_row ep' = patched_row env req enc (ep_row ep)"
    using \<open>ep_row ep' \<in> _\<close> rows i old distinct_keys_eq [OF assms(2), of "ep_row ep'" "ep_row ep"] by auto
  then show "\<exists>r\<in>set (edb_endpoints db). en_id r = i \<and> ep_row ep' = patched_row env req enc r" using old by blast
qed

lemma patched_secret:
  assumes "service_patch f fp env sv tenant i req db = (Inr (ep, q), db')" and "distinct (map en_id (edb_endpoints db))"
  shows "ep_row ep \<in> set (edb_endpoints db')"
    and "case pt_secret req of
        Some s \<Rightarrow> sv_encrypt sv s = Inr (en_secret (ep_row ep))
      | None \<Rightarrow> \<exists>r\<in>set (edb_endpoints db). en_id r = i \<and> en_secret r = en_secret (ep_row ep)"
proof -
  obtain req' enc p db1 where v: "validate_patch sv req = Inr (req', enc)"
    and pt: "patch_endpoint f env tenant i req' enc p db1 = (Inr (ep, q), db')"
    and db1: "edb_endpoints db1 = edb_endpoints db"
    using assms(1) by (auto simp: service_patch_def split: sum.splits prod.splits option.splits
        dest: resolve_policy_raises(3))
  have s: "pt_secret req' = pt_secret req" and enc: "encrypt_patch sv req = Inr enc"
    using v by (auto simp: validate_patch_def Let_def check_opt_def check_Inr patch_types_def encrypt_patch_def
        split: sum.splits option.splits)
  have d: "distinct (map en_id (edb_endpoints db1))" using assms(2) db1 by simp
  show "ep_row ep \<in> set (edb_endpoints db')" by (rule patch_endpoint_row(2) [OF pt d])
  obtain r where r: "r \<in> set (edb_endpoints db)" "en_id r = i" and row: "ep_row ep = patched_row env req' enc r"
    using patch_endpoint_row(1) [OF pt d] db1 by auto
  show "case pt_secret req of
        Some s \<Rightarrow> sv_encrypt sv s = Inr (en_secret (ep_row ep))
      | None \<Rightarrow> \<exists>r\<in>set (edb_endpoints db). en_id r = i \<and> en_secret r = en_secret (ep_row ep)"
    using r s enc by (auto simp: row patched_row_def encrypt_patch_def check_Inr split: option.splits sum.splits)
qed

text \<open>A delivery whose secret can be decrypted is sent with it, and the attempt is recorded.\<close>

definition sent_with :: "record_call faults \<Rightarrow> deliver_env \<Rightarrow> delivery \<Rightarrow> bytes \<Rightarrow> delivery_db \<Rightarrow> bool" where
  "sent_with f env d secret db = (deliver f env d db =
    (let d' = d\<lparr>d_snapshot := (d_snapshot d)\<lparr>es_secret := secret\<rparr>\<rparr>;
         res = send (dv_http env) (delivery_request env secret d')
     in record_attempt f (dv_db_now env) (dv_done env) d' res (next_attempt env d' res) db))"

lemma sent_with_decrypted: "dv_decrypt env (es_secret (d_snapshot d)) = Inr s \<Longrightarrow> sent_with f env d s db"
  by (simp add: sent_with_def deliver_def)

text \<open>
  C40. When the endpoint service encrypts and the delivery service decrypts with the key of the
  same hexadecimal text, then after a creation that succeeds, the row of the new endpoint is
  stored, and every delivery whose snapshot holds the ciphertext of that row is sent with exactly
  the secret of the request; after a patch that succeeds, the row is stored, with the secret of
  the patch in that sense if it has one, and with the ciphertext from before if not.
\<close>

theorem secret_reaches_webhook:
  assumes "random_ok random" and "new_from_hex quote hex = Inr key"
    and "sv_encrypt sv = encrypt_secret random key"
    and "decryption_key quote hex = Some key'" and "dv_decrypt denv = decrypt_secret key'"
    and "distinct (map en_id (edb_endpoints ndb))"
  shows "(case service_create f fp nenv sv tenant req ndb of
        (Inl _, _) \<Rightarrow> True
      | (Inr ep, ndb') \<Rightarrow> ep_row ep \<in> set (edb_endpoints ndb')
          \<and> (es_secret (d_snapshot d) = en_secret (ep_row ep) \<longrightarrow> sent_with df denv d (cr_secret req) ddb))
    \<and> (case service_patch f fp nenv sv tenant i preq ndb of
        (Inl _, _) \<Rightarrow> True
      | (Inr (ep, _), ndb') \<Rightarrow> ep_row ep \<in> set (edb_endpoints ndb')
          \<and> (case pt_secret preq of
               Some s \<Rightarrow> es_secret (d_snapshot d) = en_secret (ep_row ep) \<longrightarrow> sent_with df denv d s ddb
             | None \<Rightarrow> \<exists>r\<in>set (edb_endpoints ndb). en_id r = i \<and> en_secret r = en_secret (ep_row ep)))"
proof -
  have "key' = key" using same_key_from_hex(1) [OF assms(2)] assms(4) by simp
  then have "sent_with df denv d s ddb" if "sv_encrypt sv s = Inr (es_secret (d_snapshot d))" for s
    using that decrypt_encrypt [OF assms(1)] assms(3,5) by (intro sent_with_decrypted) simp
  then show ?thesis
    by (auto split: sum.splits prod.splits option.splits dest: created_secret patched_secret [OF _ assms(6)])
qed

section \<open>An example\<close>

definition example_key :: bytes where
  "example_key = replicate 32 (char_of (0 :: nat))"

definition example_sealed :: bytes where
  "example_sealed = replicate 12 (char_of (0 :: nat)) @
     gcm_seal_text example_key (replicate 12 (char_of (0 :: nat))) ''s''"

definition example_cipher_service :: service_env where
  "example_cipher_service = example_service\<lparr>sv_encrypt := encrypt_secret zero_nonce example_key\<rparr>"

definition example_sealed_row :: endpoint_row where
  "example_sealed_row = example_endpoint_row\<lparr>en_secret := example_sealed\<rparr>"

definition example_changed :: changed_message where
  "example_changed = \<lparr>cm_message_id = ''m'', cm_event_name = ''EndpointChanged'', cm_schema_version = 1,
     cm_tenant_id = 3, cm_endpoint_id = 7, cm_name = ''n'', cm_url = ''u'', cm_secret = Some example_sealed,
     cm_status = ''ACTIVE'', cm_connect_timeout_ms = 5000, cm_request_timeout_ms = 10000,
     cm_retry_policy = default_retry_policy 9 3, cm_version = 1, cm_updated_at = 1000, cm_event_types = Some [''t'']\<rparr>"

definition example_changed_env :: json_env where
  "example_changed_env = \<lparr>jn_parse_uuid = read_decimal, jn_uuid_text = show_decimal\<rparr>"

definition example_changed_message :: message where
  "example_changed_message = example_message (changed_json show_decimal example_changed) 1"

lemma example_changed_codec: "uuid_texts example_changed_env show_decimal"
  using decimal_codec by (simp add: example_changed_env_def uuid_codec_def uuid_texts_def show_decimal_def pg_text_ok_ascii ascii_digits show_nat_digits)

lemma example_changed_ok: "message_ok example_changed"
  by (simp add: message_ok_def example_changed_def int64_def default_retry_policy_def pg_text_ok_ascii orelse_def)

lemma example_changed_parse:
  "mk_value example_changed_message = json_text (changed_json show_decimal example_changed)"
  by (simp add: example_changed_message_def example_message_def)

text \<open>The message of the example is received as it was written.\<close>

theorem endpoint_message_round_trip_witness:
  "decode_endpoint_changed example_changed_env example_changed_message = Inr (received example_changed)
   \<and> ec_secret (received example_changed) = Some example_sealed"
  using endpoint_message_round_trip [OF example_changed_codec example_changed_ok example_changed_parse]
  by (simp add: received_def example_changed_def)

lemma example_cipher_create:
  "service_create no_faults None example_endpoint_env example_cipher_service 3 example_create_request example_tenants
     = (Inr \<lparr>ep_row = example_sealed_row, ep_event_types = [''t'']\<rparr>,
        example_endpoint_db\<lparr>edb_endpoints := [example_sealed_row]\<rparr>)"
proof -
  have "encrypt_secret zero_nonce example_key ''s'' = Inr example_sealed"
    by (simp add: encrypt_secret_def zero_nonce_def nonce_size_def example_sealed_def)
  then show ?thesis
    by (simp add: service_create_def validate_tenant_def validate_create_def normalize_create_def
      example_create_request_def trim_space_letter check_def endpoint_name_def webhook_url_def
      example_cipher_service_def example_service_def contains_any_def check_secret_def timeout_def event_types_def
      is_alnum_def resolve_policy_def get_or_create_default_def example_tenants_def create_endpoint_def
      run_tx_no_fault insert_endpoint_def new_endpoint_row_def check_row_def name_taken_def
      example_endpoint_env_def scan_tx_def find_row_def types_of_def example_endpoint_db_def
      default_retry_policy_def example_endpoint_row_def example_sealed_row_def)
qed

definition example_sealed_delivery :: delivery where
  "example_sealed_delivery = example_delivery\<lparr>d_snapshot := example_snapshot\<lparr>es_secret := example_sealed\<rparr>\<rparr>"

definition example_cipher_env :: deliver_env where
  "example_cipher_env = example_deliver_env\<lparr>dv_decrypt := decrypt_secret example_key\<rparr>"

theorem secret_reaches_webhook_witness:
  "service_create no_faults None example_endpoint_env example_cipher_service 3 example_create_request example_tenants
     = (Inr \<lparr>ep_row = example_sealed_row, ep_event_types = [''t'']\<rparr>,
        example_endpoint_db\<lparr>edb_endpoints := [example_sealed_row]\<rparr>)
   \<and> sent_with no_faults example_cipher_env example_sealed_delivery ''s'' empty_delivery_db"
proof -
  have key: "new_from_hex (\<lambda>_. []) (hex_encode example_key) = Inr example_key"
    by (simp add: new_from_hex_def example_key_def)
  have sv: "sv_encrypt example_cipher_service = encrypt_secret zero_nonce example_key"
    by (simp add: example_cipher_service_def)
  have dec: "dv_decrypt example_cipher_env = decrypt_secret example_key"
    by (simp add: example_cipher_env_def)
  have rows: "distinct (map en_id (edb_endpoints example_tenants))" by (simp add: example_tenants_def)
  have req: "cr_secret example_create_request = ''s''" by (simp add: example_create_request_def)
  have "es_secret (d_snapshot example_sealed_delivery) = en_secret example_sealed_row"
    by (simp add: example_sealed_delivery_def example_sealed_row_def)
  then show ?thesis
    using secret_reaches_webhook [OF zero_nonce_ok key sv same_key_from_hex(1) [OF key] dec rows,
        where f = no_faults and fp = None and nenv = example_endpoint_env and tenant = 3
          and req = example_create_request and d = example_sealed_delivery and df = no_faults
          and ddb = empty_delivery_db]
    by (simp add: example_cipher_create req)
qed

end
