(* ===== verification/Startup.thy ===== *)
theory Startup
  imports Secrets Scheduler AuthHttp EndpointService EndpointOutbox
begin

text \<open>
  How the services start: what the \<open>main\<close> functions read from the environment, in which order,
  what stops them before they serve, and with which options they build their servers, Kafka
  clients, scheduler and relay (delivery-service, endpoint-service and event-service
  cmd/server/main.go, auth-service cmd/main.go, event-service internal/db/postgres.go). The
  outcomes of connecting to the database are arguments; what servers and goroutines then do, and
  shutdown, are not modelled.
\<close>

section \<open>The environment\<close>

text \<open>\<open>os.Getenv\<close>, with the empty text for a variable that is not set.\<close>

type_synonym environment = "string \<Rightarrow> string"

datatype stopped = Panicked string | Exited string

definition must_env :: "environment \<Rightarrow> string \<Rightarrow> stopped + string" where
  "must_env env k = (if env k = [] then Inl (Panicked (''missing environment variable: '' @ k)) else Inr (env k))"

definition env_string :: "environment \<Rightarrow> string \<Rightarrow> string \<Rightarrow> string" where
  "env_string env k fallback = (if env k \<noteq> [] then env k else fallback)"

definition split_env :: "environment \<Rightarrow> string \<Rightarrow> string \<Rightarrow> string list" where
  "split_env env k fallback = split_on CHR '','' (if env k = [] then fallback else env k)"

definition env_int :: "environment \<Rightarrow> string \<Rightarrow> int \<Rightarrow> int" where
  "env_int env k fallback =
     (if env k = [] then fallback else case atoi (env k) of None \<Rightarrow> fallback | Some n \<Rightarrow> n)"

text \<open>The fallible steps of a \<open>main\<close>: a failed one stops the program with its message.\<close>

definition or_exit :: "string \<Rightarrow> error option \<Rightarrow> (stopped + 'a) \<Rightarrow> stopped + 'a" where
  "or_exit msg e k = (case e of None \<Rightarrow> k | Some _ \<Rightarrow> Inl (Exited msg))"

definition after_env :: "(stopped + string) \<Rightarrow> (string \<Rightarrow> stopped + 'a) \<Rightarrow> stopped + 'a" where
  "after_env r k = (case r of Inl e \<Rightarrow> Inl e | Inr v \<Rightarrow> k v)"

lemma or_exit_Inr: "or_exit msg e k = Inr x \<longleftrightarrow> e = None \<and> k = Inr x"
  by (cases e) (auto simp: or_exit_def)

lemma after_env_Inr: "after_env r k = Inr x \<longleftrightarrow> (\<exists>v. r = Inr v \<and> k v = Inr x)"
  by (cases r) (auto simp: after_env_def)

record connection =
  cn_open :: "error option"
  cn_ping :: "error option"

section \<open>Servers and Kafka clients\<close>

record server_config =
  hs_addr :: string
  hs_read_header_timeout :: duration
  hs_read_timeout :: duration
  hs_write_timeout :: duration
  hs_idle_timeout :: duration

definition server_at :: "string \<Rightarrow> server_config" where
  "server_at addr = \<lparr>hs_addr = addr, hs_read_header_timeout = seconds 5, hs_read_timeout = seconds 10,
     hs_write_timeout = seconds 10, hs_idle_timeout = seconds 60\<rparr>"

record reader_config =
  kc_brokers :: "string list"
  kc_topic :: string
  kc_group :: string
  kc_min_bytes :: int
  kc_max_bytes :: int
  kc_max_wait :: duration
  kc_commit_interval :: duration  \<comment> \<open>0: a commit is written before \<open>CommitMessages\<close> returns\<close>

definition new_consumer :: "string list \<Rightarrow> string \<Rightarrow> string \<Rightarrow> reader_config" where
  "new_consumer brokers topic grp = \<lparr>kc_brokers = brokers, kc_topic = topic, kc_group = grp,
     kc_min_bytes = 1, kc_max_bytes = 10 * 2 ^ 20, kc_max_wait = milliseconds 250, kc_commit_interval = 0\<rparr>"

text \<open>The topic of a writer is empty where each message names its own; a timeout of 0 stands for the
  library's default.\<close>

record writer_config =
  wk_brokers :: "string list"
  wk_topic :: string
  wk_require_all :: bool
  wk_async :: bool
  wk_batch_timeout :: duration
  wk_write_timeout :: duration
  wk_read_timeout :: duration

definition new_event_publisher :: "string list \<Rightarrow> string \<Rightarrow> writer_config" where
  "new_event_publisher brokers topic = \<lparr>wk_brokers = brokers, wk_topic = topic, wk_require_all = True,
     wk_async = False, wk_batch_timeout = 0, wk_write_timeout = 0, wk_read_timeout = 0\<rparr>"

definition new_endpoint_publisher :: "string list \<Rightarrow> writer_config" where
  "new_endpoint_publisher brokers = \<lparr>wk_brokers = brokers, wk_topic = [], wk_require_all = True,
     wk_async = False, wk_batch_timeout = milliseconds 20, wk_write_timeout = seconds 10,
     wk_read_timeout = seconds 10\<rparr>"

section \<open>The delivery service\<close>

text \<open>\<open>time.Duration(n) * time.Second\<close> wraps around.\<close>

definition lease_from_seconds :: "int \<Rightarrow> duration" where
  "lease_from_seconds n = sint (word_of_int n * word_of_int 1000000000 :: 64 word)"

record delivery_start =
  dl_key :: bytes
  dl_event_url :: string
  dl_event_consumer :: reader_config
  dl_endpoint_consumer :: reader_config
  dl_scheduler :: sched_config
  dl_server :: server_config

definition start_delivery ::
    "(char \<Rightarrow> string) \<Rightarrow> int \<Rightarrow> connection \<Rightarrow> environment \<Rightarrow> stopped + delivery_start" where
  "start_delivery quote num_cpu cn env =
     after_env (must_env env ''DATABASE_URL'') (\<lambda>_.
       or_exit ''postgres init failed'' (cn_open cn)
         (or_exit ''postgres ping failed'' (cn_ping cn)
           (after_env (must_env env ''SECRET_ENCRYPTION_KEY_HEX'') (\<lambda>hex.
             case decryption_key quote hex of
               None \<Rightarrow> Inl (Exited ''invalid secret key'')
             | Some key \<Rightarrow>
                 after_env (must_env env ''EVENT_SERVICE_URL'') (\<lambda>url.
                   let brokers = split_env env ''KAFKA_BROKERS'' ''localhost:9092'' in
                   Inr \<lparr>dl_key = key, dl_event_url = url,
                        dl_event_consumer = new_consumer brokers ''hookyard.events'' ''delivery-service'',
                        dl_endpoint_consumer =
                          new_consumer brokers ''hookyard.endpoint-events'' ''delivery-service-endpoints'',
                        dl_scheduler = new_scheduler num_cpu (env_int env ''DELIVERY_CONCURRENCY'' 50)
                          (env_int env ''DELIVERY_BATCH_SIZE'' 50) (lease_from_seconds (env_int env ''DELIVERY_LEASE_SECONDS'' 30)),
                        dl_server = server_at (env_string env ''HTTP_ADDR'' '':8081'')\<rparr>)))))"

section \<open>The endpoint service\<close>

record endpoint_start =
  ns_key :: bytes
  ns_allow_http :: bool
  ns_endpoint_topic :: string
  ns_subscription_topic :: string
  ns_publisher :: writer_config
  ns_relay :: relay
  ns_server :: server_config

definition start_endpoint ::
    "(char \<Rightarrow> string) \<Rightarrow> connection \<Rightarrow> environment \<Rightarrow> stopped + endpoint_start" where
  "start_endpoint quote cn env =
     after_env (must_env env ''DATABASE_URL'') (\<lambda>_.
       or_exit ''database init failed'' (cn_open cn)
         (or_exit ''database ping failed'' (cn_ping cn)
           (after_env (must_env env ''SECRET_ENCRYPTION_KEY_HEX'') (\<lambda>hex.
             case new_from_hex quote hex of
               Inl e \<Rightarrow> Inl (Exited ''cipher init failed'')
             | Inr key \<Rightarrow>
                 Inr \<lparr>ns_key = key, ns_allow_http = (env ''ALLOW_HTTP_ENDPOINTS'' = ''true''),
                      ns_endpoint_topic = ''hookyard.endpoint-events'', ns_subscription_topic = ''hookyard.endpoint-events'',
                      ns_publisher = new_endpoint_publisher (split_on CHR '','' (env_string env ''KAFKA_BROKERS'' ''kafka:9092'')),
                      ns_relay = \<lparr>re_worker = ''endpoint-relay-1'', re_batch = 100, re_lease = seconds 30\<rparr>,
                      ns_server = server_at (env_string env ''HTTP_ADDR'' '':8080'')\<rparr>))))"

section \<open>The auth service\<close>

definition start_auth :: "connection \<Rightarrow> environment \<Rightarrow> stopped + auth_handler \<times> server_config" where
  "start_auth cn env =
     (if env ''DATABASE_URL'' = [] then Inl (Exited ''DATABASE_URL is required'')
      else if env ''AUTH_INTERNAL_TOKEN'' = [] then Inl (Exited ''AUTH_INTERNAL_TOKEN is required'')
      else or_exit ''database init failed'' (cn_open cn)
        (or_exit ''database ping failed'' (cn_ping cn)
          (Inr (\<lparr>ah_bootstrap = env ''AUTH_BOOTSTRAP_TOKEN'', ah_internal_token = env ''AUTH_INTERNAL_TOKEN''\<rparr>,
                server_at '':8082''))))"

section \<open>The event service\<close>

record pool_config =
  pc_max_conns :: int
  pc_min_conns :: int
  pc_max_lifetime_minutes :: int
  pc_max_idle_minutes :: int

definition new_postgres :: "error option \<Rightarrow> connection \<Rightarrow> pool_config result" where
  "new_postgres parse cn =
     (case parse of
        Some e \<Rightarrow> Inl (wrap ''parse postgres config: '' e)
      | None \<Rightarrow>
          guard (map_option (wrap ''create postgres pool: '') (cn_open cn))
            (guard (map_option (wrap ''ping postgres: '') (cn_ping cn))
              (Inr \<lparr>pc_max_conns = 20, pc_min_conns = 5, pc_max_lifetime_minutes = 30, pc_max_idle_minutes = 5\<rparr>)))"

definition start_event :: "(string \<Rightarrow> error option) \<Rightarrow> connection \<Rightarrow> environment \<Rightarrow> stopped + writer_config \<times> server_config" where
  "start_event parse cn env =
     (case new_postgres (parse (env ''DATABASE_URL'')) cn of
        Inl e \<Rightarrow> Inl (Exited ''database initialization failed'')
      | Inr _ \<Rightarrow> Inr (new_event_publisher [env ''KAFKA_BROKER''] ''hookyard.events'', server_at '':8080''))"

section \<open>What a started service relies on\<close>

text \<open>Two services that start with the same key text have the same key, as \<open>SecretPath\<close> needs.\<close>

lemma started_keys_agree:
  assumes "start_endpoint quote cn env = Inr ns" and "start_delivery quote num_cpu cn' env' = Inr dl"
    and "env ''SECRET_ENCRYPTION_KEY_HEX'' = env' ''SECRET_ENCRYPTION_KEY_HEX''"
  shows "ns_key ns = dl_key dl"
proof -
  have "new_from_hex quote (env ''SECRET_ENCRYPTION_KEY_HEX'') = Inr (ns_key ns)"
    using assms(1) by (auto simp: start_endpoint_def after_env_Inr or_exit_Inr must_env_def split: if_splits sum.splits)
  moreover have "decryption_key quote (env' ''SECRET_ENCRYPTION_KEY_HEX'') = Some (dl_key dl)"
    using assms(2) by (auto simp: start_delivery_def after_env_Inr or_exit_Inr must_env_def Let_def
        split: if_splits option.splits)
  ultimately show ?thesis using same_key_from_hex(1) assms(3) by fastforce
qed

text \<open>Whatever the environment says, a started scheduler has a slot and a batch.\<close>

lemma started_scheduler_has_slots:
  assumes "start_delivery quote num_cpu cn env = Inr dl" and "0 < num_cpu"
  shows "0 < sg_concurrency (dl_scheduler dl)" and "0 < sg_batch_size (dl_scheduler dl)"
    and "\<exists>n. tick_limit (dl_scheduler dl) 0 = Some n \<and> 0 < n"
proof -
  have "0 < sg_concurrency (new_scheduler num_cpu c b l) \<and> 0 < sg_batch_size (new_scheduler num_cpu c b l)" for c b l
    using assms(2) by (simp add: new_scheduler_def Let_def)
  then show c: "0 < sg_concurrency (dl_scheduler dl)" and b: "0 < sg_batch_size (dl_scheduler dl)"
    using assms(1) by (auto simp: start_delivery_def after_env_Inr or_exit_Inr must_env_def Let_def
        split: if_splits option.splits)
  show "\<exists>n. tick_limit (dl_scheduler dl) 0 = Some n \<and> 0 < n"
    using c b by (simp add: tick_limit_def Let_def)
qed

text \<open>A started auth service verifies keys for the configured internal token and no other, and
  serves no administration unless a bootstrap token is configured.\<close>

lemma started_auth_guards:
  assumes "start_auth cn env = Inr (h, srv)"
  shows "authorized h POST_verify rq \<longleftrightarrow> rq_internal_token rq = env ''AUTH_INTERNAL_TOKEN''"
    and "env ''AUTH_BOOTSTRAP_TOKEN'' = [] \<Longrightarrow> route \<noteq> GET_health \<Longrightarrow> route \<noteq> POST_verify \<Longrightarrow> \<not> authorized h route rq"
proof -
  have h: "h = \<lparr>ah_bootstrap = env ''AUTH_BOOTSTRAP_TOKEN'', ah_internal_token = env ''AUTH_INTERNAL_TOKEN''\<rparr>"
    and t: "env ''AUTH_INTERNAL_TOKEN'' \<noteq> []"
    using assms by (auto simp: start_auth_def or_exit_Inr split: if_splits)
  show "authorized h POST_verify rq \<longleftrightarrow> rq_internal_token rq = env ''AUTH_INTERNAL_TOKEN''"
    using t by (simp add: authorized_def h)
  show "env ''AUTH_BOOTSTRAP_TOKEN'' = [] \<Longrightarrow> route \<noteq> GET_health \<Longrightarrow> route \<noteq> POST_verify \<Longrightarrow> \<not> authorized h route rq"
    by (cases route) (simp_all add: authorized_def h)
qed

text \<open>The services meet on the same topics. The relay of the endpoint service would write the
  messages about subscriptions to the topic of the messages about endpoints.\<close>

lemma topics_meet:
  assumes "start_event parse cn env = Inr (w, srv)" and "start_endpoint quote cn' env' = Inr ns"
    and "start_delivery quote num_cpu cn'' env'' = Inr dl"
  shows "wk_topic w = kc_topic (dl_event_consumer dl)"
    and "ns_endpoint_topic ns = kc_topic (dl_endpoint_consumer dl)"
    and "ns_subscription_topic ns = ns_endpoint_topic ns"
    and "kc_group (dl_event_consumer dl) \<noteq> kc_group (dl_endpoint_consumer dl)"
  using assms by (auto simp: start_event_def start_endpoint_def start_delivery_def after_env_Inr or_exit_Inr
      new_event_publisher_def new_consumer_def Let_def split: sum.splits option.splits)

text \<open>Unless \<open>HTTP_ADDR\<close> is set, the event service and the endpoint service have the same address.\<close>

lemma event_and_endpoint_share_port:
  assumes "start_event parse cn env = Inr (w, srv)" and "start_endpoint quote cn' env' = Inr ns" and "env' ''HTTP_ADDR'' = []"
  shows "hs_addr srv = hs_addr (ns_server ns)"
  using assms by (auto simp: start_event_def start_endpoint_def after_env_Inr or_exit_Inr server_at_def env_string_def
      split: sum.splits)

end
