(* ===== verification/Lifecycle.thy ===== *)
theory Lifecycle
  imports Startup
begin

text \<open>
  How the services end: the \<open>main\<close> functions from the start of their servers to their return
  (cmd/server/main.go of delivery-service, endpoint-service and event-service, auth-service
  cmd/main.go). A process reacts to what happens to it: signals, a server that fails, requests
  that begin and end, database connections that are taken and given back, and its \<open>main\<close> getting
  on. \<open>main\<close> returns through its deferred calls: the one that closes the pool of database
  connections waits until every connection has been given back (so it is documented for
  \<open>pgxpool\<close>); the ones that close the Kafka consumers and the publisher are taken to return.
\<close>

section \<open>A process that serves\<close>

datatype server = Listening | Listen_Error error | Shut

text \<open>Where \<open>main\<close> is: at \<open><-ctx.Done()\<close>, in \<open>Shutdown\<close> with its deadline, in the deferred
  \<open>db.Close()\<close>, or at its end. A signal that nothing catches kills the process.\<close>

datatype main_at = At_Done | At_Shutdown time | At_Close | Returned | Killed

record process =
  pr_cancelled :: bool  \<comment> \<open>the context is done\<close>
  pr_notified :: bool  \<comment> \<open>signals end the context instead of the process\<close>
  pr_server :: server
  pr_at :: main_at
  pr_active :: nat  \<comment> \<open>requests under way\<close>
  pr_held :: nat  \<comment> \<open>connections of the pool that are taken\<close>
  pr_log :: "string list"

record main_texts =
  mt_started :: string
  mt_failed :: string
  mt_shutdown :: "string option"  \<comment> \<open>the error of \<open>Shutdown\<close> is looked at by the event service only\<close>

datatype happening =
    Signal
  | Serve_Error error  \<comment> \<open>\<open>ListenAndServe\<close> returns an error other than \<open>ErrServerClosed\<close>\<close>
  | Request_Begins
  | Request_Ends
  | Acquire  \<comment> \<open>a request or a background task takes a connection\<close>
  | Release
  | Main_Runs time

text \<open>\<open>Close\<close> gives out no more connections and waits for those that are taken.\<close>

definition close_pool :: "process \<Rightarrow> process" where
  "close_pool p = p\<lparr>pr_at := (if pr_held p = 0 then Returned else At_Close)\<rparr>"

fun react :: "main_texts \<Rightarrow> happening \<Rightarrow> process \<Rightarrow> process" where
  "react mt Signal p = (if pr_notified p then p\<lparr>pr_cancelled := True\<rparr> else p\<lparr>pr_at := Killed\<rparr>)"
| "react mt (Serve_Error e) p =
     (if pr_server p = Listening
      then p\<lparr>pr_server := Listen_Error e, pr_log := pr_log p @ [mt_failed mt], pr_cancelled := True, pr_notified := False\<rparr>
      else p)"
| "react mt Request_Begins p = (if pr_server p = Listening then p\<lparr>pr_active := pr_active p + 1\<rparr> else p)"
| "react mt Request_Ends p = p\<lparr>pr_active := pr_active p - 1\<rparr>"
| "react mt Acquire p = (if pr_at p = At_Close then p else p\<lparr>pr_held := pr_held p + 1\<rparr>)"
| "react mt Release p = p\<lparr>pr_held := pr_held p - 1\<rparr>"
| "react mt (Main_Runs now) p =
     (case pr_at p of
        At_Done \<Rightarrow>
          (if pr_cancelled p
           then p\<lparr>pr_at := At_Shutdown (now + seconds 10),
                  pr_server := (if pr_server p = Listening then Shut else pr_server p)\<rparr>
           else p)
      | At_Shutdown deadline \<Rightarrow>
          (if pr_active p = 0 then close_pool p
           else if deadline \<le> now
           then close_pool (p\<lparr>pr_log := pr_log p @ (case mt_shutdown mt of None \<Rightarrow> [] | Some m \<Rightarrow> [m])\<rparr>)
           else p)
      | At_Close \<Rightarrow> close_pool p
      | _ \<Rightarrow> p)"

definition ended :: "process \<Rightarrow> bool" where
  "ended p \<longleftrightarrow> pr_at p = Returned \<or> pr_at p = Killed"

definition react_alive :: "main_texts \<Rightarrow> process \<Rightarrow> happening \<Rightarrow> process" where
  "react_alive mt p h = (if ended p then p else react mt h p)"

definition run_main :: "main_texts \<Rightarrow> happening list \<Rightarrow> process \<Rightarrow> process" where
  "run_main mt hs p = foldl (react_alive mt) p hs"

definition serving :: "main_texts \<Rightarrow> process" where
  "serving mt = \<lparr>pr_cancelled = False, pr_notified = True, pr_server = Listening, pr_at = At_Done,
     pr_active = 0, pr_held = 0, pr_log = [mt_started mt]\<rparr>"

section \<open>The four services\<close>

datatype main_run = Early stopped | Ran process

definition run_service :: "main_texts \<Rightarrow> happening list \<Rightarrow> stopped + 'a \<Rightarrow> main_run" where
  "run_service mt hs st = (case st of Inl e \<Rightarrow> Early e | Inr _ \<Rightarrow> Ran (run_main mt hs (serving mt)))"

definition delivery_main ::
    "(char \<Rightarrow> string) \<Rightarrow> int \<Rightarrow> connection \<Rightarrow> environment \<Rightarrow> happening list \<Rightarrow> main_run" where
  "delivery_main quote num_cpu cn env hs =
     run_service \<lparr>mt_started = ''delivery service started'', mt_failed = ''http server failed'', mt_shutdown = None\<rparr> hs
       (start_delivery quote num_cpu cn env)"

definition endpoint_main ::
    "(char \<Rightarrow> string) \<Rightarrow> connection \<Rightarrow> environment \<Rightarrow> happening list \<Rightarrow> main_run" where
  "endpoint_main quote cn env hs =
     run_service \<lparr>mt_started = ''endpoint service started'', mt_failed = ''server failed'', mt_shutdown = None\<rparr> hs
       (start_endpoint quote cn env)"

definition event_main ::
    "(string \<Rightarrow> error option) \<Rightarrow> connection \<Rightarrow> environment \<Rightarrow> happening list \<Rightarrow> main_run" where
  "event_main parse cn env hs =
     run_service \<lparr>mt_started = ''event service started'', mt_failed = ''http server failed'',
         mt_shutdown = Some ''server shutdown failed''\<rparr> hs
       (start_event parse cn env)"

definition auth_main :: "connection \<Rightarrow> environment \<Rightarrow> happening list \<Rightarrow> main_run" where
  "auth_main cn env hs =
     run_service \<lparr>mt_started = ''auth service started'', mt_failed = ''server failed'', mt_shutdown = None\<rparr> hs
       (start_auth cn env)"

text \<open>The status of a process that ended by itself: a panic, \<open>os.Exit(1)\<close>, the return of \<open>main\<close>.\<close>

fun exit_status :: "main_run \<Rightarrow> int option" where
  "exit_status (Early (Panicked m)) = Some 2"
| "exit_status (Early (Exited m)) = Some 1"
| "exit_status (Ran p) = (if pr_at p = Returned then Some 0 else None)"

section \<open>Stopping\<close>

lemma react_alive_ended [simp]: "ended p \<Longrightarrow> react_alive mt p h = p"
  by (simp add: react_alive_def)

lemma run_main_simps [simp]:
  "run_main mt [] p = p"
  "run_main mt (h # hs) p = run_main mt hs (react_alive mt p h)"
  "run_main mt (hs @ hs') p = run_main mt hs' (run_main mt hs p)"
  by (simp_all add: run_main_def)

lemma run_main_ended [simp]: "ended p \<Longrightarrow> run_main mt hs p = p"
  by (induction hs) (simp_all add: react_alive_def)

text \<open>What holds of every process whose clock has not passed \<open>t\<close>.\<close>

definition process_ok :: "time \<Rightarrow> process \<Rightarrow> bool" where
  "process_ok t p \<longleftrightarrow>
     (pr_server p \<noteq> Listening \<or> pr_at p \<noteq> At_Done \<or> \<not> pr_notified p \<longrightarrow> pr_cancelled p \<or> pr_at p = Killed)
     \<and> (case pr_at p of At_Shutdown d \<Rightarrow> d \<le> t + seconds 10 | _ \<Rightarrow> True)"

fun not_after :: "time \<Rightarrow> happening \<Rightarrow> bool" where
  "not_after t (Main_Runs now) \<longleftrightarrow> now \<le> t"
| "not_after t _ \<longleftrightarrow> True"

lemma react_ok: "not_after t h \<Longrightarrow> process_ok t p \<Longrightarrow> process_ok t (react_alive mt p h)"
  by (cases h) (auto simp: react_alive_def process_ok_def close_pool_def split: main_at.splits)

lemma run_main_ok: "list_all (not_after t) hs \<Longrightarrow> process_ok t p \<Longrightarrow> process_ok t (run_main mt hs p)"
  by (induction hs arbitrary: p) (simp_all add: react_ok)

lemma serving_ok: "process_ok t (serving mt)"
  by (simp add: process_ok_def serving_def)

lemma cancelled_kept: "pr_cancelled p \<Longrightarrow> pr_cancelled (run_main mt hs p)"
proof (induction hs arbitrary: p)
  case (Cons h hs)
  have "pr_cancelled (react_alive mt p h)" using Cons.prems
    by (cases h) (auto simp: react_alive_def close_pool_def split: main_at.split)
  then show ?case using Cons.IH by simp
qed simp

lemma told_to_stop:
  assumes "process_ok t p" and "h = Signal \<or> (\<exists>e. h = Serve_Error e)"
  shows "pr_cancelled (react_alive mt p h) \<or> ended (react_alive mt p h)"
  using assms by (auto simp: react_alive_def process_ok_def ended_def split: if_splits)

text \<open>\<open>main\<close> in \<open>db.Close()\<close> with a connection that is taken.\<close>

definition waits_for_pool :: "process \<Rightarrow> bool" where
  "waits_for_pool p \<longleftrightarrow> pr_at p = At_Close \<and> 0 < pr_held p"

lemma in_close:
  assumes "pr_at p = At_Close"
  shows "pr_at (run_main mt hs p) = At_Close \<or> ended (run_main mt hs p)"
  using assms
proof (induction hs arbitrary: p)
  case (Cons h hs)
  have "pr_at (react_alive mt p h) = At_Close \<or> ended (react_alive mt p h)"
    using Cons.prems by (cases h) (auto simp: react_alive_def ended_def close_pool_def)
  then show ?case using Cons.IH by auto
qed simp

lemma run_in_close: "pr_at p = At_Close \<Longrightarrow> react_alive mt p (Main_Runs t) = close_pool p"
  by (simp add: react_alive_def ended_def)

lemma in_shutdown:
  assumes "pr_at p = At_Shutdown d \<or> pr_at p = At_Close" and "d \<le> t"
  shows "ended (run_main mt (hs @ [Main_Runs t]) p) \<or> waits_for_pool (run_main mt (hs @ [Main_Runs t]) p)"
  using assms(1)
proof (induction hs arbitrary: p)
  case Nil
  then show ?case
  proof
    assume "pr_at p = At_Shutdown d"
    then show ?thesis using assms(2)
      by (cases "pr_active p = 0"; cases "pr_held p = 0")
        (simp_all add: react_alive_def ended_def close_pool_def waits_for_pool_def)
  next
    assume "pr_at p = At_Close"
    then show ?thesis
      by (cases "pr_held p = 0") (simp_all add: react_alive_def ended_def close_pool_def waits_for_pool_def)
  qed
next
  case (Cons h hs)
  have "pr_at (react_alive mt p h) = At_Shutdown d \<or> pr_at (react_alive mt p h) = At_Close \<or> ended (react_alive mt p h)"
    using Cons.prems by (cases h) (auto simp: react_alive_def ended_def close_pool_def split: if_splits)
  then show ?case using Cons.IH by auto
qed

text \<open>A process that waits for the pool goes on when the last connection is back, and not before.\<close>

lemma pool_free_ends:
  assumes "ended p \<or> waits_for_pool p" and "pr_held (run_main mt hs p) = 0"
  shows "ended (run_main mt (hs @ [Main_Runs u]) p)"
proof (cases "ended (run_main mt hs p)")
  case False
  then have "pr_at p = At_Close" using assms(1) by (auto simp: waits_for_pool_def)
  then have "pr_at (run_main mt hs p) = At_Close" using in_close False by blast
  then show ?thesis using assms(2) by (simp add: run_in_close close_pool_def ended_def)
qed simp

lemma pool_taken_waits:
  assumes "waits_for_pool p" and "list_all (\<lambda>x. x \<noteq> Release \<and> x \<noteq> Signal) hs"
  shows "waits_for_pool (run_main mt hs p)"
  using assms
proof (induction hs arbitrary: p)
  case (Cons h hs)
  have "waits_for_pool (react_alive mt p h)"
    using Cons.prems by (cases h) (auto simp: react_alive_def ended_def close_pool_def waits_for_pool_def)
  then show ?case using Cons by simp
qed simp

text \<open>
  C34. A service ends when it is told to, if its database connections come back. Whatever happened
  before, after a signal or the failure of its server its \<open>main\<close> has ended or closes the pool at the
  latest when it runs ten seconds after the shutdown has begun, whether or not requests are still
  under way. From then on it ends as soon as it runs with every connection given back, and as long
  as a request or a task keeps one, only another signal can end it.
\<close>

theorem services_stop_in_time:
  assumes "h = Signal \<or> (\<exists>e. h = Serve_Error e)"
    and "list_all (not_after t) (hs @ hs1)" and "t + seconds 10 \<le> t'"
    and "q = run_main mt (hs @ h # hs1 @ Main_Runs t # hs2 @ [Main_Runs t']) (serving mt)"
  shows "(ended q \<or> pr_at q = At_Close \<and> 0 < pr_held q)
    \<and> (\<forall>hs3 u. pr_held (run_main mt hs3 q) = 0 \<longrightarrow> ended (run_main mt (hs3 @ [Main_Runs u]) q))
    \<and> (\<forall>hs3. pr_at q = At_Close \<and> list_all (\<lambda>x. x \<noteq> Release \<and> x \<noteq> Signal) hs3 \<longrightarrow> \<not> ended (run_main mt hs3 q))"
proof -
  let ?p = "react_alive mt (run_main mt hs (serving mt)) h"
  have before: "process_ok t (run_main mt hs (serving mt))"
    using assms(2) by (simp add: run_main_ok serving_ok)
  have "not_after t h" using assms(1) by auto
  then have ok: "process_ok t ?p" using before by (rule react_ok)
  have q: "q = run_main mt (hs2 @ [Main_Runs t']) (run_main mt (hs1 @ [Main_Runs t]) ?p)" by (simp add: assms(4))
  have main: "ended q \<or> waits_for_pool q"
  proof (cases "ended (run_main mt (hs1 @ [Main_Runs t]) ?p)")
    case False
    let ?q = "run_main mt hs1 ?p"
    have "\<not> ended ?p" using False by auto
    then have "pr_cancelled ?q" using told_to_stop [OF before assms(1), of mt] by (auto intro: cancelled_kept)
    moreover have "process_ok t ?q" using assms(2) ok by (simp add: run_main_ok)
    moreover have "\<not> ended (react_alive mt ?q (Main_Runs t))" using False by simp
    ultimately obtain d where
      "pr_at (react_alive mt ?q (Main_Runs t)) = At_Shutdown d \<or> pr_at (react_alive mt ?q (Main_Runs t)) = At_Close"
      "d \<le> t + seconds 10"
      by (cases "pr_at ?q") (auto simp: react_alive_def process_ok_def ended_def close_pool_def split: if_splits)
    from in_shutdown [OF this(1), of t' mt hs2] this(2) assms(3) show ?thesis unfolding q by auto
  qed (simp add: q)
  moreover have "\<not> ended (run_main mt hs3 q)"
    if "pr_at q = At_Close" "list_all (\<lambda>x. x \<noteq> Release \<and> x \<noteq> Signal) hs3" for hs3
  proof -
    have "waits_for_pool q" using main that(1) by (auto simp: ended_def)
    from pool_taken_waits [OF this that(2), of mt] show ?thesis by (auto simp: waits_for_pool_def ended_def)
  qed
  ultimately show ?thesis using pool_free_ends by (auto simp: waits_for_pool_def)
qed

theorem services_stop_in_time_witness:
  "exit_status (auth_main \<lparr>cn_open = None, cn_ping = None\<rparr> (\<lambda>_. ''x'')
     [Request_Begins, Signal, Request_Begins, Main_Runs 5, Main_Runs (5 + seconds 10)]) = Some 0
   \<and> exit_status (auth_main \<lparr>cn_open = None, cn_ping = None\<rparr> (\<lambda>_. ''x'')
     [Request_Begins, Acquire, Signal, Main_Runs 5, Main_Runs (5 + seconds 10), Main_Runs (5 + seconds 99)]) = None"
proof -
  define mt where "mt = \<lparr>mt_started = ''auth service started'', mt_failed = ''server failed'', mt_shutdown = None\<rparr>"
  let ?p = "run_main mt ([Request_Begins] @ Signal # [Request_Begins] @ Main_Runs 5 # [] @ [Main_Runs (5 + seconds 10)]) (serving mt)"
  let ?q = "run_main mt ([Request_Begins, Acquire] @ Signal # [] @ Main_Runs 5 # [] @ [Main_Runs (5 + seconds 10)]) (serving mt)"
  have "ended ?p \<or> pr_at ?p = At_Close \<and> 0 < pr_held ?p"
    by (rule conjunct1 [OF services_stop_in_time [OF _ _ _ HOL.refl]]) simp_all
  moreover have "pr_at ?p \<noteq> Killed" "pr_held ?p = 0"
    by (simp_all add: react_alive_def ended_def serving_def close_pool_def)
  ultimately have p: "pr_at ?p = Returned" by (simp add: ended_def)
  let ?late = "[Main_Runs (5 + seconds 99)]"
  have "pr_at ?q = At_Close \<and> list_all (\<lambda>x. x \<noteq> Release \<and> x \<noteq> Signal) ?late \<longrightarrow> \<not> ended (run_main mt ?late ?q)"
    by (rule spec [OF conjunct2 [OF conjunct2 [OF services_stop_in_time [OF _ _ _ HOL.refl]]]]) simp_all
  moreover have "pr_at ?q = At_Close"
    by (simp add: react_alive_def ended_def serving_def close_pool_def)
  ultimately have "\<not> ended (run_main mt [Main_Runs (5 + seconds 99)] ?q)" by simp
  then have "pr_at (run_main mt [Main_Runs (5 + seconds 99)] ?q) \<noteq> Returned" by (auto simp: ended_def)
  then show ?thesis using p by (simp add: auth_main_def run_service_def start_auth_def or_exit_def mt_def)
qed

text \<open>Nothing else ends it, and while it serves it is listening.\<close>

lemma serves_until_told:
  assumes "list_all (\<lambda>h. h \<noteq> Signal \<and> (\<forall>e. h \<noteq> Serve_Error e)) hs"
  shows "pr_at (run_main mt hs (serving mt)) = At_Done \<and> pr_server (run_main mt hs (serving mt)) = Listening"
proof -
  have "pr_at (run_main mt hs p) = At_Done \<and> pr_server (run_main mt hs p) = Listening"
    if "pr_at p = At_Done" "pr_server p = Listening" "\<not> pr_cancelled p" for p
    using assms that
  proof (induction hs arbitrary: p)
    case (Cons h hs)
    from Cons.prems have "pr_at (react_alive mt p h) = At_Done \<and> pr_server (react_alive mt p h) = Listening
        \<and> \<not> pr_cancelled (react_alive mt p h)"
      by (cases h) (auto simp: react_alive_def)
    then show ?case using Cons by simp
  qed simp
  then show ?thesis by (simp add: serving_def)
qed

text \<open>
  A service whose server fails, because its address is taken for instance, ends with the status of
  a success; a second failure to be told about, a signal while it shuts down, kills it.
\<close>

lemma failed_server_exits_zero:
  assumes "start_auth cn env = Inr cfg"
  shows "exit_status (auth_main cn env [Serve_Error e, Main_Runs t, Main_Runs t']) = Some 0"
    and "exit_status (auth_main cn env [Request_Begins, Serve_Error e, Main_Runs t, Signal]) = None"
  using assms by (simp_all add: auth_main_def run_service_def serving_def react_alive_def ended_def close_pool_def)

end
