(* ===== verification/Shutdown.thy ===== *)
theory Shutdown
  imports Scheduler
begin

text \<open>
  What the end of the delivery service means for its deliveries (delivery-service
  cmd/server/main.go and internal/scheduler/scheduler.go). The scheduler, its workers and the
  consumers hand the context that a signal ends to every call of the database. Requests have
  contexts of their own, so a replay that is under way is completed. \<open>main\<close> waits for the requests
  only, not for \<open>Scheduler.Run\<close>, which would wait for its workers: whatever they have under way is
  gone when \<open>main\<close> returns. A new process starts with the tables and nothing else.
\<close>

section \<open>Calls with a context that is done\<close>

text \<open>The calls of the three transactions that take the context, by their position.\<close>

fun claim_ctx :: "claim_call \<Rightarrow> nat option" where
  "claim_ctx CB_Begin = Some 0"
| "claim_ctx CB_Query = Some 1"
| "claim_ctx (CB_Lease i) = Some 2"
| "claim_ctx CB_Commit = Some 3"
| "claim_ctx c = None"

fun record_ctx :: "record_call \<Rightarrow> nat option" where
  "record_ctx RA_Begin = Some 0"
| "record_ctx RA_Insert = Some 1"
| "record_ctx RA_Transition = Some 2"
| "record_ctx RA_Commit = Some 3"

fun create_ctx :: "create_call \<Rightarrow> nat option" where
  "create_ctx CD_Begin = Some 0"
| "create_ctx (CD_Insert i) = Some 1"
| "create_ctx CD_Commit = Some 2"

text \<open>The context is done from the position \<open>k\<close> on: a call that takes it fails with its error.\<close>

definition cut_off :: "('c \<Rightarrow> nat option) \<Rightarrow> nat \<Rightarrow> 'c faults \<Rightarrow> 'c faults" where
  "cut_off ctx k f c =
     (case ctx c of
        None \<Rightarrow> f c
      | Some p \<Rightarrow> if k \<le> p then Some (Msg ''context canceled'') else f c)"

section \<open>After the context is done\<close>

text \<open>
  The ticker may still win against \<open>ctx.Done()\<close> in the \<open>select\<close>, and the loop over a claimed
  batch goes on. A transaction takes place at its commit: one that has committed before the
  context was done is a step before it, and of one that has not, some of the calls, at the
  latest the commit, come after it.
\<close>

inductive late_step ::
    "sched_config \<Rightarrow> string \<Rightarrow> event_endpoint_index \<Rightarrow> sched \<Rightarrow> sched \<Rightarrow> bool" for cfg host ix where
  tick: "sd_waiting s = [] \<Longrightarrow> tick_limit cfg (sd_sem s) = Some limit \<Longrightarrow> k \<le> 3 \<Longrightarrow>
    claim_batch (cut_off claim_ctx k f) locked now started (worker_id host) limit (sg_lease cfg) (sd_db s)
      = (res, db') \<Longrightarrow>
    late_step cfg host ix s
      (s\<lparr>sd_db := db', sd_waiting := (case res of Inl e \<Rightarrow> [] | Inr cs \<Rightarrow> cs)\<rparr>)"
| start: "sd_waiting s = d # ds \<Longrightarrow> int (sd_sem s) < sg_concurrency cfg \<Longrightarrow>
    late_step cfg host ix s
      (s\<lparr>sd_sem := sd_sem s + 1, sd_waiting := ds, sd_running := sd_running s @ [d]\<rparr>)"
| finish: "sd_running s = xs @ d # ys \<Longrightarrow> k \<le> 3 \<Longrightarrow>
    late_step cfg host ix s
      (s\<lparr>sd_db := snd (deliver (cut_off record_ctx k g) env d (sd_db s)), sd_sem := sd_sem s - 1,
         sd_running := xs @ ys\<rparr>)"
| accept: "k \<le> 2 \<Longrightarrow>
    late_step cfg host ix s
      (s\<lparr>sd_db := snd (handle_event_accepted (cut_off create_ctx k fc) ix now gen reader e (sd_db s))\<rparr>)"
| replay: "late_step cfg host ix s
    (s\<lparr>sd_db := snd (replay fg fi ix now new_id tenant did (sd_db s))\<rparr>)"

record sched_run =
  sr_sched :: sched
  sr_cancelled :: bool

abbreviation sr_db :: "sched_run \<Rightarrow> delivery_db" where
  "sr_db s \<equiv> sd_db (sr_sched s)"

abbreviation under_way :: "sched_run \<Rightarrow> delivery list" where
  "under_way s \<equiv> sd_running (sr_sched s) @ sd_waiting (sr_sched s)"

text \<open>\<open>exit\<close> is the return of \<open>main\<close>, or the end of the process by any other means, and the start
  of the next process.\<close>

inductive run_step ::
    "sched_config \<Rightarrow> string \<Rightarrow> event_endpoint_index \<Rightarrow> sched_run \<Rightarrow> sched_run \<Rightarrow> bool" for cfg host ix where
  live: "\<not> sr_cancelled s \<Longrightarrow> sched_step cfg host ix (sr_sched s) t \<Longrightarrow>
    run_step cfg host ix s (s\<lparr>sr_sched := t\<rparr>)"
| cancel: "run_step cfg host ix s (s\<lparr>sr_cancelled := True\<rparr>)"
| late: "sr_cancelled s \<Longrightarrow> late_step cfg host ix (sr_sched s) t \<Longrightarrow>
    run_step cfg host ix s (s\<lparr>sr_sched := t\<rparr>)"
| exit: "run_step cfg host ix s \<lparr>sr_sched = init_sched (sr_db s), sr_cancelled = False\<rparr>"

inductive run_reach ::
    "sched_config \<Rightarrow> string \<Rightarrow> event_endpoint_index \<Rightarrow> sched_run \<Rightarrow> bool" for cfg host ix where
  init: "run_reach cfg host ix \<lparr>sr_sched = init_sched empty_delivery_db, sr_cancelled = False\<rparr>"
| step: "run_reach cfg host ix s \<Longrightarrow> run_step cfg host ix s t \<Longrightarrow> run_reach cfg host ix t"

text \<open>What follows a state, over the ends and starts of processes.\<close>

inductive run_from ::
    "sched_config \<Rightarrow> string \<Rightarrow> event_endpoint_index \<Rightarrow> sched_run \<Rightarrow> sched_run \<Rightarrow> bool"
    for cfg host ix s where
  refl: "run_from cfg host ix s s"
| step: "run_from cfg host ix s t \<Longrightarrow> run_step cfg host ix t u \<Longrightarrow> run_from cfg host ix s u"

section \<open>Over all processes: the delivery system\<close>

text \<open>No transaction whose commit comes after the end of the context changes anything.\<close>

lemma cut_off_commit [simp]:
  "k \<le> 3 \<Longrightarrow> cut_off claim_ctx k f CB_Commit = Some (Msg ''context canceled'')"
  "k \<le> 3 \<Longrightarrow> cut_off record_ctx k g RA_Commit = Some (Msg ''context canceled'')"
  "k \<le> 2 \<Longrightarrow> cut_off create_ctx k h CD_Commit = Some (Msg ''context canceled'')"
  by (simp_all add: cut_off_def)

lemma claim_no_commit:
  "f CB_Commit = Some e \<Longrightarrow> \<exists>err. claim_batch f locked now started w limit lease db = (Inl err, db)"
  by (auto simp: claim_batch_def run_tx_def split: option.split sum.split)

lemma claim_cut_off:
  "k \<le> 3 \<Longrightarrow> \<exists>err. claim_batch (cut_off claim_ctx k f) locked now started w limit lease db = (Inl err, db)"
  by (rule claim_no_commit) (rule cut_off_commit)

lemma deliver_cut_off: "k \<le> 3 \<Longrightarrow> snd (deliver (cut_off record_ctx k g) env d db) = db"
  by (auto simp: deliver_def record_attempt_def run_tx_def Let_def split: option.split sum.split)

lemma accept_cut_off:
  "k \<le> 2 \<Longrightarrow> snd (handle_event_accepted (cut_off create_ctx k fc) ix now gen reader e db) = db"
  by (auto simp: handle_event_accepted_def create_deliveries_def run_tx_def split: option.split sum.split)

lemma late_step_sched: "late_step cfg host ix s t \<Longrightarrow> sched_step cfg host ix s t"
proof (induction rule: late_step.induct)
  case (tick s limit k f locked now started res db')
  from claim_cut_off [OF tick(3), of f locked now started "worker_id host" limit "sg_lease cfg" "sd_db s"] tick(4)
  obtain err where err: "res = Inl err" by auto
  have "s\<lparr>sd_db := db', sd_waiting := []\<rparr> = s\<lparr>sd_db := db'\<rparr>" using tick(1) by (cases s) simp
  then show ?case using sched_step.tick_failed [OF tick(1,2) tick(4) [unfolded err], of ix] by (simp add: err)
qed (rule sched_step.intros; assumption)+

lemma copies_lost: "dreach ix \<lparr>sys_db = db, sys_copies = xs @ cs\<rparr> \<Longrightarrow> dreach ix \<lparr>sys_db = db, sys_copies = xs\<rparr>"
proof (induction cs)
  case (Cons c cs)
  from dstep.crash [of "\<lparr>sys_db = db, sys_copies = xs @ c # cs\<rparr>" xs c cs ix] Cons.prems
  have "dreach ix \<lparr>sys_db = db, sys_copies = xs @ cs\<rparr>" by (auto intro: dreach.step)
  then show ?case by (rule Cons.IH)
qed simp

lemma copies_lost_front: "dreach ix \<lparr>sys_db = db, sys_copies = xs @ cs\<rparr> \<Longrightarrow> dreach ix \<lparr>sys_db = db, sys_copies = cs\<rparr>"
proof (induction xs)
  case (Cons x xs)
  from dstep.crash [of "\<lparr>sys_db = db, sys_copies = x # xs @ cs\<rparr>" "[]" x "xs @ cs" ix] Cons.prems
  have "dreach ix \<lparr>sys_db = db, sys_copies = xs @ cs\<rparr>" by (auto intro: dreach.step)
  then show ?case by (rule Cons.IH)
qed simp

lemma run_reach_dreach: "run_reach cfg host ix s \<Longrightarrow> dreach ix \<lparr>sys_db = sr_db s, sys_copies = under_way s\<rparr>"
proof (induction rule: run_reach.induct)
  case init
  then show ?case using dreach.init by (simp add: init_sched_def init_dsys_def)
next
  case (step s t)
  have ok: "dreach ix (sched_abs t')" if "sched_step cfg host ix (sr_sched s) t'" for t'
    using sched_step_refines [OF that] step.IH dreach.step by (auto simp: sched_abs_def)
  from step.hyps(2) show ?case
  proof (cases rule: run_step.cases)
    case (live t')
    then show ?thesis using ok [of t'] by (simp add: sched_abs_def)
  next
    case cancel
    then show ?thesis using step.IH by simp
  next
    case (late t')
    then show ?thesis using ok [OF late_step_sched, of t'] by (simp add: sched_abs_def)
  next
    case exit
    then show ?thesis using copies_lost [of ix _ "[]"] step.IH by (simp add: init_sched_def)
  qed
qed

lemma sched_reach_run: "sched_reach cfg host ix s \<Longrightarrow> run_reach cfg host ix \<lparr>sr_sched = s, sr_cancelled = False\<rparr>"
proof (induction rule: sched_reach.induct)
  case (step s t)
  from run_step.live [of "\<lparr>sr_sched = s, sr_cancelled = False\<rparr>" cfg host ix t] step
  show ?case by (auto intro: run_reach.step)
qed (rule run_reach.init)

section \<open>What a shutdown keeps\<close>

inductive winds_down ::
    "sched_config \<Rightarrow> string \<Rightarrow> event_endpoint_index \<Rightarrow> sched \<Rightarrow> sched \<Rightarrow> bool" for cfg host ix where
  refl: "winds_down cfg host ix s s"
| step: "winds_down cfg host ix s t \<Longrightarrow> late_step cfg host ix t u \<Longrightarrow> winds_down cfg host ix s u"

definition new_replays :: "delivery_db \<Rightarrow> delivery_db \<Rightarrow> bool" where
  "new_replays db db' \<longleftrightarrow> db_attempts db' = db_attempts db
     \<and> (\<exists>new. db_deliveries db' = db_deliveries db @ new
          \<and> list_all (\<lambda>d. d_status d = PENDING \<and> d_replay_of d \<noteq> None) new)"

lemma new_replays_refl [simp]: "new_replays db db"
  by (simp add: new_replays_def)

lemma new_replays_trans: "new_replays a b \<Longrightarrow> new_replays b c \<Longrightarrow> new_replays a c"
  by (auto simp: new_replays_def)

lemma replay_new_replays: "new_replays db (snd (replay f g ix now i tenant did db))"
  by (auto simp: new_replays_def replay_def create_replay_def guard_Inr insert_delivery_def add_delivery_def
      split: sum.split)

lemma late_step_db:
  "late_step cfg host ix s t \<Longrightarrow> sd_db t = sd_db s
     \<or> (\<exists>fg fi now new_id tenant did. sd_db t = snd (replay fg fi ix now new_id tenant did (sd_db s)))"
proof (induction rule: late_step.induct)
  case (tick s limit k f locked now started res db')
  from claim_cut_off [OF tick(3), of f locked now started "worker_id host" limit "sg_lease cfg" "sd_db s"] tick(4)
  have "db' = sd_db s" by auto
  then show ?case by simp
next
  case (replay s fg fi now new_id tenant did)
  then show ?case by (intro disjI2 exI) simp
qed (simp_all add: deliver_cut_off accept_cut_off)

lemma late_step_keeps: "late_step cfg host ix s t \<Longrightarrow> new_replays (sd_db s) (sd_db t)"
  using late_step_db replay_new_replays by fastforce

lemma winds_down_keeps: "winds_down cfg host ix s t \<Longrightarrow> new_replays (sd_db s) (sd_db t)"
  by (induction rule: winds_down.induct) (auto intro: new_replays_trans late_step_keeps)

lemma winds_down_run:
  "winds_down cfg host ix a t \<Longrightarrow> run_reach cfg host ix s \<Longrightarrow> sr_cancelled s \<Longrightarrow> a = sr_sched s
     \<Longrightarrow> run_reach cfg host ix (s\<lparr>sr_sched := t\<rparr>)"
proof (induction rule: winds_down.induct)
  case (step a t u)
  then show ?case using run_step.late [of "s\<lparr>sr_sched := t\<rparr>" cfg host ix u] by (auto intro: run_reach.step)
qed simp

section \<open>What a shutdown loses\<close>

text \<open>
  A copy that is under way when the context is done can be taken for one whose worker never
  comes back: no step after that needs it, and no claim gives its attempt number again.
\<close>

lemma dstep_ghost:
  "dstep ix s t \<Longrightarrow> dstep ix (s\<lparr>sys_copies := c # sys_copies s\<rparr>) (t\<lparr>sys_copies := c # sys_copies t\<rparr>)"
proof (induction rule: dstep.induct)
  case (accept s f now gen reader e)
  obtain db cs where s: "s = \<lparr>sys_db = db, sys_copies = cs\<rparr>" by (cases s)
  show ?case unfolding s using dstep.accept [of ix "\<lparr>sys_db = db, sys_copies = c # cs\<rparr>"] by simp
next
  case (claim f locked now started worker limit lease s cs db')
  then show ?case using dstep.claim [of f locked now started worker limit lease "s\<lparr>sys_copies := c # sys_copies s\<rparr>"]
    by simp
next
  case (work s xs d ys g env)
  then show ?case using dstep.work [of "s\<lparr>sys_copies := c # sys_copies s\<rparr>" "c # xs" d ys] by simp
next
  case (crash s xs d ys)
  then show ?case using dstep.crash [of "s\<lparr>sys_copies := c # sys_copies s\<rparr>" "c # xs" d ys] by simp
next
  case (replay s h e now new_id tenant did)
  obtain db cs where s: "s = \<lparr>sys_db = db, sys_copies = cs\<rparr>" by (cases s)
  show ?case unfolding s using dstep.replay [of ix "\<lparr>sys_db = db, sys_copies = c # cs\<rparr>"] by simp
qed

definition left_behind :: "event_endpoint_index \<Rightarrow> delivery \<Rightarrow> sched_run \<Rightarrow> bool" where
  "left_behind ix c t \<longleftrightarrow>
     (sr_cancelled t \<and> dreach ix \<lparr>sys_db = sr_db t, sys_copies = [c]\<rparr>)
     \<or> dreach ix \<lparr>sys_db = sr_db t, sys_copies = c # under_way t\<rparr>"

lemma left_behind_start:
  assumes "run_reach cfg host ix s" and "sr_cancelled s" and "c \<in> set (under_way s)"
  shows "left_behind ix c s"
proof -
  obtain xs ys where xs: "under_way s = xs @ c # ys" using assms(3) by (meson split_list)
  have "dreach ix \<lparr>sys_db = sr_db s, sys_copies = xs @ c # ys\<rparr>"
    using run_reach_dreach [OF assms(1)] by (simp only: xs)
  then have "dreach ix \<lparr>sys_db = sr_db s, sys_copies = [c] @ ys\<rparr>" using copies_lost_front by simp
  then have "dreach ix \<lparr>sys_db = sr_db s, sys_copies = [c]\<rparr>" by (rule copies_lost)
  then show ?thesis using assms(2) by (simp add: left_behind_def)
qed

lemma ghost_sched_step:
  assumes "sched_step cfg host ix s t" and "dreach ix \<lparr>sys_db = sd_db s, sys_copies = c # sd_running s @ sd_waiting s\<rparr>"
  shows "dreach ix \<lparr>sys_db = sd_db t, sys_copies = c # sd_running t @ sd_waiting t\<rparr>"
  using sched_step_refines [OF assms(1)]
proof
  assume "sched_abs t = sched_abs s"
  then show ?thesis using assms(2) by (simp add: sched_abs_def)
next
  assume "dstep ix (sched_abs s) (sched_abs t)"
  from dstep_ghost [OF this, of c] show ?thesis using assms(2) by (auto simp: sched_abs_def intro: dreach.step)
qed

lemma left_behind_step:
  assumes "run_step cfg host ix s t" and "left_behind ix c s"
  shows "left_behind ix c t"
  using assms(1)
proof (cases rule: run_step.cases)
  case (live t')
  then show ?thesis using ghost_sched_step [OF live(3)] assms(2) by (simp add: left_behind_def)
next
  case cancel
  then show ?thesis using assms(2) by (auto simp: left_behind_def)
next
  case (late t')
  show ?thesis
  proof (cases "dreach ix \<lparr>sys_db = sr_db s, sys_copies = [c]\<rparr>")
    case True
    have "dreach ix \<lparr>sys_db = sd_db t', sys_copies = [c]\<rparr>"
      using late_step_db [OF late(3)] True dstep.replay [of ix "\<lparr>sys_db = sr_db s, sys_copies = [c]\<rparr>"]
      by (auto intro: dreach.step)
    then show ?thesis using late by (simp add: left_behind_def)
  next
    case False
    then show ?thesis using ghost_sched_step [OF late_step_sched [OF late(3)]] assms(2) late(1)
      by (simp add: left_behind_def)
  qed
next
  case exit
  have "dreach ix \<lparr>sys_db = sr_db s, sys_copies = [c]\<rparr>"
    using assms(2) copies_lost [of ix _ "[c]"] by (auto simp: left_behind_def)
  then show ?thesis using exit by (simp add: left_behind_def init_sched_def)
qed

lemma left_behind_row:
  assumes "left_behind ix c t"
  shows "copy_key c \<notin> set (map attempt_key (db_attempts (sr_db t)))
    \<and> (\<exists>r\<in>set (db_deliveries (sr_db t)). d_id r = d_id c \<and> d_attempt_count c \<le> d_attempt_count r
         \<and> (d_status r = IN_PROGRESS \<longrightarrow>
              (\<exists>e. d_lease_expires_at r = Some e \<and> (\<forall>now. claimable now r \<longleftrightarrow> e < now))))"
proof -
  from assms obtain cs where "dreach ix \<lparr>sys_db = sr_db t, sys_copies = c # cs\<rparr>"
    by (auto simp: left_behind_def)
  then have inv: "worker_inv (c # cs) (sr_db t)" by (auto simp: dsys_inv_def dest: dreach_inv)
  have "token_ok (db_deliveries (sr_db t)) (copy_key c)"
    using inv by (simp add: worker_inv_def tokens_def)
  then obtain r where r: "r \<in> set (db_deliveries (sr_db t))" "d_id r = d_id c" "d_attempt_count c \<le> d_attempt_count r"
    unfolding token_ok_def copy_key_def fst_conv snd_conv by blast
  have "d_status r = IN_PROGRESS \<longrightarrow> (\<exists>e. d_lease_expires_at r = Some e \<and> (\<forall>now. claimable now r \<longleftrightarrow> e < now))"
    using worker_inv_ok [OF inv r(1)] by (auto simp: delivery_ok_def claimable_def)
  moreover have "copy_key c \<notin> set (map attempt_key (db_attempts (sr_db t)))"
    using inv by (simp add: worker_inv_def tokens_def)
  ultimately show ?thesis using r by blast
qed

text \<open>
  C17. A shutdown loses what is under way. Once the context is done, claiming, recording and accepting
  fail and change nothing: until the process ends only requests still add replays. Of a delivery
  that a worker holds then, the attempt counts, but the history never has it, neither before the
  process ends nor in any later process: no attempt with its number is ever recorded. If its row
  is in progress, it has a lease and is due again when that has run out. What the database holds
  is at every moment a state of the delivery system.
\<close>

theorem shutdown_loses_attempts:
  assumes "run_reach cfg host ix s" and "sr_cancelled s"
  shows "(\<forall>t. winds_down cfg host ix (sr_sched s) t \<longrightarrow>
       new_replays (sr_db s) (sd_db t) \<and> dreach ix \<lparr>sys_db = sd_db t, sys_copies = []\<rparr>)
    \<and> (\<forall>t c. run_from cfg host ix s t \<and> c \<in> set (under_way s) \<longrightarrow>
       copy_key c \<notin> set (map attempt_key (db_attempts (sr_db t)))
       \<and> (\<exists>r\<in>set (db_deliveries (sr_db t)). d_id r = d_id c \<and> d_attempt_count c \<le> d_attempt_count r
            \<and> (d_status r = IN_PROGRESS \<longrightarrow>
                 (\<exists>e. d_lease_expires_at r = Some e \<and> (\<forall>now. claimable now r \<longleftrightarrow> e < now)))))"
proof (intro conjI allI impI)
  fix t assume t: "winds_down cfg host ix (sr_sched s) t"
  show "new_replays (sr_db s) (sd_db t)" using t by (rule winds_down_keeps)
  show "dreach ix \<lparr>sys_db = sd_db t, sys_copies = []\<rparr>"
    using run_reach_dreach [OF winds_down_run [OF t assms HOL.refl]] copies_lost [of ix _ "[]"] by simp
next
  fix t c assume t: "run_from cfg host ix s t \<and> c \<in> set (under_way s)"
  then have "run_from cfg host ix s t" ..
  then have "left_behind ix c t"
    using left_behind_start [OF assms] t by induction (auto intro: left_behind_step)
  note row = left_behind_row [OF this]
  then show "copy_key c \<notin> set (map attempt_key (db_attempts (sr_db t)))" ..
  from row show "\<exists>r\<in>set (db_deliveries (sr_db t)). d_id r = d_id c \<and> d_attempt_count c \<le> d_attempt_count r
            \<and> (d_status r = IN_PROGRESS \<longrightarrow>
                 (\<exists>e. d_lease_expires_at r = Some e \<and> (\<forall>now. claimable now r \<longleftrightarrow> e < now)))" ..
qed

text \<open>The delivery that was claimed when the signal came: nothing tells that its attempt was made.\<close>

theorem shutdown_loses_attempts_witness:
  "copy_key (claimed_copy 5000 example_delivery) \<notin> set (map attempt_key (db_attempts example_claimed_db))
   \<and> dreach Total_Index \<lparr>sys_db = example_claimed_db, sys_copies = []\<rparr>"
proof -
  let ?s = "\<lparr>sr_sched = \<lparr>sd_db = example_claimed_db, sd_sem = 0, sd_waiting = [claimed_copy 5000 example_delivery],
      sd_running = []\<rparr>, sr_cancelled = False\<rparr>"
  have r: "run_reach example_config ''w1'' Total_Index (?s\<lparr>sr_cancelled := True\<rparr>)"
    by (rule run_reach.step [OF sched_reach_run [OF example_sched_reach] run_step.cancel])
  let ?next = "\<lparr>sr_sched = init_sched example_claimed_db, sr_cancelled = False\<rparr>"
  have "run_from example_config ''w1'' Total_Index (?s\<lparr>sr_cancelled := True\<rparr>) ?next"
    using run_from.step [OF run_from.refl run_step.exit, of example_config "''w1''" Total_Index "?s\<lparr>sr_cancelled := True\<rparr>"]
    by simp
  moreover have "winds_down example_config ''w1'' Total_Index (sr_sched (?s\<lparr>sr_cancelled := True\<rparr>)) (sr_sched ?s)"
    by (simp add: winds_down.refl)
  ultimately have "copy_key (claimed_copy 5000 example_delivery) \<notin> set (map attempt_key (db_attempts (sr_db ?next)))"
    "dreach Total_Index \<lparr>sys_db = sd_db (sr_sched ?s), sys_copies = []\<rparr>"
    using shutdown_loses_attempts [OF r] by fastforce+
  then show ?thesis by (simp add: init_sched_def)
qed

end
