(* ===== verification/Spec2Isabelle.thy ===== *)
theory Spec2Isabelle
  imports DeliveryLiveness Scheduler Intake RelayRun EventRaces EndpointRaces ApiAnswers Requests WebhookTransport
    SecretPath Lifecycle Shutdown
begin

text \<open>
  Hookyard is a webhook platform of four Go services that share no database. This library
  models the code of the services under src/ and proves what each of them promises, and where
  the code does not keep a promise, what happens instead.

  \<^bold>\<open>The program.\<close>
  The auth service (auth-service) keeps tenants and their API keys and verifies tokens. The
  endpoint service (endpoint-service) keeps the endpoints of a tenant, their subscriptions and
  retry policies; changes are meant to reach the other services through an outbox table and a
  relay that writes to Kafka. The event service (event-service) accepts events, once per
  idempotency key, and publishes them to Kafka from an outbox table. The delivery service
  (delivery-service) consumes both topics: it projects the endpoints into tables of its own and
  turns an event into one delivery per subscribed active endpoint; a scheduler claims the due
  deliveries, signs and sends them, and records each attempt, which schedules a retry or ends
  the delivery as delivered, failed or dead.

  \<^bold>\<open>Conventions.\<close>
  A table is a list of records, one per row, in the order of insertion. A transaction is a
  function from the tables to a result and new tables that gives the old tables back when it
  fails (\<open>run_tx\<close> of \<open>Prelude\<close>). Errors are values: Go's error chain is the datatype \<open>err\<close>,
  and a function that returns an error gives \<open>Inl\<close> of it. A call outside the process (a
  statement, a message, a request) has an argument that says whether and how it fails; a
  failing statement did not run, and a failing commit leaves the tables as they were. Clocks,
  random bytes and new UUIDs are arguments. Strings are lists of characters, one per byte.
  Integers are \<open>int\<close> where the schema and the checks keep them small, and 64 bit words in
  \<open>Backoff\<close>, where Go's arithmetic may wrap. Invariants are shown of every state that an inductive step
  relation reaches whose steps are the operations with any arguments and any failures.

  \<^bold>\<open>Shared theories.\<close>
  \<open>Prelude\<close>: names of types, errors, transactions, tables. \<open>GoStrings\<close>, \<open>Base64\<close>, \<open>GoTime\<close>,
  \<open>Json\<close>, \<open>JsonText\<close>, \<open>Float64\<close>: what the services use of Go's standard library, with round
  trips of the encodings and the exact rounding of \<open>float64\<close>; \<open>Sha256\<close> and \<open>AesGcm\<close> are the
  hash, the message authentication and the cipher themselves. \<open>Paging\<close>: keyset pages as the
  locale \<open>paged_list\<close>, in which following the cursors gives the whole list; interpreted for
  deliveries, attempts and endpoints. \<open>Http\<close>: requests and answers.

  \<^bold>\<open>Delivery service.\<close>
  \<open>Backoff\<close>: internal/retry/backoff.go and the relay's delay; \<open>NextDelay\<close> equals the capped
  delay in exact arithmetic without jitter, and with it lies within two milliseconds of the delay
  with the exact random part.
  \<open>Webhook\<close>: internal/attempt and internal/webhook; the outcome of a request on every branch and
  what the signature covers. \<open>WebhookTransport\<close>: what the client of \<open>NewClient\<close> makes of slow
  answers and redirects.
  \<open>DeliveryRepo\<close>, \<open>DeliveryInv\<close>: internal/delivery/model.go and the writing operations of
  repository.go, the invariant of the tables and its preservation by each operation.
  \<open>DeliveryService\<close>: internal/delivery/service.go over the interface \<open>EndpointReader\<close>, which is
  the locale \<open>endpoint_reader\<close>. \<open>DeliveryOutcome\<close>, \<open>DeliveryLifecycle\<close>: what single operations
  achieve. \<open>DeliverySystem\<close>: all operations in any order, with the copies that workers hold.
  \<open>DeliveryLiveness\<close>: runs of \<open>DeliverySystem\<close> in which one delivery fails every time, while the
  system does anything else; they end in the dead letter queue. \<open>DeliveryQueries\<close>,
  \<open>DeliveryQueryProps\<close>: the lists with their cursors. \<open>Projection\<close>: internal/endpoint, which
  interprets \<open>endpoint_reader\<close> and refines the maps from endpoints to their last and to their newest
  message; what an accepted event gets under each index.
  \<open>Scheduler\<close>: internal/scheduler, a refinement of \<open>DeliverySystem\<close>. \<open>Shutdown\<close>: the scheduler
  over several processes, with every call of the database failing from the moment on at which its
  context is done, and what a shutdown loses. \<open>Intake\<close>: internal/kafka and
  internal/eventClient.

  \<^bold>\<open>Event service.\<close>
  \<open>EventStore\<close>: internal/event with the locale \<open>event_repository\<close> for its interface.
  \<open>EventOutbox\<close>: internal/outbox. \<open>EventSystem\<close>: requests and outbox batches in any order.
  \<open>EventRaces\<close>: the transactions of \<open>CreateEvent\<close> in steps, interleaved; they refine \<open>EventSystem\<close>.

  \<^bold>\<open>Endpoint service.\<close>
  \<open>Validation\<close>: internal/validation. \<open>EndpointRepo\<close>, \<open>EndpointInv\<close>: internal/endpoint/repository.go
  and internal/retrypolicy with the invariant of the tables. \<open>EndpointService\<close>, \<open>EndpointProps\<close>:
  service.go, the service as a system of undivided operations and what holds of it.
  \<open>EndpointRaces\<close>: \<open>Patch\<close> and \<open>Delete\<close> divided into reading and writing, as they run without row
  locks; the invariant of the tables and the order of the versions when operations overlap and when
  they do not, and which updates are lost. \<open>EndpointQueries\<close>: the list. \<open>EndpointOutbox\<close>,
  \<open>EndpointRelay\<close>, \<open>RelayRun\<close>: internal/outbox and internal/kafka, with the locale
  \<open>message_publisher\<close>, several relays at work on one table, and the loop of one.
  \<open>EndpointMessages\<close>: internal/endpoint/events.go and how the delivery service reads it.

  \<^bold>\<open>Auth service.\<close>
  \<open>AuthRepo\<close>, \<open>AuthService\<close>, \<open>AuthProps\<close>: internal/model, internal/repository, internal/service
  and their properties over every reachable state.

  \<^bold>\<open>Across components.\<close>
  \<open>AuthHttp\<close>, \<open>DeliveryHttp\<close>, \<open>EventHttp\<close>, \<open>EndpointHttp\<close>: the handlers and routes of each
  service, with the status of every branch. \<open>Requests\<close>: from the bytes of a request to what its
  handler gets. \<open>ApiAnswers\<close>: status and body of every answer, and that errors change nothing.
  \<open>Secrets\<close>, \<open>SecretPath\<close>: the ciphers and the two ends of a secret's way, the row of an endpoint that
  is created or patched and the signature of a webhook; what should join them, the endpoint
  messages, no code writes. \<open>Startup\<close>, \<open>Lifecycle\<close>: what the main functions read and build before they
  serve, and how they end, up to the deferred \<open>db.Close()\<close> that waits for connections.

  \<^bold>\<open>Bounds and fuel.\<close>
  Loops over rows are recursions over the rows. A walk along cursors takes as fuel the number of
  rows plus one, which the properties on pages show to be enough. The parser of JSON takes twice
  the length of the text, and lemma \<open>parse_fuel_enough\<close> shows that more makes no difference. The
  run of a failing delivery is bounded by its attempts, a chain of redirects by ten requests. The
  outbox of the event service empties in one batch per hundred messages. Nothing else is bounded.

  \<^bold>\<open>Not modelled.\<close>
  Logging but for what the mains say, the workings of HTTP servers and connection pools, kafka-go,
  pgx and PostgreSQL beyond the statements of the code; a commit whose outcome is unknown; JSONB
  normalisation outside \<open>EventStore\<close>; the texts of UUIDs and of non-UTC times; deadlines of
  requests to the services (the calls that they make fail appear among the failing calls); fused
  multiply-add, which Go may use on some machines for \<open>float64\<close>; the CLI, whose files are empty.
\<close>

end
